(* ===== verification/Vvv_Prelude.thy ===== *)
theory Vvv_Prelude
  imports Complex_Main "HOL-Library.Word"
begin

section \<open>Shared vocabulary of the development\<close>

text \<open>
  The types every component uses (Python text, bytes, exceptions, results of a call that
  may raise), the collections of facts the component theories extend, generic lemmas on
  lists and maps, and the interface of an invariant over a transition system.

  A Python \<open>str\<close> is a list of code points, a \<open>bytes\<close> object a list of 8-bit words. A call
  that may raise is a value of \<open>exn + 'a\<close>: \<open>Inl e\<close> is the exception \<open>e\<close>, \<open>Inr v\<close> the
  returned value.
\<close>

subsection \<open>Collections of facts\<close>

named_theorems frame_simps \<open>which fields an operation leaves alone\<close>
named_theorems step_facts \<open>one-step preservation facts\<close>

subsection \<open>Text and bytes\<close>

type_synonym str = "nat list"
type_synonym byte = "8 word"
type_synonym bytes = "byte list"

definition lit :: "string \<Rightarrow> str" where
  "lit s = map of_char s"

definition blit :: "string \<Rightarrow> bytes" where
  "blit s = map of_char s"

lemma inj_of_char_nat: "inj (of_char :: char \<Rightarrow> nat)"
  by (rule injI) (simp add: of_char_eq_iff)

lemma lit_inject [simp]: "lit s = lit t \<longleftrightarrow> s = t"
  by (simp add: lit_def inj_map_eq_map inj_of_char_nat)

lemma length_lit [simp]: "length (lit s) = length s"
  by (simp add: lit_def)

lemma lit_append: "lit (s @ t) = lit s @ lit t"
  by (simp add: lit_def)

lemma lit_Nil_iff [simp]: "lit s = [] \<longleftrightarrow> s = []" and "[] = lit s \<longleftrightarrow> s = []"
  by (simp_all add: lit_def)

lemma length_blit [simp]: "length (blit s) = length s"
  by (simp add: blit_def)

subsection \<open>Exceptions and results\<close>

text \<open>
  The exception classes the code raises or catches. \<open>ValueError\<close> stands for the class and its
  subclasses (decoding errors among them). \<open>FileNotFoundError\<close>, \<open>FileExistsError\<close>,
  \<open>ProcessLookupError\<close>, \<open>TimeoutError\<close> and \<open>SSLError\<close> are the subclasses of \<open>OSError\<close> the
  code tells apart; \<open>OSErrorOther\<close> is any other \<open>OSError\<close>. \<open>OtherError\<close> is any further
  subclass of \<open>Exception\<close>, with its class name and its text. \<open>CancelledError\<close> is asyncio's, a
  \<open>BaseException\<close> and no \<open>Exception\<close>.
\<close>

datatype exn =
    HTTPException int str
  | ValueError str
  | RuntimeError str
  | KeyError str
  | IndexError str
  | TypeError str
  | FileNotFoundError
  | FileExistsError
  | ProcessLookupError
  | TimeoutError
  | SSLError str
  | OSErrorOther
  | MultiPartException str
  | QueueFull
  | OtherError str str
  | CancelledError

fun is_os_error :: "exn \<Rightarrow> bool" where
  "is_os_error FileNotFoundError = True"
| "is_os_error FileExistsError = True"
| "is_os_error ProcessLookupError = True"
| "is_os_error TimeoutError = True"
| "is_os_error (SSLError _) = True"
| "is_os_error OSErrorOther = True"
| "is_os_error _ = False"

fun is_exception :: "exn \<Rightarrow> bool" where
  "is_exception CancelledError = False"
| "is_exception _ = True"

type_synonym 'a res = "exn + 'a"

text \<open>\<open>raises_only P r\<close>: if the call raised, the exception satisfies \<open>P\<close>.\<close>

definition raises_only :: "(exn \<Rightarrow> bool) \<Rightarrow> 'a res \<Rightarrow> bool" where
  "raises_only P r \<longleftrightarrow> (case r of Inl e \<Rightarrow> P e | Inr _ \<Rightarrow> True)"

definition is_value_error :: "exn \<Rightarrow> bool" where
  "is_value_error e \<longleftrightarrow> (case e of ValueError _ \<Rightarrow> True | _ \<Rightarrow> False)"

definition is_http_error :: "exn \<Rightarrow> bool" where
  "is_http_error e \<longleftrightarrow> (case e of HTTPException _ _ \<Rightarrow> True | _ \<Rightarrow> False)"

lemma is_error_simps [simp]: "is_value_error (ValueError m)" "is_http_error (HTTPException n m)"
  by (simp_all add: is_value_error_def is_http_error_def)

lemma raises_onlyD: "raises_only P r \<Longrightarrow> r = Inl e \<Longrightarrow> P e"
  by (simp add: raises_only_def)

lemma raises_only_simps [simp]: "raises_only P (Inr x)" "raises_only P (Inl e) = P e"
  by (simp_all add: raises_only_def)

lemma raises_only_if: "raises_only P r \<Longrightarrow> raises_only P s \<Longrightarrow> raises_only P (if c then r else s)"
  by simp

text \<open>A call whose result the next statement uses.\<close>

definition bind_res :: "'a res \<Rightarrow> ('a \<Rightarrow> 'b res) \<Rightarrow> 'b res" where
  "bind_res r f = (case r of Inl e \<Rightarrow> Inl e | Inr x \<Rightarrow> f x)"

lemma bind_res_simps [simp]: "bind_res (Inr x) f = f x" "bind_res (Inl e) f = Inl e"
  by (simp_all add: bind_res_def)

lemma bind_res_cong [fundef_cong]: "r = s \<Longrightarrow> (\<And>x. s = Inr x \<Longrightarrow> f x = g x) \<Longrightarrow> bind_res r f = bind_res s g"
  by (cases s) auto

lemma bind_res_eq_Inr: "bind_res r f = Inr y \<longleftrightarrow> (\<exists>x. r = Inr x \<and> f x = Inr y)"
  by (cases r) auto

lemma bind_res_eq_Inl: "bind_res r f = Inl e \<longleftrightarrow> r = Inl e \<or> (\<exists>x. r = Inr x \<and> f x = Inl e)"
  by (cases r) auto

lemma raises_only_bind:
  "raises_only P r \<Longrightarrow> (\<And>x. r = Inr x \<Longrightarrow> raises_only P (f x)) \<Longrightarrow> raises_only P (bind_res r f)"
  by (cases r) auto

definition require :: "bool \<Rightarrow> exn \<Rightarrow> unit res" where
  "require ok e = (if ok then Inr () else Inl e)"

lemma require_eq [simp]: "require ok e = Inr u \<longleftrightarrow> ok" "require ok e = Inl e' \<longleftrightarrow> \<not> ok \<and> e' = e"
  by (auto simp: require_def)

subsection \<open>Lists and partial functions\<close>

lemma ex_list_cases: "(\<exists>xs. P xs) \<longleftrightarrow> P [] \<or> (\<exists>x xs. P (x # xs))"
  by (metis list.exhaust)

lemma map_filter_append [simp]:
  "List.map_filter f (xs @ ys) = List.map_filter f xs @ List.map_filter f ys"
  by (simp add: List.map_filter_def)

lemma map_filter_simps' [simp]:
  "List.map_filter f [] = []"
  "List.map_filter f (x # xs) =
     (case f x of None \<Rightarrow> List.map_filter f xs | Some y \<Rightarrow> y # List.map_filter f xs)"
  by (auto simp: List.map_filter_def split: option.splits)

lemma in_set_map_filter: "y \<in> set (List.map_filter f xs) \<longleftrightarrow> (\<exists>x \<in> set xs. f x = Some y)"
  by (induction xs) (auto split: option.splits)

lemma map_filter_cong_set:
  "(\<And>x. x \<in> set xs \<Longrightarrow> f x = g x) \<Longrightarrow> List.map_filter f xs = List.map_filter g xs"
  by (induction xs) (auto split: option.splits)

lemma filter_fun_upd_notin:
  "i \<notin> set xs \<Longrightarrow> filter (\<lambda>x. P ((f(i := y)) x)) xs = filter (\<lambda>x. P (f x)) xs"
  by (rule filter_cong) auto

lemma filter_eq_remove1:
  assumes "distinct xs" and "\<And>x. x \<in> set xs \<Longrightarrow> Q x \<longleftrightarrow> P x \<and> x \<noteq> i"
  shows "filter Q xs = remove1 i (filter P xs)"
  using assms by (simp add: distinct_remove1_removeAll flip: filter_remove1)
    (metis (mono_tags, lifting) distinct_remove1_removeAll filter_cong filter_filter
      removeAll_filter_not_eq)

lemma count_list_distinct: "distinct xs \<Longrightarrow> x \<in> set xs \<Longrightarrow> count_list xs x = 1"
  by (induction xs) auto

subsection \<open>Transition systems and their invariants\<close>

inductive reach :: "('s \<Rightarrow> bool) \<Rightarrow> ('s \<Rightarrow> 's \<Rightarrow> bool) \<Rightarrow> 's \<Rightarrow> bool"
  for ini :: "'s \<Rightarrow> bool" and nxt :: "'s \<Rightarrow> 's \<Rightarrow> bool" where
  reach_init: "ini s \<Longrightarrow> reach ini nxt s"
| reach_step: "reach ini nxt s \<Longrightarrow> nxt s t \<Longrightarrow> reach ini nxt t"

text \<open>
  The interface between a component's step relation and what is proved of its runs: the
  component promises that its initial states satisfy the invariant and that every step
  keeps it; everything about reachable states follows once and for all.
\<close>

locale invariant_system =
  fixes ini :: "'s \<Rightarrow> bool"
    and nxt :: "'s \<Rightarrow> 's \<Rightarrow> bool"
    and inv :: "'s \<Rightarrow> bool"
  assumes inv_init: "ini s \<Longrightarrow> inv s"
    and inv_step: "inv s \<Longrightarrow> nxt s t \<Longrightarrow> inv t"
begin

lemma reach_inv: "reach ini nxt s \<Longrightarrow> inv s"
  by (induction rule: reach.induct) (auto intro: inv_init inv_step)

lemma steps_inv: "nxt\<^sup>*\<^sup>* s t \<Longrightarrow> inv s \<Longrightarrow> inv t"
  by (induction rule: rtranclp_induct) (auto intro: inv_step)

end

lemma reach_rtranclp: "reach ini nxt s \<Longrightarrow> nxt\<^sup>*\<^sup>* s t \<Longrightarrow> reach ini nxt t"
  by (rotate_tac, induction rule: rtranclp_induct) (auto intro: reach_step)

end
