(* ===== verification/Server_Models.thy ===== *)
theory Server_Models
  imports Vvv_Prelude
begin

section \<open>Data models (\<open>server/models.py\<close>)\<close>

text \<open>
  The enumerations and the response bodies, field by field. Durations are rational numbers
  where the code has binary64 floats. \<open>job_status\<close> is made a linear order along the life
  cycle of a job, so that progress of a job is an inequality.
\<close>

datatype job_status =
  UPLOADING | QUEUED | PROCESSING | STREAMING | COMPLETED | FAILED | CANCELLED

primrec status_value :: "job_status \<Rightarrow> str" where
  "status_value UPLOADING = lit ''uploading''"
| "status_value QUEUED = lit ''queued''"
| "status_value PROCESSING = lit ''processing''"
| "status_value STREAMING = lit ''streaming''"
| "status_value COMPLETED = lit ''completed''"
| "status_value FAILED = lit ''failed''"
| "status_value CANCELLED = lit ''cancelled''"

lemma status_value_inject: "status_value s = status_value t \<longleftrightarrow> s = t"
  by (cases s; cases t) simp_all

record queue_position_event =
  qpe_job_id :: str
  qpe_position :: int
  qpe_estimated_wait_seconds :: rat

record transcription_chunk_event =
  tce_text :: str

record error_event =
  ee_error :: str

record job_info =
  ji_job_id :: str
  ji_status :: job_status
  ji_position :: "int option"
  ji_estimated_wait_seconds :: "rat option"

record queue_status_response =
  your_jobs :: "job_info list"
  total_queued :: int

subsection \<open>The life cycle as a linear order\<close>

primrec status_rank :: "job_status \<Rightarrow> nat" where
  "status_rank UPLOADING = 0"
| "status_rank QUEUED = 1"
| "status_rank PROCESSING = 2"
| "status_rank STREAMING = 3"
| "status_rank COMPLETED = 4"
| "status_rank FAILED = 5"
| "status_rank CANCELLED = 6"

lemma status_rank_inject: "status_rank s = status_rank t \<longleftrightarrow> s = t"
  by (cases s; cases t) simp_all

instantiation job_status :: linorder
begin

definition less_eq_job_status :: "job_status \<Rightarrow> job_status \<Rightarrow> bool" where
  "less_eq_job_status s t \<longleftrightarrow> status_rank s \<le> status_rank t"

definition less_job_status :: "job_status \<Rightarrow> job_status \<Rightarrow> bool" where
  "less_job_status s t \<longleftrightarrow> status_rank s < status_rank t"

instance
  by standard (auto simp: less_eq_job_status_def less_job_status_def status_rank_inject)

end

lemmas status_order = less_eq_job_status_def less_job_status_def

subsection \<open>Groups of statuses the queue tests for\<close>

definition terminal_status :: "job_status \<Rightarrow> bool" where
  "terminal_status s \<longleftrightarrow> s = COMPLETED \<or> s = FAILED \<or> s = CANCELLED"

definition active_status :: "job_status \<Rightarrow> bool" where
  "active_status s \<longleftrightarrow> s = UPLOADING \<or> s = QUEUED \<or> s = PROCESSING \<or> s = STREAMING"

lemma active_not_terminal: "active_status s \<longleftrightarrow> \<not> terminal_status s"
  by (cases s) (simp_all add: active_status_def terminal_status_def)

lemma terminal_status_simps [simp]:
  "terminal_status COMPLETED" "terminal_status FAILED" "terminal_status CANCELLED"
  "\<not> terminal_status UPLOADING" "\<not> terminal_status QUEUED"
  "\<not> terminal_status PROCESSING" "\<not> terminal_status STREAMING"
  by (simp_all add: terminal_status_def)

lemma active_status_simps [simp]:
  "\<not> active_status COMPLETED" "\<not> active_status FAILED" "\<not> active_status CANCELLED"
  "active_status UPLOADING" "active_status QUEUED"
  "active_status PROCESSING" "active_status STREAMING"
  by (simp_all add: active_status_def)

end
