(* ===== verification/File_Store.thy ===== *)
theory File_Store
  imports Vvv_Prelude "HOL-Library.AList"
begin

section \<open>The file system the server and its scripts act on\<close>

text \<open>
  A path is the list of its components (an absolute POSIX path, resolved); the root is
  \<open>[]\<close>. Nodes carry their permission bits. \<open>locked\<close> holds the paths the operating system
  refuses to change (so that an \<open>OSError\<close> other than the ones the code tells apart can
  occur), \<open>space\<close> the free bytes of the temporary storage. Each operation is the system
  call the source makes, with its errors.
\<close>

type_synonym path = "str list"

datatype node = RegFile int bytes | Directory int | Symlink path | Socket int

record fs =
  nodes :: "(path \<times> node) list"
  locked :: "path list"
  space :: nat

definition node_at :: "fs \<Rightarrow> path \<Rightarrow> node option" where
  "node_at d p = map_of (nodes d) p"

definition is_dir :: "fs \<Rightarrow> path \<Rightarrow> bool" where
  "is_dir d p \<longleftrightarrow> p = [] \<or> (case node_at d p of Some (Directory _) \<Rightarrow> True | _ \<Rightarrow> False)"

definition path_name :: "path \<Rightarrow> str" where
  "path_name p = (if p = [] then [] else last p)"

definition path_parent :: "path \<Rightarrow> path" where
  "path_parent p = butlast p"

definition file_size :: "fs \<Rightarrow> path \<Rightarrow> nat" where
  "file_size d p = (case node_at d p of Some (RegFile _ b) \<Rightarrow> length b | _ \<Rightarrow> 0)"

definition drop_node :: "path \<Rightarrow> fs \<Rightarrow> fs" where
  "drop_node p d = d\<lparr>nodes := AList.delete p (nodes d), space := space d + file_size d p\<rparr>"

text \<open>\<open>os.unlink\<close>, \<open>Path.rmdir\<close>.\<close>

definition unlink :: "path \<Rightarrow> fs \<Rightarrow> exn option \<times> fs" where
  "unlink p d =
     (if p \<in> set (locked d) \<or> is_dir d p then (Some OSErrorOther, d)
      else if node_at d p = None then (Some FileNotFoundError, d)
      else (None, drop_node p d))"

definition has_children :: "fs \<Rightarrow> path \<Rightarrow> bool" where
  "has_children d p \<longleftrightarrow> list_ex (\<lambda>(q, _). q \<noteq> [] \<and> butlast q = p) (nodes d)"

definition rmdir :: "path \<Rightarrow> fs \<Rightarrow> exn option \<times> fs" where
  "rmdir p d =
     (if p \<in> set (locked d) \<or> p = [] then (Some OSErrorOther, d)
      else case node_at d p of
        None \<Rightarrow> (Some FileNotFoundError, d)
      | Some (Directory _) \<Rightarrow>
          if has_children d p then (Some OSErrorOther, d) else (None, drop_node p d)
      | Some _ \<Rightarrow> (Some OSErrorOther, d))"

text \<open>\<open>os.mkdir\<close> (as \<open>tempfile.mkdtemp\<close> calls it, mode 0700), \<open>os.open\<close> with
  \<open>O_WRONLY | O_CREAT | O_EXCL\<close>, and a write through the descriptor.\<close>

definition mkdir :: "int \<Rightarrow> path \<Rightarrow> fs \<Rightarrow> exn option \<times> fs" where
  "mkdir mode p d =
     (if p = [] \<or> node_at d p \<noteq> None then (Some FileExistsError, d)
      else if \<not> is_dir d (path_parent p) then (Some FileNotFoundError, d)
      else if path_parent p \<in> set (locked d) then (Some OSErrorOther, d)
      else (None, d\<lparr>nodes := AList.update p (Directory mode) (nodes d)\<rparr>))"

definition open_excl :: "int \<Rightarrow> path \<Rightarrow> fs \<Rightarrow> exn option \<times> fs" where
  "open_excl mode p d =
     (if p = [] \<or> node_at d p \<noteq> None then (Some FileExistsError, d)
      else if \<not> is_dir d (path_parent p) then (Some FileNotFoundError, d)
      else if path_parent p \<in> set (locked d) then (Some OSErrorOther, d)
      else (None, d\<lparr>nodes := AList.update p (RegFile mode []) (nodes d)\<rparr>))"

definition append_file :: "path \<Rightarrow> bytes \<Rightarrow> fs \<Rightarrow> exn option \<times> fs" where
  "append_file p b d =
     (case node_at d p of
        Some (RegFile m old) \<Rightarrow>
          if space d < length b then (Some OSErrorOther, d)
          else (None, d\<lparr>nodes := AList.update p (RegFile m (old @ b)) (nodes d),
                        space := space d - length b\<rparr>)
      | _ \<Rightarrow> (Some OSErrorOther, d))"

text \<open>\<open>shutil.rmtree(p, ignore_errors=True)\<close>: everything at or below \<open>p\<close> goes, but for what
  the system refuses to remove and the directories above it.\<close>

definition at_or_below :: "path \<Rightarrow> path \<Rightarrow> bool" where
  "at_or_below p q \<longleftrightarrow> take (length p) q = p"

definition survives_rmtree :: "fs \<Rightarrow> path \<Rightarrow> path \<Rightarrow> bool" where
  "survives_rmtree d p q \<longleftrightarrow> \<not> at_or_below p q \<or> list_ex (at_or_below q) (locked d)"

definition rmtree :: "path \<Rightarrow> fs \<Rightarrow> fs" where
  "rmtree p d =
     d\<lparr>nodes := filter (\<lambda>(q, _). survives_rmtree d p q) (nodes d),
       space := space d + sum_list (map (\<lambda>(q, n). case n of RegFile _ b \<Rightarrow>
                   if survives_rmtree d p q then 0 else length b | _ \<Rightarrow> 0) (nodes d))\<rparr>"

subsection \<open>Lemmas\<close>

lemma node_at_drop_node [simp]:
  "node_at (drop_node p d) q = (if q = p then None else node_at d q)"
  by (simp add: node_at_def drop_node_def AList.delete_conv)

lemma locked_drop_node [simp]: "locked (drop_node p d) = locked d"
  by (simp add: drop_node_def)

lemma is_dir_drop_node:
  "is_dir (drop_node p d) q \<longleftrightarrow> q = [] \<or> q \<noteq> p \<and> is_dir d q"
  by (auto simp: is_dir_def)

lemma unlink_result:
  "unlink p d = (None, d') \<Longrightarrow> node_at d' p = None \<and> (\<forall>q. q \<noteq> p \<longrightarrow> node_at d' q = node_at d q)"
  by (auto simp: unlink_def split: if_splits)

lemma unlink_missing:
  "unlink p d = (Some FileNotFoundError, d') \<Longrightarrow> d' = d \<and> node_at d p = None"
  by (auto simp: unlink_def split: if_splits)

lemma rmdir_locked [simp]: "locked (snd (rmdir p d)) = locked d"
  by (auto simp: rmdir_def split: option.splits node.splits)

lemma unlink_locked [simp]: "locked (snd (unlink p d)) = locked d"
  by (auto simp: unlink_def)

lemma rmdir_node_at:
  "node_at (snd (rmdir p d)) q = node_at d q \<or> q = p \<and> node_at (snd (rmdir p d)) q = None"
  by (auto simp: rmdir_def split: option.splits node.splits)

lemma rmdir_keeps_files:
  "node_at (snd (rmdir p d)) q = Some (RegFile m b) \<longleftrightarrow> node_at d q = Some (RegFile m b)"
  by (auto simp: rmdir_def split: option.splits node.splits)

lemma node_at_mkdir:
  "mkdir m p d = (None, d') \<Longrightarrow> node_at d' = (node_at d)(p \<mapsto> Directory m)"
  by (auto simp: mkdir_def node_at_def AList.update_conv' split: if_splits)

lemma node_at_open_excl:
  "open_excl m p d = (None, d') \<Longrightarrow> node_at d' = (node_at d)(p \<mapsto> RegFile m [])"
  by (auto simp: open_excl_def node_at_def AList.update_conv' split: if_splits)

lemma node_at_append_file:
  assumes "append_file p b d = (None, d')"
  shows "\<exists>m old. node_at d p = Some (RegFile m old) \<and>
           node_at d' = (node_at d)(p \<mapsto> RegFile m (old @ b))"
  using assms
  by (auto simp: append_file_def node_at_def AList.update_conv' split: option.splits node.splits
      if_splits)

lemma append_file_space:
  "append_file p b d = (None, d') \<Longrightarrow> space d' + length b = space d"
  by (auto simp: append_file_def split: option.splits node.splits if_splits)

lemma map_of_filter_keys:
  "map_of (filter (\<lambda>(q, _). P q) xs) q = (if P q then map_of xs q else None)"
  by (induction xs) auto

lemma node_at_rmtree:
  "node_at (rmtree p d) q = (if survives_rmtree d p q then node_at d q else None)"
  by (simp add: node_at_def rmtree_def map_of_filter_keys)

end
