(* ===== verification/Py_Text.thy ===== *)
theory Py_Text
  imports Vvv_Prelude
begin

section \<open>Python text: what the source uses of \<open>str\<close>, \<open>re\<close> and \<open>pathlib\<close>\<close>

text \<open>
  Code points are natural numbers. \<open>py_strip\<close> uses the exact \<open>str.isspace\<close> set;
  \<open>py_lower\<close> is exact on code points below 256, the range HTTP header values are decoded
  into (Latin-1); \<open>posix_suffix\<close> is \<open>PurePosixPath.suffix\<close> of Python 3.11 to 3.13.
\<close>

subsection \<open>Case, white space, prefixes\<close>

definition py_space :: "nat \<Rightarrow> bool" where
  "py_space c \<longleftrightarrow> 9 \<le> c \<and> c \<le> 13 \<or> 28 \<le> c \<and> c \<le> 32 \<or> c = 133 \<or> c = 160 \<or> c = 5760
     \<or> 8192 \<le> c \<and> c \<le> 8202 \<or> c = 8232 \<or> c = 8233 \<or> c = 8239 \<or> c = 8287 \<or> c = 12288"

definition py_strip :: "str \<Rightarrow> str" where
  "py_strip s = rev (dropWhile py_space (rev (dropWhile py_space s)))"

definition lower_char :: "nat \<Rightarrow> nat" where
  "lower_char c =
     (if 65 \<le> c \<and> c \<le> 90 \<or> 192 \<le> c \<and> c \<le> 222 \<and> c \<noteq> 215 then c + 32 else c)"

definition py_lower :: "str \<Rightarrow> str" where
  "py_lower s = map lower_char s"

definition py_startswith :: "str \<Rightarrow> str \<Rightarrow> bool" where
  "py_startswith s p \<longleftrightarrow> take (length p) s = p"

text \<open>\<open>s.split(sep, 1)[0]\<close> for a one-character separator.\<close>

definition split_first :: "nat \<Rightarrow> str \<Rightarrow> str" where
  "split_first c s = takeWhile (\<lambda>x. x \<noteq> c) s"

lemma py_startswith_iff: "py_startswith s p \<longleftrightarrow> (\<exists>t. s = p @ t)"
  unfolding py_startswith_def by (metis append_eq_conv_conj append_take_drop_id)

lemma py_startswith_append [simp]: "py_startswith (p @ t) p"
  by (simp add: py_startswith_def)

lemma py_strip_no_space:
  "s \<noteq> [] \<Longrightarrow> \<not> py_space (hd s) \<Longrightarrow> \<not> py_space (last s) \<Longrightarrow> py_strip s = s"
proof -
  assume s: "s \<noteq> []" "\<not> py_space (hd s)" "\<not> py_space (last s)"
  have "dropWhile py_space s = s"
    using s(1,2) by (cases s) auto
  moreover have "dropWhile py_space (rev s) = rev s"
    using s(1,3) by (cases s rule: rev_cases) auto
  ultimately show ?thesis by (simp add: py_strip_def)
qed

lemma py_lower_idem: "py_lower (py_lower s) = py_lower s"
  by (auto simp: py_lower_def lower_char_def)

subsection \<open>Splitting on a separator, path suffixes\<close>

fun split_on :: "nat \<Rightarrow> str \<Rightarrow> str list" where
  "split_on c [] = [[]]"
| "split_on c (x # xs) =
     (if x = c then [] # split_on c xs
      else (case split_on c xs of [] \<Rightarrow> [[x]] | y # ys \<Rightarrow> (x # y) # ys))"

lemma split_on_nonempty [simp]: "split_on c s \<noteq> []"
  by (induction s) (auto split: list.splits)

lemma split_on_no_sep: "c \<notin> set s \<Longrightarrow> split_on c s = [s]"
  by (induction s) auto

text \<open>
  \<open>PurePosixPath(p).parts\<close> without the root: the components between slashes, empty ones
  and \<open>.\<close> dropped. \<open>name\<close> is the last of them (the empty string if there is none).
\<close>

definition posix_parts :: "str \<Rightarrow> str list" where
  "posix_parts p = filter (\<lambda>x. x \<noteq> [] \<and> x \<noteq> lit ''.'') (split_on 47 p)"

definition posix_name :: "str \<Rightarrow> str" where
  "posix_name p = (case rev (posix_parts p) of [] \<Rightarrow> [] | n # _ \<Rightarrow> n)"

text \<open>\<open>s.rfind('.')\<close> as the characters after the last dot, if there is a dot.\<close>

definition after_last_dot :: "str \<Rightarrow> str option" where
  "after_last_dot s = (if 46 \<in> set s then Some (rev (takeWhile (\<lambda>x. x \<noteq> 46) (rev s))) else None)"

definition name_suffix :: "str \<Rightarrow> str" where
  "name_suffix n =
     (case after_last_dot n of
        None \<Rightarrow> []
      | Some ext \<Rightarrow>
          (let i = length n - length ext - 1
           in if 0 < i \<and> i < length n - 1 then drop i n else []))"

definition posix_suffix :: "str \<Rightarrow> str" where
  "posix_suffix p = name_suffix (posix_name p)"

lemma name_suffix_of_ext:
  assumes "stem \<noteq> []" and "ext \<noteq> []" and "46 \<notin> set ext"
  shows "name_suffix (stem @ 46 # ext) = 46 # ext"
proof -
  have "takeWhile (\<lambda>x. x \<noteq> 46) (rev (stem @ 46 # ext)) = rev ext"
    using assms(3) by (simp add: takeWhile_append)
  then show ?thesis
    using assms(1,2) by (simp add: name_suffix_def after_last_dot_def Let_def)
qed

lemma name_suffix_split:
  assumes "name_suffix n = s" and "s \<noteq> []"
  shows "\<exists>stem. stem \<noteq> [] \<and> n = stem @ s"
proof -
  obtain ext where ext: "after_last_dot n = Some ext"
    using assms by (auto simp: name_suffix_def split: option.splits)
  let ?i = "length n - length ext - 1"
  have "0 < ?i \<and> ?i < length n - 1 \<and> s = drop ?i n"
    using assms ext by (simp add: name_suffix_def Let_def split: if_splits)
  then obtain i where "0 < i" and "i < length n - 1" and "s = drop i n" by blast
  then have "take i n \<noteq> []" and "n = take i n @ s" by auto
  then show ?thesis by blast
qed

subsection \<open>Regular expressions of the source\<close>

text \<open>\<open>^[a-f0-9]{64}$\<close> with \<open>fullmatch\<close>.\<close>

definition hex_lower :: "nat \<Rightarrow> bool" where
  "hex_lower c \<longleftrightarrow> 97 \<le> c \<and> c \<le> 102 \<or> 48 \<le> c \<and> c \<le> 57"

text \<open>
  \<open><\|[^>\r\n]{1,128}\|>\<close>, matched at one position after the opening \<open><|\<close>: between 1 and
  128 characters other than \<open>>\<close>, CR and LF, then \<open>|>\<close>. The counter is the number of
  characters the class may still take; \<open>seen\<close> says that it took at least one.
\<close>

fun token_tail :: "nat \<Rightarrow> bool \<Rightarrow> str \<Rightarrow> bool" where
  "token_tail n seen [] = False"
| "token_tail n seen (c # cs) =
     (seen \<and> c = 124 \<and> (case cs of [] \<Rightarrow> False | d # _ \<Rightarrow> d = 62)
      \<or> (0 < n \<and> c \<noteq> 62 \<and> c \<noteq> 13 \<and> c \<noteq> 10 \<and> token_tail (n - 1) True cs))"

fun control_token_search :: "str \<Rightarrow> bool" where
  "control_token_search [] = False"
| "control_token_search (c # cs) =
     (c = 60 \<and> (case cs of [] \<Rightarrow> False | d # ds \<Rightarrow> d = 124 \<and> token_tail 128 False ds)
      \<or> control_token_search cs)"

definition token_body :: "nat \<Rightarrow> str \<Rightarrow> bool" where
  "token_body n m \<longleftrightarrow> length m \<le> n \<and> (\<forall>c \<in> set m. c \<noteq> 62 \<and> c \<noteq> 13 \<and> c \<noteq> 10)"

lemma token_tail_iff:
  "token_tail n seen s \<longleftrightarrow>
     (\<exists>m b. s = m @ 124 # 62 # b \<and> token_body n m \<and> (seen \<or> m \<noteq> []))"
proof (induction n seen s rule: token_tail.induct)
  case (1 n seen)
  then show ?case by simp
next
  case (2 n seen c cs)
  let ?R = "\<lambda>n seen s. \<exists>m b. s = m @ 124 # 62 # b \<and> token_body n m \<and> (seen \<or> m \<noteq> [])"
  have split: "?R n seen (c # cs) \<longleftrightarrow>
     seen \<and> (\<exists>b. c # cs = 124 # 62 # b)
     \<or> (\<exists>m b. cs = m @ 124 # 62 # b \<and> token_body n (c # m))"
    by (subst ex_list_cases) (auto simp: token_body_def)
  have "(\<exists>m b. cs = m @ 124 # 62 # b \<and> token_body n (c # m)) \<longleftrightarrow>
        0 < n \<and> c \<noteq> 62 \<and> c \<noteq> 13 \<and> c \<noteq> 10 \<and> ?R (n - 1) True cs"
    by (cases n) (auto simp: token_body_def)
  with split 2 show ?case
    by (auto split: list.splits)
qed

text \<open>The search finds exactly the strings that contain a reserved control token.\<close>

lemma control_token_search_iff:
  "control_token_search s \<longleftrightarrow>
     (\<exists>a m b. s = a @ lit ''<|'' @ m @ lit ''|>'' @ b \<and> token_body 128 m \<and> m \<noteq> [])"
proof -
  have lits: "lit ''<|'' = [60, 124]" "lit ''|>'' = [124, 62]"
    by (simp_all add: lit_def)
  have "control_token_search s \<longleftrightarrow>
     (\<exists>a m b. s = a @ 60 # 124 # m @ 124 # 62 # b \<and> token_body 128 m \<and> m \<noteq> [])"
  proof (induction s)
    case Nil
    then show ?case by simp
  next
    case (Cons c cs)
    have "(\<exists>a m b. c # cs = a @ 60 # 124 # m @ 124 # 62 # b \<and> token_body 128 m \<and> m \<noteq> []) \<longleftrightarrow>
       (\<exists>m b. c # cs = 60 # 124 # m @ 124 # 62 # b \<and> token_body 128 m \<and> m \<noteq> [])
       \<or> (\<exists>a m b. cs = a @ 60 # 124 # m @ 124 # 62 # b \<and> token_body 128 m \<and> m \<noteq> [])"
      by (subst ex_list_cases) auto
    then show ?case
      using Cons by (auto simp: token_tail_iff split: list.splits)
  qed
  then show ?thesis by (simp add: lits)
qed

subsection \<open>Decimal numerals and ASCII bytes\<close>

text \<open>\<open>str(n)\<close> for an integer, \<open>s.encode()\<close> for ASCII text, \<open>b.lower()\<close> (ASCII letters only).\<close>

fun show_nat :: "nat \<Rightarrow> str" where
  "show_nat n = (if n < 10 then [48 + n] else show_nat (n div 10) @ [48 + n mod 10])"

declare show_nat.simps [simp del]

definition show_int :: "int \<Rightarrow> str" where
  "show_int n = (if n < 0 then 45 # show_nat (nat (- n)) else show_nat (nat n))"

definition ascii_bytes :: "str \<Rightarrow> bytes" where
  "ascii_bytes s = map of_nat s"

definition bytes_lower :: "bytes \<Rightarrow> bytes" where
  "bytes_lower b = map (\<lambda>c. if 65 \<le> uint c \<and> uint c \<le> 90 then c + 32 else c) b"

lemma show_nat_digits: "c \<in> set (show_nat n) \<Longrightarrow> 48 \<le> c \<and> c \<le> 57"
proof (induction n rule: show_nat.induct)
  case (1 n)
  then show ?case by (subst (asm) (2) show_nat.simps) (auto split: if_splits)
qed

lemma show_nat_nonempty [simp]: "show_nat n \<noteq> []"
  by (subst show_nat.simps) simp

end
