(* ===== verification/Job_Queue.thy ===== *)
theory Job_Queue
  imports Server_Models File_Store Py_Text
begin

section \<open>The transcription queue (\<open>server/queue.py\<close>)\<close>

text \<open>
  \<open>TranscriptionJob\<close> objects are shared by the route handler, the worker and the queue's
  dictionary, and outlive their dictionary entry (the worker and the event stream keep
  their reference after the clean-up task popped it). The model therefore keeps the objects
  in a store, addressed by the job id (fresh per job: \<open>uuid4\<close>), and the \<open>OrderedDict\<close> as the
  list of its keys in insertion order. asyncio runs one callback at a time: an operation
  below is the code between two suspension points, and changes the whole state at once.

  \<open>process_task\<close> is the asyncio task of the processing function: \<open>Running\<close> (created, not
  finished), \<open>Cancelling\<close> (its \<open>cancel\<close> was called, it has not finished) or \<open>Done\<close> with how
  it ended. A raised exception is its text and its class name.
\<close>

subsection \<open>State\<close>

datatype task_result = Returned | Raised str str | TaskCancelled

datatype task = Running | Cancelling | Done task_result

record job =
  job_id :: str
  client_identity :: str
  audio_path :: "path option"
  audio_mime :: str
  hotwords :: "str option"
  audio_duration_seconds :: rat
  status :: job_status
  chunk_queue :: "str option list"
  error_message :: "str option"
  created_at :: rat
  cancel_requested :: bool
  process_task :: "task option"
  terminal_notified :: bool
  cleanup_scheduled :: bool

text \<open>The dataclass defaults: what \<open>TranscriptionJob(client_identity=ident)\<close> builds.\<close>

definition new_job :: "str \<Rightarrow> str \<Rightarrow> rat \<Rightarrow> job" where
  "new_job jid ident now =
     \<lparr>job_id = jid, client_identity = ident, audio_path = None,
      audio_mime = lit ''application/octet-stream'', hotwords = None,
      audio_duration_seconds = 0, status = UPLOADING, chunk_queue = [],
      error_message = None, created_at = now, cancel_requested = False,
      process_task = None, terminal_notified = False, cleanup_scheduled = False\<rparr>"

text \<open>
  The worker coroutine: waiting in \<open>_pending.get()\<close>, awaiting the process task of a job
  (with the time it started, and whether asyncio will raise \<open>CancelledError\<close> in it when it
  resumes), or over (\<open>None\<close> for a cancelled worker, an exception for one that died).
\<close>

datatype worker = WaitPending | Awaiting str rat bool | WorkerOver "exn option"

record tqueue =
  max_size :: int
  pending :: "str list"
  store :: "str \<rightharpoonup> job"
  jobs :: "str list"
  processing_times :: "rat list"
  worker_task :: "worker option"
  has_process_fn :: bool
  cleanup_tasks :: "str list"
  disk :: fs

definition max_history :: nat where
  "max_history = 20"

definition upload_dir_prefix :: str where
  "upload_dir_prefix = lit ''vvv-upload-''"

definition upload_file_name :: str where
  "upload_file_name = lit ''audio.audio''"

text \<open>\<open>TranscriptionQueue.__init__\<close>, \<open>set_process_fn\<close> and \<open>start_worker\<close>.\<close>

definition make_queue :: "int \<Rightarrow> fs \<Rightarrow> tqueue res" where
  "make_queue n d =
     (if n < 1 then Inl (ValueError (lit ''max_size must be >= 1''))
      else Inr \<lparr>max_size = n, pending = [], store = Map.empty, jobs = [],
                processing_times = [], worker_task = None, has_process_fn = False,
                cleanup_tasks = [], disk = d\<rparr>)"

definition set_process_fn :: "tqueue \<Rightarrow> tqueue" where
  "set_process_fn q = q\<lparr>has_process_fn := True\<rparr>"

definition start_worker :: "tqueue \<Rightarrow> tqueue" where
  "start_worker q = q\<lparr>worker_task := Some WaitPending\<rparr>"

subsection \<open>Objects and the dictionary\<close>

definition upd_job :: "str \<Rightarrow> (job \<Rightarrow> job) \<Rightarrow> tqueue \<Rightarrow> tqueue" where
  "upd_job i f q = q\<lparr>store := (store q)(i := map_option f (store q i))\<rparr>"

definition get_job :: "tqueue \<Rightarrow> str \<Rightarrow> job option" where
  "get_job q i = (if i \<in> set (jobs q) then store q i else None)"

definition job_values :: "tqueue \<Rightarrow> job list" where
  "job_values q = List.map_filter (store q) (jobs q)"

definition active_count :: "tqueue \<Rightarrow> int" where
  "active_count q = int (length (filter (\<lambda>j. active_status (status j)) (job_values q)))"

subsection \<open>Methods of a job\<close>

definition require_audio_path :: "job \<Rightarrow> path res" where
  "require_audio_path j =
     (case audio_path j of
        None \<Rightarrow> Inl (RuntimeError (lit ''Job has no audio file''))
      | Some p \<Rightarrow> Inr p)"

text \<open>
  \<open>discard_audio\<close>: the path is forgotten first; a missing file is ignored, any other
  \<open>OSError\<close> of the unlink escapes; the private upload directory goes with the file and its
  errors are ignored.
\<close>

definition discard_audio :: "str \<Rightarrow> tqueue \<Rightarrow> exn option \<times> tqueue" where
  "discard_audio i q =
     (case store q i of
        None \<Rightarrow> (None, q)
      | Some j \<Rightarrow>
          (case audio_path j of
             None \<Rightarrow> (None, q)
           | Some p \<Rightarrow>
               (let q1 = upd_job i (\<lambda>j. j\<lparr>audio_path := None\<rparr>) q;
                    (e, d) = unlink p (disk q)
                in if e \<noteq> None \<and> e \<noteq> Some FileNotFoundError then (e, q1\<lparr>disk := d\<rparr>)
                   else if path_name p = upload_file_name
                           \<and> py_startswith (path_name (path_parent p)) upload_dir_prefix
                   then (None, q1\<lparr>disk := snd (rmdir (path_parent p) d)\<rparr>)
                   else (None, q1\<lparr>disk := d\<rparr>))))"

subsection \<open>Notification and clean-up\<close>

definition notify_terminal :: "str \<Rightarrow> tqueue \<Rightarrow> tqueue" where
  "notify_terminal i =
     upd_job i (\<lambda>j. if terminal_notified j then j
                    else j\<lparr>terminal_notified := True, chunk_queue := chunk_queue j @ [None]\<rparr>)"

definition schedule_cleanup :: "str \<Rightarrow> tqueue \<Rightarrow> tqueue" where
  "schedule_cleanup i q =
     (case get_job q i of
        None \<Rightarrow> q
      | Some j \<Rightarrow>
          if cleanup_scheduled j then q
          else (upd_job i (\<lambda>j. j\<lparr>cleanup_scheduled := True\<rparr>) q)
                 \<lparr>cleanup_tasks := cleanup_tasks q @ [i]\<rparr>)"

text \<open>\<open>_cleanup_job\<close> after its 30 seconds: pop the entry, discard what audio is left; the done
  callback takes the task out of the set.\<close>

definition cleanup_job :: "str \<Rightarrow> tqueue \<Rightarrow> exn option \<times> tqueue" where
  "cleanup_job i q =
     (let q1 = q\<lparr>cleanup_tasks := remove1 i (cleanup_tasks q), jobs := remove1 i (jobs q)\<rparr>
      in if i \<in> set (jobs q) then discard_audio i q1 else (None, q1))"

subsection \<open>Operations the routes call\<close>

text \<open>\<open>reserve\<close>: the capacity check, then the object becomes reachable through the
  dictionary (an \<open>OrderedDict\<close> keeps the place of a key it already has).\<close>

definition reserve :: "job \<Rightarrow> tqueue \<Rightarrow> exn option \<times> tqueue" where
  "reserve j q =
     (if active_count q \<ge> max_size q then (Some QueueFull, q)
      else (None, q\<lparr>store := (store q)(job_id j \<mapsto> j\<lparr>status := UPLOADING\<rparr>),
                    jobs := (if job_id j \<in> set (jobs q) then jobs q else jobs q @ [job_id j])\<rparr>))"

definition submit :: "str \<Rightarrow> tqueue \<Rightarrow> exn option \<times> tqueue" where
  "submit i q =
     (case get_job q i of
        None \<Rightarrow> (Some (KeyError i), q)
      | Some j \<Rightarrow>
          if status j \<noteq> UPLOADING
          then (Some (RuntimeError (lit ''Cannot submit job in state '' @ status_value (status j))), q)
          else (None, (upd_job i (\<lambda>j. j\<lparr>status := QUEUED\<rparr>) q)\<lparr>pending := pending q @ [i]\<rparr>))"

definition enqueue :: "job \<Rightarrow> tqueue \<Rightarrow> exn option \<times> tqueue" where
  "enqueue j q = (case reserve j q of (Some e, q1) \<Rightarrow> (Some e, q1) | (None, q1) \<Rightarrow> submit (job_id j) q1)"

definition cancel_task :: "task option \<Rightarrow> task option" where
  "cancel_task t = (case t of None \<Rightarrow> None | Some (Done r) \<Rightarrow> Some (Done r) | Some _ \<Rightarrow> Some Cancelling)"

definition cancel :: "str \<Rightarrow> tqueue \<Rightarrow> bool res \<times> tqueue" where
  "cancel i q =
     (case get_job q i of
        None \<Rightarrow> (Inr False, q)
      | Some j \<Rightarrow>
          if terminal_status (status j) then (Inr False, q)
          else
            (let q1 = upd_job i (\<lambda>j. j\<lparr>cancel_requested := True, status := CANCELLED,
                                      error_message := Some (lit ''Job cancelled''),
                                      process_task := cancel_task (process_task j)\<rparr>) q
             in case discard_audio i q1 of
                  (Some e, q2) \<Rightarrow> (Inl e, q2)
                | (None, q2) \<Rightarrow> (Inr True, schedule_cleanup i (notify_terminal i q2))))"

subsection \<open>Positions, waiting times, status\<close>

fun position_in :: "tqueue \<Rightarrow> str \<Rightarrow> int \<Rightarrow> str list \<Rightarrow> int option" where
  "position_in q i n [] = None"
| "position_in q i n (x # xs) =
     (case store q x of
        Some j \<Rightarrow>
          if status j = QUEUED then (if x = i then Some (n + 1) else position_in q i (n + 1) xs)
          else position_in q i n xs
      | None \<Rightarrow> position_in q i n xs)"

definition get_position :: "tqueue \<Rightarrow> str \<Rightarrow> int option" where
  "get_position q i = position_in q i 0 (jobs q)"

definition estimate_wait :: "tqueue \<Rightarrow> int \<Rightarrow> rat" where
  "estimate_wait q n =
     (if processing_times q = [] then of_int n * 30
      else of_int n * (sum_list (processing_times q) / of_nat (length (processing_times q))))"

definition get_position_and_eta :: "tqueue \<Rightarrow> str \<Rightarrow> int option \<times> rat option" where
  "get_position_and_eta q i =
     (let p = get_position q i in (p, map_option (estimate_wait q) p))"

definition job_info_of :: "tqueue \<Rightarrow> job \<Rightarrow> job_info" where
  "job_info_of q j =
     (let p = get_position q (job_id j)
      in \<lparr>ji_job_id = job_id j, ji_status = status j, ji_position = p,
          ji_estimated_wait_seconds = map_option (estimate_wait q) p\<rparr>)"

definition get_queue_info :: "tqueue \<Rightarrow> str \<Rightarrow> queue_status_response" where
  "get_queue_info q ident =
     \<lparr>your_jobs = map (job_info_of q) (filter (\<lambda>j. client_identity j = ident) (job_values q)),
      total_queued = int (length (filter (\<lambda>j. status j = QUEUED) (job_values q)))\<rparr>"

subsection \<open>The worker\<close>

text \<open>
  One turn of the worker's loop is two segments: \<open>worker_pick\<close>, from the item that
  \<open>_pending.get()\<close> returns to the suspension in \<open>await job.process_task\<close>, and
  \<open>worker_resume\<close>, from there to the next \<open>get\<close>. \<open>worker_finally\<close> is the \<open>finally\<close> block;
  an \<open>OSError\<close> that escapes \<open>discard_audio\<close> there ends the worker.
\<close>

definition push_time :: "rat \<Rightarrow> rat list \<Rightarrow> rat list" where
  "push_time t ts = (let ts' = ts @ [t] in if length ts' > max_history then tl ts' else ts')"

definition worker_finally :: "str \<Rightarrow> rat \<Rightarrow> rat \<Rightarrow> worker \<Rightarrow> tqueue \<Rightarrow> tqueue" where
  "worker_finally i start now next_state q =
     (let done_ok = (case store q i of Some j \<Rightarrow> status j = COMPLETED \<or> status j = FAILED | None \<Rightarrow> False);
          q1 = (if done_ok then q\<lparr>processing_times := push_time (now - start) (processing_times q)\<rparr> else q);
          q2 = upd_job i (\<lambda>j. j\<lparr>process_task := None\<rparr>) q1
      in case discard_audio i q2 of
           (Some e, q3) \<Rightarrow> q3\<lparr>worker_task := Some (WorkerOver (Some e))\<rparr>
         | (None, q3) \<Rightarrow> (schedule_cleanup i (notify_terminal i q3))\<lparr>worker_task := Some next_state\<rparr>)"

text \<open>What the \<open>try\<close> block and its handlers do with the way the process task ended. With
  \<open>CancelledError\<close> and no cancel request, the error is raised again after the \<open>finally\<close>
  block and ends the worker.\<close>

definition settle_job :: "task_result \<Rightarrow> job \<Rightarrow> job" where
  "settle_job r j =
     (case r of
        Returned \<Rightarrow> j\<lparr>status := (if error_message j \<noteq> None then FAILED else COMPLETED)\<rparr>
      | Raised msg cls \<Rightarrow> j\<lparr>status := FAILED, error_message := Some (if msg \<noteq> [] then msg else cls)\<rparr>
      | TaskCancelled \<Rightarrow>
          if cancel_requested j
          then j\<lparr>status := CANCELLED, error_message := Some (lit ''Job cancelled'')\<rparr>
          else j\<lparr>status := CANCELLED, error_message := Some (lit ''Queue stopped'')\<rparr>)"

definition worker_settle :: "str \<Rightarrow> rat \<Rightarrow> rat \<Rightarrow> task_result \<Rightarrow> tqueue \<Rightarrow> tqueue" where
  "worker_settle i start now r q =
     (let reraise = (r = TaskCancelled
                     \<and> (case store q i of Some j \<Rightarrow> \<not> cancel_requested j | None \<Rightarrow> False))
      in worker_finally i start now (if reraise then WorkerOver None else WaitPending)
           (upd_job i (settle_job r) q))"

definition worker_pick :: "rat \<Rightarrow> tqueue \<Rightarrow> tqueue" where
  "worker_pick now q =
     (case pending q of
        [] \<Rightarrow> q
      | i # rest \<Rightarrow>
          (let q1 = q\<lparr>pending := rest\<rparr>
           in case get_job q1 i of
                None \<Rightarrow> q1
              | Some j \<Rightarrow>
                  if status j = CANCELLED then q1
                  else if has_process_fn q
                  then (upd_job i (\<lambda>j. j\<lparr>status := PROCESSING, process_task := Some Running\<rparr>) q1)
                         \<lparr>worker_task := Some (Awaiting i now False)\<rparr>
                  else worker_settle i now now Returned
                         (upd_job i (\<lambda>j. j\<lparr>status := PROCESSING\<rparr>) q1)))"

definition worker_resume :: "rat \<Rightarrow> tqueue \<Rightarrow> tqueue" where
  "worker_resume now q =
     (case worker_task q of
        Some (Awaiting i start must_cancel) \<Rightarrow>
          (case store q i of
             Some j \<Rightarrow>
               (case process_task j of
                  Some (Done r) \<Rightarrow>
                    worker_settle i start now (if must_cancel then TaskCancelled else r) q
                | _ \<Rightarrow> q)
           | None \<Rightarrow> q)
      | _ \<Rightarrow> q)"

subsection \<open>Stopping\<close>

text \<open>
  \<open>stop\<close> cancels the worker and awaits it. Cancelling a worker that waits in \<open>get\<close> ends it;
  one that awaits an unfinished process task has the cancellation forwarded to that task,
  and one whose process task is done gets \<open>CancelledError\<close> when it resumes. The second
  segment runs when the worker is over (an exception it died of is raised again by the
  \<open>await\<close>); the clean-up tasks are cancelled and awaited.
\<close>

definition stop_request :: "tqueue \<Rightarrow> tqueue" where
  "stop_request q =
     (case worker_task q of
        Some WaitPending \<Rightarrow> q\<lparr>worker_task := Some (WorkerOver None)\<rparr>
      | Some (Awaiting i start mc) \<Rightarrow>
          (case store q i of
             Some j \<Rightarrow>
               (case process_task j of
                  Some (Done r) \<Rightarrow> q\<lparr>worker_task := Some (Awaiting i start True)\<rparr>
                | _ \<Rightarrow> upd_job i (\<lambda>j. j\<lparr>process_task := cancel_task (process_task j)\<rparr>) q)
           | None \<Rightarrow> q)
      | _ \<Rightarrow> q)"

definition stop_finish :: "tqueue \<Rightarrow> exn option \<times> tqueue" where
  "stop_finish q =
     (case worker_task q of
        Some (WorkerOver (Some e)) \<Rightarrow> (Some e, q)
      | _ \<Rightarrow> (None, q\<lparr>worker_task := None, cleanup_tasks := []\<rparr>))"

definition worker_over :: "tqueue \<Rightarrow> bool" where
  "worker_over q \<longleftrightarrow> (case worker_task q of None \<Rightarrow> True | Some (WorkerOver _) \<Rightarrow> True | _ \<Rightarrow> False)"


section \<open>Effect of the queue's operations, field by field\<close>

text \<open>
  Every operation that works on one job changes the store at that job only, by a function
  of the job. These functions, and the fields left alone, as equations.
\<close>

definition forget_audio :: "job \<Rightarrow> job" where
  "forget_audio j = j\<lparr>audio_path := None\<rparr>"

definition mark_notified :: "job \<Rightarrow> job" where
  "mark_notified j =
     (if terminal_notified j then j
      else j\<lparr>terminal_notified := True, chunk_queue := chunk_queue j @ [None]\<rparr>)"

definition mark_cleanup :: "job \<Rightarrow> job" where
  "mark_cleanup j = j\<lparr>cleanup_scheduled := True\<rparr>"

definition mark_cancelled :: "job \<Rightarrow> job" where
  "mark_cancelled j =
     j\<lparr>cancel_requested := True, status := CANCELLED,
       error_message := Some (lit ''Job cancelled''),
       process_task := cancel_task (process_task j)\<rparr>"

lemmas job_marks = forget_audio_def mark_notified_def mark_cleanup_def mark_cancelled_def

lemma forget_audio_idle: "audio_path j = None \<Longrightarrow> forget_audio j = j"
  by (cases j) (simp add: forget_audio_def)

lemma mark_cleanup_idle: "cleanup_scheduled j \<Longrightarrow> mark_cleanup j = j"
  by (cases j) (simp add: mark_cleanup_def)

lemma map_option_forget_idle: "s = map_option forget_audio s"
  if "case s of None \<Rightarrow> True | Some j \<Rightarrow> audio_path j = None"
  using that by (cases s) (simp_all add: forget_audio_idle)

subsection \<open>\<open>upd_job\<close>\<close>

lemma upd_job_frame [simp, frame_simps]:
  "max_size (upd_job i f q) = max_size q"
  "pending (upd_job i f q) = pending q"
  "jobs (upd_job i f q) = jobs q"
  "processing_times (upd_job i f q) = processing_times q"
  "worker_task (upd_job i f q) = worker_task q"
  "has_process_fn (upd_job i f q) = has_process_fn q"
  "cleanup_tasks (upd_job i f q) = cleanup_tasks q"
  "disk (upd_job i f q) = disk q"
  by (simp_all add: upd_job_def)

lemma store_upd_job [simp]:
  "store (upd_job i f q) = (store q)(i := map_option f (store q i))"
  by (simp add: upd_job_def)

lemma upd_job_upd_job: "upd_job i g (upd_job i f q) = upd_job i (g \<circ> f) q"
  by (simp add: upd_job_def option.map_comp)

lemma get_job_upd_job [simp]:
  "get_job (upd_job i f q) k = (if k = i then map_option f (get_job q k) else get_job q k)"
  by (simp add: get_job_def)

subsection \<open>\<open>discard_audio\<close>\<close>

lemma discard_audio_frame [simp, frame_simps]:
  "max_size (snd (discard_audio i q)) = max_size q"
  "pending (snd (discard_audio i q)) = pending q"
  "jobs (snd (discard_audio i q)) = jobs q"
  "processing_times (snd (discard_audio i q)) = processing_times q"
  "worker_task (snd (discard_audio i q)) = worker_task q"
  "has_process_fn (snd (discard_audio i q)) = has_process_fn q"
  "cleanup_tasks (snd (discard_audio i q)) = cleanup_tasks q"
  by (auto simp: discard_audio_def Let_def split: option.splits prod.splits)

lemma store_discard_audio [simp]:
  "store (snd (discard_audio i q)) = (store q)(i := map_option forget_audio (store q i))"
proof (cases "case store q i of None \<Rightarrow> True | Some j \<Rightarrow> audio_path j = None")
  case True
  then have "snd (discard_audio i q) = q"
    by (auto simp: discard_audio_def split: option.splits)
  with map_option_forget_idle [OF True] show ?thesis by simp
next
  case False
  then show ?thesis
    by (auto simp: discard_audio_def Let_def forget_audio_def split: option.splits prod.splits)
qed

text \<open>Only an \<open>OSError\<close> of the unlink other than a missing file escapes.\<close>

lemma discard_audio_error:
  "fst (discard_audio i q) = Some e \<Longrightarrow>
   \<exists>j p. store q i = Some j \<and> audio_path j = Some p \<and> fst (unlink p (disk q)) = Some e
         \<and> e = OSErrorOther"
  by (auto simp: discard_audio_def Let_def unlink_def split: option.splits prod.splits if_splits)

lemma discard_audio_ok:
  assumes "\<And>j p. store q i = Some j \<Longrightarrow> audio_path j = Some p \<Longrightarrow>
             p \<notin> set (locked (disk q)) \<and> \<not> is_dir (disk q) p"
  shows "fst (discard_audio i q) = None"
proof (rule ccontr)
  assume "fst (discard_audio i q) \<noteq> None"
  then obtain e where "fst (discard_audio i q) = Some e" by blast
  then obtain j p where "store q i = Some j" "audio_path j = Some p"
      "fst (unlink p (disk q)) = Some e" "e = OSErrorOther"
    using discard_audio_error by blast
  with assms show False by (auto simp: unlink_def split: if_splits)
qed

lemma discard_audio_locked [simp]: "locked (disk (snd (discard_audio i q))) = locked (disk q)"
  by (auto simp: discard_audio_def Let_def split: option.splits prod.splits)
    (metis snd_conv unlink_locked)+

text \<open>What is left on disk: the audio file is gone, and no other file is touched.\<close>

lemma discard_audio_removes:
  assumes "store q i = Some j" and "audio_path j = Some p" and "fst (discard_audio i q) = None"
  shows "node_at (disk (snd (discard_audio i q))) p = None"
proof -
  obtain e d where u: "unlink p (disk q) = (e, d)" by fastforce
  with assms have "e = None \<or> e = Some FileNotFoundError"
    by (auto simp: discard_audio_def Let_def split: if_splits)
  with u have "node_at d p = None"
    using unlink_result unlink_missing by blast
  then have "node_at (snd (rmdir r d)) p = None" for r
    using rmdir_node_at [of r d p] by auto
  with \<open>node_at d p = None\<close> show ?thesis
    using assms u by (auto simp: discard_audio_def Let_def split: if_splits)
qed

lemma unlink_keeps: "q \<noteq> p \<Longrightarrow> node_at (snd (unlink p d)) q = node_at d q"
  by (auto simp: unlink_def)

lemma discard_audio_keeps_files:
  assumes "\<And>j. store q i = Some j \<Longrightarrow> audio_path j \<noteq> Some p"
  shows "node_at (disk (snd (discard_audio i q))) p = Some (RegFile m b)
         \<longleftrightarrow> node_at (disk q) p = Some (RegFile m b)"
proof (cases "store q i")
  case None
  then show ?thesis by (simp add: discard_audio_def)
next
  case (Some j)
  show ?thesis
  proof (cases "audio_path j")
    case None
    with Some show ?thesis by (simp add: discard_audio_def)
  next
    case (Some r)
    obtain e d where u: "unlink r (disk q) = (e, d)" by fastforce
    have "p \<noteq> r" using assms \<open>store q i = Some j\<close> Some by blast
    then have "node_at d p = node_at (disk q) p"
      using unlink_keeps [of p r "disk q"] u by simp
    then show ?thesis
      using \<open>store q i = Some j\<close> Some u
      by (auto simp: discard_audio_def Let_def rmdir_keeps_files)
  qed
qed

subsection \<open>Notification, clean-up\<close>

lemma notify_terminal_eq: "notify_terminal i q = upd_job i mark_notified q"
  by (simp add: notify_terminal_def mark_notified_def [abs_def])

lemma notify_terminal_frame [simp, frame_simps]:
  "max_size (notify_terminal i q) = max_size q"
  "pending (notify_terminal i q) = pending q"
  "jobs (notify_terminal i q) = jobs q"
  "processing_times (notify_terminal i q) = processing_times q"
  "worker_task (notify_terminal i q) = worker_task q"
  "has_process_fn (notify_terminal i q) = has_process_fn q"
  "cleanup_tasks (notify_terminal i q) = cleanup_tasks q"
  "disk (notify_terminal i q) = disk q"
  "store (notify_terminal i q) = (store q)(i := map_option mark_notified (store q i))"
  by (simp_all add: notify_terminal_eq)

lemma schedule_cleanup_frame [simp, frame_simps]:
  "max_size (schedule_cleanup i q) = max_size q"
  "pending (schedule_cleanup i q) = pending q"
  "jobs (schedule_cleanup i q) = jobs q"
  "processing_times (schedule_cleanup i q) = processing_times q"
  "worker_task (schedule_cleanup i q) = worker_task q"
  "has_process_fn (schedule_cleanup i q) = has_process_fn q"
  "disk (schedule_cleanup i q) = disk q"
  by (auto simp: schedule_cleanup_def split: option.splits)

lemma store_schedule_cleanup [simp]:
  "store (schedule_cleanup i q) =
     (if i \<in> set (jobs q) then (store q)(i := map_option mark_cleanup (store q i)) else store q)"
  by (auto simp: schedule_cleanup_def get_job_def mark_cleanup_idle fun_upd_idem
      simp flip: mark_cleanup_def split: option.splits)

lemma cleanup_tasks_schedule_cleanup:
  "cleanup_tasks (schedule_cleanup i q) =
     (case get_job q i of
        None \<Rightarrow> cleanup_tasks q
      | Some j \<Rightarrow> if cleanup_scheduled j then cleanup_tasks q else cleanup_tasks q @ [i])"
  by (auto simp: schedule_cleanup_def split: option.splits)

end
