(* ===== verification/Queue_System.thy ===== *)
theory Queue_System
  imports Job_Queue
begin

section \<open>Runs of the queue: every interleaving of its operations\<close>

text \<open>
  The step relation of the queue: one rule per segment of code that runs between two
  suspension points (a route's call, a segment of the worker, of the processing function,
  of the event stream, of a clean-up task, of \<open>stop\<close>) and one for what the environment does
  to the disk. Which of them runs next is up to the event loop, so the relation is not a
  function. The processing function changes the job only while its task is running, which
  is asyncio's contract: after \<open>cancel\<close> the coroutine resumes with \<open>CancelledError\<close>.
\<close>

subsection \<open>Segments of the other components that touch the queue's state\<close>

text \<open>The route handler (\<open>routes/transcribe.py\<close>): it notes the media type and the hotwords
  before it copies the upload, and the file and its duration when the copy is stored.\<close>

definition describe_upload :: "str \<Rightarrow> str \<Rightarrow> str option \<Rightarrow> tqueue \<Rightarrow> tqueue" where
  "describe_upload i mime hw = upd_job i (\<lambda>j. j\<lparr>audio_mime := mime, hotwords := hw\<rparr>)"

definition attach_upload :: "str \<Rightarrow> path \<Rightarrow> str \<Rightarrow> str option \<Rightarrow> rat \<Rightarrow> tqueue \<Rightarrow> tqueue" where
  "attach_upload i p mime hw dur =
     upd_job i (\<lambda>j. j\<lparr>audio_mime := mime, hotwords := hw, audio_path := Some p,
                      audio_duration_seconds := dur\<rparr>)"

text \<open>What the processing functions do to the job (\<open>server/transcribe.py\<close>).\<close>

definition proc_streaming :: "str \<Rightarrow> tqueue \<Rightarrow> tqueue" where
  "proc_streaming i = upd_job i (\<lambda>j. j\<lparr>status := STREAMING\<rparr>)"

definition proc_put :: "str \<Rightarrow> str \<Rightarrow> tqueue \<Rightarrow> tqueue" where
  "proc_put i c = upd_job i (\<lambda>j. j\<lparr>chunk_queue := chunk_queue j @ [Some c]\<rparr>)"

definition proc_error :: "str \<Rightarrow> str \<Rightarrow> tqueue \<Rightarrow> tqueue" where
  "proc_error i m = upd_job i (\<lambda>j. j\<lparr>error_message := Some m\<rparr>)"

definition proc_finish :: "str \<Rightarrow> task_result \<Rightarrow> tqueue \<Rightarrow> tqueue" where
  "proc_finish i r = upd_job i (\<lambda>j. j\<lparr>process_task := Some (Done r)\<rparr>)"

text \<open>\<open>await job.chunk_queue.get()\<close> of the event stream, when an item is there.\<close>

definition take_chunk :: "str \<Rightarrow> tqueue \<Rightarrow> tqueue" where
  "take_chunk i = upd_job i (\<lambda>j. j\<lparr>chunk_queue := tl (chunk_queue j)\<rparr>)"

lemmas segment_defs = describe_upload_def attach_upload_def proc_streaming_def proc_put_def proc_error_def
  proc_finish_def take_chunk_def

subsection \<open>The step relation\<close>

definition task_running :: "tqueue \<Rightarrow> str \<Rightarrow> bool" where
  "task_running q i \<longleftrightarrow> (case store q i of Some j \<Rightarrow> process_task j = Some Running | None \<Rightarrow> False)"

definition path_free :: "tqueue \<Rightarrow> path \<Rightarrow> bool" where
  "path_free q p \<longleftrightarrow> (\<forall>i j. store q i = Some j \<longrightarrow> audio_path j \<noteq> Some p)"

inductive qstep :: "tqueue \<Rightarrow> tqueue \<Rightarrow> bool" where
  s_reserve: "store q i = None \<Longrightarrow> reserve (new_job i ident now) q = (None, q') \<Longrightarrow> qstep q q'"
| s_attach: "get_job q i = Some j \<Longrightarrow> status j = UPLOADING \<Longrightarrow> audio_path j = None \<Longrightarrow>
     node_at (disk q) p = Some (RegFile m b) \<Longrightarrow> p \<noteq> [] \<Longrightarrow> path_free q p \<Longrightarrow>
     qstep q (attach_upload i p mime hw dur q)"
| s_describe: "get_job q i = Some j \<Longrightarrow> status j = UPLOADING \<Longrightarrow>
     qstep q (describe_upload i mime hw q)"
| s_submit: "submit i q = (None, q') \<Longrightarrow> qstep q q'"
| s_cancel: "cancel i q = (r, q') \<Longrightarrow> qstep q q'"
| s_pick: "worker_task q = Some WaitPending \<Longrightarrow> qstep q (worker_pick now q)"
| s_streaming: "task_running q i \<Longrightarrow> qstep q (proc_streaming i q)"
| s_put: "task_running q i \<Longrightarrow> qstep q (proc_put i c q)"
| s_error: "task_running q i \<Longrightarrow> qstep q (proc_error i msg q)"
| s_finish: "task_running q i \<Longrightarrow> r \<noteq> TaskCancelled \<Longrightarrow> qstep q (proc_finish i r q)"
| s_finish_cancelled: "store q i = Some j \<Longrightarrow> process_task j = Some Cancelling \<Longrightarrow>
     qstep q (proc_finish i r q)"
| s_resume: "qstep q (worker_resume now q)"
| s_take: "store q i = Some j \<Longrightarrow> chunk_queue j \<noteq> [] \<Longrightarrow> qstep q (take_chunk i q)"
| s_cleanup: "i \<in> set (cleanup_tasks q) \<Longrightarrow> qstep q (snd (cleanup_job i q))"
| s_stop_request: "qstep q (stop_request q)"
| s_stop_finish: "worker_over q \<Longrightarrow> qstep q (snd (stop_finish q))"
| s_disk: "(\<And>i j p. store q i = Some j \<Longrightarrow> audio_path j = Some p \<Longrightarrow>
               node_at d p = node_at (disk q) p) \<Longrightarrow> qstep q (q\<lparr>disk := d\<rparr>)"

definition qinit :: "tqueue \<Rightarrow> bool" where
  "qinit q \<longleftrightarrow> (\<exists>n d q0. make_queue n d = Inr q0 \<and> q = start_worker (set_process_fn q0))"

subsection \<open>The invariant\<close>

definition awaits :: "tqueue \<Rightarrow> str \<Rightarrow> bool" where
  "awaits q i \<longleftrightarrow> (case worker_task q of Some (Awaiting k _ _) \<Rightarrow> k = i | _ \<Rightarrow> False)"

definition in_service :: "job_status \<Rightarrow> bool" where
  "in_service s \<longleftrightarrow> s = PROCESSING \<or> s = STREAMING"

text \<open>The chunk queue holds text, and the end marker only as its last item and only after
  the terminal notification.\<close>

definition chunks_ok :: "job \<Rightarrow> bool" where
  "chunks_ok j \<longleftrightarrow> None \<notin> set (butlast (chunk_queue j))
     \<and> (None \<in> set (chunk_queue j) \<longrightarrow> terminal_notified j)"

definition job_ok :: "tqueue \<Rightarrow> str \<Rightarrow> job \<Rightarrow> bool" where
  "job_ok q i j \<longleftrightarrow>
     job_id j = i
   \<and> (in_service (status j) \<longrightarrow> awaits q i)
   \<and> (process_task j \<noteq> None \<longleftrightarrow> awaits q i)
   \<and> (process_task j = Some Running \<longrightarrow> in_service (status j))
   \<and> (awaits q i \<longrightarrow> in_service (status j) \<or> status j = CANCELLED \<and> error_message j \<noteq> None)
   \<and> (awaits q i \<longrightarrow> i \<notin> set (pending q))
   \<and> (active_status (status j) \<longrightarrow> i \<in> set (jobs q))
   \<and> (status j = QUEUED \<longrightarrow> i \<in> set (pending q))
   \<and> (i \<in> set (pending q) \<longrightarrow> status j = QUEUED \<or> status j = CANCELLED)
   \<and> (terminal_notified j \<longrightarrow> terminal_status (status j))
   \<and> (cancel_requested j \<longrightarrow> terminal_status (status j))
   \<and> (status j = COMPLETED \<longleftrightarrow> terminal_status (status j) \<and> error_message j = None)
   \<and> (status j = UPLOADING \<or> status j = QUEUED \<longrightarrow> error_message j = None)
   \<and> (cleanup_scheduled j \<longrightarrow> terminal_status (status j))
   \<and> chunks_ok j"

definition queue_ok :: "tqueue \<Rightarrow> bool" where
  "queue_ok q \<longleftrightarrow>
     distinct (jobs q) \<and> set (jobs q) \<subseteq> dom (store q)
   \<and> distinct (pending q) \<and> set (pending q) \<subseteq> dom (store q)
   \<and> (\<forall>i. awaits q i \<longrightarrow> store q i \<noteq> None)
   \<and> 1 \<le> max_size q \<and> active_count q \<le> max_size q
   \<and> length (processing_times q) \<le> max_history
   \<and> has_process_fn q
   \<and> (\<forall>i \<in> set (cleanup_tasks q). \<exists>j. store q i = Some j \<and> cleanup_scheduled j)"

definition qinv :: "tqueue \<Rightarrow> bool" where
  "qinv q \<longleftrightarrow> queue_ok q \<and> (\<forall>i j. store q i = Some j \<longrightarrow> job_ok q i j)"

subsection \<open>Counting active jobs\<close>

definition active_at :: "(str \<rightharpoonup> job) \<Rightarrow> str \<Rightarrow> bool" where
  "active_at s i \<longleftrightarrow> (case s i of Some j \<Rightarrow> active_status (status j) | None \<Rightarrow> False)"

lemma active_count_filter: "active_count q = int (length (filter (active_at (store q)) (jobs q)))"
proof -
  have "length (filter (\<lambda>j. active_status (status j)) (List.map_filter s xs))
        = length (filter (active_at s) xs)" for s xs
    by (induction xs) (auto simp: active_at_def split: option.splits)
  then show ?thesis by (simp add: active_count_def job_values_def)
qed

lemma active_count_mono:
  assumes "jobs q' = jobs q" and "\<And>i. i \<in> set (jobs q) \<Longrightarrow> active_at (store q') i \<Longrightarrow> active_at (store q) i"
  shows "active_count q' \<le> active_count q"
proof -
  have "length (filter (active_at s') xs) \<le> length (filter (active_at s) xs)"
    if "\<And>i. i \<in> set xs \<Longrightarrow> active_at s' i \<Longrightarrow> active_at s i" for s s' xs
    using that by (induction xs) (auto intro: le_SucI)
  then show ?thesis using assms by (simp add: active_count_filter)
qed

lemma active_count_remove1:
  "active_count (q\<lparr>cleanup_tasks := c, jobs := remove1 i (jobs q)\<rparr>) \<le> active_count q"
proof -
  have "length (filter P (remove1 i xs)) \<le> length (filter P xs)" for P and xs :: "str list"
    by (induction xs) auto
  then show ?thesis by (simp add: active_count_filter)
qed

lemma active_count_fresh:
  assumes "i \<notin> set (jobs q)" and "active_status (status j)"
  shows "active_count (q\<lparr>store := (store q)(i \<mapsto> j), jobs := jobs q @ [i]\<rparr>) = active_count q + 1"
proof -
  have "filter (active_at ((store q)(i \<mapsto> j))) (jobs q) = filter (active_at (store q)) (jobs q)"
    using assms(1) by (intro filter_cong) (auto simp: active_at_def)
  moreover have "active_at ((store q)(i \<mapsto> j)) i"
    using assms(2) by (simp add: active_at_def)
  ultimately show ?thesis by (simp add: active_count_filter)
qed

subsection \<open>The one-job rule: an operation that changes one object\<close>

lemma awaits_simps:
  "worker_task q = None \<Longrightarrow> \<not> awaits q i"
  "worker_task q = Some WaitPending \<Longrightarrow> \<not> awaits q i"
  "worker_task q = Some (WorkerOver e) \<Longrightarrow> \<not> awaits q i"
  "worker_task q = Some (Awaiting k t b) \<Longrightarrow> awaits q i \<longleftrightarrow> k = i"
  by (auto simp: awaits_def)

lemma awaits_cong: "worker_task q' = worker_task q \<Longrightarrow> awaits q' i = awaits q i"
  by (simp add: awaits_def)

lemma awaits_unique: "awaits q i \<Longrightarrow> awaits q k \<Longrightarrow> i = k"
  by (auto simp: awaits_def split: option.splits worker.splits)

lemma qinvD: "qinv q \<Longrightarrow> store q i = Some j \<Longrightarrow> job_ok q i j"
  by (simp add: qinv_def)

lemma job_ok_cong:
  assumes "job_ok q k j" and "awaits q' k = awaits q k" and "k \<in> set (jobs q') \<longleftrightarrow> k \<in> set (jobs q)"
    and "k \<in> set (pending q') \<longleftrightarrow> k \<in> set (pending q)"
  shows "job_ok q' k j"
  using assms by (simp add: job_ok_def)

lemma one_job_rule:
  assumes inv: "qinv q" and j: "store q i = Some j"
    and st: "store q' = (store q)(i \<mapsto> j')"
    and same: "jobs q' = jobs q" "max_size q' = max_size q" "has_process_fn q' = has_process_fn q"
    and ok: "job_ok q' i j'"
    and mono: "active_status (status j') \<Longrightarrow> active_status (status j)"
    and aw: "\<And>k. k \<noteq> i \<Longrightarrow> awaits q' k = awaits q k"
    and pend: "\<And>k. k \<noteq> i \<Longrightarrow> k \<in> set (pending q') \<longleftrightarrow> k \<in> set (pending q)" "distinct (pending q')"
    and times: "length (processing_times q') \<le> max_history"
    and cl: "\<forall>k \<in> set (cleanup_tasks q'). k \<in> set (cleanup_tasks q) \<or> k = i \<and> cleanup_scheduled j'"
      "cleanup_scheduled j \<Longrightarrow> cleanup_scheduled j'"
  shows "qinv q'"
proof -
  have "active_count q' \<le> active_count q"
    using mono j st by (intro active_count_mono) (auto simp: same active_at_def split: if_splits)
  moreover have "set (pending q') \<subseteq> dom (store q')"
    using inv pend(1) st by (fastforce simp: qinv_def queue_ok_def)
  moreover have "store q' k \<noteq> None" if "awaits q' k" for k
    using inv that aw [of k] st by (auto simp: qinv_def queue_ok_def)
  moreover have "\<exists>m. store q' k = Some m \<and> cleanup_scheduled m" if "k \<in> set (cleanup_tasks q')" for k
    using inv that cl j st by (fastforce simp: qinv_def queue_ok_def)
  moreover have "set (jobs q') \<subseteq> dom (store q')"
    using inv st same by (auto simp: qinv_def queue_ok_def)
  ultimately have "queue_ok q'"
    using inv same times pend(2) by (simp add: qinv_def queue_ok_def)
  moreover have "job_ok q' k m" if "store q' k = Some m" for k m
  proof (cases "k = i")
    case True
    then show ?thesis using ok st that by simp
  next
    case False
    then show ?thesis
      using that st same aw [OF False] pend(1) [OF False] qinvD [OF inv, of k m]
      by (auto intro: job_ok_cong)
  qed
  ultimately show ?thesis by (simp add: qinv_def)
qed


subsection \<open>Effects of the compound operations\<close>

lemma cancel_effect:
  assumes "cancel i q = (r, q')"
  obtains (idle) "q' = q" "r = Inr False" "\<And>j. get_job q i = Some j \<Longrightarrow> terminal_status (status j)"
  | (escaped) j e where "get_job q i = Some j" "\<not> terminal_status (status j)" "r = Inl e"
      "store q' = (store q)(i \<mapsto> forget_audio (mark_cancelled j))"
      "jobs q' = jobs q" "max_size q' = max_size q" "has_process_fn q' = has_process_fn q"
      "pending q' = pending q" "worker_task q' = worker_task q"
      "processing_times q' = processing_times q" "cleanup_tasks q' = cleanup_tasks q"
      "disk q' = disk (snd (discard_audio i q))"
  | (cancelled) j where "get_job q i = Some j" "\<not> terminal_status (status j)" "r = Inr True"
      "store q' = (store q)(i \<mapsto> mark_cleanup (mark_notified (forget_audio (mark_cancelled j))))"
      "jobs q' = jobs q" "max_size q' = max_size q" "has_process_fn q' = has_process_fn q"
      "pending q' = pending q" "worker_task q' = worker_task q"
      "processing_times q' = processing_times q"
      "cleanup_tasks q' = (if cleanup_scheduled j then cleanup_tasks q else cleanup_tasks q @ [i])"
      "disk q' = disk (snd (discard_audio i q))"
proof (cases "get_job q i")
  case None
  with assms idle show ?thesis by (simp add: cancel_def)
next
  case (Some j)
  then have mem: "i \<in> set (jobs q)" and sj: "store q i = Some j"
    by (auto simp: get_job_def split: if_splits)
  show ?thesis
  proof (cases "terminal_status (status j)")
    case True
    with assms idle Some show ?thesis by (simp add: cancel_def)
  next
    case False
    define q1 where "q1 = upd_job i mark_cancelled q"
    have same_disk: "disk (snd (discard_audio i q1)) = disk (snd (discard_audio i q))"
      using sj by (auto simp: q1_def discard_audio_def mark_cancelled_def Let_def
          split: option.splits prod.splits)
    have run: "(r, q') = (case discard_audio i q1 of (Some e, q2) \<Rightarrow> (Inl e, q2)
        | (None, q2) \<Rightarrow> (Inr True, schedule_cleanup i (notify_terminal i q2)))"
      using assms Some False by (simp add: cancel_def q1_def mark_cancelled_def [abs_def])
    obtain e q2 where d: "discard_audio i q1 = (e, q2)" by fastforce
    then have q2: "q2 = snd (discard_audio i q1)" by simp
    show ?thesis
    proof (cases e)
      case None
      then have q': "q' = schedule_cleanup i (notify_terminal i q2)" and r: "r = Inr True"
        using run d by simp_all
      have gj: "get_job (notify_terminal i q2) i
          = Some (mark_notified (forget_audio (mark_cancelled j)))"
        using mem sj by (simp add: get_job_def q2 q1_def)
      have cs: "cleanup_scheduled (mark_notified (forget_audio (mark_cancelled j))) = cleanup_scheduled j"
        by (simp add: job_marks)
      show ?thesis
        by (rule cancelled [OF Some False r])
          (use gj cs sj mem same_disk in
            \<open>simp_all add: q' q2 q1_def cleanup_tasks_schedule_cleanup\<close>)
    next
      case (Some e')
      then have q': "q' = q2" and r: "r = Inl e'"
        using run d by simp_all
      show ?thesis
        by (rule escaped [OF \<open>get_job q i = Some j\<close> False r])
          (use sj same_disk in \<open>simp_all add: q' q2 q1_def\<close>)
    qed
  qed
qed

lemma worker_finally_frame [simp, frame_simps]:
  "max_size (worker_finally i st now w q) = max_size q"
  "pending (worker_finally i st now w q) = pending q"
  "jobs (worker_finally i st now w q) = jobs q"
  "has_process_fn (worker_finally i st now w q) = has_process_fn q"
  by (auto simp: worker_finally_def Let_def split: option.splits prod.splits)
    (metis discard_audio_frame upd_job_frame snd_conv tqueue.select_convs tqueue.surjective
      tqueue.update_convs)+

lemma push_time_bound: "length ts \<le> max_history \<Longrightarrow> length (push_time t ts) \<le> max_history"
  by (auto simp: push_time_def Let_def)

definition end_task :: "job \<Rightarrow> job" where
  "end_task j = j\<lparr>process_task := None\<rparr>"

lemma worker_finally_effect:
  assumes j: "store q i = Some j" and run: "q' = worker_finally i st now w q"
  obtains (escaped) e where "worker_task q' = Some (WorkerOver (Some e))"
      "store q' = (store q)(i \<mapsto> forget_audio (end_task j))"
      "cleanup_tasks q' = cleanup_tasks q" "fst (discard_audio i q) = Some e"
      "disk q' = disk (snd (discard_audio i q))"
  | (finished) "worker_task q' = Some w" "i \<in> set (jobs q)"
      "store q' = (store q)(i \<mapsto> mark_cleanup (mark_notified (forget_audio (end_task j))))"
      "cleanup_tasks q' = (if cleanup_scheduled j then cleanup_tasks q else cleanup_tasks q @ [i])"
      "fst (discard_audio i q) = None"
      "disk q' = disk (snd (discard_audio i q))"
  | (popped) "worker_task q' = Some w" "i \<notin> set (jobs q)"
      "store q' = (store q)(i \<mapsto> mark_notified (forget_audio (end_task j)))"
      "cleanup_tasks q' = cleanup_tasks q" "fst (discard_audio i q) = None"
      "disk q' = disk (snd (discard_audio i q))"
proof -
  define ts where "ts = (if status j = COMPLETED \<or> status j = FAILED
    then push_time (now - st) (processing_times q) else processing_times q)"
  define q2 where "q2 = upd_job i end_task (q\<lparr>processing_times := ts\<rparr>)"
  have q2_alt: "q2 = upd_job i end_task (if status j = COMPLETED \<or> status j = FAILED
      then q\<lparr>processing_times := push_time (now - st) (processing_times q)\<rparr> else q)"
    by (simp add: q2_def ts_def)
  have dd: "fst (discard_audio i q2) = fst (discard_audio i q)"
    "disk (snd (discard_audio i q2)) = disk (snd (discard_audio i q))"
    using j by (auto simp: q2_def discard_audio_def end_task_def Let_def
        split: option.splits prod.splits)
  have run2: "q' = (case discard_audio i q2 of
           (Some e, q3) \<Rightarrow> q3\<lparr>worker_task := Some (WorkerOver (Some e))\<rparr>
         | (None, q3) \<Rightarrow> (schedule_cleanup i (notify_terminal i q3))\<lparr>worker_task := Some w\<rparr>)"
    using j by (simp add: run worker_finally_def Let_def q2_alt end_task_def [abs_def])
  obtain e q3 where d: "discard_audio i q2 = (e, q3)" by fastforce
  then have q3: "q3 = snd (discard_audio i q2)" and e: "e = fst (discard_audio i q)"
    using dd by simp_all
  have st3: "store q3 = (store q)(i \<mapsto> forget_audio (end_task j))"
    using j by (simp add: q3 q2_def)
  have f3: "jobs q3 = jobs q" "cleanup_tasks q3 = cleanup_tasks q"
      "disk q3 = disk (snd (discard_audio i q))"
    using dd by (simp_all add: q3 q2_def)
  show ?thesis
  proof (cases e)
    case (Some x)
    then have q': "q' = q3\<lparr>worker_task := Some (WorkerOver (Some x))\<rparr>"
      using run2 d by simp
    show ?thesis
      by (rule escaped [of x]) (use Some st3 f3 e in \<open>simp_all add: q'\<close>)
  next
    case None
    then have q': "q' = (schedule_cleanup i (notify_terminal i q3))\<lparr>worker_task := Some w\<rparr>"
      using run2 d by simp
    have c: "cleanup_scheduled (mark_notified (forget_audio (end_task j))) = cleanup_scheduled j"
      by (simp add: job_marks end_task_def)
    show ?thesis
    proof (cases "i \<in> set (jobs q)")
      case True
      then show ?thesis
        by (intro finished) (use None st3 f3 e c in
          \<open>simp_all add: q' cleanup_tasks_schedule_cleanup get_job_def\<close>)
    next
      case False
      then show ?thesis
        by (intro popped) (use None st3 f3 e c in
          \<open>simp_all add: q' cleanup_tasks_schedule_cleanup get_job_def\<close>)
    qed
  qed
qed

lemma worker_finally_times:
  assumes "length (processing_times q) \<le> max_history"
  shows "length (processing_times (worker_finally i st now w q)) \<le> max_history"
proof -
  define ok where "ok = (case store q i of Some j \<Rightarrow> status j = COMPLETED \<or> status j = FAILED | None \<Rightarrow> False)"
  define ts where "ts = (if ok then push_time (now - st) (processing_times q) else processing_times q)"
  define q2 where "q2 = upd_job i (\<lambda>j. j\<lparr>process_task := None\<rparr>)
    (if ok then q\<lparr>processing_times := push_time (now - st) (processing_times q)\<rparr> else q)"
  have "processing_times q2 = ts" by (simp add: q2_def ts_def)
  then have t3: "processing_times (snd (discard_audio i q2)) = ts" by simp
  have run: "worker_finally i st now w q = (case discard_audio i q2 of
           (Some e, q3) \<Rightarrow> q3\<lparr>worker_task := Some (WorkerOver (Some e))\<rparr>
         | (None, q3) \<Rightarrow> (schedule_cleanup i (notify_terminal i q3))\<lparr>worker_task := Some w\<rparr>)"
    by (simp add: worker_finally_def Let_def q2_def ok_def)
  obtain e q3 where d: "discard_audio i q2 = (e, q3)" by fastforce
  then have "processing_times q3 = ts" using t3 by simp
  then have "processing_times (worker_finally i st now w q) = ts"
    by (cases e) (simp_all add: run d)
  moreover have "length ts \<le> max_history" using assms by (simp add: ts_def push_time_bound)
  ultimately show ?thesis by simp
qed

end
