(* ===== verification/Queue_Invariants.thy ===== *)
theory Queue_Invariants
  imports Queue_System
begin

section \<open>Every step of the queue keeps its invariant\<close>

text \<open>
  One preservation lemma per rule of \<open>qstep\<close>, collected in \<open>step_facts\<close>, then the
  interpretation of \<open>invariant_system\<close>: what \<open>qinv\<close> says holds in every reachable state.
\<close>

subsection \<open>Operations that update one object in place\<close>

lemma qinv_upd_job:
  assumes inv: "qinv q" and j: "store q i = Some j" and ok: "job_ok q i (f j)"
    and mono: "active_status (status (f j)) \<Longrightarrow> active_status (status j)"
      "cleanup_scheduled j \<Longrightarrow> cleanup_scheduled (f j)"
  shows "qinv (upd_job i f q)"
proof (rule one_job_rule [OF inv j, where j' = "f j"])
  show "job_ok (upd_job i f q) i (f j)"
    using ok by (rule job_ok_cong) (simp_all add: awaits_def)
qed (use inv j mono in \<open>auto simp: awaits_def qinv_def queue_ok_def\<close>)

lemma chunks_ok_notified: "chunks_ok j \<Longrightarrow> chunks_ok (mark_notified j)"
  by (auto simp: chunks_ok_def mark_notified_def dest: in_set_butlastD)

lemma butlast_tl_set: "set (butlast (tl xs)) \<subseteq> set (butlast xs)"
  by (cases xs) (auto split: if_splits)

lemma chunks_ok_take: "chunks_ok j \<Longrightarrow> chunks_ok (j\<lparr>chunk_queue := tl (chunk_queue j)\<rparr>)"
  using butlast_tl_set [of "chunk_queue j"]
  by (auto simp: chunks_ok_def dest: list.set_sel(2) [rotated])
    (metis list.sel(2) list.set_sel(2))

lemma task_runningD:
  assumes "task_running q i"
  obtains j where "store q i = Some j" "process_task j = Some Running"
  using assms by (auto simp: task_running_def split: option.splits)

lemma running_facts:
  assumes "qinv q" and "store q i = Some j" and "process_task j = Some Running"
  shows "awaits q i \<and> in_service (status j) \<and> \<not> terminal_notified j \<and> \<not> cancel_requested j"
proof -
  have ok: "job_ok q i j" using qinvD [OF assms(1,2)] .
  then have serve: "awaits q i" "in_service (status j)"
    using assms(3) by (simp_all add: job_ok_def)
  then have "\<not> terminal_status (status j)" by (auto simp: in_service_def)
  with ok serve show ?thesis unfolding job_ok_def by blast
qed

lemma qinv_upd_running:
  assumes inv: "qinv q" and run: "task_running q i"
    and frame: "\<And>j. job_id (f j) = job_id j" "\<And>j. process_task (f j) = process_task j"
      "\<And>j. terminal_notified (f j) = terminal_notified j"
      "\<And>j. cancel_requested (f j) = cancel_requested j"
      "\<And>j. cleanup_scheduled (f j) = cleanup_scheduled j"
    and serve: "\<And>j. in_service (status j) \<Longrightarrow> in_service (status (f j))"
    and chunks: "\<And>j. chunks_ok j \<Longrightarrow> \<not> terminal_notified j \<Longrightarrow> chunks_ok (f j)"
  shows "qinv (upd_job i f q)"
proof -
  obtain j where j: "store q i = Some j" and pt: "process_task j = Some Running"
    using run by (rule task_runningD)
  have r: "awaits q i" "in_service (status j)" "\<not> terminal_notified j" "\<not> cancel_requested j"
    using running_facts [OF inv j pt] by auto
  have ok: "job_ok q i j" using qinvD [OF inv j] .
  have act: "in_service s \<Longrightarrow> active_status s \<and> \<not> terminal_status s \<and> s \<noteq> UPLOADING \<and> s \<noteq> QUEUED \<and> s \<noteq> COMPLETED" for s
    by (auto simp: in_service_def)
  show ?thesis
    using ok r act [OF r(2)] act [OF serve [OF r(2)]] serve [OF r(2)] chunks [of j] pt
    by (intro qinv_upd_job [OF inv j]) (simp_all add: job_ok_def frame)
qed

lemma inv_streaming [step_facts]: "qinv q \<Longrightarrow> task_running q i \<Longrightarrow> qinv (proc_streaming i q)"
  unfolding proc_streaming_def
  by (erule (1) qinv_upd_running) (simp_all add: in_service_def chunks_ok_def)

lemma inv_put [step_facts]: "qinv q \<Longrightarrow> task_running q i \<Longrightarrow> qinv (proc_put i c q)"
  unfolding proc_put_def
  by (erule (1) qinv_upd_running) (auto simp: chunks_ok_def)

lemma inv_error [step_facts]: "qinv q \<Longrightarrow> task_running q i \<Longrightarrow> qinv (proc_error i m q)"
  unfolding proc_error_def
  by (erule (1) qinv_upd_running) (simp_all add: chunks_ok_def)

lemma inv_finish_any:
  assumes "qinv q" and "store q i = Some j" and "process_task j = Some t"
  shows "qinv (proc_finish i r q)"
  unfolding proc_finish_def
  by (rule qinv_upd_job [OF assms(1,2)])
    (use assms qinvD [OF assms(1,2)] in \<open>auto simp: job_ok_def chunks_ok_def\<close>)

lemma inv_finish [step_facts]: "qinv q \<Longrightarrow> task_running q i \<Longrightarrow> qinv (proc_finish i r q)"
  by (erule task_runningD) (rule inv_finish_any)

lemma inv_take [step_facts]: "qinv q \<Longrightarrow> store q i = Some j \<Longrightarrow> qinv (take_chunk i q)"
  unfolding take_chunk_def
  by (rule qinv_upd_job, assumption, assumption)
    (use qinvD chunks_ok_take in \<open>fastforce simp: job_ok_def\<close>)+

lemma inv_attach [step_facts]:
  "qinv q \<Longrightarrow> store q i = Some j \<Longrightarrow> qinv (attach_upload i p mime hw dur q)"
  unfolding attach_upload_def
  by (rule qinv_upd_job, assumption, assumption)
    (use qinvD in \<open>fastforce simp: job_ok_def chunks_ok_def\<close>)+

lemma inv_describe [step_facts]:
  "qinv q \<Longrightarrow> store q i = Some j \<Longrightarrow> qinv (describe_upload i mime hw q)"
  unfolding describe_upload_def
  by (rule qinv_upd_job, assumption, assumption)
    (use qinvD in \<open>fastforce simp: job_ok_def chunks_ok_def\<close>)+

lemma inv_disk [step_facts]: "qinv q \<Longrightarrow> qinv (q\<lparr>disk := d\<rparr>)"
  by (auto simp: qinv_def queue_ok_def job_ok_def awaits_def active_count_filter)

subsection \<open>\<open>reserve\<close>, \<open>submit\<close>, \<open>cancel\<close>\<close>

lemma reserve_effect:
  assumes "reserve j q = (None, q')" and "store q (job_id j) = None" and "set (jobs q) \<subseteq> dom (store q)"
  shows "active_count q < max_size q"
    and "q' = q\<lparr>store := (store q)(job_id j \<mapsto> j\<lparr>status := UPLOADING\<rparr>), jobs := jobs q @ [job_id j]\<rparr>"
    and "job_id j \<notin> set (jobs q)"
  using assms by (auto simp: reserve_def split: if_splits)

lemma inv_reserve [step_facts]:
  assumes inv: "qinv q" and fresh: "store q i = None"
    and run: "reserve (new_job i ident now) q = (None, q')"
  shows "qinv q'"
proof -
  let ?j = "new_job i ident now"
  have dom: "set (jobs q) \<subseteq> dom (store q)" using inv by (simp add: qinv_def queue_ok_def)
  have room: "active_count q < max_size q" and notin: "i \<notin> set (jobs q)"
    and q': "q' = q\<lparr>store := (store q)(i \<mapsto> ?j\<lparr>status := UPLOADING\<rparr>), jobs := jobs q @ [i]\<rparr>"
    using reserve_effect [OF run _ dom] fresh by (simp_all add: new_job_def)
  have "active_count q' \<le> max_size q"
    using room notin by (simp add: q' active_count_fresh)
  moreover have no_await: "\<not> awaits q i" and no_pend: "i \<notin> set (pending q)"
    using inv fresh by (auto simp: qinv_def queue_ok_def)
  ultimately have "queue_ok q'"
    using inv notin fresh by (fastforce simp: qinv_def queue_ok_def q' awaits_def)
  moreover have "job_ok q' k m" if "store q' k = Some m" for k m
  proof (cases "k = i")
    case True
    then show ?thesis
      using that no_await no_pend
      by (auto simp: q' job_ok_def new_job_def in_service_def chunks_ok_def awaits_def)
  next
    case False
    then show ?thesis
      using that qinvD [OF inv, of k m] by (auto simp: q' awaits_def intro: job_ok_cong)
  qed
  ultimately show ?thesis by (simp add: qinv_def)
qed

lemma submit_effect:
  assumes "submit i q = (None, q')"
  obtains j where "get_job q i = Some j" "status j = UPLOADING"
    "q' = (upd_job i (\<lambda>j. j\<lparr>status := QUEUED\<rparr>) q)\<lparr>pending := pending q @ [i]\<rparr>"
  using assms by (auto simp: submit_def split: option.splits if_splits)

lemma get_job_store: "get_job q i = Some j \<Longrightarrow> store q i = Some j \<and> i \<in> set (jobs q)"
  by (auto simp: get_job_def split: if_splits)

lemma inv_submit [step_facts]:
  assumes inv: "qinv q" and run: "submit i q = (None, q')"
  shows "qinv q'"
proof -
  obtain j where j: "store q i = Some j" "i \<in> set (jobs q)" "status j = UPLOADING"
    and q': "q' = (upd_job i (\<lambda>j. j\<lparr>status := QUEUED\<rparr>) q)\<lparr>pending := pending q @ [i]\<rparr>"
    using submit_effect [OF run] get_job_store by metis
  have ok: "job_ok q i j" using qinvD [OF inv j(1)] .
  then have "i \<notin> set (pending q)" "\<not> awaits q i"
    using j(3) by (auto simp: job_ok_def in_service_def)
  then show ?thesis
    using ok j
    by (intro one_job_rule [OF inv j(1), where j' = "j\<lparr>status := QUEUED\<rparr>"])
      (use inv in \<open>auto simp: q' job_ok_def in_service_def chunks_ok_def awaits_def
          qinv_def queue_ok_def\<close>)
qed

lemma cancel_task_simps [simp]:
  "cancel_task t = None \<longleftrightarrow> t = None"
  "cancel_task t \<noteq> Some Running"
  by (auto simp: cancel_task_def split: option.splits task.splits)

lemma job_ok_cancelled:
  assumes "job_ok q i j" and "\<not> terminal_status (status j)"
  shows "job_ok q i (forget_audio (mark_cancelled j))"
    and "job_ok q i (mark_cleanup (mark_notified (forget_audio (mark_cancelled j))))"
proof -
  have "chunks_ok (mark_notified (forget_audio (mark_cancelled j)))"
    using assms by (intro chunks_ok_notified) (auto simp: job_ok_def chunks_ok_def job_marks)
  then show "job_ok q i (mark_cleanup (mark_notified (forget_audio (mark_cancelled j))))"
    using assms by (auto simp: job_ok_def job_marks in_service_def chunks_ok_def)
  show "job_ok q i (forget_audio (mark_cancelled j))"
    using assms by (auto simp: job_ok_def job_marks in_service_def chunks_ok_def)
qed

lemma inv_cancel [step_facts]:
  assumes inv: "qinv q" and run: "cancel i q = (r, q')"
  shows "qinv q'"
  using run
proof (cases rule: cancel_effect)
  case idle
  with inv show ?thesis by simp
next
  case (escaped j e)
  then have j: "store q i = Some j" by (simp add: get_job_store)
  have "job_ok q i (forget_audio (mark_cancelled j))"
    using job_ok_cancelled(1) qinvD [OF inv j] escaped by simp
  then have "job_ok q' i (forget_audio (mark_cancelled j))"
    by (rule job_ok_cong) (simp_all add: escaped awaits_def)
  then show ?thesis
    by (rule one_job_rule [OF inv j escaped(4-7)])
      (use inv escaped in \<open>auto simp: awaits_def job_marks qinv_def queue_ok_def\<close>)
next
  case (cancelled j)
  then have j: "store q i = Some j" by (simp add: get_job_store)
  let ?j = "mark_cleanup (mark_notified (forget_audio (mark_cancelled j)))"
  have "job_ok q i ?j"
    using job_ok_cancelled(2) qinvD [OF inv j] cancelled by simp
  then have "job_ok q' i ?j"
    by (rule job_ok_cong) (simp_all add: cancelled awaits_def)
  then show ?thesis
    by (rule one_job_rule [OF inv j cancelled(4-7)])
      (use inv cancelled in \<open>auto simp: awaits_def job_marks qinv_def queue_ok_def
          split: if_splits\<close>)
qed

subsection \<open>The worker, the clean-up tasks, \<open>stop\<close>\<close>

lemma inv_pick [step_facts]:
  assumes inv: "qinv q" and idle: "worker_task q = Some WaitPending"
  shows "qinv (worker_pick now q)"
proof (cases "pending q")
  case Nil
  with inv show ?thesis by (simp add: worker_pick_def)
next
  case (Cons i rest)
  define q1 where "q1 = q\<lparr>pending := rest\<rparr>"
  have pn: "i \<notin> set rest" "distinct rest" "i \<in> set (pending q)"
    using inv Cons by (auto simp: qinv_def queue_ok_def)
  have hp: "has_process_fn q" using inv by (simp add: qinv_def queue_ok_def)
  obtain j where j: "store q i = Some j"
    using inv Cons by (fastforce simp: qinv_def queue_ok_def)
  have ok: "job_ok q i j" using qinvD [OF inv j] .
  show ?thesis
  proof (cases "get_job q1 i = None \<or> status j = CANCELLED")
    case True
    then have pick: "worker_pick now q = q1"
      using Cons j by (auto simp: worker_pick_def q1_def get_job_def split: if_splits)
    have "status j \<noteq> QUEUED"
      using True ok j by (auto simp: job_ok_def get_job_def q1_def split: if_splits)
    then have "job_ok q1 i j"
      using ok pn by (auto simp: job_ok_def q1_def awaits_def)
    then show ?thesis
      unfolding pick
      by (rule one_job_rule [OF inv j, rotated 4])
        (use inv j Cons pn in \<open>auto simp: q1_def awaits_def qinv_def queue_ok_def\<close>)
  next
    case False
    then have pick: "worker_pick now q =
       (upd_job i (\<lambda>j. j\<lparr>status := PROCESSING, process_task := Some Running\<rparr>) q1)
         \<lparr>worker_task := Some (Awaiting i now False)\<rparr>" and mem: "i \<in> set (jobs q)"
      using Cons j hp by (auto simp: worker_pick_def q1_def get_job_def split: if_splits)
    have "status j = QUEUED" using ok False pn by (auto simp: job_ok_def)
    then show ?thesis
      unfolding pick
      by (intro one_job_rule [OF inv j,
            where j' = "j\<lparr>status := PROCESSING, process_task := Some Running\<rparr>"])
        (use inv j Cons pn ok idle mem in \<open>auto simp: q1_def awaits_def job_ok_def
          in_service_def chunks_ok_def qinv_def queue_ok_def\<close>)
  qed
qed

lemma job_ok_settled:
  assumes ok: "job_ok q i j" and aw: "awaits q i"
    and frame: "\<not> awaits q' i" "jobs q' = jobs q" "pending q' = pending q"
    and s: "s = forget_audio (end_task (settle_job r j))"
    and j': "j' = s \<or> j' = mark_notified s \<or> j' = mark_cleanup (mark_notified s)"
  shows "job_ok q' i j'"
proof -
  have base: "job_id s = i" "process_task s = None" "terminal_status (status s)"
    "status s = COMPLETED \<longleftrightarrow> error_message s = None" "\<not> in_service (status s)"
    "chunk_queue s = chunk_queue j" "terminal_notified s = terminal_notified j"
    using ok aw by (auto simp: s job_ok_def job_marks end_task_def settle_job_def in_service_def
        split: task_result.splits)
  have "i \<notin> set (pending q')" using ok aw frame by (simp add: job_ok_def)
  moreover have "chunks_ok s"
    using ok base by (simp add: job_ok_def chunks_ok_def)
  moreover have "chunks_ok (mark_notified s)" using \<open>chunks_ok s\<close> by (rule chunks_ok_notified)
  moreover have "status s \<noteq> QUEUED" using base(3) by auto
  ultimately show ?thesis
    using j' base frame
    by (auto simp: job_ok_def mark_cleanup_def mark_notified_def chunks_ok_def active_not_terminal)
qed

lemma inv_settle:
  assumes inv: "qinv q" and aw: "awaits q i" and j: "store q i = Some j"
  shows "qinv (worker_settle i st now r q)"
proof -
  define w where "w = (if r = TaskCancelled \<and> \<not> cancel_requested j then WorkerOver None else WaitPending)"
  define q1 where "q1 = upd_job i (settle_job r) q"
  define q' where "q' = worker_finally i st now w q1"
  have run: "worker_settle i st now r q = q'"
    using j by (simp add: worker_settle_def q'_def w_def q1_def)
  have j1: "store q1 i = Some (settle_job r j)" using j by (simp add: q1_def)
  have ok: "job_ok q i j" using qinvD [OF inv j] .
  have over: "\<not> awaits q' k" if "worker_task q' = Some v" "v = w \<or> (\<exists>e. v = WorkerOver e)" for v k
    using that by (auto simp: awaits_def w_def split: if_splits)
  have others: "\<not> awaits q k" if "k \<noteq> i" for k
    using that aw awaits_unique by blast
  have ended: "\<not> active_status (status (settle_job r j))"
    using ok aw by (auto simp: settle_job_def split: task_result.splits)
  have frame: "jobs q' = jobs q" "pending q' = pending q" "max_size q' = max_size q"
    "has_process_fn q' = has_process_fn q"
    by (simp_all add: q'_def q1_def)
  have times: "length (processing_times q') \<le> max_history"
    using inv by (simp add: q'_def worker_finally_times q1_def qinv_def queue_ok_def)
  have cs: "cleanup_scheduled (settle_job r j) = cleanup_scheduled j"
    by (auto simp: settle_job_def split: task_result.splits)
  let ?s = "forget_audio (end_task (settle_job r j))"
  have st: "status (mark_cleanup (mark_notified ?s)) = status (settle_job r j)"
    "status (mark_notified ?s) = status (settle_job r j)" "status ?s = status (settle_job r j)"
    "cleanup_scheduled (mark_notified ?s) = cleanup_scheduled j"
    "cleanup_scheduled (mark_cleanup (mark_notified ?s))"
    "cleanup_scheduled ?s = cleanup_scheduled j"
    using cs by (simp_all add: job_marks end_task_def)
  have goal: "qinv q'"
    if q's: "store q' = (store q)(i \<mapsto> j')" and v: "worker_task q' = Some v" "v = w \<or> (\<exists>e. v = WorkerOver e)"
      and j': "j' = ?s \<or> j' = mark_notified ?s \<or> j' = mark_cleanup (mark_notified ?s)"
      and cl: "cleanup_tasks q' = cleanup_tasks q \<or> cleanup_tasks q' = cleanup_tasks q @ [i] \<and> cleanup_scheduled j'"
    for j' v
  proof (rule one_job_rule [OF inv j q's frame(1,3,4)])
    show "job_ok q' i j'"
      by (rule job_ok_settled [OF ok aw _ frame(1,2) refl j']) (use over [OF v] in blast)
    show "active_status (status j') \<Longrightarrow> active_status (status j)" using ended st j' by auto
    show "awaits q' k = awaits q k" if "k \<noteq> i" for k using over [OF v] others [OF that] by blast
    show "\<forall>k\<in>set (cleanup_tasks q'). k \<in> set (cleanup_tasks q) \<or> k = i \<and> cleanup_scheduled j'"
      using cl by auto
    show "cleanup_scheduled j \<Longrightarrow> cleanup_scheduled j'" using st j' by auto
  qed (use frame times inv in \<open>auto simp: qinv_def queue_ok_def\<close>)
  show ?thesis
    unfolding run
    by (rule worker_finally_effect [OF j1 q'_def])
      (rule goal, use st in \<open>auto simp: q1_def\<close>)+
qed

lemma inv_resume [step_facts]: "qinv q \<Longrightarrow> qinv (worker_resume now q)"
  by (auto simp: worker_resume_def awaits_def intro!: inv_settle
      split: option.splits worker.splits task.splits)

lemma inv_cleanup [step_facts]:
  assumes inv: "qinv q" and mem: "i \<in> set (cleanup_tasks q)"
  shows "qinv (snd (cleanup_job i q))"
proof -
  define q1 where "q1 = q\<lparr>cleanup_tasks := remove1 i (cleanup_tasks q), jobs := remove1 i (jobs q)\<rparr>"
  obtain j where j: "store q i = Some j" "cleanup_scheduled j"
    using inv mem by (auto simp: qinv_def queue_ok_def)
  then have ended: "\<not> active_status (status j)"
    using qinvD [OF inv j(1)] by (simp add: job_ok_def active_not_terminal)
  have "queue_ok q1"
    using inv active_count_remove1 [where q = q and c = "remove1 i (cleanup_tasks q)" and i = i]
    by (auto simp: qinv_def queue_ok_def q1_def awaits_def dest: notin_set_remove1 set_remove1_subset [THEN subsetD])
  moreover have "job_ok q1 k m" if "store q k = Some m" for k m
    using qinvD [OF inv that] ended j that inv
    by (cases "k = i") (auto simp: job_ok_def q1_def awaits_def qinv_def queue_ok_def)
  ultimately have "qinv q1" by (simp add: qinv_def q1_def)
  moreover have "qinv (snd (discard_audio i q1))"
  proof (rule one_job_rule [OF \<open>qinv q1\<close>, where i = i and j = j and j' = "forget_audio j"])
    show "job_ok (snd (discard_audio i q1)) i (forget_audio j)"
      using qinvD [OF \<open>qinv q1\<close>, of i j] j
      by (auto simp: job_ok_def q1_def awaits_def forget_audio_def chunks_ok_def)
  qed (use j \<open>qinv q1\<close> in \<open>auto simp: awaits_def q1_def forget_audio_def qinv_def queue_ok_def\<close>)
  ultimately show ?thesis by (simp add: cleanup_job_def q1_def Let_def)
qed

lemma inv_stop_request [step_facts]:
  assumes inv: "qinv q"
  shows "qinv (stop_request q)"
proof -
  have relabel: "qinv (q\<lparr>worker_task := w\<rparr>)" if "\<And>k. awaits (q\<lparr>worker_task := w\<rparr>) k = awaits q k" for w
    using inv that by (auto simp: qinv_def queue_ok_def job_ok_def active_count_filter)
  have cancel: "qinv (upd_job i (\<lambda>j. j\<lparr>process_task := cancel_task (process_task j)\<rparr>) q)"
    if "store q i = Some j" for i j
    using qinvD [OF inv that] that
    by (intro qinv_upd_job [OF inv that])
      (simp_all add: job_ok_def chunks_ok_def)
  show ?thesis
    using inv cancel
    by (auto simp: stop_request_def awaits_def intro!: relabel
        split: option.splits worker.splits task.splits)
qed

lemma inv_stop_finish [step_facts]:
  assumes inv: "qinv q" and over: "worker_over q"
  shows "qinv (snd (stop_finish q))"
proof -
  have "\<not> awaits q k" for k
    using over by (auto simp: worker_over_def awaits_def split: option.splits worker.splits)
  then have "qinv (q\<lparr>worker_task := None, cleanup_tasks := []\<rparr>)"
    using inv by (auto simp: qinv_def queue_ok_def job_ok_def active_count_filter awaits_def)
  with inv show ?thesis
    by (auto simp: stop_finish_def split: option.splits worker.splits)
qed

lemma inv_qinit: "qinit q \<Longrightarrow> qinv q"
  by (auto simp: qinit_def make_queue_def start_worker_def set_process_fn_def qinv_def queue_ok_def
      active_count_filter awaits_def max_history_def split: if_splits)

lemma inv_qstep: "qinv q \<Longrightarrow> qstep q q' \<Longrightarrow> qinv q'"
  by (erule qstep.cases) (auto intro: step_facts inv_finish_any dest: get_job_store)

interpretation queue_runs: invariant_system qinit qstep qinv
  by unfold_locales (auto intro: inv_qinit inv_qstep)

lemmas reach_qinv = queue_runs.reach_inv

end
