(* ===== verification/Queue_Refinement.thy ===== *)
theory Queue_Refinement
  imports Queue_Invariants
begin

section \<open>The queue implements a bounded first-in first-out server\<close>

text \<open>
  The contract of the component: a server with one place of service and a capacity for the
  jobs that are being uploaded, wait or are served. A job is admitted while there is room,
  joins the end of the line when its upload is complete, is served when it reaches the
  front, and may leave at any time. \<open>fifo_of\<close> reads that state off the queue, and every
  step of the queue is a step of the abstract server or leaves it unchanged.
\<close>

record fifo =
  f_cap :: int
  f_uploading :: "str list"
  f_waiting :: "str list"
  f_serving :: "str option"

definition fifo_load :: "fifo \<Rightarrow> int" where
  "fifo_load s = int (length (f_uploading s)) + int (length (f_waiting s))
     + (case f_serving s of None \<Rightarrow> 0 | Some _ \<Rightarrow> 1)"

inductive fifo_step :: "fifo \<Rightarrow> fifo \<Rightarrow> bool" where
  f_admit: "fifo_load s < f_cap s \<Longrightarrow> i \<notin> set (f_uploading s) \<union> set (f_waiting s) \<Longrightarrow>
     f_serving s \<noteq> Some i \<Longrightarrow> fifo_step s (s\<lparr>f_uploading := f_uploading s @ [i]\<rparr>)"
| f_join: "i \<in> set (f_uploading s) \<Longrightarrow>
     fifo_step s (s\<lparr>f_uploading := remove1 i (f_uploading s), f_waiting := f_waiting s @ [i]\<rparr>)"
| f_abandon: "i \<in> set (f_uploading s) \<Longrightarrow>
     fifo_step s (s\<lparr>f_uploading := remove1 i (f_uploading s)\<rparr>)"
| f_withdraw: "i \<in> set (f_waiting s) \<Longrightarrow>
     fifo_step s (s\<lparr>f_waiting := remove1 i (f_waiting s)\<rparr>)"
| f_serve: "f_serving s = None \<Longrightarrow> f_waiting s = i # w \<Longrightarrow>
     fifo_step s (s\<lparr>f_waiting := w, f_serving := Some i\<rparr>)"
| f_leave: "f_serving s = Some i \<Longrightarrow> fifo_step s (s\<lparr>f_serving := None\<rparr>)"

inductive_cases fifo_serveE: "fifo_step s t"

subsection \<open>Reading the abstract state off the queue\<close>

definition awaited :: "tqueue \<Rightarrow> str option" where
  "awaited q = (case worker_task q of Some (Awaiting i _ _) \<Rightarrow> Some i | _ \<Rightarrow> None)"

definition has_status :: "tqueue \<Rightarrow> job_status \<Rightarrow> str \<Rightarrow> bool" where
  "has_status q s i \<longleftrightarrow> (case store q i of Some j \<Rightarrow> status j = s | None \<Rightarrow> False)"

definition in_serviceq :: "tqueue \<Rightarrow> str \<Rightarrow> bool" where
  "in_serviceq q i \<longleftrightarrow> has_status q PROCESSING i \<or> has_status q STREAMING i"

definition served :: "str option \<Rightarrow> (str \<Rightarrow> bool) \<Rightarrow> str option" where
  "served a p = (case a of Some i \<Rightarrow> if p i then Some i else None | None \<Rightarrow> None)"

lemma served_iff: "served a p = Some i \<longleftrightarrow> a = Some i \<and> p i"
  by (auto simp: served_def split: option.splits)

lemma served_simps [simp]:
  "served None p = None"
  "served (Some i) p = (if p i then Some i else None)"
  by (simp_all add: served_def)

definition fifo_of :: "tqueue \<Rightarrow> fifo" where
  "fifo_of q =
     \<lparr>f_cap = max_size q,
      f_uploading = filter (has_status q UPLOADING) (jobs q),
      f_waiting = filter (has_status q QUEUED) (pending q),
      f_serving = served (awaited q) (in_serviceq q)\<rparr>"

lemma awaits_awaited: "awaits q i \<longleftrightarrow> awaited q = Some i"
  by (auto simp: awaits_def awaited_def split: option.splits worker.splits)

lemma has_status_unique: "has_status q s i \<Longrightarrow> has_status q t i \<Longrightarrow> s = t"
  by (auto simp: has_status_def split: option.splits)

lemma active_at_cases:
  "active_at (store q) i \<longleftrightarrow> has_status q UPLOADING i \<or> has_status q QUEUED i \<or> in_serviceq q i"
  by (auto simp: active_at_def has_status_def in_serviceq_def active_status_def split: option.splits)

lemma fifo_of_cong:
  assumes "max_size q' = max_size q" "jobs q' = jobs q" "pending q' = pending q"
    and "awaited q' = awaited q" and "\<And>k. map_option status (store q' k) = map_option status (store q k)"
  shows "fifo_of q' = fifo_of q"
proof -
  have "has_status q' s k = has_status q s k" for s k
    using assms(5) [of k] by (auto simp: has_status_def split: option.splits)
  then have hs: "has_status q' s = has_status q s" for s by blast
  then have "in_serviceq q' = in_serviceq q" by (simp add: in_serviceq_def fun_eq_iff)
  with hs assms(1-4) show ?thesis by (simp add: fifo_of_def)
qed

subsection \<open>The active jobs are those the abstract server knows\<close>

lemma queued_iff_pending:
  assumes "qinv q"
  shows "has_status q QUEUED i \<longleftrightarrow> i \<in> set (filter (has_status q QUEUED) (pending q))"
    and "has_status q QUEUED i \<Longrightarrow> i \<in> set (jobs q)"
  using assms by (auto simp: has_status_def qinv_def job_ok_def split: option.splits)

lemma serving_iff:
  assumes "qinv q"
  shows "in_serviceq q i \<longleftrightarrow> f_serving (fifo_of q) = Some i"
proof -
  have "in_serviceq q i \<Longrightarrow> awaits q i"
    using assms by (auto simp: in_serviceq_def has_status_def qinv_def job_ok_def in_service_def
        split: option.splits)
  then show ?thesis
    by (auto simp: fifo_of_def awaits_awaited served_iff)
qed

lemma in_service_in_jobs: "qinv q \<Longrightarrow> in_serviceq q i \<Longrightarrow> i \<in> set (jobs q)"
  by (auto simp: in_serviceq_def has_status_def qinv_def job_ok_def in_service_def
      split: option.splits)

lemma active_count_fifo:
  assumes inv: "qinv q"
  shows "active_count q = fifo_load (fifo_of q)"
proof -
  have d: "distinct (jobs q)" "distinct (pending q)"
    using inv by (auto simp: qinv_def queue_ok_def)
  let ?U = "set (filter (has_status q UPLOADING) (jobs q))"
  let ?Q = "set (filter (has_status q QUEUED) (pending q))"
  let ?S = "{i. in_serviceq q i}"
  have S: "?S = set_option (f_serving (fifo_of q))"
    using serving_iff [OF inv] by auto
  have "set (filter (active_at (store q)) (jobs q)) = ?U \<union> ?Q \<union> ?S"
    using queued_iff_pending [OF inv] in_service_in_jobs [OF inv]
    by (auto simp: active_at_cases)
  then have "length (filter (active_at (store q)) (jobs q)) = card (?U \<union> ?Q \<union> ?S)"
    using d by (metis distinct_card distinct_filter)
  also have "\<dots> = card ?U + card ?Q + card ?S"
  proof -
    have "(?U \<union> ?Q) \<inter> ?S = {}" and "?U \<inter> ?Q = {}"
      by (auto simp: in_serviceq_def dest: has_status_unique)
    then show ?thesis by (simp add: card_Un_disjoint S)
  qed
  also have "card ?U = length (filter (has_status q UPLOADING) (jobs q))"
    using d by (metis distinct_card distinct_filter)
  also have "card ?Q = length (filter (has_status q QUEUED) (pending q))"
    using d by (metis distinct_card distinct_filter)
  finally show ?thesis
    by (simp add: active_count_filter fifo_load_def S fifo_of_def split: option.splits)
qed

subsection \<open>Lists under a change of one status\<close>

lemma filter_status_same:
  "(\<And>k. k \<in> set xs \<Longrightarrow> has_status q' s k = has_status q s k) \<Longrightarrow>
   filter (has_status q' s) xs = filter (has_status q s) xs"
  by (rule filter_cong) auto

lemma filter_status_drop:
  assumes "distinct xs" and "\<And>k. has_status q' s k \<longleftrightarrow> has_status q s k \<and> k \<noteq> i"
  shows "filter (has_status q' s) xs = remove1 i (filter (has_status q s) xs)"
  using assms by (intro filter_eq_remove1) auto

lemma has_status_upd:
  assumes "store q' = (store q)(i \<mapsto> j')"
  shows "has_status q' s k \<longleftrightarrow> (if k = i then status j' = s else has_status q s k)"
  using assms by (simp add: has_status_def)

text \<open>A job that leaves the active statuses leaves the list it was in, and no other.\<close>

lemma fifo_leave:
  assumes inv: "qinv q" and j: "store q i = Some j" and st: "store q' = (store q)(i \<mapsto> j')"
    and frame: "max_size q' = max_size q" "jobs q' = jobs q" "pending q' = pending q"
    and aw: "awaited q' = awaited q \<or> awaited q = Some i \<and> awaited q' = None"
    and out: "\<not> active_status (status j')"
  shows "fifo_of q' = fifo_of q \<or> fifo_step (fifo_of q) (fifo_of q')"
proof -
  have d: "distinct (jobs q)" "distinct (pending q)"
    using inv by (auto simp: qinv_def queue_ok_def)
  have hs: "has_status q' s k \<longleftrightarrow> has_status q s k \<and> k \<noteq> i" if "active_status s" for s k
    using that out by (auto simp: has_status_upd [OF st])
  have up: "f_uploading (fifo_of q') = remove1 i (f_uploading (fifo_of q))"
    using filter_status_drop [OF d(1) hs] by (simp add: fifo_of_def frame)
  have wt: "f_waiting (fifo_of q') = remove1 i (f_waiting (fifo_of q))"
    using filter_status_drop [OF d(2) hs] by (simp add: fifo_of_def frame)
  have sv: "f_serving (fifo_of q') = (if f_serving (fifo_of q) = Some i then None else f_serving (fifo_of q))"
    using aw hs by (cases "awaited q") (auto simp: fifo_of_def in_serviceq_def)
  have cap: "f_cap (fifo_of q') = f_cap (fifo_of q)" by (simp add: fifo_of_def frame)
  have mem: "i \<in> set (f_uploading (fifo_of q)) \<Longrightarrow> has_status q UPLOADING i"
    "i \<in> set (f_waiting (fifo_of q)) \<Longrightarrow> has_status q QUEUED i"
    "f_serving (fifo_of q) = Some i \<Longrightarrow> in_serviceq q i"
    using serving_iff [OF inv] by (auto simp: fifo_of_def)
  consider (u) "i \<in> set (f_uploading (fifo_of q))" | (w) "i \<in> set (f_waiting (fifo_of q))"
    | (s) "f_serving (fifo_of q) = Some i"
    | (n) "i \<notin> set (f_uploading (fifo_of q))" "i \<notin> set (f_waiting (fifo_of q))"
        "f_serving (fifo_of q) \<noteq> Some i" by blast
  then show ?thesis
  proof cases
    case u
    then have "i \<notin> set (f_waiting (fifo_of q))" "f_serving (fifo_of q) \<noteq> Some i"
      using mem by (auto simp: in_serviceq_def dest: has_status_unique)
    then have "fifo_of q' = (fifo_of q)\<lparr>f_uploading := remove1 i (f_uploading (fifo_of q))\<rparr>"
      using up wt sv cap by (simp add: remove1_idem)
    then show ?thesis using f_abandon [OF u] by simp
  next
    case w
    then have "i \<notin> set (f_uploading (fifo_of q))" "f_serving (fifo_of q) \<noteq> Some i"
      using mem by (auto simp: in_serviceq_def dest: has_status_unique)
    then have "fifo_of q' = (fifo_of q)\<lparr>f_waiting := remove1 i (f_waiting (fifo_of q))\<rparr>"
      using up wt sv cap by (simp add: remove1_idem)
    then show ?thesis using f_withdraw [OF w] by simp
  next
    case s
    then have "i \<notin> set (f_uploading (fifo_of q))" "i \<notin> set (f_waiting (fifo_of q))"
      using mem by (auto simp: in_serviceq_def dest: has_status_unique)
    then have "fifo_of q' = (fifo_of q)\<lparr>f_serving := None\<rparr>"
      using up wt sv cap s by (simp add: remove1_idem)
    then show ?thesis using f_leave [OF s] by simp
  next
    case n
    then have "fifo_of q' = fifo_of q"
      using up wt sv cap by (simp add: remove1_idem)
    then show ?thesis ..
  qed
qed

subsection \<open>Every step refines\<close>

lemma awaited_upd_job [simp]: "awaited (upd_job i f q) = awaited q"
  by (simp add: awaited_def)

lemma fifo_same_status:
  assumes "store q i = Some j" and "status (f j) = status j"
  shows "fifo_of (upd_job i f q) = fifo_of q"
  using assms by (intro fifo_of_cong) auto

lemma refine_reserve:
  assumes inv: "qinv q" and fresh: "store q i = None"
    and run: "reserve (new_job i ident now) q = (None, q')"
  shows "fifo_step (fifo_of q) (fifo_of q')"
proof -
  have dom: "set (jobs q) \<subseteq> dom (store q)" "set (pending q) \<subseteq> dom (store q)"
    using inv by (auto simp: qinv_def queue_ok_def)
  let ?j = "(new_job i ident now)\<lparr>status := UPLOADING\<rparr>"
  have room: "active_count q < max_size q" and notin: "i \<notin> set (jobs q)"
    and q': "q' = q\<lparr>store := (store q)(i \<mapsto> ?j), jobs := jobs q @ [i]\<rparr>"
    using reserve_effect [OF run _ dom(1)] fresh by (simp_all add: new_job_def)
  have hs: "has_status q' s k = (if k = i then s = UPLOADING else has_status q s k)" for s k
    by (auto simp: has_status_def q')
  have ni: "i \<notin> set (pending q)" "\<not> in_serviceq q i"
    using dom fresh by (auto simp: in_serviceq_def has_status_def)
  have "filter (has_status q' UPLOADING) (jobs q) = filter (has_status q UPLOADING) (jobs q)"
    "filter (has_status q' QUEUED) (pending q) = filter (has_status q QUEUED) (pending q)"
    using notin ni by (auto intro!: filter_status_same simp: hs split: if_splits)
  moreover have "in_serviceq q' = in_serviceq q"
    using ni by (auto simp: in_serviceq_def hs fun_eq_iff)
  moreover have "has_status q' UPLOADING i" by (simp add: hs)
  moreover have "awaited q' = awaited q" "jobs q' = jobs q @ [i]" "pending q' = pending q"
    "max_size q' = max_size q" by (simp_all add: q' awaited_def)
  ultimately have "fifo_of q' = (fifo_of q)\<lparr>f_uploading := f_uploading (fifo_of q) @ [i]\<rparr>"
    by (simp add: fifo_of_def)
  moreover have "fifo_load (fifo_of q) < f_cap (fifo_of q)"
    using room active_count_fifo [OF inv] by (simp add: fifo_of_def)
  moreover have "i \<notin> set (f_uploading (fifo_of q)) \<union> set (f_waiting (fifo_of q))"
    using notin ni by (auto simp: fifo_of_def)
  moreover have "f_serving (fifo_of q) \<noteq> Some i"
    using ni serving_iff [OF inv] by auto
  ultimately show ?thesis using f_admit by simp
qed

lemma refine_submit:
  assumes inv: "qinv q" and run: "submit i q = (None, q')"
  shows "fifo_step (fifo_of q) (fifo_of q')"
proof -
  obtain j where j: "store q i = Some j" "i \<in> set (jobs q)" "status j = UPLOADING"
    and q': "q' = (upd_job i (\<lambda>j. j\<lparr>status := QUEUED\<rparr>) q)\<lparr>pending := pending q @ [i]\<rparr>"
    using submit_effect [OF run] get_job_store by metis
  have hs: "has_status q' s k = (if k = i then s = QUEUED else has_status q s k)" for s k
    using j by (auto simp: has_status_def q')
  have up: "has_status q UPLOADING i" using j by (simp add: has_status_def)
  have np: "i \<notin> set (pending q)" and d: "distinct (jobs q)"
    using qinvD [OF inv j(1)] j(3) inv by (auto simp: job_ok_def qinv_def queue_ok_def)
  have "filter (has_status q' UPLOADING) (jobs q) = remove1 i (filter (has_status q UPLOADING) (jobs q))"
    using d by (intro filter_status_drop) (auto simp: hs)
  moreover have "filter (has_status q' QUEUED) (pending q) = filter (has_status q QUEUED) (pending q)"
    using np by (auto intro!: filter_status_same simp: hs split: if_splits)
  moreover have "in_serviceq q' = in_serviceq q"
    using up by (auto simp: in_serviceq_def hs fun_eq_iff dest: has_status_unique)
  moreover have "has_status q' QUEUED i" by (simp add: hs)
  moreover have "awaited q' = awaited q" "jobs q' = jobs q" "pending q' = pending q @ [i]"
    "max_size q' = max_size q" by (simp_all add: q' awaited_def)
  ultimately have "fifo_of q' = (fifo_of q)\<lparr>f_uploading := remove1 i (f_uploading (fifo_of q)),
      f_waiting := f_waiting (fifo_of q) @ [i]\<rparr>"
    by (simp add: fifo_of_def)
  moreover have "i \<in> set (f_uploading (fifo_of q))"
    using j up by (simp add: fifo_of_def)
  ultimately show ?thesis using f_join by simp
qed

lemma refine_cancel:
  assumes inv: "qinv q" and run: "cancel i q = (r, q')"
  shows "fifo_of q' = fifo_of q \<or> fifo_step (fifo_of q) (fifo_of q')"
  using run
proof (cases rule: cancel_effect)
  case idle
  then show ?thesis by simp
next
  case (escaped j e)
  then show ?thesis
    by (intro fifo_leave [OF inv _ escaped(4)])
      (auto simp: get_job_store awaited_def job_marks)
next
  case (cancelled j)
  then show ?thesis
    by (intro fifo_leave [OF inv _ cancelled(4)])
      (auto simp: get_job_store awaited_def job_marks)
qed

lemma refine_pick:
  assumes inv: "qinv q" and idle: "worker_task q = Some WaitPending"
  shows "fifo_of (worker_pick now q) = fifo_of q \<or> fifo_step (fifo_of q) (fifo_of (worker_pick now q))"
proof (cases "pending q")
  case Nil
  then show ?thesis by (simp add: worker_pick_def)
next
  case (Cons i rest)
  have pn: "i \<notin> set rest" and hp: "has_process_fn q"
    using inv Cons by (auto simp: qinv_def queue_ok_def)
  have none: "awaited q = None" using idle by (simp add: awaited_def)
  show ?thesis
  proof (cases "has_status q QUEUED i")
    case False
    have "status j = CANCELLED" if "store q i = Some j" for j
      using False qinvD [OF inv that] that Cons by (auto simp: job_ok_def has_status_def)
    then have "worker_pick now q = q\<lparr>pending := rest\<rparr>"
      using Cons by (auto simp: worker_pick_def get_job_def Let_def split: option.split)
    moreover have "has_status (q\<lparr>pending := rest\<rparr>) = has_status q"
      by (simp add: has_status_def fun_eq_iff)
    ultimately have "fifo_of (worker_pick now q) = fifo_of q"
      using False Cons none by (simp add: fifo_of_def awaited_def)
    then show ?thesis ..
  next
    case True
    then obtain j where j: "store q i = Some j" "status j = QUEUED" "i \<in> set (jobs q)"
      using queued_iff_pending(2) [OF inv] by (auto simp: has_status_def split: option.splits)
    define q' where "q' = (upd_job i (\<lambda>j. j\<lparr>status := PROCESSING, process_task := Some Running\<rparr>)
        (q\<lparr>pending := rest\<rparr>))\<lparr>worker_task := Some (Awaiting i now False)\<rparr>"
    have pick: "worker_pick now q = q'"
      using Cons j hp by (simp add: worker_pick_def get_job_def q'_def)
    have hs: "has_status q' s k = (if k = i then s = PROCESSING else has_status q s k)" for s k
      using j by (auto simp: has_status_def q'_def)
    have "filter (has_status q' UPLOADING) (jobs q) = filter (has_status q UPLOADING) (jobs q)"
      using True by (intro filter_status_same) (auto simp: hs dest: has_status_unique)
    moreover have "filter (has_status q' QUEUED) rest = filter (has_status q QUEUED) rest"
      using pn by (intro filter_status_same) (auto simp: hs)
    moreover have "in_serviceq q' i" by (simp add: in_serviceq_def hs)
    ultimately have "fifo_of q' = (fifo_of q)\<lparr>f_waiting := filter (has_status q QUEUED) rest,
        f_serving := Some i\<rparr>"
      by (simp add: fifo_of_def q'_def awaited_def)
    moreover have "f_serving (fifo_of q) = None" using none by (simp add: fifo_of_def)
    moreover have "f_waiting (fifo_of q) = i # filter (has_status q QUEUED) rest"
      using Cons True by (simp add: fifo_of_def)
    ultimately show ?thesis using f_serve pick by simp
  qed
qed

lemma refine_settle:
  assumes inv: "qinv q" and aw: "awaits q i" and j: "store q i = Some j"
  shows "fifo_of (worker_settle i st now r q) = fifo_of q
         \<or> fifo_step (fifo_of q) (fifo_of (worker_settle i st now r q))"
proof -
  define w where "w = (if r = TaskCancelled \<and> \<not> cancel_requested j then WorkerOver None else WaitPending)"
  define q1 where "q1 = upd_job i (settle_job r) q"
  define q' where "q' = worker_finally i st now w q1"
  have run: "worker_settle i st now r q = q'"
    using j by (simp add: worker_settle_def q'_def w_def q1_def)
  have j1: "store q1 i = Some (settle_job r j)" using j by (simp add: q1_def)
  have ended: "\<not> active_status (status (settle_job r j))"
    by (auto simp: settle_job_def split: task_result.splits)
  have keep: "status (mark_cleanup (mark_notified s)) = status s" "status (mark_notified s) = status s"
    "status (forget_audio (end_task s)) = status s" for s
    by (simp_all add: job_marks end_task_def)
  have goal: ?thesis
    if "store q' = (store q)(i \<mapsto> j')" "status j' = status (settle_job r j)"
      "worker_task q' = Some v" "v = w \<or> (\<exists>e. v = WorkerOver e)" for j' v
    unfolding run
    by (rule fifo_leave [OF inv j that(1)])
      (use that aw ended in \<open>auto simp: q'_def q1_def w_def awaits_awaited awaited_def split: if_splits\<close>)
  have base: "(store q1)(i \<mapsto> x) = (store q)(i \<mapsto> x)" for x by (simp add: q1_def)
  show ?thesis
    using j1 q'_def
  proof (cases rule: worker_finally_effect)
    case (escaped e)
    then show ?thesis by (intro goal [OF escaped(2) [unfolded base] _ escaped(1)]) (simp_all add: keep)
  next
    case finished
    then show ?thesis by (intro goal [OF finished(3) [unfolded base] _ finished(1)]) (simp_all add: keep)
  next
    case popped
    then show ?thesis by (intro goal [OF popped(3) [unfolded base] _ popped(1)]) (simp_all add: keep)
  qed
qed

lemma refine_cleanup:
  assumes inv: "qinv q" and mem: "i \<in> set (cleanup_tasks q)"
  shows "fifo_of (snd (cleanup_job i q)) = fifo_of q"
proof -
  obtain j where j: "store q i = Some j" "cleanup_scheduled j"
    using inv mem by (auto simp: qinv_def queue_ok_def)
  then have ns: "\<not> has_status q UPLOADING i"
    using qinvD [OF inv j(1)] by (auto simp: has_status_def job_ok_def)
  define q1 where "q1 = q\<lparr>cleanup_tasks := remove1 i (cleanup_tasks q), jobs := remove1 i (jobs q)\<rparr>"
  have "filter (has_status q UPLOADING) (remove1 i (jobs q)) = filter (has_status q UPLOADING) (jobs q)"
    using ns by (metis filter_remove1 mem_Collect_eq remove1_idem set_filter)
  moreover have hs: "has_status q1 = has_status q" by (simp add: has_status_def q1_def fun_eq_iff)
  moreover have "in_serviceq q1 = in_serviceq q" by (simp add: in_serviceq_def hs fun_eq_iff)
  moreover have "awaited q1 = awaited q" "jobs q1 = remove1 i (jobs q)" "pending q1 = pending q"
    "max_size q1 = max_size q" by (simp_all add: q1_def awaited_def)
  ultimately have "fifo_of q1 = fifo_of q"
    by (simp add: fifo_of_def)
  moreover have "fifo_of (snd (discard_audio i q1)) = fifo_of q1"
    using j by (intro fifo_of_cong) (auto simp: awaited_def forget_audio_def q1_def)
  ultimately show ?thesis by (simp add: cleanup_job_def q1_def Let_def)
qed

lemma refine_stop:
  shows "fifo_of (stop_request q) = fifo_of q"
  "worker_over q \<Longrightarrow> fifo_of (snd (stop_finish q)) = fifo_of q"
proof -
  show "fifo_of (stop_request q) = fifo_of q"
    by (rule fifo_of_cong)
      (auto simp: stop_request_def awaited_def split: option.splits worker.splits task.splits)
  show "worker_over q \<Longrightarrow> fifo_of (snd (stop_finish q)) = fifo_of q"
    by (rule fifo_of_cong)
      (auto simp: stop_finish_def worker_over_def awaited_def split: option.splits worker.splits)
qed

lemma fifo_streaming:
  assumes inv: "qinv q" and run: "task_running q i"
  shows "fifo_of (proc_streaming i q) = fifo_of q"
proof -
  obtain j where j: "store q i = Some j" "process_task j = Some Running"
    using run by (rule task_runningD)
  have s: "status j = PROCESSING \<or> status j = STREAMING"
    using running_facts [OF inv j] by (simp add: in_service_def)
  have hs: "has_status (proc_streaming i q) t k
      = (if k = i then t = STREAMING else has_status q t k)" for t k
    using j by (auto simp: has_status_def proc_streaming_def)
  have base: "has_status q t i \<longleftrightarrow> status j = t" for t
    using j by (simp add: has_status_def)
  have keep: "has_status (proc_streaming i q) t k = has_status q t k" if "\<not> in_service t" for t k
    using s that by (auto simp: hs in_service_def base)
  have "in_serviceq (proc_streaming i q) k = in_serviceq q k" for k
    using s by (auto simp: hs in_serviceq_def base)
  then have "in_serviceq (proc_streaming i q) = in_serviceq q" by blast
  moreover have "has_status (proc_streaming i q) UPLOADING = has_status q UPLOADING"
    "has_status (proc_streaming i q) QUEUED = has_status q QUEUED"
    using keep by (simp_all add: fun_eq_iff in_service_def)
  moreover have "awaited (proc_streaming i q) = awaited q" "jobs (proc_streaming i q) = jobs q"
    "pending (proc_streaming i q) = pending q" "max_size (proc_streaming i q) = max_size q"
    by (simp_all add: proc_streaming_def)
  ultimately show ?thesis by (simp add: fifo_of_def)
qed

lemma refine_qstep:
  assumes inv: "qinv q" and step: "qstep q q'"
  shows "fifo_of q' = fifo_of q \<or> fifo_step (fifo_of q) (fifo_of q')"
  using step
proof cases
  case (s_reserve i ident now)
  then show ?thesis using refine_reserve [OF inv] by blast
next
  case (s_attach i j p m b mime hw dur)
  then show ?thesis
    by (intro disjI1) (simp add: attach_upload_def fifo_same_status get_job_store)
next
  case (s_describe i j mime hw)
  then show ?thesis
    by (intro disjI1) (simp add: describe_upload_def fifo_same_status get_job_store)
next
  case (s_submit i)
  then show ?thesis using refine_submit [OF inv] by blast
next
  case (s_cancel i r)
  then show ?thesis using refine_cancel [OF inv] by blast
next
  case (s_pick now)
  then show ?thesis using refine_pick [OF inv] by blast
next
  case (s_streaming i)
  then show ?thesis using fifo_streaming [OF inv] by blast
next
  case (s_put i c)
  then show ?thesis
    by (auto simp: proc_put_def elim!: task_runningD intro!: fifo_same_status)
next
  case (s_error i msg)
  then show ?thesis
    by (auto simp: proc_error_def elim!: task_runningD intro!: fifo_same_status)
next
  case (s_finish i r)
  then show ?thesis
    by (auto simp: proc_finish_def elim!: task_runningD intro!: fifo_same_status)
next
  case (s_finish_cancelled i j r)
  then show ?thesis
    by (intro disjI1) (auto simp: proc_finish_def fifo_same_status)
next
  case (s_resume now)
  then show ?thesis
    using refine_settle [OF inv]
    by (auto simp: worker_resume_def awaits_def split: option.splits worker.splits task.splits)
next
  case (s_take i j)
  then show ?thesis by (intro disjI1) (auto simp: take_chunk_def fifo_same_status)
next
  case (s_cleanup i)
  then show ?thesis using refine_cleanup [OF inv] by simp
next
  case s_stop_request
  then show ?thesis using refine_stop by simp
next
  case s_stop_finish
  then show ?thesis using refine_stop by simp
next
  case (s_disk d)
  then show ?thesis by (intro disjI1) (auto intro!: fifo_of_cong simp: awaited_def)
qed

end
