(* ===== verification/Queue_Properties.thy ===== *)
theory Queue_Properties
  imports Queue_Refinement
begin

section \<open>What the queue guarantees\<close>

text \<open>
  The properties of \<open>server/queue.py\<close>, in every reachable state and for every step: bounded
  capacity, one job in service, no queued job forgotten, the life cycle of a job, the end
  marker of its stream, positions and status reports, the removal of audio, shutdown.
\<close>

subsection \<open>The steps of one job's status\<close>

lemma status_of_leave:
  assumes "store q i = Some j" and "store q' = (store q)(i \<mapsto> j')"
    and "status j \<le> status j' \<or> status j = CANCELLED \<and> status j' = FAILED"
    and "store q k = Some a" and "store q' k = Some b"
  shows "status a \<le> status b \<or> status a = CANCELLED \<and> status b = FAILED"
  using assms by (cases "k = i") auto

lemma status_of_upd:
  assumes "\<And>j. store q i = Some j \<Longrightarrow> status j \<le> status (f j)"
    and "store q k = Some a" and "store (upd_job i f q) k = Some b"
  shows "status a \<le> status b \<or> status a = CANCELLED \<and> status b = FAILED"
  using assms by (auto split: if_splits)

lemma settle_status:
  assumes "in_service (status j) \<or> status j = CANCELLED \<and> error_message j \<noteq> None"
  shows "status j \<le> status (settle_job r j) \<or> status j = CANCELLED \<and> status (settle_job r j) = FAILED"
  using assms by (auto simp: settle_job_def in_service_def status_order split: task_result.splits)

lemma settle_life_cycle:
  assumes inv: "qinv q" and aw: "awaits q i" and j: "store q i = Some j"
    and a: "store q k = Some a" and b: "store (worker_settle i st now r q) k = Some b"
  shows "status a \<le> status b \<or> status a = CANCELLED \<and> status b = FAILED"
proof -
  define w where "w = (if r = TaskCancelled \<and> \<not> cancel_requested j then WorkerOver None else WaitPending)"
  define q1 where "q1 = upd_job i (settle_job r) q"
  define q' where "q' = worker_finally i st now w q1"
  have run: "worker_settle i st now r q = q'"
    using j by (simp add: worker_settle_def q'_def w_def q1_def)
  have j1: "store q1 i = Some (settle_job r j)" using j by (simp add: q1_def)
  have base: "(store q1)(i \<mapsto> x) = (store q)(i \<mapsto> x)" for x by (simp add: q1_def)
  have keep: "status (mark_cleanup (mark_notified s)) = status s" "status (mark_notified s) = status s"
    "status (forget_audio (end_task s)) = status s" for s
    by (simp_all add: job_marks end_task_def)
  have st: "status j \<le> status (settle_job r j) \<or> status j = CANCELLED \<and> status (settle_job r j) = FAILED"
    using qinvD [OF inv j] aw by (intro settle_status) (auto simp: job_ok_def)
  from j1 q'_def obtain j' where s: "store q' = (store q)(i \<mapsto> j')"
    and e: "status j' = status (settle_job r j)"
    by (cases rule: worker_finally_effect) (auto simp: base keep)
  show ?thesis
    by (rule status_of_leave [OF j s _ a]) (use st e b run in simp_all)
qed

lemma life_cycle_step:
  assumes inv: "qinv q" and step: "qstep q q'"
    and a: "store q k = Some a" and b: "store q' k = Some b"
  shows "status a \<le> status b \<or> status a = CANCELLED \<and> status b = FAILED"
  using step
proof cases
  case (s_reserve i ident now)
  then show ?thesis using a b by (auto simp: reserve_def new_job_def split: if_splits)
next
  case (s_attach i j p m c mime hw dur)
  then show ?thesis
    using status_of_upd [OF _ a, of i "\<lambda>j. j\<lparr>audio_mime := mime, hotwords := hw,
      audio_path := Some p, audio_duration_seconds := dur\<rparr>"] b
    by (simp add: attach_upload_def)
next
  case (s_describe i j mime hw)
  then show ?thesis
    using b by (intro status_of_upd [OF _ a, of i]) (auto simp: describe_upload_def)
next
  case (s_submit i)
  then obtain j where j: "store q i = Some j" "status j = UPLOADING"
    and q': "q' = (upd_job i (\<lambda>j. j\<lparr>status := QUEUED\<rparr>) q)\<lparr>pending := pending q @ [i]\<rparr>"
    using submit_effect get_job_store by metis
  have "store q' = (store q)(i \<mapsto> j\<lparr>status := QUEUED\<rparr>)" by (simp add: q' j)
  then show ?thesis using status_of_leave [OF j(1) _ _ a b] j(2) by (simp add: status_order)
next
  case (s_cancel i r)
  from s_cancel(1) show ?thesis
  proof (cases rule: cancel_effect)
    case idle
    then show ?thesis using a b by simp
  next
    case (escaped j e)
    then show ?thesis
      using get_job_store [OF escaped(1)]
      by (intro status_of_leave [OF _ escaped(4) _ a b])
        (cases "status j"; simp add: job_marks status_order)+
  next
    case (cancelled j)
    then show ?thesis
      using get_job_store [OF cancelled(1)]
      by (intro status_of_leave [OF _ cancelled(4) _ a b])
        (cases "status j"; simp add: job_marks status_order)+
  qed
next
  case (s_pick now)
  show ?thesis
  proof (cases "pending q")
    case Nil
    then show ?thesis using s_pick a b by (simp add: worker_pick_def)
  next
    case (Cons i rest)
    have hp: "has_process_fn q" using inv by (simp add: qinv_def queue_ok_def)
    have "status j = QUEUED \<or> status j = CANCELLED" if "store q i = Some j" for j
      using qinvD [OF inv that] Cons by (simp add: job_ok_def)
    then show ?thesis
      using s_pick a b Cons hp
      by (cases "k = i") (auto simp: worker_pick_def get_job_def Let_def status_order
          split: option.splits if_splits)
  qed
next
  case (s_streaming i)
  then obtain j where j: "store q i = Some j" "process_task j = Some Running"
    by (auto elim: task_runningD)
  then have "status j \<le> STREAMING"
    using running_facts [OF inv j] by (auto simp: in_service_def status_order)
  then show ?thesis
    using s_streaming j a b by (intro status_of_upd [OF _ a, of i]) (auto simp: proc_streaming_def)
next
  case (s_put i c)
  then show ?thesis
    using b by (intro status_of_upd [OF _ a, of i]) (auto simp: proc_put_def)
next
  case (s_error i msg)
  then show ?thesis
    using b by (intro status_of_upd [OF _ a, of i]) (auto simp: proc_error_def)
next
  case (s_finish i r)
  then show ?thesis
    using b by (intro status_of_upd [OF _ a, of i]) (auto simp: proc_finish_def)
next
  case (s_finish_cancelled i j r)
  then show ?thesis
    using b by (intro status_of_upd [OF _ a, of i]) (auto simp: proc_finish_def)
next
  case (s_resume now)
  then show ?thesis
    using settle_life_cycle [OF inv _ _ a] a b
    by (auto simp: worker_resume_def awaits_def split: option.splits worker.splits task.splits)
next
  case (s_take i j)
  then show ?thesis
    using b by (intro status_of_upd [OF _ a, of i]) (auto simp: take_chunk_def)
next
  case (s_cleanup i)
  then show ?thesis
    using a b by (auto simp: cleanup_job_def Let_def forget_audio_def split: if_splits)
next
  case s_stop_request
  then show ?thesis
    using a b by (auto simp: stop_request_def split: option.splits worker.splits task.splits if_splits)
next
  case s_stop_finish
  then show ?thesis
    using a b by (auto simp: stop_finish_def split: option.splits worker.splits)
next
  case (s_disk d)
  then show ?thesis using a b by simp
qed

end
