(* ===== verification/Queue_Demo.thy ===== *)
theory Queue_Demo
  imports Queue_Properties
begin

section \<open>Concrete runs of the queue\<close>

text \<open>
  A short run with capacity two, step by step: two jobs are reserved in the order \<open>a\<close>, \<open>b\<close>,
  the upload of \<open>a\<close> is stored, \<open>b\<close> is submitted first and then \<open>a\<close>, the worker takes \<open>b\<close>.
  The witnesses of the queue's properties are states of this run.
\<close>

definition id_a :: str where "id_a = lit ''a''"
definition id_b :: str where "id_b = lit ''b''"
definition ident_x :: str where "ident_x = lit ''x''"
definition ident_y :: str where "ident_y = lit ''y''"

lemma demo_ids [simp]: "id_a \<noteq> id_b" "id_b \<noteq> id_a" "ident_x \<noteq> ident_y" "ident_y \<noteq> ident_x"
  by (simp_all add: id_a_def id_b_def ident_x_def ident_y_def)

definition demo_dir :: path where
  "demo_dir = [lit ''tmp'', lit ''vvv-upload-x'']"

definition demo_file :: path where
  "demo_file = [lit ''tmp'', lit ''vvv-upload-x'', lit ''audio.audio'']"

definition demo_fs :: fs where
  "demo_fs =
     \<lparr>nodes = [([lit ''tmp''], Directory 511), (demo_dir, Directory 448),
               (demo_file, RegFile 384 [1, 2, 3])],
      locked = [], space = 100\<rparr>"

lemma demo_paths [simp]:
  "demo_file \<noteq> []" "demo_dir \<noteq> []" "demo_file \<noteq> demo_dir" "demo_dir \<noteq> demo_file"
  "[lit ''tmp''] \<noteq> demo_file" "[lit ''tmp''] \<noteq> demo_dir" "butlast demo_file = demo_dir"
  "demo_file \<noteq> [lit ''tmp'']" "demo_dir \<noteq> [lit ''tmp'']"
  by (simp_all add: demo_file_def demo_dir_def)

definition demo_start :: tqueue where
  "demo_start =
     \<lparr>max_size = 2, pending = [], store = Map.empty, jobs = [], processing_times = [],
      worker_task = Some WaitPending, has_process_fn = True, cleanup_tasks = [], disk = demo_fs\<rparr>"

definition demo_one :: tqueue where
  "demo_one = snd (reserve (new_job id_a ident_x 0) demo_start)"

definition demo_two :: tqueue where
  "demo_two = snd (reserve (new_job id_b ident_y 1) demo_one)"

definition demo_stored :: tqueue where
  "demo_stored = attach_upload id_a demo_file (lit ''audio/wav'') None (3 / 2) demo_two"

definition demo_late :: tqueue where
  "demo_late = snd (submit id_b demo_stored)"

definition demo_both :: tqueue where
  "demo_both = snd (submit id_a demo_late)"

definition demo_serving :: tqueue where
  "demo_serving = worker_pick 2 demo_both"

lemmas demo_defs = demo_one_def demo_two_def demo_stored_def demo_late_def demo_both_def
  demo_serving_def

lemmas queue_op_defs = reserve_def submit_def cancel_def worker_pick_def worker_resume_def
  worker_settle_def worker_finally_def settle_job_def get_job_def active_count_def job_values_def
  new_job_def upd_job_def attach_upload_def Let_def notify_terminal_def schedule_cleanup_def
  cancel_task_def discard_audio_def push_time_def max_history_def proc_finish_def

lemma demo_one_eq:
  "demo_one = demo_start\<lparr>store := [id_a \<mapsto> new_job id_a ident_x 0], jobs := [id_a]\<rparr>"
  by (simp add: demo_one_def queue_op_defs demo_start_def)

lemma demo_two_eq:
  "demo_two = demo_start\<lparr>store := [id_a \<mapsto> new_job id_a ident_x 0, id_b \<mapsto> new_job id_b ident_y 1],
     jobs := [id_a, id_b]\<rparr>"
  by (simp add: demo_two_def demo_one_eq queue_op_defs demo_start_def)

definition job_a :: job where
  "job_a = (new_job id_a ident_x 0)\<lparr>audio_mime := lit ''audio/wav'', hotwords := None,
     audio_path := Some demo_file, audio_duration_seconds := 3 / 2\<rparr>"

definition job_b :: job where
  "job_b = new_job id_b ident_y 1"

lemma job_ab_simps [simp]:
  "job_id job_a = id_a" "job_id job_b = id_b" "status job_a = UPLOADING" "status job_b = UPLOADING"
  "audio_path job_a = Some demo_file" "audio_path job_b = None" "process_task job_a = None"
  "process_task job_b = None" "terminal_notified job_a = False" "terminal_notified job_b = False"
  "cleanup_scheduled job_a = False" "cleanup_scheduled job_b = False"
  "cancel_requested job_a = False" "cancel_requested job_b = False"
  "chunk_queue job_a = []" "chunk_queue job_b = []" "error_message job_a = None"
  "error_message job_b = None" "client_identity job_a = ident_x" "client_identity job_b = ident_y"
  by (simp_all add: job_a_def job_b_def new_job_def)

lemma demo_stored_eq:
  "demo_stored = demo_start\<lparr>store := [id_a \<mapsto> job_a, id_b \<mapsto> job_b], jobs := [id_a, id_b]\<rparr>"
  by (simp add: demo_stored_def demo_two_eq job_a_def job_b_def attach_upload_def upd_job_def
      fun_upd_twist)

lemma demo_late_eq:
  "demo_late = demo_start\<lparr>store := [id_a \<mapsto> job_a, id_b \<mapsto> job_b\<lparr>status := QUEUED\<rparr>],
     jobs := [id_a, id_b], pending := [id_b]\<rparr>"
  by (simp add: demo_late_def demo_stored_eq submit_def get_job_def upd_job_def demo_start_def)

lemma demo_both_eq:
  "demo_both = demo_start\<lparr>store := [id_a \<mapsto> job_a\<lparr>status := QUEUED\<rparr>, id_b \<mapsto> job_b\<lparr>status := QUEUED\<rparr>],
     jobs := [id_a, id_b], pending := [id_b, id_a]\<rparr>"
  by (simp add: demo_both_def demo_late_eq submit_def get_job_def upd_job_def demo_start_def
      fun_upd_twist)

lemma demo_serving_eq:
  "demo_serving = demo_start\<lparr>store := [id_a \<mapsto> job_a\<lparr>status := QUEUED\<rparr>,
       id_b \<mapsto> job_b\<lparr>status := PROCESSING, process_task := Some Running\<rparr>],
     jobs := [id_a, id_b], pending := [id_a], worker_task := Some (Awaiting id_b 2 False)\<rparr>"
  by (simp add: demo_serving_def demo_both_eq worker_pick_def get_job_def upd_job_def
      demo_start_def Let_def)

lemmas demo_eqs = demo_one_eq demo_two_eq demo_stored_eq demo_late_eq demo_both_eq demo_serving_eq

subsection \<open>The run is a run\<close>

lemma demo_start_init: "qinit demo_start"
  by (auto simp: qinit_def demo_start_def make_queue_def start_worker_def set_process_fn_def
      split: if_splits intro!: exI [of _ 2] exI [of _ demo_fs])

lemma demo_start_reach: "reach qinit qstep demo_start"
  by (rule reach_init) (rule demo_start_init)

lemma demo_step_one: "qstep demo_start demo_one"
  by (rule s_reserve [of _ id_a ident_x 0])
    (simp_all add: demo_one_def demo_start_def reserve_def active_count_def job_values_def)

lemma demo_step_two: "qstep demo_one demo_two"
  by (rule s_reserve [of _ id_b ident_y 1])
    (simp_all add: demo_two_def demo_one_eq demo_start_def reserve_def active_count_def
      job_values_def)

lemma demo_step_stored: "qstep demo_two demo_stored"
  unfolding demo_stored_def
  by (rule s_attach [where j = "new_job id_a ident_x 0" and m = 384 and b = "[1, 2, 3]"])
    (auto simp: demo_two_eq get_job_def new_job_def demo_start_def demo_fs_def node_at_def
      path_free_def split: if_splits)

lemma demo_step_late: "qstep demo_stored demo_late"
  by (rule s_submit [of id_b])
    (simp add: demo_late_def demo_stored_eq submit_def get_job_def)

lemma demo_step_both: "qstep demo_late demo_both"
  by (rule s_submit [of id_a])
    (simp add: demo_both_def demo_late_eq submit_def get_job_def)

lemma demo_step_serving: "qstep demo_both demo_serving"
  unfolding demo_serving_def by (rule s_pick) (simp add: demo_both_eq demo_start_def)

lemma demo_reach:
  "reach qinit qstep demo_one" "reach qinit qstep demo_two" "reach qinit qstep demo_stored"
  "reach qinit qstep demo_late" "reach qinit qstep demo_both" "reach qinit qstep demo_serving"
proof -
  show 1: "reach qinit qstep demo_one" using demo_start_reach demo_step_one by (rule reach_step)
  show 2: "reach qinit qstep demo_two" using 1 demo_step_two by (rule reach_step)
  show 3: "reach qinit qstep demo_stored" using 2 demo_step_stored by (rule reach_step)
  show 4: "reach qinit qstep demo_late" using 3 demo_step_late by (rule reach_step)
  show 5: "reach qinit qstep demo_both" using 4 demo_step_both by (rule reach_step)
  show "reach qinit qstep demo_serving" using 5 demo_step_serving by (rule reach_step)
qed

end
