(* ===== verification/Queue_Status.thy ===== *)
theory Queue_Status
  imports Queue_Demo
begin

section \<open>Positions, estimates and status reports\<close>

text \<open>
  \<open>_get_position\<close> is a counting loop over the dictionary; its closed form is the number of
  queued jobs up to the job. From it: positions are exactly 1 to the number of queued jobs,
  each given once; a status report speaks of the caller's jobs only and does not depend on
  what other clients' jobs hold.
\<close>

lemma position_in_eq:
  "position_in q i n xs =
     (if i \<in> set xs \<and> has_status q QUEUED i
      then Some (n + int (length (filter (has_status q QUEUED) (takeWhile (\<lambda>k. k \<noteq> i) xs))) + 1)
      else None)"
proof (induction xs arbitrary: n)
  case Nil
  then show ?case by simp
next
  case (Cons x xs)
  show ?case
  proof (cases "store q x")
    case None
    then have "\<not> has_status q QUEUED x" by (simp add: has_status_def)
    then show ?thesis using Cons None by auto
  next
    case (Some j)
    then have "has_status q QUEUED x \<longleftrightarrow> status j = QUEUED" by (simp add: has_status_def)
    then show ?thesis using Cons Some by auto
  qed
qed

lemma get_position_eq:
  "get_position q i =
     (if i \<in> set (jobs q) \<and> has_status q QUEUED i
      then Some (int (length (filter (has_status q QUEUED) (takeWhile (\<lambda>k. k \<noteq> i) (jobs q)))) + 1)
      else None)"
  by (simp add: get_position_def position_in_eq)

definition queued_jobs :: "tqueue \<Rightarrow> str list" where
  "queued_jobs q = filter (has_status q QUEUED) (jobs q)"

text \<open>The position of a job is its index, from one, in the list of queued jobs.\<close>

lemma length_filter_takeWhile:
  assumes "n < length (filter P xs)" and "distinct xs"
  shows "length (filter P (takeWhile (\<lambda>k. k \<noteq> filter P xs ! n) xs)) = n"
  using assms
proof (induction xs arbitrary: n)
  case Nil
  then show ?case by simp
next
  case (Cons x xs)
  show ?case
  proof (cases "P x")
    case False
    then have "filter P xs ! n \<in> set xs"
      using Cons.prems(1) nth_mem by fastforce
    then show ?thesis using Cons False by auto
  next
    case True
    show ?thesis
    proof (cases n)
      case 0
      with True show ?thesis by simp
    next
      case (Suc m)
      then have "m < length (filter P xs)" using Cons.prems(1) True by simp
      moreover from this have "filter P xs ! m \<noteq> x"
        using Cons.prems(2) nth_mem by fastforce
      ultimately show ?thesis using Cons True Suc by auto
    qed
  qed
qed

lemma position_of_nth:
  assumes "distinct (jobs q)" and "n < length (queued_jobs q)"
  shows "get_position q (queued_jobs q ! n) = Some (int n + 1)"
proof -
  have "queued_jobs q ! n \<in> set (queued_jobs q)" using assms(2) by simp
  then have "queued_jobs q ! n \<in> set (jobs q)" "has_status q QUEUED (queued_jobs q ! n)"
    by (auto simp: queued_jobs_def)
  then show ?thesis
    using length_filter_takeWhile [of n "has_status q QUEUED" "jobs q"] assms
    by (simp add: get_position_eq queued_jobs_def)
qed

lemma position_Some_iff:
  assumes "distinct (jobs q)"
  shows "get_position q i = Some p \<longleftrightarrow>
    1 \<le> p \<and> nat (p - 1) < length (queued_jobs q) \<and> queued_jobs q ! nat (p - 1) = i"
proof
  assume p: "get_position q i = Some p"
  then have "i \<in> set (queued_jobs q)"
    by (auto simp: get_position_eq queued_jobs_def split: if_splits)
  then obtain n where n: "n < length (queued_jobs q)" "queued_jobs q ! n = i"
    by (auto simp: in_set_conv_nth)
  then have "p = int n + 1" using position_of_nth [OF assms n(1)] p by simp
  then show "1 \<le> p \<and> nat (p - 1) < length (queued_jobs q) \<and> queued_jobs q ! nat (p - 1) = i"
    using n by simp
next
  assume "1 \<le> p \<and> nat (p - 1) < length (queued_jobs q) \<and> queued_jobs q ! nat (p - 1) = i"
  then show "get_position q i = Some p"
    using position_of_nth [OF assms, of "nat (p - 1)"] by simp
qed

subsection \<open>Status reports\<close>

lemma job_values_status_count:
  "length (filter (\<lambda>j. status j = QUEUED) (job_values q)) = length (queued_jobs q)"
proof -
  have "length (filter (\<lambda>j. status j = QUEUED) (List.map_filter (store q) xs))
      = length (filter (has_status q QUEUED) xs)" for xs
    by (induction xs) (auto simp: has_status_def split: option.splits)
  then show ?thesis by (simp add: job_values_def queued_jobs_def)
qed

lemma total_queued_eq: "total_queued (get_queue_info q ident) = int (length (queued_jobs q))"
  by (simp add: get_queue_info_def job_values_status_count)

lemma job_info_cong:
  assumes "\<And>k. map_option status (store q' k) = map_option status (store q k)"
    and "jobs q' = jobs q" and "processing_times q' = processing_times q"
  shows "job_info_of q' j = job_info_of q j"
proof -
  have "has_status q' s k = has_status q s k" for s k
    using assms(1) [of k] by (auto simp: has_status_def split: option.splits)
  then have "has_status q' s = has_status q s" for s by blast
  moreover have "estimate_wait q' = estimate_wait q"
    by (simp add: estimate_wait_def fun_eq_iff assms(3))
  ultimately show ?thesis
    by (simp add: job_info_of_def get_position_eq assms(2))
qed

lemma filter_values_cong:
  assumes "\<And>k. map_option client_identity (s' k) = map_option client_identity (s k)"
    and "\<And>k j. s k = Some j \<Longrightarrow> client_identity j = ident \<Longrightarrow> s' k = s k"
  shows "filter (\<lambda>j. client_identity j = ident) (List.map_filter s' xs)
       = filter (\<lambda>j. client_identity j = ident) (List.map_filter s xs)"
proof (induction xs)
  case Nil
  then show ?case by simp
next
  case (Cons x xs)
  show ?case
  proof (cases "s x")
    case None
    then show ?thesis using Cons assms(1) [of x] by auto
  next
    case (Some j)
    then obtain j' where "s' x = Some j'" "client_identity j' = client_identity j"
      using assms(1) [of x] by auto
    then show ?thesis using Cons Some assms(2) [of x j] by auto
  qed
qed

lemma info_from_job:
  "info \<in> set (your_jobs (get_queue_info q ident)) \<longleftrightarrow>
   (\<exists>i j. i \<in> set (jobs q) \<and> store q i = Some j \<and> client_identity j = ident \<and> info = job_info_of q j)"
proof -
  have "j \<in> set (job_values q) \<longleftrightarrow> (\<exists>i \<in> set (jobs q). store q i = Some j)" for j
    by (simp add: job_values_def in_set_map_filter)
  then show ?thesis by (auto simp: get_queue_info_def)
qed

end
