(* ===== verification/Queue_Service.thy ===== *)
theory Queue_Service
  imports Queue_Status
begin

section \<open>Service to the end: retention, progress, shutdown\<close>

text \<open>
  On a disk from which the operating system lets the server remove its own files
  (\<open>locked = []\<close>), more holds in every reachable state: the worker never dies, a job that
  ended keeps no audio, its stream has its end marker, and its dictionary entry has a
  clean-up task. On such a disk the worker serves everything that waits.
\<close>

definition usual_init :: "tqueue \<Rightarrow> bool" where
  "usual_init q \<longleftrightarrow> qinit q \<and> locked (disk q) = []"

definition usual_step :: "tqueue \<Rightarrow> tqueue \<Rightarrow> bool" where
  "usual_step q q' \<longleftrightarrow> qstep q q' \<and> locked (disk q') = []"

subsection \<open>The stronger invariant\<close>

definition stored_file :: "tqueue \<Rightarrow> path \<Rightarrow> bool" where
  "stored_file q p \<longleftrightarrow> p \<noteq> [] \<and> (\<exists>m b. node_at (disk q) p = Some (RegFile m b))"

definition tidy_job :: "tqueue \<Rightarrow> str \<Rightarrow> job \<Rightarrow> bool" where
  "tidy_job q i j \<longleftrightarrow>
     (\<forall>p. audio_path j = Some p \<longrightarrow> stored_file q p)
   \<and> (terminal_status (status j) \<longrightarrow>
        audio_path j = None \<and> terminal_notified j \<and> (i \<in> set (jobs q) \<longrightarrow> cleanup_scheduled j))
   \<and> (cleanup_scheduled j \<and> i \<in> set (jobs q) \<and> worker_task q \<noteq> None \<longrightarrow> i \<in> set (cleanup_tasks q))"

definition tidy :: "tqueue \<Rightarrow> bool" where
  "tidy q \<longleftrightarrow>
     locked (disk q) = []
   \<and> (\<forall>e. worker_task q \<noteq> Some (WorkerOver (Some e)))
   \<and> (\<forall>i j. store q i = Some j \<longrightarrow> tidy_job q i j)
   \<and> (\<forall>i k a b p. store q i = Some a \<longrightarrow> store q k = Some b \<longrightarrow>
        audio_path a = Some p \<longrightarrow> audio_path b = Some p \<longrightarrow> i = k)"

definition service_ok :: "tqueue \<Rightarrow> bool" where
  "service_ok q \<longleftrightarrow> qinv q \<and> tidy q"

lemma tidyD: "tidy q \<Longrightarrow> store q i = Some j \<Longrightarrow> tidy_job q i j"
  by (simp add: tidy_def)

lemma tidy_discard_ok: "tidy q \<Longrightarrow> fst (discard_audio i q) = None"
proof (rule discard_audio_ok)
  fix j p assume t: "tidy q" and "store q i = Some j" "audio_path j = Some p"
  then have "stored_file q p" using tidyD by (auto simp: tidy_job_def)
  then show "p \<notin> set (locked (disk q)) \<and> \<not> is_dir (disk q) p"
    using t by (auto simp: stored_file_def is_dir_def tidy_def)
qed

lemma tidy_discard_keeps:
  assumes "tidy q" and "store q i = Some j" and "store q k = Some m" and "k \<noteq> i" and "audio_path m = Some p"
  shows "stored_file (q\<lparr>disk := disk (snd (discard_audio i q))\<rparr>) p"
proof -
  have "audio_path j \<noteq> Some p" using assms unfolding tidy_def by blast
  then have "node_at (disk (snd (discard_audio i q))) p = Some (RegFile r b)
      \<longleftrightarrow> node_at (disk q) p = Some (RegFile r b)" for r b
    using assms(2) by (intro discard_audio_keeps_files) simp
  moreover have "stored_file q p" using assms tidyD [OF assms(1,3)] by (simp add: tidy_job_def)
  ultimately show ?thesis by (simp add: stored_file_def)
qed

text \<open>One object changes, and the disk at most by the removal of its audio.\<close>

lemma tidy_rule:
  assumes t: "tidy q" and j: "store q i = Some j" and st: "store q' = (store q)(i \<mapsto> j')"
    and jobs: "jobs q' = jobs q"
    and dsk: "disk q' = disk q \<and> audio_path j' = audio_path j
              \<or> disk q' = disk (snd (discard_audio i q)) \<and> audio_path j' = None"
    and wrk: "\<And>e. worker_task q' \<noteq> Some (WorkerOver (Some e))"
      "worker_task q' \<noteq> None \<Longrightarrow> worker_task q \<noteq> None"
    and ended: "terminal_status (status j') \<Longrightarrow>
      audio_path j' = None \<and> terminal_notified j' \<and> (i \<in> set (jobs q) \<longrightarrow> cleanup_scheduled j')"
    and cl: "set (cleanup_tasks q) \<subseteq> set (cleanup_tasks q')"
      "cleanup_scheduled j' \<Longrightarrow> i \<in> set (jobs q) \<Longrightarrow> cleanup_scheduled j \<or> i \<in> set (cleanup_tasks q')"
  shows "tidy q'"
proof -
  have lk: "locked (disk q') = []" using t dsk by (auto simp: tidy_def)
  have files: "stored_file q' p" if "k \<noteq> i" "store q k = Some m" "audio_path m = Some p" for k m p
    using dsk tidy_discard_keeps [OF t j that(2,1,3)] tidyD [OF t that(2)] that(3)
    by (auto simp: stored_file_def tidy_job_def)
  have own: "stored_file q' p" if "audio_path j' = Some p" for p
    using dsk that tidyD [OF t j] by (auto simp: stored_file_def tidy_job_def)
  have "tidy_job q' k m" if m: "store q' k = Some m" for k m
  proof (cases "k = i")
    case True
    then show ?thesis
      using m st own ended cl wrk(2) jobs tidyD [OF t j] by (auto simp: tidy_job_def)
  next
    case False
    then have k: "store q k = Some m" using m st by simp
    show ?thesis
      using tidyD [OF t k] files [OF False k] cl(1) wrk(2) jobs by (auto simp: tidy_job_def)
  qed
  moreover have "a = b" if "store q' a = Some x" "store q' b = Some y" "audio_path x = Some p"
      "audio_path y = Some p" for a b x y p
  proof -
    have old: "\<exists>x'. store q c = Some x' \<and> audio_path x' = Some p" if "store q' c = Some z" "audio_path z = Some p" for c z
      using that st j dsk by (cases "c = i") auto
    show ?thesis using old [OF that(1,3)] old [OF that(2,4)] t unfolding tidy_def by blast
  qed
  ultimately show ?thesis using lk wrk(1) by (simp add: tidy_def)
qed

lemma tidy_upd_job:
  assumes "tidy q" and "store q i = Some j" and "audio_path (f j) = audio_path j"
    and "terminal_status (status (f j)) \<Longrightarrow> terminal_status (status j)"
    and "terminal_notified (f j) = terminal_notified j" "cleanup_scheduled (f j) = cleanup_scheduled j"
  shows "tidy (upd_job i f q)"
  using assms(2) by (rule tidy_rule [OF assms(1), where j' = "f j"])
    (use assms tidyD [OF assms(1,2)] in \<open>auto simp: tidy_def tidy_job_def\<close>)

lemma tidy_upd_running:
  assumes "tidy q" and "qinv q" and "task_running q i"
    and "\<And>j. audio_path (f j) = audio_path j" "\<And>j. terminal_notified (f j) = terminal_notified j"
      "\<And>j. cleanup_scheduled (f j) = cleanup_scheduled j"
    and "\<And>j. in_service (status j) \<Longrightarrow> \<not> terminal_status (status (f j))"
  shows "tidy (upd_job i f q)"
proof -
  obtain j where j: "store q i = Some j" "process_task j = Some Running"
    using assms(3) by (rule task_runningD)
  show ?thesis
    using running_facts [OF assms(2) j] assms by (intro tidy_upd_job [OF _ j(1)]) auto
qed

lemma tidy_pending: "tidy q \<Longrightarrow> tidy (q\<lparr>pending := ps\<rparr>)"
  unfolding tidy_def tidy_job_def stored_file_def by simp

subsection \<open>Preservation\<close>

lemma tidy_cancel:
  assumes t: "tidy q" and run: "cancel i q = (r, q')"
  shows "tidy q'"
  using run
proof (cases rule: cancel_effect)
  case idle
  with t show ?thesis by simp
next
  case (escaped j e)
  then have j: "store q i = Some j" by (simp add: get_job_store)
  have "fst (discard_audio i (upd_job i mark_cancelled q)) = fst (discard_audio i q)"
    using j by (auto simp: discard_audio_def mark_cancelled_def Let_def split: option.splits prod.splits)
  then have "fst (cancel i q) = Inr True"
    using tidy_discard_ok [OF t, of i] escaped(1,2)
    by (auto simp: cancel_def mark_cancelled_def [abs_def] split: prod.splits option.splits)
  with run escaped(3) show ?thesis by simp
next
  case (cancelled j)
  then have j: "store q i = Some j" by (simp add: get_job_store)
  show ?thesis
    by (rule tidy_rule [OF t j cancelled(4,5)])
      (use t cancelled in \<open>auto simp: tidy_def job_marks get_job_def split: if_splits\<close>)
qed

lemma tidy_settle:
  assumes t: "tidy q" and inv: "qinv q" and aw: "awaits q i" and j: "store q i = Some j"
  shows "tidy (worker_settle i st now r q)"
proof -
  define w where "w = (if r = TaskCancelled \<and> \<not> cancel_requested j then WorkerOver None else WaitPending)"
  define q1 where "q1 = upd_job i (settle_job r) q"
  define q' where "q' = worker_finally i st now w q1"
  have run: "worker_settle i st now r q = q'"
    using j by (simp add: worker_settle_def q'_def w_def q1_def)
  have j1: "store q1 i = Some (settle_job r j)" using j by (simp add: q1_def)
  have base: "(store q1)(i \<mapsto> x) = (store q)(i \<mapsto> x)" "jobs q1 = jobs q"
    "cleanup_tasks q1 = cleanup_tasks q" for x by (simp_all add: q1_def)
  have cs: "cleanup_scheduled (settle_job r j) = cleanup_scheduled j"
    "audio_path (settle_job r j) = audio_path j"
    by (auto simp: settle_job_def split: task_result.splits)
  have dd: "fst (discard_audio i q1) = fst (discard_audio i q)"
    "disk (snd (discard_audio i q1)) = disk (snd (discard_audio i q))"
    using j cs(2) by (auto simp: q1_def discard_audio_def Let_def split: option.splits prod.splits)
  have wk: "worker_task q \<noteq> None" using aw by (auto simp: awaits_def split: option.splits)
  have jq: "jobs q' = jobs q" by (simp add: q'_def q1_def)
  have ww: "w \<noteq> WorkerOver (Some e)" for e by (simp add: w_def)
  have "tidy q'"
    using j1 q'_def
  proof (cases rule: worker_finally_effect)
    case (escaped e)
    then show ?thesis using tidy_discard_ok [OF t, of i] dd by simp
  next
    case finished
    show ?thesis
      by (rule tidy_rule [OF t j finished(3) [unfolded base] jq])
        (use finished dd cs wk ww base in \<open>auto simp: job_marks end_task_def\<close>)
  next
    case popped
    show ?thesis
      by (rule tidy_rule [OF t j popped(3) [unfolded base] jq])
        (use popped dd cs wk ww base in \<open>auto simp: job_marks end_task_def\<close>)
  qed
  then show ?thesis by (simp add: run)
qed

lemma tidy_resume: "tidy q \<Longrightarrow> qinv q \<Longrightarrow> tidy (worker_resume now q)"
  using tidy_settle [of q]
  by (auto simp: worker_resume_def awaits_def split: option.splits worker.splits task.splits)

lemma tidy_cleanup:
  assumes t: "tidy q" and inv: "qinv q" and mem: "i \<in> set (cleanup_tasks q)"
  shows "tidy (snd (cleanup_job i q))"
proof -
  define q1 where "q1 = q\<lparr>cleanup_tasks := remove1 i (cleanup_tasks q), jobs := remove1 i (jobs q)\<rparr>"
  have d: "distinct (jobs q)" using inv by (simp add: qinv_def queue_ok_def)
  obtain j where j: "store q i = Some j" "cleanup_scheduled j"
    using inv mem by (auto simp: qinv_def queue_ok_def)
  then have "terminal_status (status j)" using qinvD [OF inv j(1)] by (simp add: job_ok_def)
  then have "audio_path j = None" using tidyD [OF t j(1)] by (simp add: tidy_job_def)
  then have "snd (discard_audio i q1) = q1" using j by (simp add: discard_audio_def q1_def)
  moreover have "tidy q1"
    using t d unfolding tidy_def tidy_job_def stored_file_def by (auto simp: q1_def)
  ultimately show ?thesis by (simp add: cleanup_job_def q1_def Let_def)
qed

lemma tidy_pick:
  assumes t: "tidy q" and inv: "qinv q" and idle: "worker_task q = Some WaitPending"
  shows "tidy (worker_pick now q)"
proof (cases "pending q")
  case Nil
  with t show ?thesis by (simp add: worker_pick_def)
next
  case (Cons i rest)
  have hp: "has_process_fn q" using inv by (simp add: qinv_def queue_ok_def)
  have shrink: "tidy (q\<lparr>pending := rest\<rparr>)" using t by (rule tidy_pending)
  show ?thesis
  proof (cases "get_job (q\<lparr>pending := rest\<rparr>) i")
    case None
    then show ?thesis using shrink Cons by (simp add: worker_pick_def)
  next
    case (Some j)
    then have j: "store q i = Some j" by (auto simp: get_job_def split: if_splits)
    show ?thesis
    proof (cases "status j = CANCELLED")
      case True
      then show ?thesis using shrink Cons Some by (simp add: worker_pick_def)
    next
      case False
      then have q': "worker_pick now q =
         (upd_job i (\<lambda>j. j\<lparr>status := PROCESSING, process_task := Some Running\<rparr>) (q\<lparr>pending := rest\<rparr>))
           \<lparr>worker_task := Some (Awaiting i now False)\<rparr>"
        using Cons Some hp by (simp add: worker_pick_def)
      show ?thesis
        unfolding q'
        by (rule tidy_rule [OF t j, where j' = "j\<lparr>status := PROCESSING, process_task := Some Running\<rparr>"])
          (use idle j tidyD [OF t j] in \<open>auto simp: tidy_job_def\<close>)
    qed
  qed
qed

lemma tidy_attach:
  assumes t: "tidy q" and j: "get_job q i = Some j" "status j = UPLOADING" "audio_path j = None"
    and f: "node_at (disk q) p = Some (RegFile m b)" "p \<noteq> []" "path_free q p"
  shows "tidy (attach_upload i p mime hw dur q)"
proof -
  have s: "store q i = Some j" using j by (simp add: get_job_store)
  let ?q = "attach_upload i p mime hw dur q"
  have frame: "disk ?q = disk q" "worker_task ?q = worker_task q" "jobs ?q = jobs q"
    "cleanup_tasks ?q = cleanup_tasks q" by (simp_all add: attach_upload_def)
  have st: "store ?q = (store q)(i \<mapsto> j\<lparr>audio_mime := mime, hotwords := hw, audio_path := Some p,
      audio_duration_seconds := dur\<rparr>)"
    by (simp add: attach_upload_def s)
  have "tidy_job ?q k a" if "store ?q k = Some a" for k a
    using that tidyD [OF t, of k] tidyD [OF t s] f j
    by (auto simp: st tidy_job_def stored_file_def frame split: if_splits)
  moreover have "a = c" if "store ?q a = Some x" "store ?q c = Some y" "audio_path x = Some r"
      "audio_path y = Some r" for a c x y r
    using that t f(3) unfolding tidy_def path_free_def st
    by (auto split: if_splits)
  ultimately show ?thesis using t by (simp add: tidy_def frame)
qed

lemma tidy_stop:
  assumes t: "tidy q"
  shows "tidy (stop_request q)" and "tidy (snd (stop_finish q))"
proof -
  have relabel: "tidy (q\<lparr>worker_task := w\<rparr>)"
    if "\<And>e. w \<noteq> Some (WorkerOver (Some e))" "worker_task q \<noteq> None" for w
    using t that unfolding tidy_def tidy_job_def stored_file_def by auto
  show "tidy (stop_request q)"
    using t by (auto simp: stop_request_def intro!: relabel tidy_upd_job
        split: option.splits worker.splits task.splits)
  have "tidy (q\<lparr>worker_task := None, cleanup_tasks := []\<rparr>)"
    using t unfolding tidy_def tidy_job_def stored_file_def by auto
  then show "tidy (snd (stop_finish q))"
    using t by (auto simp: stop_finish_def split: option.splits worker.splits)
qed

lemma tidy_reserve:
  assumes t: "tidy q" and inv: "qinv q" and fresh: "store q i = None"
    and run: "reserve (new_job i ident now) q = (None, q')"
  shows "tidy q'"
proof -
  have dom: "set (jobs q) \<subseteq> dom (store q)" using inv by (simp add: qinv_def queue_ok_def)
  have q': "q' = q\<lparr>store := (store q)(i \<mapsto> (new_job i ident now)\<lparr>status := UPLOADING\<rparr>), jobs := jobs q @ [i]\<rparr>"
    using reserve_effect [OF run _ dom] fresh by (simp add: new_job_def)
  show ?thesis
    using t fresh unfolding tidy_def tidy_job_def stored_file_def
    by (auto simp: q' new_job_def split: if_splits)
qed

lemma tidy_qstep:
  assumes t: "tidy q" and inv: "qinv q" and step: "qstep q q'" and lk: "locked (disk q') = []"
  shows "tidy q'"
  using step
proof cases
  case (s_submit i)
  then obtain j where j: "store q i = Some j" "status j = UPLOADING"
    and q': "q' = (upd_job i (\<lambda>j. j\<lparr>status := QUEUED\<rparr>) q)\<lparr>pending := pending q @ [i]\<rparr>"
    using submit_effect get_job_store by metis
  have "tidy (upd_job i (\<lambda>j. j\<lparr>status := QUEUED\<rparr>) q)" by (rule tidy_upd_job [OF t j(1)]) auto
  then show ?thesis unfolding q' by (rule tidy_pending)
next
  case (s_resume now)
  then show ?thesis
    using tidy_resume [OF t inv] by simp
next
  case (s_disk d)
  then show ?thesis
    using t lk unfolding tidy_def tidy_job_def stored_file_def by simp
next
  case (s_streaming i)
  then show ?thesis
    using t inv by (auto simp: proc_streaming_def intro!: tidy_upd_running)
next
  case (s_put i c)
  then show ?thesis
    using t inv by (auto simp: proc_put_def in_service_def intro!: tidy_upd_running)
next
  case (s_error i c)
  then show ?thesis
    using t inv by (auto simp: proc_error_def in_service_def intro!: tidy_upd_running)
next
  case (s_finish i r)
  then show ?thesis
    using t inv by (auto simp: proc_finish_def in_service_def intro!: tidy_upd_running)
next
  case (s_finish_cancelled i j r)
  then show ?thesis
    using t by (auto simp: proc_finish_def intro!: tidy_upd_job)
next
  case (s_take i j)
  then show ?thesis
    using t by (auto simp: take_chunk_def intro!: tidy_upd_job)
next
  case (s_reserve i ident now)
  then show ?thesis using tidy_reserve [OF t inv] by blast
next
  case (s_attach i j p m b mime hw dur)
  then show ?thesis using tidy_attach [OF t s_attach(2-7)] by simp
next
  case (s_describe i j mime hw)
  then show ?thesis
    using t by (auto simp: describe_upload_def get_job_store intro!: tidy_upd_job)
next
  case (s_cancel i r)
  then show ?thesis using tidy_cancel [OF t] by blast
next
  case (s_pick now)
  then show ?thesis using tidy_pick [OF t inv] by blast
next
  case (s_cleanup i)
  then show ?thesis using tidy_cleanup [OF t inv] by blast
next
  case s_stop_request
  then show ?thesis using tidy_stop [OF t] by blast
next
  case s_stop_finish
  then show ?thesis using tidy_stop [OF t] by blast
qed

interpretation service_runs: invariant_system usual_init usual_step service_ok
proof unfold_locales
  show "usual_init q \<Longrightarrow> service_ok q" for q
    using inv_qinit [of q]
    by (auto simp: usual_init_def service_ok_def tidy_def qinit_def make_queue_def
        start_worker_def set_process_fn_def split: if_splits)
  show "service_ok q \<Longrightarrow> usual_step q q' \<Longrightarrow> service_ok q'" for q q'
    using inv_qstep tidy_qstep by (auto simp: usual_step_def service_ok_def)
qed

lemmas reach_service = service_runs.reach_inv

subsection \<open>Progress: the worker serves what waits\<close>

text \<open>
  One round of the worker: it picks the front of the line; if that starts a process task, the
  task puts texts, may record an error, and ends, and the worker resumes. \<open>drain\<close> runs as many
  rounds as asked.
\<close>

type_synonym outcome = "str list \<times> str option \<times> task_result"

definition process_run :: "str \<Rightarrow> outcome \<Rightarrow> tqueue \<Rightarrow> tqueue" where
  "process_run i = (\<lambda>(ts, m, r) q.
     let q1 = fold (proc_put i) ts (if ts = [] then q else proc_streaming i q)
     in proc_finish i r (case m of None \<Rightarrow> q1 | Some e \<Rightarrow> proc_error i e q1))"

definition serve_round :: "(str \<Rightarrow> outcome) \<Rightarrow> rat \<Rightarrow> tqueue \<Rightarrow> tqueue" where
  "serve_round oc now q =
     (let q1 = worker_pick now q
      in case awaited q1 of None \<Rightarrow> q1 | Some i \<Rightarrow> worker_resume now (process_run i (oc i) q1))"

fun drain :: "(str \<Rightarrow> outcome) \<Rightarrow> rat \<Rightarrow> nat \<Rightarrow> tqueue \<Rightarrow> tqueue" where
  "drain oc now 0 q = q"
| "drain oc now (Suc n) q = drain oc now n (serve_round oc now q)"

text \<open>What the outcome makes of the job \<open>j\<close>.\<close>

definition served_as :: "outcome \<Rightarrow> job \<Rightarrow> job \<Rightarrow> bool" where
  "served_as = (\<lambda>(ts, m, r) j j'.
     status j' = (if r = Returned \<and> m = None then COMPLETED else FAILED)
   \<and> error_message j' = (case r of Raised msg cls \<Rightarrow> Some (if msg \<noteq> [] then msg else cls) | _ \<Rightarrow> m)
   \<and> chunk_queue j' = chunk_queue j @ map Some ts @ [None] \<and> terminal_notified j' \<and> audio_path j' = None)"

lemma usual_running:
  assumes "task_running q i" and "locked (disk q) = []"
  shows "usual_step q (proc_streaming i q)" "usual_step q (proc_put i c q)" "usual_step q (proc_error i m q)"
    "r \<noteq> TaskCancelled \<Longrightarrow> usual_step q (proc_finish i r q)"
  using assms s_streaming s_put s_error s_finish
  by (simp_all add: usual_step_def) (simp_all add: segment_defs)

lemma running_store: "store q i = Some j \<Longrightarrow> process_task j = Some Running \<Longrightarrow> task_running q i"
  by (simp add: task_running_def)

lemma puts_run:
  assumes "store q i = Some j" "process_task j = Some Running" "locked (disk q) = []"
  shows "usual_step\<^sup>*\<^sup>* q (fold (proc_put i) ts q)
    \<and> fold (proc_put i) ts q = upd_job i (\<lambda>j. j\<lparr>chunk_queue := chunk_queue j @ map Some ts\<rparr>) q"
  using assms
proof (induction ts arbitrary: q j)
  case Nil
  have "(store q)(i \<mapsto> j\<lparr>chunk_queue := chunk_queue j\<rparr>) = store q" using Nil(1) by auto
  then show ?case using Nil(1) by (simp add: upd_job_def)
next
  case (Cons t ts)
  let ?q = "proc_put i t q"
  have q: "store ?q i = Some (j\<lparr>chunk_queue := chunk_queue j @ [Some t]\<rparr>)" "locked (disk ?q) = []"
    using Cons.prems by (simp_all add: proc_put_def)
  have "usual_step q ?q" using usual_running(2) [OF running_store [OF Cons.prems(1,2)] Cons.prems(3)] .
  then show ?case
    using Cons.IH [OF q(1) _ q(2)] Cons.prems by (auto simp: proc_put_def upd_job_def intro: converse_rtranclp_into_rtranclp)
qed

lemma process_run_effect:
  assumes j: "store q i = Some j" "process_task j = Some Running" and lk: "locked (disk q) = []" and r: "r \<noteq> TaskCancelled"
  shows "usual_step\<^sup>*\<^sup>* q (process_run i (ts, m, r) q)"
    and "store (process_run i (ts, m, r) q) = (store q)(i \<mapsto> j\<lparr>status := (if ts = [] then status j else STREAMING),
      chunk_queue := chunk_queue j @ map Some ts, error_message := (if m = None then error_message j else m),
      process_task := Some (Done r)\<rparr>)"
    and "worker_task (process_run i (ts, m, r) q) = worker_task q" "pending (process_run i (ts, m, r) q) = pending q"
proof -
  define q1 where "q1 = (if ts = [] then q else proc_streaming i q)"
  define j1 where "j1 = (if ts = [] then j else j\<lparr>status := STREAMING\<rparr>)"
  have 1: "usual_step\<^sup>*\<^sup>* q q1" "store q1 = (store q)(i \<mapsto> j1)" "process_task j1 = Some Running" "locked (disk q1) = []"
    "worker_task q1 = worker_task q" "pending q1 = pending q"
    using usual_running(1) [OF running_store [OF j] lk] j lk by (auto simp: q1_def j1_def proc_streaming_def)
  define q2 where "q2 = fold (proc_put i) ts q1"
  define j2 where "j2 = j1\<lparr>chunk_queue := chunk_queue j @ map Some ts\<rparr>"
  have "store q1 i = Some j1" using 1(2) by simp
  note p0 = puts_run [OF this 1(3,4), of ts, folded q2_def]
  have p: "usual_step\<^sup>*\<^sup>* q1 q2" "q2 = upd_job i (\<lambda>j. j\<lparr>chunk_queue := chunk_queue j @ map Some ts\<rparr>) q1"
    by (rule p0 [THEN conjunct1], rule p0 [THEN conjunct2])
  have 2: "store q2 = (store q)(i \<mapsto> j2)" "process_task j2 = Some Running" "locked (disk q2) = []"
    "worker_task q2 = worker_task q" "pending q2 = pending q"
    using p(2) 1 by (simp_all add: j2_def) (simp add: j1_def)
  define q3 where "q3 = (case m of None \<Rightarrow> q2 | Some e \<Rightarrow> proc_error i e q2)"
  define j3 where "j3 = (case m of None \<Rightarrow> j2 | Some e \<Rightarrow> j2\<lparr>error_message := Some e\<rparr>)"
  have 3: "usual_step\<^sup>*\<^sup>* q2 q3" "store q3 = (store q)(i \<mapsto> j3)" "process_task j3 = Some Running" "locked (disk q3) = []"
    "worker_task q3 = worker_task q" "pending q3 = pending q"
    using usual_running(3) [OF running_store [of q2 i j2]] 2 by (auto simp: q3_def j3_def proc_error_def split: option.splits)
  have run: "process_run i (ts, m, r) q = proc_finish i r q3" by (simp only: process_run_def prod.case Let_def q3_def q2_def q1_def)
  have "usual_step q3 (proc_finish i r q3)" using usual_running(4) [OF running_store [of q3 i j3]] 3 r by simp
  then show "usual_step\<^sup>*\<^sup>* q (process_run i (ts, m, r) q)" using 1(1) p(1) 3(1) by (simp add: run)
  show "store (process_run i (ts, m, r) q) = (store q)(i \<mapsto> j\<lparr>status := (if ts = [] then status j else STREAMING),
      chunk_queue := chunk_queue j @ map Some ts, error_message := (if m = None then error_message j else m),
      process_task := Some (Done r)\<rparr>)"
    using 3(2) by (auto simp: run proc_finish_def j3_def j2_def j1_def fun_eq_iff split: option.splits)
  show "worker_task (process_run i (ts, m, r) q) = worker_task q" "pending (process_run i (ts, m, r) q) = pending q"
    using 3 by (simp_all add: run proc_finish_def)
qed

lemma usual_pick:
  "service_ok q \<Longrightarrow> worker_task q = Some WaitPending \<Longrightarrow> usual_step q (worker_pick now q)"
  using s_pick tidy_pick by (auto simp: usual_step_def service_ok_def tidy_def)

lemma pick_served:
  assumes inv: "qinv q" and p: "pending q = i # rest" and st: "has_status q QUEUED i"
  shows "worker_pick now q =
     (upd_job i (\<lambda>j. j\<lparr>status := PROCESSING, process_task := Some Running\<rparr>) (q\<lparr>pending := rest\<rparr>))
       \<lparr>worker_task := Some (Awaiting i now False)\<rparr>"
proof -
  have "has_process_fn q" using inv by (simp add: qinv_def queue_ok_def)
  moreover have "i \<in> set (jobs q)" using queued_iff_pending(2) [OF inv st] .
  ultimately show ?thesis
    using p st by (auto simp: worker_pick_def get_job_def has_status_def Let_def split: option.splits)
qed

lemma pick_skipped:
  assumes inv: "qinv q" and p: "pending q = i # rest" and st: "\<not> has_status q QUEUED i"
  shows "worker_pick now q = q\<lparr>pending := rest\<rparr>"
proof -
  have "status j = CANCELLED" if "store q i = Some j" for j
    using st qinvD [OF inv that] that p by (auto simp: job_ok_def has_status_def)
  then show ?thesis
    using p by (auto simp: worker_pick_def get_job_def Let_def split: option.split)
qed

text \<open>The segment after a finished task, on a disk that lets the audio go.\<close>

lemma resume_served:
  assumes ok: "service_ok q" and w: "worker_task q = Some (Awaiting i st False)"
    and j: "store q i = Some j" "process_task j = Some (Done r)" "r \<noteq> TaskCancelled" "\<not> terminal_notified j"
  shows "worker_task (worker_resume now q) = Some WaitPending"
    and "pending (worker_resume now q) = pending q"
    and "\<exists>j'. store (worker_resume now q) = (store q)(i \<mapsto> j') \<and> status j' = status (settle_job r j)
           \<and> error_message j' = error_message (settle_job r j)
           \<and> chunk_queue j' = chunk_queue j @ [None] \<and> terminal_notified j' \<and> audio_path j' = None"
proof -
  define q1 where "q1 = upd_job i (settle_job r) q"
  define q' where "q' = worker_finally i st now WaitPending q1"
  have run: "worker_resume now q = q'"
    using w j by (simp add: worker_resume_def worker_settle_def q'_def q1_def)
  have j1: "store q1 i = Some (settle_job r j)" using j by (simp add: q1_def)
  have base: "(store q1)(i \<mapsto> x) = (store q)(i \<mapsto> x)" for x by (simp add: q1_def)
  have same: "audio_path (settle_job r j) = audio_path j" "chunk_queue (settle_job r j) = chunk_queue j"
    "terminal_notified (settle_job r j) = terminal_notified j"
    by (auto simp: settle_job_def split: task_result.splits)
  have dd: "fst (discard_audio i q1) = fst (discard_audio i q)"
    using j same(1) by (auto simp: q1_def discard_audio_def Let_def split: option.splits prod.splits)
  have none: "fst (discard_audio i q) = None"
    using ok by (simp add: service_ok_def tidy_discard_ok)
  show "pending (worker_resume now q) = pending q" by (simp add: run q'_def q1_def)
  show "worker_task (worker_resume now q) = Some WaitPending"
    using j1 q'_def unfolding run by (cases rule: worker_finally_effect) (use none dd in auto)
  show "\<exists>j'. store (worker_resume now q) = (store q)(i \<mapsto> j') \<and> status j' = status (settle_job r j)
      \<and> error_message j' = error_message (settle_job r j)
      \<and> chunk_queue j' = chunk_queue j @ [None] \<and> terminal_notified j' \<and> audio_path j' = None"
    using j1 q'_def unfolding run
    by (cases rule: worker_finally_effect) (use none dd same j(4) in \<open>auto simp: base job_marks end_task_def\<close>)
qed

lemma serve_round_effect:
  assumes ok: "service_ok q" and w: "worker_task q = Some WaitPending"
    and p: "pending q = i # rest" and oc: "\<And>k. snd (snd (oc k)) \<noteq> TaskCancelled"
  shows "usual_step\<^sup>*\<^sup>* q (serve_round oc now q)"
    and "pending (serve_round oc now q) = rest"
    and "worker_task (serve_round oc now q) = Some WaitPending"
    and "store q i = Some j \<Longrightarrow> status j = QUEUED \<Longrightarrow> \<exists>j'. store (serve_round oc now q) i = Some j' \<and> served_as (oc i) j j'"
    and "k \<noteq> i \<Longrightarrow> store (serve_round oc now q) k = store q k"
proof -
  have inv: "qinv q" using ok by (simp add: service_ok_def)
  have first: "usual_step q (worker_pick now q)" using ok w by (rule usual_pick)
  have "usual_step\<^sup>*\<^sup>* q (serve_round oc now q) \<and> pending (serve_round oc now q) = rest
    \<and> worker_task (serve_round oc now q) = Some WaitPending
    \<and> (\<forall>j. store q i = Some j \<and> status j = QUEUED \<longrightarrow> (\<exists>j'. store (serve_round oc now q) i = Some j' \<and> served_as (oc i) j j'))
    \<and> (k \<noteq> i \<longrightarrow> store (serve_round oc now q) k = store q k)"
  proof (cases "has_status q QUEUED i")
    case False
    then have "worker_pick now q = q\<lparr>pending := rest\<rparr>" using pick_skipped [OF inv p] by blast
    moreover from this have "serve_round oc now q = worker_pick now q"
      using w by (simp add: serve_round_def awaited_def)
    ultimately show ?thesis using first w False by (auto simp: has_status_def)
  next
    case True
    then obtain j where j: "store q i = Some j" "status j = QUEUED"
      by (auto simp: has_status_def split: option.splits)
    obtain ts m r where o: "oc i = (ts, m, r)" by (cases "oc i")
    then have r: "r \<noteq> TaskCancelled" using oc [of i] by simp
    define q1 where "q1 = worker_pick now q"
    define q2 where "q2 = process_run i (ts, m, r) q1"
    have pk: "q1 = (upd_job i (\<lambda>j. j\<lparr>status := PROCESSING, process_task := Some Running\<rparr>)
        (q\<lparr>pending := rest\<rparr>))\<lparr>worker_task := Some (Awaiting i now False)\<rparr>"
      using pick_served [OF inv p True] by (simp add: q1_def)
    have round: "serve_round oc now q = worker_resume now q2"
      using pk o by (simp add: serve_round_def q2_def awaited_def flip: q1_def)
    have s1: "usual_step q q1" using first by (simp add: q1_def)
    then have lk: "locked (disk q1) = []" by (simp add: usual_step_def)
    have j1: "store q1 i = Some (j\<lparr>status := PROCESSING, process_task := Some Running\<rparr>)" by (simp add: pk j)
    note e = process_run_effect [OF j1 _ lk r, of ts m, folded q2_def, simplified]
    have ok2: "service_ok q2"
      using service_runs.steps_inv [OF _ ok, of q2] s1 e(1) by (blast intro: converse_rtranclp_into_rtranclp)
    define j2 where "j2 = j\<lparr>status := (if ts = [] then PROCESSING else STREAMING), chunk_queue := chunk_queue j @ map Some ts,
      error_message := (if m = None then error_message j else m), process_task := Some (Done r)\<rparr>"
    have w2: "worker_task q2 = Some (Awaiting i now False)" and st2: "store q2 = (store q)(i \<mapsto> j2)"
      and p2: "pending q2 = rest"
      using e(2-4) by (simp_all add: pk j2_def j)
    have j0: "error_message j = None" "\<not> terminal_notified j"
      using qinvD [OF inv j(1)] j(2) by (auto simp: job_ok_def)
    have "store q2 i = Some j2" "process_task j2 = Some (Done r)" "\<not> terminal_notified j2" by (simp_all add: st2) (simp_all add: j2_def j0)
    note res = resume_served [OF ok2 w2 this(1,2) r this(3), of now]
    have "service_ok (worker_resume now q2)"
      using ok2 inv_resume tidy_resume by (simp add: service_ok_def)
    then have s3: "usual_step q2 (worker_resume now q2)"
      using s_resume by (simp add: usual_step_def service_ok_def tidy_def)
    have "usual_step\<^sup>*\<^sup>* q (worker_resume now q2)"
      using s1 e(1) s3 by (meson converse_rtranclp_into_rtranclp rtranclp.rtrancl_into_rtrancl)
    moreover obtain j' where j': "store (worker_resume now q2) = (store q)(i \<mapsto> j')" "served_as (ts, m, r) j j'"
      using res(3) st2 r j0(1) by (cases r) (auto simp: served_as_def settle_job_def j2_def split: option.splits)
    ultimately show ?thesis
      using res(1,2) p2 round j o by auto
  qed
  then show "usual_step\<^sup>*\<^sup>* q (serve_round oc now q)"
    and "pending (serve_round oc now q) = rest"
    and "worker_task (serve_round oc now q) = Some WaitPending"
    and "store q i = Some j \<Longrightarrow> status j = QUEUED \<Longrightarrow> \<exists>j'. store (serve_round oc now q) i = Some j' \<and> served_as (oc i) j j'"
    and "k \<noteq> i \<Longrightarrow> store (serve_round oc now q) k = store q k"
    by blast+
qed

lemma drain_effect:
  assumes "service_ok q" and "worker_task q = Some WaitPending" and "\<And>k. snd (snd (oc k)) \<noteq> TaskCancelled"
  shows "usual_step\<^sup>*\<^sup>* q (drain oc now (length (pending q)) q)
    \<and> pending (drain oc now (length (pending q)) q) = []
    \<and> worker_task (drain oc now (length (pending q)) q) = Some WaitPending
    \<and> (\<forall>i. i \<notin> set (pending q) \<longrightarrow> store (drain oc now (length (pending q)) q) i = store q i)
    \<and> (\<forall>i j. store q i = Some j \<and> status j = QUEUED \<longrightarrow>
         (\<exists>j'. store (drain oc now (length (pending q)) q) i = Some j' \<and> served_as (oc i) j j'))"
  using assms
proof (induction "pending q" arbitrary: q)
  case Nil
  have "\<not> (store q i = Some j \<and> status j = QUEUED)" for i j
    using Nil queued_iff_pending(1) [of q i] by (auto simp: service_ok_def has_status_def)
  with Nil show ?case by auto
next
  case (Cons i rest)
  let ?q1 = "serve_round oc now q"
  note eff = serve_round_effect [OF Cons.prems(1,2) Cons.hyps(2) [symmetric], where oc = oc and now = now, OF Cons.prems(3)]
  have inv: "qinv q" using Cons.prems(1) by (simp add: service_ok_def)
  have d: "i \<notin> set rest"
    using inv Cons.hyps(2) by (metis distinct.simps(2) qinv_def queue_ok_def)
  have ok1: "service_ok ?q1" using service_runs.steps_inv [OF eff(1) Cons.prems(1)] .
  have IH: "usual_step\<^sup>*\<^sup>* ?q1 (drain oc now (length rest) ?q1)
    \<and> pending (drain oc now (length rest) ?q1) = []
    \<and> worker_task (drain oc now (length rest) ?q1) = Some WaitPending
    \<and> (\<forall>k. k \<notin> set rest \<longrightarrow> store (drain oc now (length rest) ?q1) k = store ?q1 k)
    \<and> (\<forall>k j. store ?q1 k = Some j \<and> status j = QUEUED \<longrightarrow>
         (\<exists>j'. store (drain oc now (length rest) ?q1) k = Some j' \<and> served_as (oc k) j j'))"
    using Cons.hyps(1) [of ?q1] eff(2,3) ok1 Cons.prems(3) by simp
  have dr: "drain oc now (length (pending q)) q = drain oc now (length rest) ?q1"
    by (simp flip: Cons.hyps(2))
  have "\<exists>j'. store (drain oc now (length rest) ?q1) k = Some j' \<and> served_as (oc k) j j'"
    if k: "store q k = Some j" "status j = QUEUED" for k j
  proof (cases "k = i")
    case True
    then show ?thesis using IH d eff(4) [of j] k by simp
  next
    case False
    then have "store ?q1 k = Some j" using k eff(5) [OF False] by simp
    then show ?thesis using IH k(2) by blast
  qed
  moreover have "store (drain oc now (length rest) ?q1) k = store q k" if "k \<notin> set (pending q)" for k
    using IH that eff(5) [of k] by (simp flip: Cons.hyps(2))
  ultimately show ?case
    using IH rtranclp_trans [OF eff(1)] by (simp add: dr)
qed

end
