(* ===== verification/Queue_Retention.thy ===== *)
theory Queue_Retention
  imports Queue_Service
begin

section \<open>What happens to a job's upload, on any disk\<close>

text \<open>
  \<open>discard_audio\<close> raises every \<open>OSError\<close> but a missing file. Here the disk may refuse the removal
  of any path at any time: what holds of the uploads even then, and how exactly a job ends.
\<close>

subsection \<open>The invariant without an assumption on the disk\<close>

definition held :: "tqueue \<Rightarrow> bool" where
  "held q \<longleftrightarrow>
     (\<forall>i j. store q i = Some j \<longrightarrow> (\<forall>p. audio_path j = Some p \<longrightarrow> stored_file q p)
        \<and> (terminal_status (status j) \<longrightarrow> audio_path j = None))
   \<and> (\<forall>i k a b p. store q i = Some a \<longrightarrow> store q k = Some b \<longrightarrow>
        audio_path a = Some p \<longrightarrow> audio_path b = Some p \<longrightarrow> i = k)
   \<and> (\<forall>e. worker_task q = Some (WorkerOver (Some e)) \<longrightarrow> e = OSErrorOther)"

lemma heldD:
  assumes "held q" "store q i = Some j"
  shows "audio_path j = Some p \<Longrightarrow> stored_file q p" "terminal_status (status j) \<Longrightarrow> audio_path j = None"
    "store q k = Some m \<Longrightarrow> audio_path j = Some p \<Longrightarrow> audio_path m = Some p \<Longrightarrow> i = k"
  using assms unfolding held_def by blast+

lemma held_rule:
  assumes h: "held q" and j: "store q i = Some j" and st: "store q' = (store q)(i \<mapsto> j')"
    and dsk: "disk q' = disk q \<and> audio_path j' = audio_path j
              \<or> disk q' = disk (snd (discard_audio i q)) \<and> audio_path j' = None"
    and wrk: "\<And>e. worker_task q' = Some (WorkerOver (Some e)) \<Longrightarrow> e = OSErrorOther"
    and ended: "terminal_status (status j') \<Longrightarrow> audio_path j' = None"
  shows "held q'"
proof -
  have files: "stored_file q' p" if k: "k \<noteq> i" "store q k = Some m" "audio_path m = Some p" for k m p
  proof -
    have "audio_path j \<noteq> Some p" using heldD(3) [OF h j k(2)] k(1,3) by blast
    then have "node_at (disk (snd (discard_audio i q))) p = Some (RegFile r b) \<longleftrightarrow> node_at (disk q) p = Some (RegFile r b)" for r b
      using j by (intro discard_audio_keeps_files) simp
    then show ?thesis using dsk heldD(1) [OF h k(2,3)] by (auto simp: stored_file_def)
  qed
  have own: "stored_file q' p" if "audio_path j' = Some p" for p
    using dsk that heldD(1) [OF h j] by (auto simp: stored_file_def)
  have old: "\<exists>x'. store q c = Some x' \<and> audio_path x' = Some p" if "store q' c = Some z" "audio_path z = Some p" for c z p
    using that st j dsk by (cases "c = i") auto
  have "c = d" if "store q' c = Some x" "store q' d = Some y" "audio_path x = Some p" "audio_path y = Some p" for c d x y p
    using old [OF that(1,3)] old [OF that(2,4)] heldD(3) [OF h] by blast
  moreover have "(audio_path m = Some p \<longrightarrow> stored_file q' p) \<and> (terminal_status (status m) \<longrightarrow> audio_path m = None)"
    if "store q' k = Some m" for k m p
    using that st files [of k m p] own [of p] ended heldD(2) [OF h, of k m] by (cases "k = i") auto
  ultimately show ?thesis unfolding held_def using wrk by blast
qed

lemma held_upd_job:
  assumes "held q" and "store q i = Some j" and "audio_path (f j) = audio_path j"
    and "terminal_status (status (f j)) \<Longrightarrow> terminal_status (status j)"
  shows "held (upd_job i f q)"
  using assms(2) by (rule held_rule [OF assms(1), where j' = "f j"])
    (use assms heldD(2) [OF assms(1,2)] in \<open>auto simp: held_def\<close>)

lemma held_upd_running:
  assumes "held q" and "qinv q" and "task_running q i"
    and "\<And>j. audio_path (f j) = audio_path j" "\<And>j. in_service (status j) \<Longrightarrow> \<not> terminal_status (status (f j))"
  shows "held (upd_job i f q)"
proof -
  obtain j where j: "store q i = Some j" "process_task j = Some Running" using assms(3) by (rule task_runningD)
  then have "in_service (status j)" using running_facts [OF assms(2)] by blast
  then show ?thesis using assms j by (intro held_upd_job [OF _ j(1)]) auto
qed

lemma held_frame:
  assumes "held q" "store q' = store q" "disk q' = disk q" "\<And>e. worker_task q' = Some (WorkerOver (Some e)) \<Longrightarrow> e = OSErrorOther"
  shows "held q'"
  using assms unfolding held_def stored_file_def by auto

subsection \<open>How a job ends\<close>

text \<open>The removal of a stored upload is refused exactly when its path is locked.\<close>

definition refused :: "tqueue \<Rightarrow> str \<Rightarrow> bool" where
  "refused q i \<longleftrightarrow> (\<exists>j p. store q i = Some j \<and> audio_path j = Some p \<and> p \<in> set (locked (disk q)))"

lemma discard_refused:
  assumes "held q"
  shows "fst (discard_audio i q) = (if refused q i then Some OSErrorOther else None)"
    and "refused q i \<Longrightarrow> disk (snd (discard_audio i q)) = disk q"
proof -
  have plain: "\<not> is_dir (disk q) p" "p \<noteq> []" if "store q i = Some j" "audio_path j = Some p" for j p
    using heldD(1) [OF assms that] by (auto simp: stored_file_def is_dir_def)
  show "fst (discard_audio i q) = (if refused q i then Some OSErrorOther else None)"
    "refused q i \<Longrightarrow> disk (snd (discard_audio i q)) = disk q"
    using plain by (auto simp: refused_def discard_audio_def unlink_def Let_def split: option.splits prod.splits if_splits)
qed

text \<open>The two ends of a job: with everything done, or with the \<open>OSError\<close> before the notification.\<close>

definition ends_job :: "tqueue \<Rightarrow> str \<Rightarrow> tqueue \<Rightarrow> bool" where
  "ends_job q i q' \<longleftrightarrow>
     (\<exists>a b. store q i = Some a \<and> store q' i = Some b \<and> audio_path b = None
      \<and> (if refused q i then terminal_notified b = terminal_notified a \<and> cleanup_scheduled b = cleanup_scheduled a
             \<and> disk q' = disk q
         else terminal_notified b \<and> (i \<in> set (jobs q') \<longrightarrow> cleanup_scheduled b)
             \<and> (\<forall>p. audio_path a = Some p \<longrightarrow> node_at (disk q') p = None)))"

lemma cancel_ends_job:
  assumes h: "held q" and run: "cancel i q = (r, q')" and j: "get_job q i = Some j" "\<not> terminal_status (status j)"
  shows "ends_job q i q'" "r = (if refused q i then Inl OSErrorOther else Inr True)" "held q'"
    "store q' = (store q)(i \<mapsto> (if refused q i then id else mark_cleanup \<circ> mark_notified) (forget_audio (mark_cancelled j)))"
    "jobs q' = jobs q"
proof -
  have s: "store q i = Some j" using j(1) by (simp add: get_job_store)
  define q1 where "q1 = upd_job i mark_cancelled q"
  have dd: "fst (discard_audio i q1) = fst (discard_audio i q)"
    using s by (auto simp: q1_def discard_audio_def mark_cancelled_def Let_def split: option.splits prod.splits)
  have r: "r = (if refused q i then Inl OSErrorOther else Inr True)"
    using run j discard_refused(1) [OF h, of i] dd
    by (auto simp: cancel_def q1_def mark_cancelled_def [abs_def] split: prod.splits option.splits if_splits)
  have gone: "node_at (disk (snd (discard_audio i q))) p = None" if "\<not> refused q i" "audio_path j = Some p" for p
    using discard_audio_removes [OF s that(2)] discard_refused(1) [OF h, of i] that(1) by simp
  have "ends_job q i q' \<and> store q' = (store q)(i \<mapsto> (if refused q i then id else mark_cleanup \<circ> mark_notified) (forget_audio (mark_cancelled j)))
      \<and> jobs q' = jobs q \<and> held q'"
    using run
  proof (cases rule: cancel_effect)
    case idle
    then show ?thesis using j by blast
  next
    case (escaped j' e)
    then have e: "j' = j" "refused q i" using j r by (auto split: if_splits)
    have "held q'"
      by (rule held_rule [OF h s escaped(4) [unfolded e(1)]])
        (use escaped h in \<open>auto simp: held_def job_marks\<close>)
    then show ?thesis using escaped e s discard_refused(2) [OF h e(2)] by (auto simp: ends_job_def job_marks)
  next
    case (cancelled j')
    then have e: "j' = j" "\<not> refused q i" using j r by (auto split: if_splits)
    have "held q'"
      by (rule held_rule [OF h s cancelled(4) [unfolded e(1)]])
        (use cancelled h in \<open>auto simp: held_def job_marks\<close>)
    then show ?thesis using cancelled e s gone by (auto simp: ends_job_def job_marks)
  qed
  then show "ends_job q i q'" "held q'" "jobs q' = jobs q"
    "store q' = (store q)(i \<mapsto> (if refused q i then id else mark_cleanup \<circ> mark_notified) (forget_audio (mark_cancelled j)))"
    by blast+
  show "r = (if refused q i then Inl OSErrorOther else Inr True)" by (fact r)
qed

lemma settle_ends:
  assumes h: "held q" and j: "store q i = Some j"
  shows "ends_job q i (worker_settle i st now r q)" "held (worker_settle i st now r q)"
    "\<exists>b. store (worker_settle i st now r q) = (store q)(i \<mapsto> b) \<and> status b = status (settle_job r j)"
proof -
  define w where "w = (if r = TaskCancelled \<and> \<not> cancel_requested j then WorkerOver None else WaitPending)"
  define q1 where "q1 = upd_job i (settle_job r) q"
  define q' where "q' = worker_finally i st now w q1"
  have run: "worker_settle i st now r q = q'" using j by (simp add: worker_settle_def q'_def w_def q1_def)
  have j1: "store q1 i = Some (settle_job r j)" using j by (simp add: q1_def)
  have base: "(store q1)(i \<mapsto> x) = (store q)(i \<mapsto> x)" "cleanup_tasks q1 = cleanup_tasks q" for x by (simp_all add: q1_def)
  have same: "audio_path (settle_job r j) = audio_path j" "terminal_notified (settle_job r j) = terminal_notified j"
    "cleanup_scheduled (settle_job r j) = cleanup_scheduled j"
    by (auto simp: settle_job_def split: task_result.splits)
  have dd: "fst (discard_audio i q1) = fst (discard_audio i q)"
    "disk (snd (discard_audio i q1)) = disk (snd (discard_audio i q))"
    using j same(1) by (auto simp: q1_def discard_audio_def Let_def split: option.splits prod.splits)
  have gone: "node_at (disk (snd (discard_audio i q))) p = None" if "\<not> refused q i" "audio_path j = Some p" for p
    using discard_audio_removes [OF j that(2)] discard_refused(1) [OF h, of i] that(1) by simp
  have ww: "w \<noteq> WorkerOver (Some e)" for e by (simp add: w_def)
  have jq: "jobs q' = jobs q" by (simp add: q'_def q1_def)
  have "ends_job q i q' \<and> held q' \<and> (\<exists>b. store q' = (store q)(i \<mapsto> b) \<and> status b = status (settle_job r j))"
    using j1 q'_def
  proof (cases rule: worker_finally_effect)
    case (escaped e)
    then have e: "refused q i" "e = OSErrorOther" using dd discard_refused(1) [OF h, of i] by (simp_all split: if_splits)
    have "held q'"
      by (rule held_rule [OF h j escaped(2) [unfolded base]]) (use escaped e dd in \<open>auto simp: job_marks end_task_def\<close>)
    then show ?thesis using escaped e same j dd discard_refused(2) [OF h e(1)] base by (auto simp: ends_job_def job_marks end_task_def)
  next
    case finished
    then have n: "\<not> refused q i" using dd discard_refused(1) [OF h, of i] by (simp split: if_splits)
    have "held q'"
      by (rule held_rule [OF h j finished(3) [unfolded base]]) (use finished dd ww in \<open>auto simp: job_marks end_task_def\<close>)
    then show ?thesis using finished n same j dd gone base by (auto simp: ends_job_def job_marks end_task_def)
  next
    case popped
    then have n: "\<not> refused q i" using dd discard_refused(1) [OF h, of i] by (simp split: if_splits)
    have "held q'"
      by (rule held_rule [OF h j popped(3) [unfolded base]]) (use popped dd ww in \<open>auto simp: job_marks end_task_def\<close>)
    then show ?thesis using popped n same j dd gone base jq by (auto simp: ends_job_def job_marks end_task_def q1_def)
  qed
  then show "ends_job q i (worker_settle i st now r q)" "held (worker_settle i st now r q)"
    "\<exists>b. store (worker_settle i st now r q) = (store q)(i \<mapsto> b) \<and> status b = status (settle_job r j)"
    by (simp_all add: run)
qed

text \<open>What the worker's next segment is: nothing, or the end of the job it awaits.\<close>

lemma resume_cases:
  obtains "worker_resume now q = q"
  | k st mc r j where "worker_task q = Some (Awaiting k st mc)" "store q k = Some j" "process_task j = Some (Done r)"
      "worker_resume now q = worker_settle k st now (if mc then TaskCancelled else r) q"
proof (cases "worker_resume now q = q")
  case False
  then obtain k st mc j r where "worker_task q = Some (Awaiting k st mc)" "store q k = Some j" "process_task j = Some (Done r)"
      "worker_resume now q = worker_settle k st now (if mc then TaskCancelled else r) q"
    by (auto simp: worker_resume_def split: option.splits worker.splits task.splits)
  then show ?thesis by (rule that(2))
qed

subsection \<open>Every step\<close>

lemma held_pick:
  assumes h: "held q" and inv: "qinv q" and idle: "worker_task q = Some WaitPending"
  shows "held (worker_pick now q)"
proof -
  have hp: "has_process_fn q" using inv by (simp add: qinv_def queue_ok_def)
  show ?thesis
  proof (cases "pending q")
    case (Cons i rest)
    have shrink: "held (q\<lparr>pending := rest\<rparr>)" using h by (rule held_frame) (simp_all add: idle)
    show ?thesis
    proof (cases "get_job (q\<lparr>pending := rest\<rparr>) i")
      case None
      then show ?thesis using shrink Cons by (simp add: worker_pick_def)
    next
      case (Some j)
      then have j: "store q i = Some j" by (auto simp: get_job_def split: if_splits)
      show ?thesis
      proof (cases "status j = CANCELLED")
        case True
        then show ?thesis using shrink Cons Some by (simp add: worker_pick_def)
      next
        case False
        then have q': "worker_pick now q =
           (upd_job i (\<lambda>j. j\<lparr>status := PROCESSING, process_task := Some Running\<rparr>) (q\<lparr>pending := rest\<rparr>))
             \<lparr>worker_task := Some (Awaiting i now False)\<rparr>"
          using Cons Some hp by (simp add: worker_pick_def)
        show ?thesis
          unfolding q' by (rule held_rule [OF h j, where j' = "j\<lparr>status := PROCESSING, process_task := Some Running\<rparr>"]) (use j in auto)
      qed
    qed
  qed (use h in \<open>simp add: worker_pick_def\<close>)
qed

lemma held_qstep:
  assumes h: "held q" and inv: "qinv q" and step: "qstep q q'"
  shows "held q'"
  using step
proof cases
  case (s_reserve i ident now)
  have dom: "set (jobs q) \<subseteq> dom (store q)" using inv by (simp add: qinv_def queue_ok_def)
  have "q' = q\<lparr>store := (store q)(i \<mapsto> (new_job i ident now)\<lparr>status := UPLOADING\<rparr>), jobs := jobs q @ [i]\<rparr>"
    using reserve_effect [OF s_reserve(2) _ dom] s_reserve(1) by (simp add: new_job_def)
  then show ?thesis using h unfolding held_def stored_file_def by (auto simp: new_job_def split: if_splits)
next
  case (s_attach i j p m b mime hw dur)
  then have j: "store q i = Some j" by (simp add: get_job_store)
  then show ?thesis
    using s_attach h unfolding held_def stored_file_def attach_upload_def path_free_def by (auto split: if_splits)
next
  case (s_submit i)
  then obtain j where j: "store q i = Some j" "status j = UPLOADING"
    and q': "q' = (upd_job i (\<lambda>j. j\<lparr>status := QUEUED\<rparr>) q)\<lparr>pending := pending q @ [i]\<rparr>"
    using submit_effect get_job_store by metis
  have "held (upd_job i (\<lambda>j. j\<lparr>status := QUEUED\<rparr>) q)" by (rule held_upd_job [OF h j(1)]) auto
  then show ?thesis unfolding q' by (rule held_frame) (use h in \<open>auto simp: held_def\<close>)
next
  case (s_cancel i r)
  show ?thesis
  proof (cases "\<exists>j. get_job q i = Some j \<and> \<not> terminal_status (status j)")
    case True
    then show ?thesis using cancel_ends_job(3) [OF h s_cancel] by blast
  next
    case False
    then show ?thesis using s_cancel h by (auto simp: cancel_def split: option.splits if_splits)
  qed
next
  case (s_pick now)
  then show ?thesis using held_pick [OF h inv] by simp
next
  case (s_resume now)
  then show ?thesis using resume_cases [of now q] h settle_ends(2) [OF h] by metis
next
  case (s_cleanup i)
  define q1 where "q1 = q\<lparr>cleanup_tasks := remove1 i (cleanup_tasks q), jobs := remove1 i (jobs q)\<rparr>"
  have h1: "held q1" using h by (rule held_frame) (use h in \<open>auto simp: q1_def held_def\<close>)
  obtain j where j: "store q i = Some j" "cleanup_scheduled j" using inv s_cleanup(2) by (auto simp: qinv_def queue_ok_def)
  then have "terminal_status (status j)" using qinvD [OF inv j(1)] by (simp add: job_ok_def)
  then have "snd (discard_audio i q1) = q1" using j heldD(2) [OF h] by (simp add: discard_audio_def q1_def)
  then show ?thesis using h1 s_cleanup by (simp add: cleanup_job_def q1_def Let_def)
next
  case s_stop_request
  then show ?thesis
    using h by (auto simp: stop_request_def intro!: held_frame [OF h] held_upd_job [OF h]
        split: option.splits worker.splits task.splits)
next
  case s_stop_finish
  then show ?thesis using h by (auto simp: stop_finish_def intro!: held_frame [OF h] split: option.splits worker.splits)
next
  case (s_disk d)
  then show ?thesis using h unfolding held_def stored_file_def by simp
next
  case (s_describe i j mime hw)
  then show ?thesis using h by (auto simp: describe_upload_def get_job_store intro!: held_upd_job)
next
  case (s_take i j)
  then show ?thesis using h by (auto simp: take_chunk_def intro!: held_upd_job)
next
  case (s_finish_cancelled i j r)
  then show ?thesis using h by (auto simp: proc_finish_def intro!: held_upd_job)
qed (use h inv in \<open>auto simp: proc_streaming_def proc_put_def proc_error_def proc_finish_def in_service_def intro!: held_upd_running\<close>)

interpretation held_runs: invariant_system qinit qstep "\<lambda>q. qinv q \<and> held q"
proof unfold_locales
  show "qinit q \<Longrightarrow> qinv q \<and> held q" for q
    using inv_qinit [of q]
    by (auto simp: held_def qinit_def make_queue_def start_worker_def set_process_fn_def split: if_splits)
  show "qinv q \<and> held q \<Longrightarrow> qstep q q' \<Longrightarrow> qinv q' \<and> held q'" for q q'
    using inv_qstep held_qstep by blast
qed

lemmas reach_held = held_runs.reach_inv

text \<open>Only a cancellation and the worker's segment after a task end a job.\<close>

lemma step_ends_job:
  assumes h: "held q" and inv: "qinv q" and step: "qstep q q'"
    and a: "store q i = Some a" "\<not> terminal_status (status a)" and b: "store q' i = Some b" "terminal_status (status b)"
  shows "ends_job q i q'"
  using step
proof cases
  case (s_reserve k ident now)
  then show ?thesis using a b by (auto simp: reserve_def new_job_def split: if_splits)
next
  case (s_submit k)
  then show ?thesis using a b by (auto simp: submit_def split: option.splits if_splits)
next
  case (s_cancel k r)
  show ?thesis
  proof (cases "\<exists>j. get_job q k = Some j \<and> \<not> terminal_status (status j)")
    case True
    then obtain j where j: "get_job q k = Some j" "\<not> terminal_status (status j)" by blast
    have "k = i" using cancel_ends_job(4) [OF h s_cancel j] a b by (auto split: if_splits)
    then show ?thesis using cancel_ends_job(1) [OF h s_cancel j] by simp
  next
    case False
    then have "q' = q" using s_cancel by (auto simp: cancel_def split: option.splits if_splits)
    then show ?thesis using a b by simp
  qed
next
  case (s_pick now)
  have "has_process_fn q" using inv by (simp add: qinv_def queue_ok_def)
  then show ?thesis
    using s_pick a b by (auto simp: worker_pick_def Let_def get_job_def split: list.splits option.splits if_splits)
next
  case (s_resume now)
  show ?thesis
  proof (rule resume_cases [of now q])
    assume "worker_resume now q = q"
    then show ?thesis using s_resume a b by simp
  next
    fix k st mc r j
    assume k: "worker_task q = Some (Awaiting k st mc)" "store q k = Some j" "process_task j = Some (Done r)"
      "worker_resume now q = worker_settle k st now (if mc then TaskCancelled else r) q"
    have "k = i" using settle_ends(3) [OF h k(2), of st now "if mc then TaskCancelled else r"] s_resume k(4) a b by (auto split: if_splits)
    then show ?thesis using settle_ends(1) [OF h k(2)] s_resume k(4) by simp
  qed
next
  case (s_cleanup k)
  then show ?thesis using a b by (auto simp: cleanup_job_def Let_def forget_audio_def split: if_splits)
next
  case s_stop_request
  then show ?thesis using a b by (auto simp: stop_request_def split: option.splits worker.splits task.splits if_splits)
next
  case s_stop_finish
  then show ?thesis using a b by (auto simp: stop_finish_def split: option.splits worker.splits)
qed (use a b in \<open>auto simp: segment_defs split: if_splits\<close>)

end
