(* ===== verification/Queue_Theorems.thy ===== *)
theory Queue_Theorems
  imports Queue_Retention
begin

section \<open>The properties of the queue, with witnesses\<close>

text \<open>
  The statements about \<open>server/queue.py\<close> as a reader of the code would put them, each over
  every reachable state (\<open>reach qinit qstep\<close>) or, where it says so, over the states reached while
  the disk refused no removal (\<open>reach usual_init usual_step\<close>).
\<close>

lemma reach_weaken: "reach usual_init usual_step q \<Longrightarrow> reach qinit qstep q"
  by (induction rule: reach.induct)
    (auto simp: usual_init_def usual_step_def intro: reach_init reach_step)

subsection \<open>The demonstration run on an unlocked disk\<close>

definition demo_cancelled :: tqueue where
  "demo_cancelled = snd (cancel id_a demo_serving)"

lemma demo_unlocked:
  "locked (disk demo_start) = []" "locked (disk demo_one) = []" "locked (disk demo_two) = []"
  "locked (disk demo_stored) = []" "locked (disk demo_late) = []" "locked (disk demo_both) = []"
  "locked (disk demo_serving) = []"
  by (simp_all add: demo_eqs) (simp_all add: demo_start_def demo_fs_def)

lemma demo_usual:
  "reach usual_init usual_step demo_stored" "reach usual_init usual_step demo_both"
  "reach usual_init usual_step demo_serving"
proof -
  have 0: "reach usual_init usual_step demo_start"
    by (rule reach_init) (simp add: usual_init_def demo_start_init demo_unlocked)
  have 1: "reach usual_init usual_step demo_one"
    by (rule reach_step [OF 0]) (simp add: usual_step_def demo_step_one demo_unlocked)
  have 2: "reach usual_init usual_step demo_two"
    by (rule reach_step [OF 1]) (simp add: usual_step_def demo_step_two demo_unlocked)
  show 3: "reach usual_init usual_step demo_stored"
    by (rule reach_step [OF 2]) (simp add: usual_step_def demo_step_stored demo_unlocked)
  have 4: "reach usual_init usual_step demo_late"
    by (rule reach_step [OF 3]) (simp add: usual_step_def demo_step_late demo_unlocked)
  show 5: "reach usual_init usual_step demo_both"
    by (rule reach_step [OF 4]) (simp add: usual_step_def demo_step_both demo_unlocked)
  show "reach usual_init usual_step demo_serving"
    by (rule reach_step [OF 5]) (simp add: usual_step_def demo_step_serving demo_unlocked)
qed

lemma demo_cancelled_step: "usual_step demo_serving demo_cancelled"
proof -
  obtain r q' where c: "cancel id_a demo_serving = (r, q')" by fastforce
  have ok: "service_ok demo_serving" using reach_service demo_usual(3) .
  have "tidy q'" using tidy_cancel [OF _ c] ok by (simp add: service_ok_def)
  then show ?thesis
    using s_cancel [OF c] c by (simp add: usual_step_def demo_cancelled_def tidy_def)
qed

lemma demo_cancelled_reach: "reach usual_init usual_step demo_cancelled"
  using demo_usual(3) demo_cancelled_step by (rule reach_step)

lemma demo_store_simps:
  "store demo_serving id_a = Some (job_a\<lparr>status := QUEUED\<rparr>)"
  "store demo_serving id_b = Some (job_b\<lparr>status := PROCESSING, process_task := Some Running\<rparr>)"
  "jobs demo_serving = [id_a, id_b]" "pending demo_serving = [id_a]"
  "worker_task demo_serving = Some (Awaiting id_b 2 False)"
  "store demo_both id_a = Some (job_a\<lparr>status := QUEUED\<rparr>)"
  "store demo_both id_b = Some (job_b\<lparr>status := QUEUED\<rparr>)"
  "jobs demo_both = [id_a, id_b]" "pending demo_both = [id_b, id_a]"
  "worker_task demo_both = Some WaitPending" "max_size demo_both = 2" "max_size demo_serving = 2"
  "processing_times demo_both = []" "processing_times demo_serving = []"
  by (simp_all add: demo_eqs demo_start_def)

lemma demo_cancelled_a:
  "\<exists>j. store demo_cancelled id_a = Some j \<and> status j = CANCELLED \<and> id_a \<in> set (jobs demo_cancelled)"
proof -
  obtain r q' where c: "cancel id_a demo_serving = (r, q')" by fastforce
  then have q': "q' = demo_cancelled" by (simp add: demo_cancelled_def)
  from c show ?thesis
    by (cases rule: cancel_effect)
      (auto simp: demo_store_simps q' job_marks get_job_def split: if_splits)
qed

subsection \<open>The effect of a cancellation and of the end of a task on an unlocked disk\<close>

lemma cancel_usual:
  assumes t: "tidy q" and g: "get_job q i = Some j" and l: "\<not> terminal_status (status j)"
  shows "fst (cancel i q) = Inr True"
    and "store (snd (cancel i q)) = (store q)(i \<mapsto> mark_cleanup (mark_notified (forget_audio (mark_cancelled j))))"
    and "jobs (snd (cancel i q)) = jobs q" "pending (snd (cancel i q)) = pending q"
    and "worker_task (snd (cancel i q)) = worker_task q" "max_size (snd (cancel i q)) = max_size q"
    and "disk (snd (cancel i q)) = disk (snd (discard_audio i q))"
proof -
  obtain r q' where c: "cancel i q = (r, q')" by fastforce
  have s: "store q i = Some j" using g by (simp add: get_job_store)
  have "fst (discard_audio i (upd_job i mark_cancelled q)) = fst (discard_audio i q)"
    using s by (auto simp: discard_audio_def mark_cancelled_def Let_def split: option.splits prod.splits)
  then have ok: "fst (cancel i q) = Inr True"
    using tidy_discard_ok [OF t, of i] g l
    by (auto simp: cancel_def mark_cancelled_def [abs_def] split: prod.splits option.splits)
  show "fst (cancel i q) = Inr True" by (fact ok)
  from c show "store (snd (cancel i q)) = (store q)(i \<mapsto> mark_cleanup (mark_notified (forget_audio (mark_cancelled j))))"
    and "jobs (snd (cancel i q)) = jobs q" "pending (snd (cancel i q)) = pending q"
    and "worker_task (snd (cancel i q)) = worker_task q" "max_size (snd (cancel i q)) = max_size q"
    and "disk (snd (cancel i q)) = disk (snd (discard_audio i q))"
    by (cases rule: cancel_effect; use ok g l c in simp)+
qed

definition final_job :: "tqueue \<Rightarrow> str \<Rightarrow> job \<Rightarrow> job" where
  "final_job q i j = (if i \<in> set (jobs q) then mark_cleanup else id) (mark_notified (forget_audio (end_task j)))"

lemma final_job_simps [simp]:
  "status (final_job q i j) = status j" "error_message (final_job q i j) = error_message j"
  "audio_path (final_job q i j) = None" "terminal_notified (final_job q i j)"
  "process_task (final_job q i j) = None"
  by (simp_all add: final_job_def job_marks end_task_def)

lemma resume_usual:
  assumes t: "tidy q" and w: "worker_task q = Some (Awaiting i st mc)"
    and j: "store q i = Some j" "process_task j = Some (Done r)"
    and r': "r' = (if mc then TaskCancelled else r)"
  shows "store (worker_resume now q) = (store q)(i \<mapsto> final_job q i (settle_job r' j))"
    and "worker_task (worker_resume now q) =
      Some (if r' = TaskCancelled \<and> \<not> cancel_requested j then WorkerOver None else WaitPending)"
    and "pending (worker_resume now q) = pending q" "jobs (worker_resume now q) = jobs q"
proof -
  define v where "v = (if r' = TaskCancelled \<and> \<not> cancel_requested j then WorkerOver None else WaitPending)"
  define q1 where "q1 = upd_job i (settle_job r') q"
  define q' where "q' = worker_finally i st now v q1"
  have run: "worker_resume now q = q'"
    using w j by (simp add: worker_resume_def worker_settle_def q'_def q1_def v_def r')
  have j1: "store q1 i = Some (settle_job r' j)" using j by (simp add: q1_def)
  have base: "(store q1)(i \<mapsto> x) = (store q)(i \<mapsto> x)" for x by (simp add: q1_def)
  have "audio_path (settle_job r' j) = audio_path j"
    by (auto simp: settle_job_def split: task_result.splits)
  then have dd: "fst (discard_audio i q1) = fst (discard_audio i q)"
    using j by (auto simp: q1_def discard_audio_def Let_def split: option.splits prod.splits)
  have none: "fst (discard_audio i q) = None" using t by (rule tidy_discard_ok)
  from j1 q'_def have "worker_task q' = Some v \<and> store q' = (store q)(i \<mapsto> final_job q i (settle_job r' j))"
    by (cases rule: worker_finally_effect) (use none dd in \<open>auto simp: base final_job_def q1_def\<close>)
  then show "store (worker_resume now q) = (store q)(i \<mapsto> final_job q i (settle_job r' j))"
    and "worker_task (worker_resume now q) =
      Some (if r' = TaskCancelled \<and> \<not> cancel_requested j then WorkerOver None else WaitPending)"
    and "pending (worker_resume now q) = pending q" "jobs (worker_resume now q) = jobs q"
    by (simp_all add: run v_def) (simp_all add: q'_def q1_def)
qed

subsection \<open>Contract and bounds\<close>

text \<open>C1. The queue implements the abstract bounded first-in first-out server: from any
  reachable state, every step of any component (a route reserving, submitting or cancelling,
  a segment of the worker or of the processing function, a clean-up, shutdown, the
  environment) is a step of the abstract server or leaves its state unchanged; and the load
  of the server never exceeds its capacity.\<close>

theorem queue_refines_fifo:
  assumes "reach qinit qstep q" and "qstep q q'"
  shows "(fifo_of q' = fifo_of q \<or> fifo_step (fifo_of q) (fifo_of q'))
         \<and> fifo_load (fifo_of q) \<le> f_cap (fifo_of q)"
proof -
  have inv: "qinv q" using reach_qinv assms(1) .
  then have "fifo_load (fifo_of q) \<le> f_cap (fifo_of q)"
    using active_count_fifo [OF inv] by (simp add: qinv_def queue_ok_def fifo_of_def)
  with refine_qstep [OF inv assms(2)] show ?thesis by blast
qed

lemma demo_fifo:
  "fifo_of demo_both = \<lparr>f_cap = 2, f_uploading = [], f_waiting = [id_b, id_a], f_serving = None\<rparr>"
  "fifo_of demo_serving = \<lparr>f_cap = 2, f_uploading = [], f_waiting = [id_a], f_serving = Some id_b\<rparr>"
  by (simp_all add: fifo_of_def demo_store_simps has_status_def awaited_def in_serviceq_def)

theorem queue_refines_fifo_witness:
  "fifo_step (fifo_of demo_both) (fifo_of demo_serving) \<and> f_serving (fifo_of demo_serving) = Some id_b"
  using queue_refines_fifo [OF demo_reach(5) demo_step_serving] by (simp add: demo_fifo)

text \<open>C14. Capacity: in every reachable state at most \<open>max_size\<close> jobs are uploading, queued or
  in service; when that many are, \<open>reserve\<close> raises \<open>QueueFull\<close> and changes nothing, and when
  fewer are, it accepts.\<close>

theorem queue_capacity:
  assumes "reach qinit qstep q"
  shows "1 \<le> max_size q \<and> active_count q \<le> max_size q
    \<and> reserve j q = (if active_count q = max_size q then (Some QueueFull, q)
                     else (None, snd (reserve j q)))"
  using reach_qinv [OF assms] by (auto simp: qinv_def queue_ok_def reserve_def)

theorem queue_capacity_witness:
  "active_count demo_both = 2 \<and> active_count demo_both \<le> max_size demo_both
   \<and> reserve (new_job (lit ''c'') ident_x 9) demo_both = (Some QueueFull, demo_both)"
  using queue_capacity [OF demo_reach(5), of "new_job (lit ''c'') ident_x 9"]
  by (simp add: active_count_def job_values_def demo_store_simps)

text \<open>C34. Single-request processing: in every reachable state at most one job is in
  \<open>PROCESSING\<close> or \<open>STREAMING\<close>, and it is the one whose process task the worker awaits.\<close>

theorem queue_single_service:
  assumes "reach qinit qstep q" and "store q i = Some a" and "in_service (status a)"
  shows "awaited q = Some i
    \<and> (\<forall>k b. store q k = Some b \<longrightarrow> in_service (status b) \<longrightarrow> k = i)"
proof -
  have ok: "job_ok q k b" if "store q k = Some b" for k b
    using qinvD [OF reach_qinv [OF assms(1)] that] .
  then have aw: "awaits q k" if "store q k = Some b" "in_service (status b)" for k b
    using that by (simp add: job_ok_def)
  then show ?thesis using assms(2,3) awaits_unique by (metis awaits_awaited)
qed

theorem queue_single_service_witness:
  "awaited demo_serving = Some id_b"
  using queue_single_service [OF demo_reach(6) demo_store_simps(2)]
  by (simp add: in_service_def)

text \<open>No queued job is forgotten: in every reachable state a job in \<open>QUEUED\<close> is in the
  dictionary and exactly once in the worker's pending list, and has a position.\<close>

theorem queue_no_job_forgotten:
  assumes "reach qinit qstep q" and "store q i = Some j" and "status j = QUEUED"
  shows "i \<in> set (jobs q) \<and> count_list (pending q) i = 1 \<and> get_position q i \<noteq> None"
proof -
  have inv: "qinv q" using reach_qinv assms(1) .
  have st: "has_status q QUEUED i" using assms by (simp add: has_status_def)
  have "i \<in> set (pending q)" and "distinct (pending q)"
    using queued_iff_pending(1) [OF inv, of i] st inv by (auto simp: qinv_def queue_ok_def)
  then have "count_list (pending q) i = 1" by (simp add: count_list_distinct)
  then show ?thesis using queued_iff_pending(2) [OF inv st] st by (simp add: get_position_eq)
qed

theorem queue_no_job_forgotten_witness:
  "id_a \<in> set (jobs demo_serving) \<and> count_list (pending demo_serving) id_a = 1
   \<and> get_position demo_serving id_a \<noteq> None"
  by (rule queue_no_job_forgotten [OF demo_reach(6) demo_store_simps(1)]) simp

subsection \<open>Progress and the life of a job\<close>

text \<open>C18. Progress, on a disk that refuses no removal: whatever the processing functions do, an idle
  worker has a run that serves everything in the pending list. For each job its function may put
  any texts, record an error message or none, and return or raise anything but \<open>CancelledError\<close>
  (which would end the worker). Every job that was queued is then \<open>COMPLETED\<close> if its function
  returned and recorded no error, and \<open>FAILED\<close> otherwise, with the text of the exception (its
  class, when that is empty) or the recorded message; its chunk queue has got exactly the texts
  and the end marker, its audio is gone, and the worker waits again.\<close>

theorem queue_serves_waiting:
  assumes "reach usual_init usual_step q" and "worker_task q = Some WaitPending"
    and "\<And>k. snd (snd (oc k)) \<noteq> TaskCancelled"
  shows "\<exists>q'. usual_step\<^sup>*\<^sup>* q q' \<and> pending q' = [] \<and> worker_task q' = Some WaitPending
    \<and> (\<forall>i j texts m r. store q i = Some j \<and> status j = QUEUED \<and> oc i = (texts, m, r) \<longrightarrow>
         (\<exists>j'. store q' i = Some j' \<and> status j' = (if r = Returned \<and> m = None then COMPLETED else FAILED)
               \<and> error_message j' = (case r of Raised msg cls \<Rightarrow> Some (if msg \<noteq> [] then msg else cls) | _ \<Rightarrow> m)
               \<and> chunk_queue j' = chunk_queue j @ map Some texts @ [None] \<and> terminal_notified j' \<and> audio_path j' = None))"
proof -
  have ok: "service_ok q" using reach_service assms(1) .
  show ?thesis
    using drain_effect [OF ok assms(2), where oc = oc and now = 0, OF assms(3)]
    by (intro exI [of _ "drain oc 0 (length (pending q)) q"]) (force simp: served_as_def)
qed

theorem queue_serves_waiting_witness:
  "\<exists>q' ja jb. usual_step\<^sup>*\<^sup>* demo_both q' \<and> store q' id_a = Some ja \<and> status ja = COMPLETED
     \<and> store q' id_b = Some jb \<and> status jb = FAILED \<and> error_message jb = Some (lit ''empty'')"
proof -
  define oc :: "str \<Rightarrow> outcome" where
    "oc = (\<lambda>i. if i = id_b then ([lit ''x''], Some (lit ''empty''), Returned) else ([lit ''['', lit '']''], None, Returned))"
  have "snd (snd (oc k)) \<noteq> TaskCancelled" for k by (simp add: oc_def)
  then obtain q' where r: "usual_step\<^sup>*\<^sup>* demo_both q'"
    and o: "\<And>i j texts m r. store demo_both i = Some j \<and> status j = QUEUED \<and> oc i = (texts, m, r) \<Longrightarrow>
      \<exists>j'. store q' i = Some j' \<and> status j' = (if r = Returned \<and> m = None then COMPLETED else FAILED)
        \<and> error_message j' = (case r of Raised msg cls \<Rightarrow> Some (if msg \<noteq> [] then msg else cls) | _ \<Rightarrow> m)"
    using queue_serves_waiting [OF demo_usual(2) demo_store_simps(10), of oc] by blast
  show ?thesis
    using r o [of id_a _ "[lit ''['', lit '']'']" None Returned] o [of id_b _ "[lit ''x'']" "Some (lit ''empty'')" Returned]
    by (simp add: demo_store_simps oc_def) blast
qed

text \<open>C35. Life cycle: in every step of any run a job's status stays or moves up in the order
  uploading, queued, processing, streaming, completed, failed, cancelled; the only exception is
  a cancelled job that becomes failed. In particular a job that is completed or failed is
  never served again, and no job goes back to the queue.\<close>

theorem queue_life_cycle:
  assumes "reach qinit qstep q" and "qstep q q'"
    and "store q i = Some a" and "store q' i = Some b"
  shows "status a \<le> status b \<or> status a = CANCELLED \<and> status b = FAILED"
  using life_cycle_step reach_qinv assms by blast

theorem queue_life_cycle_witness:
  "status (job_b\<lparr>status := QUEUED\<rparr>)
     \<le> status (job_b\<lparr>status := PROCESSING, process_task := Some Running\<rparr>)"
  using queue_life_cycle [OF demo_reach(5) demo_step_serving demo_store_simps(7) demo_store_simps(2)]
  by simp

text \<open>A late cancellation ends as a failure: when a job's processing has just returned and
  the job is cancelled before the worker resumes, \<open>cancel\<close> reports success and sets
  \<open>CANCELLED\<close>, but the worker then finds the error message that \<open>cancel\<close> wrote and turns
  the job into \<open>FAILED\<close> with the message \<open>Job cancelled\<close>.\<close>

theorem queue_late_cancel_fails:
  assumes "reach usual_init usual_step q" and "worker_task q = Some (Awaiting i st False)"
    and "store q i = Some j" and "process_task j = Some (Done Returned)"
    and "i \<in> set (jobs q)" and "\<not> terminal_status (status j)"
  shows "fst (cancel i q) = Inr True
    \<and> (\<exists>a. store (snd (cancel i q)) i = Some a \<and> status a = CANCELLED)
    \<and> (\<exists>b. store (worker_resume now (snd (cancel i q))) i = Some b \<and> status b = FAILED
           \<and> error_message b = Some (lit ''Job cancelled''))"
proof -
  have t: "tidy q" using reach_service [OF assms(1)] by (simp add: service_ok_def)
  have g: "get_job q i = Some j" using assms by (simp add: get_job_def)
  note c = cancel_usual [OF t g assms(6)]
  let ?q1 = "snd (cancel i q)"
  let ?j1 = "mark_cleanup (mark_notified (forget_audio (mark_cancelled j)))"
  have t1: "tidy ?q1" using tidy_cancel [OF t] by (metis prod.collapse)
  have j1: "store ?q1 i = Some ?j1" using c(2) by simp
  have d1: "process_task ?j1 = Some (Done Returned)"
    using assms(4) by (simp add: job_marks cancel_task_def)
  have w1: "worker_task ?q1 = Some (Awaiting i st False)" using c(5) assms(2) by simp
  show ?thesis
    using c(1) j1 resume_usual(1) [OF t1 w1 j1 d1 refl, of now]
    by (simp add: settle_job_def job_marks)
qed

definition demo_returned :: tqueue where
  "demo_returned = proc_finish id_b Returned demo_serving"

lemma demo_returned_reach: "reach usual_init usual_step demo_returned"
proof (rule reach_step [OF demo_usual(3)])
  have "task_running demo_serving id_b" by (simp add: task_running_def demo_store_simps)
  then show "usual_step demo_serving demo_returned"
    using s_finish [of demo_serving id_b Returned] demo_unlocked
    by (simp add: usual_step_def demo_returned_def proc_finish_def)
qed

theorem queue_late_cancel_fails_witness:
  "fst (cancel id_b demo_returned) = Inr True
   \<and> (\<exists>b. store (worker_resume 3 (snd (cancel id_b demo_returned))) id_b = Some b \<and> status b = FAILED)"
proof -
  have "fst (cancel id_b demo_returned) = Inr True
    \<and> (\<exists>a. store (snd (cancel id_b demo_returned)) id_b = Some a \<and> status a = CANCELLED)
    \<and> (\<exists>b. store (worker_resume 3 (snd (cancel id_b demo_returned))) id_b = Some b
           \<and> status b = FAILED \<and> error_message b = Some (lit ''Job cancelled''))"
    by (rule queue_late_cancel_fails [OF demo_returned_reach, where st = 2
          and j = "job_b\<lparr>status := PROCESSING, process_task := Some (Done Returned)\<rparr>"])
      (simp_all add: demo_returned_def proc_finish_def demo_store_simps)
  then show ?thesis by blast
qed

text \<open>C19. Retention. On every disk: a job that ended (completed, failed or cancelled) refers to no
  audio; a job that has audio has it on disk, and no two jobs share a file; the step that ends a
  job, when the disk refuses to remove its file, leaves the file and neither notifies the stream
  nor schedules the clean-up, and otherwise removes it, marks the end of the stream and schedules
  the clean-up of a job that is in the dictionary; and the worker dies of no other exception than
  that \<open>OSError\<close>. As long as the disk refused no removal, every job that ended has had its
  stream ended and, while it is in the dictionary and the queue is not stopped, its clean-up
  scheduled, and the worker has died of no exception.\<close>

theorem queue_terminal_clean:
  assumes "reach qinit qstep q" and "store q i = Some j"
  shows "(terminal_status (status j) \<longrightarrow> audio_path j = None)
    \<and> (\<forall>p. audio_path j = Some p \<longrightarrow> (\<exists>m b. node_at (disk q) p = Some (RegFile m b))
           \<and> (\<forall>k a. store q k = Some a \<and> audio_path a = Some p \<longrightarrow> k = i))
    \<and> (\<forall>q' b. qstep q q' \<and> store q' i = Some b \<and> \<not> terminal_status (status j) \<and> terminal_status (status b) \<longrightarrow>
        (if \<exists>p. audio_path j = Some p \<and> p \<in> set (locked (disk q))
         then \<not> terminal_notified b \<and> \<not> cleanup_scheduled b \<and> disk q' = disk q
         else terminal_notified b \<and> (i \<in> set (jobs q') \<longrightarrow> cleanup_scheduled b)
           \<and> (\<forall>p. audio_path j = Some p \<longrightarrow> node_at (disk q') p = None)))
    \<and> (\<forall>e. worker_task q = Some (WorkerOver (Some e)) \<longrightarrow> e = OSErrorOther)
    \<and> (reach usual_init usual_step q \<longrightarrow>
        (terminal_status (status j) \<longrightarrow> terminal_notified j
           \<and> (i \<in> set (jobs q) \<and> worker_task q \<noteq> None \<longrightarrow> i \<in> set (cleanup_tasks q)))
        \<and> (\<forall>e. worker_task q \<noteq> Some (WorkerOver (Some e))))"
proof -
  have inv: "qinv q" and h: "held q" using reach_held [OF assms(1)] by simp_all
  note f = heldD [OF h assms(2)]
  have fresh: "\<not> terminal_notified j \<and> \<not> cleanup_scheduled j" if "\<not> terminal_status (status j)"
    using qinvD [OF inv assms(2)] that by (auto simp: job_ok_def)
  have ends: "if \<exists>p. audio_path j = Some p \<and> p \<in> set (locked (disk q))
         then \<not> terminal_notified b \<and> \<not> cleanup_scheduled b \<and> disk q' = disk q
         else terminal_notified b \<and> (i \<in> set (jobs q') \<longrightarrow> cleanup_scheduled b)
           \<and> (\<forall>p. audio_path j = Some p \<longrightarrow> node_at (disk q') p = None)"
    if "qstep q q'" "store q' i = Some b" "\<not> terminal_status (status j)" "terminal_status (status b)" for q' b
    using step_ends_job [OF h inv that(1) assms(2) that(3,2,4)] assms(2) that(2) fresh [OF that(3)]
    by (auto simp: ends_job_def refused_def)
  have usual: "(terminal_status (status j) \<longrightarrow> terminal_notified j
           \<and> (i \<in> set (jobs q) \<and> worker_task q \<noteq> None \<longrightarrow> i \<in> set (cleanup_tasks q)))
        \<and> (\<forall>e. worker_task q \<noteq> Some (WorkerOver (Some e)))" if "reach usual_init usual_step q"
  proof -
    have t: "tidy q" using reach_service [OF that] by (simp add: service_ok_def)
    then show ?thesis using tidyD [OF t assms(2)] unfolding tidy_def by (auto simp: tidy_job_def)
  qed
  have "\<forall>e. worker_task q = Some (WorkerOver (Some e)) \<longrightarrow> e = OSErrorOther" using h by (simp add: held_def)
  moreover have "\<forall>p. audio_path j = Some p \<longrightarrow> (\<exists>m b. node_at (disk q) p = Some (RegFile m b))
      \<and> (\<forall>k a. store q k = Some a \<and> audio_path a = Some p \<longrightarrow> k = i)"
    using f(1,3) by (auto simp: stored_file_def)
  ultimately show ?thesis using f(2) ends usual by blast
qed

theorem queue_terminal_clean_witness:
  "\<exists>j. store demo_cancelled id_a = Some j \<and> status j = CANCELLED \<and> audio_path j = None
       \<and> terminal_notified j"
  using demo_cancelled_a queue_terminal_clean [OF reach_weaken [OF demo_cancelled_reach], of id_a] demo_cancelled_reach by auto

subsection \<open>Cancelling\<close>

lemma filter_drop_one:
  assumes "distinct xs" and "i \<in> set xs" and "P i" and "\<not> P' i" and "\<And>x. x \<noteq> i \<Longrightarrow> P' x = P x"
  shows "length (filter P xs) = Suc (length (filter P' xs))"
  using assms(1,2)
proof (induction xs)
  case Nil
  then show ?case by simp
next
  case (Cons x xs)
  have "filter P' xs = filter P xs" if "i \<notin> set xs"
    using that assms(5) by (metis (mono_tags, lifting) filter_cong)
  then show ?case using Cons assms(3-5) by (cases "x = i") auto
qed

text \<open>C33. Cancelling a job that has not ended: the job is \<open>CANCELLED\<close> with its message, its process
  task (if any) is asked to stop, its audio is forgotten, its place is free again, no other job
  changes, and cancelling it again reports \<open>False\<close> and changes nothing. Unless the disk refuses to
  remove its upload, the call reports \<open>True\<close>, the upload is removed, the end of the stream is
  queued behind what was already there and the clean-up is scheduled; if the disk refuses, the
  \<open>OSError\<close> escapes, the upload stays, and the stream gets no end.\<close>

theorem queue_cancel:
  assumes "reach qinit qstep q" and "get_job q i = Some j"
    and "\<not> terminal_status (status j)" and "cancel i q = (r, q')"
  shows "(let j' = j\<lparr>status := CANCELLED, error_message := Some (lit ''Job cancelled''),
              cancel_requested := True, process_task := cancel_task (process_task j), audio_path := None\<rparr>
     in if \<exists>p. audio_path j = Some p \<and> p \<in> set (locked (disk q))
        then r = Inl OSErrorOther \<and> store q' = (store q)(i \<mapsto> j') \<and> disk q' = disk q
        else r = Inr True
          \<and> store q' = (store q)(i \<mapsto> j'\<lparr>chunk_queue := chunk_queue j @ [None], terminal_notified := True, cleanup_scheduled := True\<rparr>)
          \<and> (\<forall>p. audio_path j = Some p \<longrightarrow> node_at (disk q') p = None))
    \<and> active_count q' = active_count q - 1
    \<and> cancel i q' = (Inr False, q')"
proof -
  have inv: "qinv q" and h: "held q" using reach_held [OF assms(1)] by simp_all
  have s: "store q i = Some j" "i \<in> set (jobs q)" using assms(2) by (auto simp: get_job_store)
  note c = cancel_ends_job [OF h assms(4,2,3)]
  define j' where "j' = j\<lparr>status := CANCELLED, error_message := Some (lit ''Job cancelled''),
      cancel_requested := True, process_task := cancel_task (process_task j), audio_path := None\<rparr>"
  have nt: "\<not> terminal_notified j" using qinvD [OF inv s(1)] assms(3) by (auto simp: job_ok_def)
  have j': "forget_audio (mark_cancelled j) = j'"
    "mark_cleanup (mark_notified j') = j'\<lparr>chunk_queue := chunk_queue j @ [None], terminal_notified := True, cleanup_scheduled := True\<rparr>"
    using nt by (simp_all add: job_marks j'_def)
  have st: "store q' = (store q)(i \<mapsto> (if refused q i then j'
      else j'\<lparr>chunk_queue := chunk_queue j @ [None], terminal_notified := True, cleanup_scheduled := True\<rparr>))"
    using c(4) j' by simp
  have ref: "refused q i \<longleftrightarrow> (\<exists>p. audio_path j = Some p \<and> p \<in> set (locked (disk q)))" using s(1) by (auto simp: refused_def)
  have ends: "if refused q i then disk q' = disk q else (\<forall>p. audio_path j = Some p \<longrightarrow> node_at (disk q') p = None)"
    using c(1) s(1) by (auto simp: ends_job_def)
  have "length (filter (active_at (store q)) (jobs q)) = Suc (length (filter (active_at (store q')) (jobs q')))"
    unfolding c(5) using inv s assms(3) st
    by (intro filter_drop_one) (auto simp: qinv_def queue_ok_def active_at_def active_not_terminal j'_def)
  then have "active_count q' = active_count q - 1" by (simp add: active_count_filter)
  moreover have "cancel i q' = (Inr False, q')"
    using s(2) by (simp add: cancel_def get_job_def c(5) st j'_def)
  ultimately show ?thesis
    using c(2) st ends unfolding Let_def j'_def [symmetric] ref [symmetric] by auto
qed

text \<open>The same state on a disk that refuses to remove the upload of \<open>id_a\<close>.\<close>

definition demo_refusing :: tqueue where
  "demo_refusing = demo_serving\<lparr>disk := (disk demo_serving)\<lparr>locked := [demo_file]\<rparr>\<rparr>"

lemma demo_refusing_reach: "reach qinit qstep demo_refusing"
  unfolding demo_refusing_def by (rule reach_step [OF demo_reach(6)], rule s_disk) (simp add: node_at_def)

theorem queue_cancel_witness:
  "fst (cancel id_b demo_refusing) = Inr True \<and> fst (cancel id_a demo_refusing) = Inl OSErrorOther
   \<and> fst (cancel id_a demo_serving) = Inr True
   \<and> node_at (disk (snd (cancel id_a demo_serving))) demo_file = None"
proof -
  have g: "get_job q id_a = Some (job_a\<lparr>status := QUEUED\<rparr>)"
    "get_job q id_b = Some (job_b\<lparr>status := PROCESSING, process_task := Some Running\<rparr>)"
    if "q = demo_serving \<or> q = demo_refusing" for q
    using that by (auto simp: get_job_def demo_store_simps demo_refusing_def)
  have n: "\<not> terminal_status (status (job_a\<lparr>status := QUEUED\<rparr>))"
    "\<not> terminal_status (status (job_b\<lparr>status := PROCESSING, process_task := Some Running\<rparr>))"
    by simp_all
  have a: "audio_path job_a = Some demo_file" "audio_path job_b = None" by (simp_all add: job_a_def job_b_def new_job_def)
  have l: "locked (disk demo_serving) = []" "locked (disk demo_refusing) = [demo_file]"
    by (simp_all add: demo_unlocked demo_refusing_def)
  show ?thesis
    using queue_cancel [OF demo_reach(6) g(1) n(1) surjective_pairing]
      queue_cancel [OF demo_refusing_reach g(1) n(1) surjective_pairing]
      queue_cancel [OF demo_refusing_reach g(2) n(2) surjective_pairing] a l
    by (simp add: Let_def del: fun_upd_apply)
qed

subsection \<open>The end marker of a stream\<close>

definition stream_kept :: "job \<Rightarrow> job \<Rightarrow> bool" where
  "stream_kept a b \<longleftrightarrow> (terminal_notified a \<longrightarrow> terminal_notified b
     \<and> (chunk_queue b = chunk_queue a \<or> chunk_queue b = tl (chunk_queue a)))"

lemma stream_kept_refl [simp]: "stream_kept a a"
  by (simp add: stream_kept_def)

lemma stream_kept_marks [simp]:
  "stream_kept a (mark_cleanup b) = stream_kept a b" "stream_kept a (forget_audio b) = stream_kept a b"
  "stream_kept a (end_task b) = stream_kept a b" "stream_kept a (mark_cancelled b) = stream_kept a b"
  "stream_kept a (settle_job r b) = stream_kept a b"
  "stream_kept a b \<Longrightarrow> stream_kept a (mark_notified b)"
  by (auto simp: stream_kept_def job_marks end_task_def settle_job_def split: task_result.splits)

lemma stream_kept_upd:
  assumes "\<And>j. store q i = Some j \<Longrightarrow> stream_kept j (f j)"
    and "store q k = Some a" and "store (upd_job i f q) k = Some b"
  shows "stream_kept a b"
  using assms by (auto split: if_splits)

lemma stream_kept_running:
  assumes "qinv q" and "task_running q i" and "store q k = Some a" and "store (upd_job i f q) k = Some b"
  shows "stream_kept a b"
  using assms(3,4)
proof (rule stream_kept_upd [rotated])
  fix j assume "store q i = Some j"
  then show "stream_kept j (f j)"
    using assms(1,2) running_facts by (auto elim!: task_runningD simp: stream_kept_def)
qed

lemma stream_kept_settle:
  assumes j: "store q i = Some j" and a: "store q k = Some a"
    and b: "store (worker_settle i st now r q) k = Some b"
  shows "stream_kept a b"
proof -
  define w where "w = (if r = TaskCancelled \<and> \<not> cancel_requested j then WorkerOver None else WaitPending)"
  define q1 where "q1 = upd_job i (settle_job r) q"
  define q' where "q' = worker_finally i st now w q1"
  have run: "worker_settle i st now r q = q'"
    using j by (simp add: worker_settle_def q'_def w_def q1_def)
  have j1: "store q1 i = Some (settle_job r j)" using j by (simp add: q1_def)
  have base: "(store q1)(i \<mapsto> x) = (store q)(i \<mapsto> x)" for x by (simp add: q1_def)
  from j1 q'_def obtain j' where s: "store q' = (store q)(i \<mapsto> j')" and e: "stream_kept j j'"
    by (cases rule: worker_finally_effect) (auto simp: base)
  then show ?thesis using a b j run by (auto split: if_splits)
qed

lemma stream_kept_step:
  assumes inv: "qinv q" and step: "qstep q q'"
    and a: "store q k = Some a" and b: "store q' k = Some b"
  shows "stream_kept a b"
  using step
proof cases
  case (s_reserve i ident now)
  then show ?thesis using a b by (auto simp: reserve_def new_job_def split: if_splits)
next
  case (s_attach i j p m c mime hw dur)
  then show ?thesis using a b by (auto simp: attach_upload_def stream_kept_def split: if_splits)
next
  case (s_describe i j mime hw)
  then show ?thesis using a b by (auto simp: describe_upload_def stream_kept_def split: if_splits)
next
  case (s_submit i)
  then show ?thesis
    using a b by (auto simp: submit_def stream_kept_def split: option.splits if_splits)
next
  case (s_cancel i r)
  from s_cancel(1) show ?thesis
    by (cases rule: cancel_effect) (use a b in \<open>auto dest!: get_job_store split: if_splits\<close>)
next
  case (s_pick now)
  have "has_process_fn q" using inv by (simp add: qinv_def queue_ok_def)
  then show ?thesis
    using s_pick a b
    by (auto simp: worker_pick_def Let_def stream_kept_def split: list.splits option.splits if_splits)
next
  case (s_resume now)
  then show ?thesis
    using stream_kept_settle [OF _ a] a b
    by (auto simp: worker_resume_def split: option.splits worker.splits task.splits)
next
  case (s_take i j)
  then show ?thesis using a b by (auto simp: take_chunk_def stream_kept_def split: if_splits)
next
  case (s_cleanup i)
  then show ?thesis using a b by (auto simp: cleanup_job_def Let_def split: if_splits)
next
  case s_stop_request
  then show ?thesis
    using a b by (auto simp: stop_request_def stream_kept_def
        split: option.splits worker.splits task.splits if_splits)
next
  case s_stop_finish
  then show ?thesis using a b by (auto simp: stop_finish_def split: option.splits worker.splits)
next
  case (s_finish_cancelled i j r)
  then show ?thesis using a b by (auto simp: proc_finish_def stream_kept_def split: if_splits)
next
  case (s_disk d)
  then show ?thesis using a b by simp
next
  case (s_streaming i)
  then show ?thesis using stream_kept_running [OF inv _ a] b by (simp only: proc_streaming_def)
next
  case (s_put i c)
  then show ?thesis using stream_kept_running [OF inv _ a] b by (simp only: proc_put_def)
next
  case (s_error i msg)
  then show ?thesis using stream_kept_running [OF inv _ a] b by (simp only: proc_error_def)
next
  case (s_finish i r)
  then show ?thesis using stream_kept_running [OF inv _ a] b by (simp only: proc_finish_def)
qed

lemma chunks_shape:
  assumes "None \<notin> set (butlast xs)"
  shows "\<exists>ts. xs = map Some ts \<or> xs = map Some ts @ [None]"
  using assms
proof (induction xs)
  case Nil
  then show ?case by simp
next
  case (Cons x xs)
  show ?case
  proof (cases "xs = []")
    case True
    then show ?thesis by (cases x) (auto intro: exI [of _ "[]"] exI [of _ "[_]"])
  next
    case False
    then obtain ts where "xs = map Some ts \<or> xs = map Some ts @ [None]" using Cons by auto
    moreover obtain t where "x = Some t" using Cons.prems False by (cases x) auto
    ultimately show ?thesis by (auto intro: exI [of _ "t # ts"])
  qed
qed

text \<open>The end of a stream is final: the chunk queue of a job is text followed by at most one
  end marker, the marker is there only when the job has ended, and once a job has been
  notified no step of any component appends to its chunk queue again (it is only consumed).\<close>

theorem queue_stream_end:
  assumes "reach qinit qstep q" and "qstep q q'"
    and "store q i = Some a" and "store q' i = Some b"
  shows "(\<exists>texts. chunk_queue a = map Some texts
            \<or> chunk_queue a = map Some texts @ [None] \<and> terminal_status (status a))
    \<and> (terminal_notified a \<longrightarrow> terminal_notified b
         \<and> (chunk_queue b = chunk_queue a \<or> chunk_queue b = tl (chunk_queue a)))"
proof -
  have inv: "qinv q" using reach_qinv assms(1) .
  have ok: "chunks_ok a" "terminal_notified a \<longrightarrow> terminal_status (status a)"
    using qinvD [OF inv assms(3)] by (simp_all add: job_ok_def)
  obtain ts where ts: "chunk_queue a = map Some ts \<or> chunk_queue a = map Some ts @ [None]"
    using chunks_shape ok(1) unfolding chunks_ok_def by blast
  then have "\<exists>texts. chunk_queue a = map Some texts
            \<or> chunk_queue a = map Some texts @ [None] \<and> terminal_status (status a)"
    using ok by (auto simp: chunks_ok_def)
  then show ?thesis
    using stream_kept_step [OF inv assms(2-4)] by (simp add: stream_kept_def)
qed

theorem queue_stream_end_witness:
  "\<exists>a b. store demo_cancelled id_a = Some a \<and> store (take_chunk id_a demo_cancelled) id_a = Some b
     \<and> (terminal_notified a \<longrightarrow> terminal_notified b)"
proof -
  obtain a where a: "store demo_cancelled id_a = Some a" "status a = CANCELLED" using demo_cancelled_a by blast
  have "store demo_cancelled id_a
      = Some (mark_cleanup (mark_notified (forget_audio (mark_cancelled (job_a\<lparr>status := QUEUED\<rparr>)))))"
    using cancel_usual(2) [of demo_serving id_a "job_a\<lparr>status := QUEUED\<rparr>"] reach_service [OF demo_usual(3)]
    by (simp add: service_ok_def get_job_def demo_store_simps demo_cancelled_def)
  with a have "chunk_queue a \<noteq> []" by (auto simp: job_marks)
  then have step: "qstep demo_cancelled (take_chunk id_a demo_cancelled)"
    using s_take [OF a(1)] by blast
  obtain b where b: "store (take_chunk id_a demo_cancelled) id_a = Some b"
    using a by (simp add: take_chunk_def)
  show ?thesis
    using queue_stream_end [OF reach_weaken [OF demo_cancelled_reach] step a(1) b] a b by blast
qed

end
