(* ===== verification/Queue_Reports.thy ===== *)
theory Queue_Reports
  imports Queue_Theorems
begin

section \<open>Positions, reports and shutdown\<close>

text \<open>
  What \<open>get_position_and_eta\<close> and \<open>get_queue_info\<close> tell a client, what they do not tell, and
  what \<open>stop\<close> does to the job in service.
\<close>

subsection \<open>Positions\<close>

text \<open>Positions: in every reachable state the queued jobs have the positions 1, 2, ... up to
  the number of queued jobs, each exactly once and in the order of reservation; no other job
  has one; and the estimate is the position times the average of the last processing times
  (30 seconds each while there are none).\<close>

theorem queue_positions:
  assumes "reach qinit qstep q"
  shows "(\<exists>order. distinct order \<and> set order = {i. \<exists>j. store q i = Some j \<and> status j = QUEUED}
      \<and> order = filter (\<lambda>i. i \<in> set order) (jobs q)
      \<and> (\<forall>i p. get_position q i = Some p \<longleftrightarrow> (\<exists>n < length order. order ! n = i \<and> p = int n + 1)))
    \<and> get_position_and_eta q i = (get_position q i, map_option (\<lambda>p. of_int p *
        (if processing_times q = [] then 30
         else sum_list (processing_times q) / of_nat (length (processing_times q)))) (get_position q i))
    \<and> length (processing_times q) \<le> 20"
proof -
  have inv: "qinv q" using reach_qinv assms .
  then have d: "distinct (jobs q)" and h: "length (processing_times q) \<le> 20"
    by (simp_all add: qinv_def queue_ok_def max_history_def)
  have mem: "set (queued_jobs q) = {i. \<exists>j. store q i = Some j \<and> status j = QUEUED}"
    using queued_iff_pending(2) [OF inv]
    by (auto simp: queued_jobs_def has_status_def split: option.splits)
  have o: "queued_jobs q = filter (\<lambda>i. i \<in> set (queued_jobs q)) (jobs q)"
    by (simp add: queued_jobs_def cong: filter_cong)
  have g: "get_position q k = Some p
      \<longleftrightarrow> (\<exists>n < length (queued_jobs q). queued_jobs q ! n = k \<and> p = int n + 1)" for k p
    using position_Some_iff [OF d, of k p] by (auto intro: exI [of _ "nat (p - 1)"])
  have u: "distinct (queued_jobs q)" using d by (simp add: queued_jobs_def)
  have "\<exists>order. distinct order \<and> set order = {i. \<exists>j. store q i = Some j \<and> status j = QUEUED}
      \<and> order = filter (\<lambda>i. i \<in> set order) (jobs q)
      \<and> (\<forall>i p. get_position q i = Some p \<longleftrightarrow> (\<exists>n < length order. order ! n = i \<and> p = int n + 1))"
    by (rule exI [of _ "queued_jobs q"]) (intro conjI u mem o allI g)
  moreover have "estimate_wait q = (\<lambda>p. of_int p *
        (if processing_times q = [] then 30
         else sum_list (processing_times q) / of_nat (length (processing_times q))))"
    by (rule ext) (simp add: estimate_wait_def)
  ultimately show ?thesis using h by (simp add: get_position_and_eta_def Let_def)
qed

lemma demo_positions:
  "get_position demo_both id_a = Some 1" "get_position demo_both id_b = Some 2"
  by (simp_all add: get_position_eq demo_store_simps has_status_def)

theorem queue_positions_witness:
  "get_position_and_eta demo_both id_b = (Some 2, Some 60)"
  using queue_positions [OF demo_reach(5), of id_b] by (simp add: demo_positions demo_store_simps)

text \<open>The position is not the place in the line: positions count jobs in the order their uploads
  were reserved, while the worker serves them in the order their uploads completed. There is a
  reachable state with two queued jobs in which the one with position 1 is served second.\<close>

theorem queue_position_not_service_order:
  "\<exists>q a b. reach usual_init usual_step q \<and> get_position q a = Some 1 \<and> get_position q b = Some 2
     \<and> pending q = [b, a] \<and> f_serving (fifo_of (worker_pick now q)) = Some b"
proof -
  have "f_serving (fifo_of (worker_pick now demo_both)) = Some id_b"
    using demo_store_simps
    by (simp add: fifo_of_def worker_pick_def get_job_def awaited_def in_serviceq_def has_status_def
        Let_def demo_both_eq demo_start_def)
  then show ?thesis using demo_usual(2) demo_positions demo_store_simps(9) by blast
qed

subsection \<open>Status reports\<close>

text \<open>Two states that a client cannot tell apart: the client's own jobs are the same, and so is
  the status and the owner of everything else, but the texts, names, file paths, errors and
  options of other clients' jobs may differ.\<close>

definition same_for :: "str \<Rightarrow> tqueue \<Rightarrow> tqueue \<Rightarrow> bool" where
  "same_for ident q q' \<longleftrightarrow> jobs q' = jobs q \<and> processing_times q' = processing_times q
     \<and> (\<forall>k. map_option (\<lambda>j. (status j, client_identity j)) (store q' k)
           = map_option (\<lambda>j. (status j, client_identity j)) (store q k))
     \<and> (\<forall>k j. store q k = Some j \<longrightarrow> client_identity j = ident \<longrightarrow> store q' k = Some j)"

text \<open>Isolation of status reports: a report lists the caller's jobs and no other, and is the
  same for any two states that differ only in what other clients' jobs hold (beyond status
  and owner, which the positions and the total depend on).\<close>

theorem queue_status_isolation:
  assumes "same_for ident q q'"
  shows "get_queue_info q' ident = get_queue_info q ident
    \<and> (\<forall>info. info \<in> set (your_jobs (get_queue_info q ident)) \<longleftrightarrow>
         (\<exists>i j. get_job q i = Some j \<and> client_identity j = ident \<and> info = job_info_of q j))"
proof -
  have st: "map_option status (store q' k) = map_option status (store q k)"
    and ci: "map_option client_identity (store q' k) = map_option client_identity (store q k)" for k
    using assms arg_cong [of _ _ "map_option fst"] arg_cong [of _ _ "map_option snd"]
    unfolding same_for_def by (metis (no_types, lifting) option.map_comp comp_def fst_conv snd_conv option.map_cong)+
  have "job_info_of q' = job_info_of q"
    using job_info_cong [of q' q] st assms unfolding same_for_def by blast
  moreover have "filter (\<lambda>j. client_identity j = ident) (job_values q')
      = filter (\<lambda>j. client_identity j = ident) (job_values q)"
    using filter_values_cong [of "store q'" "store q" ident, OF ci] assms
    unfolding same_for_def job_values_def by (metis (no_types, lifting))
  moreover have "queued_jobs q' = queued_jobs q"
  proof -
    have "has_status q' s k = has_status q s k" for s k
      using st [of k] by (auto simp: has_status_def split: option.splits)
    then have "has_status q' QUEUED = has_status q QUEUED" by blast
    then show ?thesis using assms by (simp add: queued_jobs_def same_for_def)
  qed
  ultimately have "get_queue_info q' ident = get_queue_info q ident"
    using job_values_status_count [of q] job_values_status_count [of q'] by (simp add: get_queue_info_def)
  moreover have "get_job q i = Some j \<longleftrightarrow> i \<in> set (jobs q) \<and> store q i = Some j" for i j
    by (simp add: get_job_def)
  ultimately show ?thesis by (auto simp: info_from_job)
qed

definition demo_other :: tqueue where
  "demo_other = upd_job id_b (\<lambda>j. j\<lparr>hotwords := Some (lit ''secret''), error_message := Some (lit ''e'')\<rparr>) demo_serving"

theorem queue_status_isolation_witness:
  "get_queue_info demo_other ident_x = get_queue_info demo_serving ident_x"
proof -
  have "same_for ident_x demo_serving demo_other"
    by (auto simp: same_for_def demo_other_def demo_store_simps split: if_splits)
  from queue_status_isolation [OF this] show ?thesis by blast
qed

subsection \<open>Shutdown\<close>

text \<open>Stopping ends the service: when \<open>stop\<close> is called while a job is being processed that
  nobody cancelled, and its processing ends with the cancellation, the job is \<open>CANCELLED\<close>
  with the message \<open>Queue stopped\<close>, its audio is gone and its stream has its end, the worker
  is over, and \<open>stop\<close> returns with no worker and no clean-up task left.\<close>

theorem queue_stop_ends:
  assumes "reach usual_init usual_step q" and "worker_task q = Some (Awaiting i st False)"
    and "store q i = Some j" and "process_task j = Some Running"
  shows "\<exists>b q'. worker_resume now (proc_finish i TaskCancelled (stop_request q)) = q'
    \<and> store q' i = Some b \<and> status b = CANCELLED \<and> error_message b = Some (lit ''Queue stopped'')
    \<and> audio_path b = None \<and> terminal_notified b \<and> worker_over q'
    \<and> fst (stop_finish q') = None \<and> worker_task (snd (stop_finish q')) = None
    \<and> cleanup_tasks (snd (stop_finish q')) = []"
proof -
  have inv: "qinv q" and t: "tidy q"
    using reach_service [OF assms(1)] by (simp_all add: service_ok_def)
  have nc: "\<not> cancel_requested j" using running_facts [OF inv assms(3,4)] by blast
  define q1 where "q1 = proc_finish i TaskCancelled (stop_request q)"
  have sr: "stop_request q = upd_job i (\<lambda>j. j\<lparr>process_task := cancel_task (process_task j)\<rparr>) q"
    using assms by (simp add: stop_request_def)
  let ?j = "j\<lparr>process_task := Some (Done TaskCancelled)\<rparr>"
  have "tidy (stop_request q)" using tidy_stop [OF t] by blast
  moreover have "store (stop_request q) i = Some (j\<lparr>process_task := Some Cancelling\<rparr>)"
    using assms(3,4) by (simp add: sr cancel_task_def)
  ultimately have t1: "tidy q1" unfolding q1_def proc_finish_def by (rule tidy_upd_job) auto
  have j1: "store q1 i = Some ?j" and w1: "worker_task q1 = Some (Awaiting i st False)"
    using assms by (simp_all add: q1_def sr proc_finish_def)
  have d: "process_task ?j = Some (Done TaskCancelled)" by simp
  note r = resume_usual [OF t1 w1 j1 d refl, of now]
  have "store (worker_resume now q1) i = Some (final_job q1 i (settle_job TaskCancelled ?j))"
    and "worker_task (worker_resume now q1) = Some (WorkerOver None)"
    using r(1,2) nc by simp_all
  moreover from this(2) have "worker_over (worker_resume now q1)"
    "fst (stop_finish (worker_resume now q1)) = None"
    "worker_task (snd (stop_finish (worker_resume now q1))) = None"
    "cleanup_tasks (snd (stop_finish (worker_resume now q1))) = []"
    by (simp_all add: worker_over_def stop_finish_def)
  ultimately show ?thesis using nc by (auto simp: q1_def [symmetric] settle_job_def)
qed

theorem queue_stop_ends_witness:
  "\<exists>b. store (worker_resume 5 (proc_finish id_b TaskCancelled (stop_request demo_serving))) id_b = Some b
     \<and> error_message b = Some (lit ''Queue stopped'')"
  using queue_stop_ends [OF demo_usual(3) demo_store_simps(5,2), of 5] by simp blast

text \<open>Stopping during a cancellation never returns: when the job in service has just been
  cancelled and its process task has not ended yet, \<open>stop\<close>'s cancellation of the worker is
  taken for the job's: the worker keeps the job \<open>CANCELLED\<close>, goes back to \<open>_pending.get()\<close> and
  is not over. With nothing pending it waits there for good, so the \<open>await\<close> in \<open>stop\<close> does not
  end.\<close>

theorem queue_stop_swallowed:
  assumes "reach usual_init usual_step q" and "worker_task q = Some (Awaiting i st False)"
    and "store q i = Some j" and "process_task j = Some Cancelling" and "cancel_requested j"
  shows "worker_task (worker_resume now (proc_finish i TaskCancelled (stop_request q))) = Some WaitPending
    \<and> \<not> worker_over (worker_resume now (proc_finish i TaskCancelled (stop_request q)))
    \<and> (pending q = [] \<longrightarrow> (\<forall>t q'. q' = worker_resume now (proc_finish i TaskCancelled (stop_request q))
         \<longrightarrow> worker_pick t q' = q' \<and> worker_resume t q' = q'))"
proof -
  have t: "tidy q" using reach_service [OF assms(1)] by (simp add: service_ok_def)
  define q1 where "q1 = proc_finish i TaskCancelled (stop_request q)"
  have sr: "stop_request q = upd_job i (\<lambda>j. j\<lparr>process_task := cancel_task (process_task j)\<rparr>) q"
    using assms by (simp add: stop_request_def)
  let ?j = "j\<lparr>process_task := Some (Done TaskCancelled)\<rparr>"
  have "tidy (stop_request q)" using tidy_stop [OF t] by blast
  moreover have "store (stop_request q) i = Some (j\<lparr>process_task := Some Cancelling\<rparr>)"
    using assms(3,4) by (simp add: sr cancel_task_def)
  ultimately have t1: "tidy q1" unfolding q1_def proc_finish_def by (rule tidy_upd_job) auto
  have j1: "store q1 i = Some ?j" and w1: "worker_task q1 = Some (Awaiting i st False)"
    and p1: "pending q1 = pending q"
    using assms by (simp_all add: q1_def sr proc_finish_def)
  have d: "process_task ?j = Some (Done TaskCancelled)" by simp
  have w: "worker_task (worker_resume now q1) = Some WaitPending"
    and p: "pending (worker_resume now q1) = pending q"
    using resume_usual(2,3) [OF t1 w1 j1 d refl, of now] assms(5) p1 by simp_all
  show ?thesis
    using w p unfolding q1_def [symmetric]
    by (simp add: worker_over_def worker_pick_def worker_resume_def [of _ "worker_resume now q1"])
qed

text \<open>A run with one job, cancelled while it is processed.\<close>

definition demo_solo :: tqueue where
  "demo_solo = worker_pick 1 (snd (submit id_a demo_one))"

definition demo_halting :: tqueue where
  "demo_halting = snd (cancel id_a demo_solo)"

lemma demo_solo_eq:
  "snd (submit id_a demo_one) = demo_start\<lparr>store := [id_a \<mapsto> (new_job id_a ident_x 0)\<lparr>status := QUEUED\<rparr>],
     jobs := [id_a], pending := [id_a]\<rparr>"
  "demo_solo = demo_start\<lparr>store := [id_a \<mapsto> (new_job id_a ident_x 0)\<lparr>status := PROCESSING,
       process_task := Some Running\<rparr>],
     jobs := [id_a], worker_task := Some (Awaiting id_a 1 False)\<rparr>"
  by (simp_all add: demo_solo_def demo_one_eq demo_start_def submit_def get_job_def upd_job_def
      new_job_def worker_pick_def Let_def)

lemma demo_halting_reach: "reach usual_init usual_step demo_halting"
proof -
  have 0: "reach usual_init usual_step demo_start"
    by (rule reach_init) (simp add: usual_init_def demo_start_init demo_unlocked)
  have 1: "reach usual_init usual_step demo_one"
    by (rule reach_step [OF 0]) (simp add: usual_step_def demo_step_one demo_unlocked)
  have s: "qstep demo_one (snd (submit id_a demo_one))"
    by (rule s_submit [of id_a]) (simp add: submit_def get_job_def demo_one_eq new_job_def)
  have 2: "reach usual_init usual_step (snd (submit id_a demo_one))"
    by (rule reach_step [OF 1], unfold usual_step_def, rule conjI [OF s])
      (simp add: demo_solo_eq demo_start_def demo_fs_def)
  have p: "qstep (snd (submit id_a demo_one)) demo_solo"
    unfolding demo_solo_def by (rule s_pick) (simp add: demo_solo_eq demo_start_def)
  have 3: "reach usual_init usual_step demo_solo"
    by (rule reach_step [OF 2], unfold usual_step_def, rule conjI [OF p])
      (simp add: demo_solo_eq demo_start_def demo_fs_def)
  have t: "tidy demo_solo" using reach_service [OF 3] by (simp add: service_ok_def)
  have "qstep demo_solo demo_halting"
    unfolding demo_halting_def using s_cancel [of id_a demo_solo] by (metis prod.collapse)
  moreover have "tidy demo_halting"
    unfolding demo_halting_def using tidy_cancel [OF t] by (metis prod.collapse)
  ultimately have "usual_step demo_solo demo_halting" by (simp add: usual_step_def tidy_def)
  with 3 show ?thesis by (rule reach_step)
qed

theorem queue_stop_swallowed_witness:
  "\<not> worker_over (worker_resume 5 (proc_finish id_a TaskCancelled (stop_request demo_halting)))
   \<and> pending demo_halting = []"
proof -
  have g: "get_job demo_solo id_a = Some ((new_job id_a ident_x 0)\<lparr>status := PROCESSING, process_task := Some Running\<rparr>)"
    by (simp add: demo_solo_eq get_job_def)
  have eq: "demo_halting = demo_solo\<lparr>store := store demo_halting, cleanup_tasks := [id_a]\<rparr>"
    "store demo_halting id_a = Some ((new_job id_a ident_x 0)\<lparr>status := CANCELLED, error_message := Some (lit ''Job cancelled''),
      cancel_requested := True, process_task := Some Cancelling, chunk_queue := [None],
      terminal_notified := True, cleanup_scheduled := True\<rparr>)"
    by (simp_all add: demo_halting_def demo_solo_eq demo_start_def cancel_def new_job_def get_job_def
        upd_job_def cancel_task_def discard_audio_def notify_terminal_def schedule_cleanup_def)
  have w: "worker_task demo_halting = Some (Awaiting id_a 1 False)" and p: "pending demo_halting = []"
    by (subst eq(1); simp add: demo_solo_eq demo_start_def)+
  show ?thesis
    using queue_stop_swallowed [OF demo_halting_reach w eq(2), of 5] p by simp
qed

end
