(* ===== verification/Wav_Audio.thy ===== *)
theory Wav_Audio
  imports Py_Text File_Store
begin

section \<open>Audio validation and encoding (\<open>server/audio.py\<close>)\<close>

text \<open>
  \<open>read_heliboard_wav_info\<close> unpacks the 44 bytes of a WAV header and checks thirteen fields
  against constants and the file size; \<open>validate_heliboard_wav_metadata\<close> checks the name and
  the media type of the upload; \<open>encode_audio_base64\<close> is \<open>base64.b64encode\<close>. The integers of
  the header are little endian; reading and writing them is an interface (\<open>le_codec\<close>), which
  both widths the header uses implement. The HeliBoard container is stated once, as the writer
  \<open>heliboard_wav\<close>, and the validator accepts exactly its outputs.
\<close>

subsection \<open>Little-endian integers\<close>

fun le_int :: "bytes \<Rightarrow> int" where
  "le_int [] = 0"
| "le_int (b # bs) = uint b + 256 * le_int bs"

fun le_bytes :: "nat \<Rightarrow> int \<Rightarrow> bytes" where
  "le_bytes 0 n = []"
| "le_bytes (Suc k) n = word_of_int n # le_bytes k (n div 256)"

locale le_codec =
  fixes width :: nat
    and enc :: "int \<Rightarrow> bytes"
    and dec :: "bytes \<Rightarrow> int"
  assumes len_enc: "length (enc n) = width"
    and dec_enc: "0 \<le> n \<Longrightarrow> n < 256 ^ width \<Longrightarrow> dec (enc n) = n"
    and enc_dec: "length b = width \<Longrightarrow> enc (dec b) = b"
    and dec_range: "length b = width \<Longrightarrow> 0 \<le> dec b \<and> dec b < 256 ^ width"
begin

lemma dec_eq_iff:
  assumes "length b = width" and "0 \<le> n" and "n < 256 ^ width"
  shows "dec b = n \<longleftrightarrow> b = enc n"
  using assms dec_enc enc_dec by metis

end

lemma length_le_bytes [simp]: "length (le_bytes k n) = k"
  by (induction k arbitrary: n) auto

lemma uint_byte_range: "0 \<le> uint (b :: byte) \<and> uint b < 256"
  using uint_bounded [of b] by simp

lemma le_int_le_bytes: "0 \<le> n \<Longrightarrow> n < 256 ^ k \<Longrightarrow> le_int (le_bytes k n) = n"
proof (induction k arbitrary: n)
  case 0
  then show ?case by simp
next
  case (Suc k)
  have "le_int (le_bytes k (n div 256)) = n div 256"
    using Suc.prems by (intro Suc.IH) (auto simp: pos_imp_zdiv_nonneg_iff div_less_iff_less_mult)
  then show ?case by (simp add: uint_word_of_int)
qed

lemma le_bytes_le_int: "le_bytes (length b) (le_int b) = b"
proof (induction b)
  case Nil
  then show ?case by simp
next
  case (Cons x xs)
  have "(uint x + 256 * le_int xs) div 256 = le_int xs"
    using uint_byte_range [of x] by simp
  moreover have "(word_of_int (uint x + 256 * le_int xs) :: byte) = x"
  proof -
    have z: "(256 :: byte) = 0" by simp
    have "(word_of_int (256 * le_int xs) :: byte) = 256 * word_of_int (le_int xs)" by simp
    also have "\<dots> = 0" by (simp only: z mult_zero_left)
    finally show ?thesis by (simp only: of_int_add add_0_right) simp
  qed
  ultimately show ?case using Cons by simp
qed

lemma le_int_range: "0 \<le> le_int b \<and> le_int b < 256 ^ length b"
proof (induction b)
  case Nil
  then show ?case by simp
next
  case (Cons x xs)
  then show ?case using uint_byte_range [of x] by simp
qed

lemma le_codec_bytes: "le_codec k (le_bytes k) le_int"
proof
  show "le_bytes k (le_int b) = b" if "length b = k" for b
    using le_bytes_le_int [of b] that by simp
  show "0 \<le> le_int b \<and> le_int b < 256 ^ k" if "length b = k" for b
    using le_int_range [of b] that by simp
qed (simp_all add: le_int_le_bytes)

interpretation u16: le_codec 2 "le_bytes 2" le_int
  by (rule le_codec_bytes)

interpretation u32: le_codec 4 "le_bytes 4" le_int
  by (rule le_codec_bytes)

subsection \<open>Upload metadata\<close>

definition heliboard_wav_mime_type :: str where
  "heliboard_wav_mime_type = lit ''audio/wav''"

definition heliboard_wav_suffix :: str where
  "heliboard_wav_suffix = lit ''.wav''"

definition validate_heliboard_wav_metadata :: "str option \<Rightarrow> str option \<Rightarrow> str res" where
  "validate_heliboard_wav_metadata filename content_type =
     (if filename = None \<or> filename = Some []
      then Inl (ValueError (lit ''Audio file must include a filename''))
      else if posix_suffix (the filename) \<noteq> heliboard_wav_suffix
      then Inl (ValueError (lit ''Audio filename must end in .wav''))
      else if content_type \<noteq> Some heliboard_wav_mime_type
      then Inl (ValueError (lit ''Audio part Content-Type must be audio/wav''))
      else Inr heliboard_wav_mime_type)"

subsection \<open>The WAV header\<close>

record wav_info =
  duration_seconds :: rat
  data_size :: int

definition header_bytes :: nat where
  "header_bytes = 44"

definition wav_sample_rate :: int where "wav_sample_rate = 16000"
definition wav_channels :: int where "wav_channels = 1"
definition wav_bits_per_sample :: int where "wav_bits_per_sample = 16"
definition wav_block_align :: int where "wav_block_align = 2"
definition wav_byte_rate :: int where "wav_byte_rate = 32000"

lemmas wav_consts = header_bytes_def wav_sample_rate_def wav_channels_def wav_bits_per_sample_def
  wav_block_align_def wav_byte_rate_def

text \<open>\<open>struct.unpack("<4sI4s4sIHHIIHH4sI", header)\<close>: the fields by offset.\<close>

definition field :: "nat \<Rightarrow> nat \<Rightarrow> bytes \<Rightarrow> bytes" where
  "field off len h = take len (drop off h)"

definition int_field :: "nat \<Rightarrow> nat \<Rightarrow> bytes \<Rightarrow> int" where
  "int_field off len h = le_int (field off len h)"

definition check_wav_header :: "int \<Rightarrow> bytes \<Rightarrow> wav_info res" where
  "check_wav_header whole header =
     (if length header \<noteq> header_bytes then Inl (ValueError (lit ''WAV header is incomplete''))
      else if field 0 4 header \<noteq> blit ''RIFF''
      then Inl (ValueError (lit ''WAV header must start with RIFF''))
      else if int_field 4 4 header \<noteq> whole - 8
      then Inl (ValueError (lit ''WAV RIFF size does not match file length''))
      else if field 8 4 header \<noteq> blit ''WAVE''
      then Inl (ValueError (lit ''WAV header must declare WAVE''))
      else if field 12 4 header \<noteq> blit ''fmt ''
      then Inl (ValueError (lit ''WAV fmt chunk must start at byte 12''))
      else if int_field 16 4 header \<noteq> 16
      then Inl (ValueError (lit ''WAV fmt chunk must be canonical PCM size 16''))
      else if int_field 20 2 header \<noteq> 1
      then Inl (ValueError (lit ''WAV audio format must be PCM''))
      else if int_field 22 2 header \<noteq> wav_channels
      then Inl (ValueError (lit ''WAV must be mono''))
      else if int_field 24 4 header \<noteq> wav_sample_rate
      then Inl (ValueError (lit ''WAV sample rate must be 16000 Hz''))
      else if int_field 28 4 header \<noteq> wav_byte_rate
      then Inl (ValueError (lit ''WAV byte rate must be 32000''))
      else if int_field 32 2 header \<noteq> wav_block_align
      then Inl (ValueError (lit ''WAV block align must be 2''))
      else if int_field 34 2 header \<noteq> wav_bits_per_sample
      then Inl (ValueError (lit ''WAV bits per sample must be 16''))
      else if field 36 4 header \<noteq> blit ''data''
      then Inl (ValueError (lit ''WAV data chunk must start at byte 36''))
      else (let size = int_field 40 4 header
            in if size \<noteq> whole - int header_bytes
               then Inl (ValueError (lit ''WAV data size does not match file length''))
               else if size = 0 then Inl (ValueError (lit ''WAV data chunk is empty''))
               else if size mod wav_block_align \<noteq> 0
               then Inl (ValueError (lit ''WAV data size must align to 16-bit mono samples''))
               else Inr \<lparr>duration_seconds = of_int size / of_int wav_byte_rate, data_size = size\<rparr>))"

text \<open>Reading a file: \<open>os.path.getsize\<close> and \<open>open(path, "rb").read()\<close>.\<close>

definition read_file :: "fs \<Rightarrow> path \<Rightarrow> bytes res" where
  "read_file d p =
     (case node_at d p of
        None \<Rightarrow> Inl FileNotFoundError
      | Some (RegFile _ b) \<Rightarrow> Inr b
      | Some _ \<Rightarrow> Inl OSErrorOther)"

definition read_heliboard_wav_info :: "fs \<Rightarrow> path \<Rightarrow> wav_info res" where
  "read_heliboard_wav_info d p =
     (case read_file d p of
        Inl e \<Rightarrow> Inl e
      | Inr content \<Rightarrow>
          (let whole = int (length content)
           in if whole < int header_bytes then Inl (ValueError (lit ''WAV file is too short''))
              else check_wav_header whole (take header_bytes content)))"

subsection \<open>The container HeliBoard writes\<close>

definition heliboard_header :: "int \<Rightarrow> bytes" where
  "heliboard_header n =
     blit ''RIFF'' @ le_bytes 4 (n + 36) @ blit ''WAVE'' @ blit ''fmt '' @ le_bytes 4 16
     @ le_bytes 2 1 @ le_bytes 2 1 @ le_bytes 4 16000 @ le_bytes 4 32000 @ le_bytes 2 2
     @ le_bytes 2 16 @ blit ''data'' @ le_bytes 4 n"

definition heliboard_wav :: "bytes \<Rightarrow> bytes" where
  "heliboard_wav samples = heliboard_header (int (length samples)) @ samples"

lemma length_heliboard_header [simp]: "length (heliboard_header n) = 44"
  by (simp add: heliboard_header_def)


lemma drop_field: "drop off h = field off len h @ drop (off + len) h"
  by (metis append_take_drop_id drop_drop add.commute field_def)

lemma length_field [simp]: "off + len \<le> length h \<Longrightarrow> length (field off len h) = len"
  by (simp add: field_def)

lemma header_fields:
  assumes "length h = 44"
  shows "h = field 0 4 h @ field 4 4 h @ field 8 4 h @ field 12 4 h @ field 16 4 h @ field 20 2 h
    @ field 22 2 h @ field 24 4 h @ field 28 4 h @ field 32 2 h @ field 34 2 h @ field 36 4 h
    @ field 40 4 h"
proof -
  have "drop 40 h = field 40 4 h" using drop_field [of 40 h 4] assms by simp
  then have "drop 34 h = field 34 2 h @ field 36 4 h @ field 40 4 h"
    using drop_field [of 34 h 2] drop_field [of 36 h 4] by simp
  then have "drop 24 h = field 24 4 h @ field 28 4 h @ field 32 2 h @ field 34 2 h @ field 36 4 h @ field 40 4 h"
    using drop_field [of 24 h 4] drop_field [of 28 h 4] drop_field [of 32 h 2] by simp
  then have "drop 16 h = field 16 4 h @ field 20 2 h @ field 22 2 h @ field 24 4 h @ field 28 4 h
    @ field 32 2 h @ field 34 2 h @ field 36 4 h @ field 40 4 h"
    using drop_field [of 16 h 4] drop_field [of 20 h 2] drop_field [of 22 h 2] by simp
  then show ?thesis
    using drop_field [of 0 h 4] drop_field [of 4 h 4] drop_field [of 8 h 4] drop_field [of 12 h 4] by simp
qed

lemma heliboard_header_fields:
  "field 0 4 (heliboard_header n) = blit ''RIFF''" "field 4 4 (heliboard_header n) = le_bytes 4 (n + 36)"
  "field 8 4 (heliboard_header n) = blit ''WAVE''" "field 12 4 (heliboard_header n) = blit ''fmt ''"
  "field 16 4 (heliboard_header n) = le_bytes 4 16" "field 20 2 (heliboard_header n) = le_bytes 2 1"
  "field 22 2 (heliboard_header n) = le_bytes 2 1" "field 24 4 (heliboard_header n) = le_bytes 4 16000"
  "field 28 4 (heliboard_header n) = le_bytes 4 32000" "field 32 2 (heliboard_header n) = le_bytes 2 2"
  "field 34 2 (heliboard_header n) = le_bytes 2 16" "field 36 4 (heliboard_header n) = blit ''data''"
  "field 40 4 (heliboard_header n) = le_bytes 4 n"
  by (simp_all add: field_def heliboard_header_def)

text \<open>The header check as one condition: the header is the canonical one for a size that matches
  the file, is positive and even.\<close>

lemma check_wav_header_iff:
  assumes "length h = 44"
  shows "check_wav_header whole h = Inr info \<longleftrightarrow>
    (\<exists>n. h = heliboard_header n \<and> 0 < n \<and> n + 36 < 2 ^ 32 \<and> even n \<and> whole = n + 44
       \<and> info = \<lparr>duration_seconds = of_int n / 32000, data_size = n\<rparr>)"
proof
  assume ok: "check_wav_header whole h = Inr info"
  let ?n = "int_field 40 4 h"
  have f: "field 0 4 h = blit ''RIFF''" "int_field 4 4 h = whole - 8" "field 8 4 h = blit ''WAVE''"
    "field 12 4 h = blit ''fmt ''" "int_field 16 4 h = 16" "int_field 20 2 h = 1" "int_field 22 2 h = 1"
    "int_field 24 4 h = 16000" "int_field 28 4 h = 32000" "int_field 32 2 h = 2"
    "int_field 34 2 h = 16" "field 36 4 h = blit ''data''" "?n = whole - 44" "?n \<noteq> 0" "even ?n"
    and info: "info = \<lparr>duration_seconds = of_int ?n / 32000, data_size = ?n\<rparr>"
    using ok by (auto simp: check_wav_header_def wav_consts Let_def split: if_splits)
  have len: "length (field 4 4 h) = 4" "length (field 40 4 h) = 4" "length (field 16 4 h) = 4"
    "length (field 24 4 h) = 4" "length (field 28 4 h) = 4" "length (field 20 2 h) = 2"
    "length (field 22 2 h) = 2" "length (field 32 2 h) = 2" "length (field 34 2 h) = 2"
    using assms by simp_all
  have n: "0 < ?n" using f(14) u32.dec_range [OF len(2)] by (simp add: int_field_def)
  have b: "?n + 36 < 2 ^ 32" using f(2,13) u32.dec_range [OF len(1)] by (simp add: int_field_def)
  have e: "field 4 4 h = le_bytes 4 (?n + 36)" "field 40 4 h = le_bytes 4 ?n"
    "field 16 4 h = le_bytes 4 16" "field 24 4 h = le_bytes 4 16000" "field 28 4 h = le_bytes 4 32000"
    "field 20 2 h = le_bytes 2 1" "field 22 2 h = le_bytes 2 1" "field 32 2 h = le_bytes 2 2"
    "field 34 2 h = le_bytes 2 16"
    using f n b u32.enc_dec [OF len(1)] u32.enc_dec [OF len(2)] u32.enc_dec [OF len(3)]
      u32.enc_dec [OF len(4)] u32.enc_dec [OF len(5)] u16.enc_dec [OF len(6)] u16.enc_dec [OF len(7)]
      u16.enc_dec [OF len(8)] u16.enc_dec [OF len(9)]
    by (simp_all add: int_field_def)
  have "h = heliboard_header ?n"
    using header_fields [OF assms] unfolding e f(1,3,4,12) heliboard_header_def .
  then show "\<exists>n. h = heliboard_header n \<and> 0 < n \<and> n + 36 < 2 ^ 32 \<and> even n \<and> whole = n + 44
       \<and> info = \<lparr>duration_seconds = of_int n / 32000, data_size = n\<rparr>"
    using n b f(13,15) info by (intro exI [of _ ?n]) simp
next
  assume "\<exists>n. h = heliboard_header n \<and> 0 < n \<and> n + 36 < 2 ^ 32 \<and> even n \<and> whole = n + 44
       \<and> info = \<lparr>duration_seconds = of_int n / 32000, data_size = n\<rparr>"
  then obtain n where h: "h = heliboard_header n" and n: "0 < n" "n + 36 < 2 ^ 32" "even n"
    and w: "whole = n + 44" and info: "info = \<lparr>duration_seconds = of_int n / 32000, data_size = n\<rparr>"
    by blast
  have "le_int (le_bytes 4 (n + 36)) = n + 36" "le_int (le_bytes 4 n) = n"
    using n by (intro u32.dec_enc; simp)+
  moreover have "le_int (le_bytes 4 16) = 16" "le_int (le_bytes 2 1) = 1" "le_int (le_bytes 4 16000) = 16000"
    "le_int (le_bytes 4 32000) = 32000" "le_int (le_bytes 2 2) = 2" "le_int (le_bytes 2 16) = 16"
    by (rule u32.dec_enc u16.dec_enc; simp)+
  ultimately show "check_wav_header whole h = Inr info"
    using n by (simp add: check_wav_header_def h int_field_def heliboard_header_fields wav_consts w info
        Let_def even_iff_mod_2_eq_zero)
qed

lemma check_wav_header_raises: "raises_only is_value_error (check_wav_header whole h)"
  unfolding check_wav_header_def Let_def by (intro raises_only_if) simp_all

lemma read_wav_raises:
  assumes "node_at d p = Some (RegFile m b)"
  shows "raises_only is_value_error (read_heliboard_wav_info d p)"
  using assms check_wav_header_raises
  by (simp add: read_heliboard_wav_info_def read_file_def Let_def)

subsection \<open>Base64\<close>

text \<open>
  \<open>base64.b64encode\<close>: three bytes become four characters of six bits each, the last group is
  padded with \<open>=\<close> (61). \<open>b64_decode\<close> is the reference reader the other end uses.
\<close>

definition b64_char :: "int \<Rightarrow> nat" where
  "b64_char v = nat (if v < 26 then 65 + v else if v < 52 then 71 + v else if v < 62 then v - 4
                     else if v = 62 then 43 else 47)"

fun encode_audio_base64 :: "bytes \<Rightarrow> str" where
  "encode_audio_base64 [] = []"
| "encode_audio_base64 [a] =
     [b64_char (uint a div 4), b64_char (uint a mod 4 * 16), 61, 61]"
| "encode_audio_base64 [a, b] =
     [b64_char (uint a div 4), b64_char (uint a mod 4 * 16 + uint b div 16),
      b64_char (uint b mod 16 * 4), 61]"
| "encode_audio_base64 (a # b # c # rest) =
     b64_char (uint a div 4) # b64_char (uint a mod 4 * 16 + uint b div 16)
     # b64_char (uint b mod 16 * 4 + uint c div 64) # b64_char (uint c mod 64)
     # encode_audio_base64 rest"

definition encode_audio_file_base64 :: "fs \<Rightarrow> path \<Rightarrow> str res" where
  "encode_audio_file_base64 d p =
     (case read_file d p of Inl e \<Rightarrow> Inl e | Inr b \<Rightarrow> Inr (encode_audio_base64 b))"

definition b64_value :: "nat \<Rightarrow> int" where
  "b64_value c = (if 65 \<le> c \<and> c \<le> 90 then int c - 65 else if 97 \<le> c \<and> c \<le> 122 then int c - 71
                  else if 48 \<le> c \<and> c \<le> 57 then int c + 4 else if c = 43 then 62 else 63)"

fun b64_decode :: "str \<Rightarrow> bytes" where
  "b64_decode (p # q # r # s # rest) =
     word_of_int (b64_value p * 4 + b64_value q div 16)
     # (if r = 61 then []
        else word_of_int (b64_value q mod 16 * 16 + b64_value r div 4)
             # (if s = 61 then [] else word_of_int (b64_value r mod 4 * 64 + b64_value s) # b64_decode rest))"
| "b64_decode _ = []"

lemma b64_char_value:
  assumes "0 \<le> v" and "v < 64"
  shows "b64_value (b64_char v) = v \<and> b64_char v \<noteq> 61 \<and> b64_char v < 128"
proof -
  consider "v < 26" | "26 \<le> v \<and> v < 52" | "52 \<le> v \<and> v < 62" | "v = 62" | "v = 63"
    using assms by linarith
  then show ?thesis
  proof cases
    case 1
    then have "b64_char v = nat (65 + v)" by (simp add: b64_char_def)
    then show ?thesis using 1 assms by (simp add: b64_value_def nat_le_iff le_nat_iff nat_eq_iff nat_less_iff)
  next
    case 2
    then have "b64_char v = nat (71 + v)" by (simp add: b64_char_def)
    then show ?thesis using 2 by (simp add: b64_value_def nat_le_iff le_nat_iff nat_eq_iff nat_less_iff)
  next
    case 3
    then have "b64_char v = nat (v - 4)" by (simp add: b64_char_def)
    then show ?thesis using 3 by (simp add: b64_value_def nat_le_iff le_nat_iff nat_eq_iff nat_less_iff)
  qed (simp_all add: b64_char_def b64_value_def)
qed

lemma div_mod_join:
  fixes x y :: int
  shows "0 \<le> y \<Longrightarrow> y < 16 \<Longrightarrow> (x * 16 + y) div 16 = x" "0 \<le> y \<Longrightarrow> y < 16 \<Longrightarrow> (x * 16 + y) mod 16 = y"
    "0 \<le> y \<Longrightarrow> y < 4 \<Longrightarrow> (x * 4 + y) div 4 = x" "0 \<le> y \<Longrightarrow> y < 4 \<Longrightarrow> (x * 4 + y) mod 4 = y"
  by simp_all

lemma byte_parts:
  fixes a :: byte
  shows "0 \<le> uint a div 4" "uint a div 4 < 64" "0 \<le> uint a div 16" "uint a div 16 < 16"
    "0 \<le> uint a div 64" "uint a div 64 < 4" "0 \<le> uint a mod 4" "uint a mod 4 < 4"
    "0 \<le> uint a mod 16" "uint a mod 16 < 16" "0 \<le> uint a mod 64" "uint a mod 64 < 64"
  using uint_byte_range [of a] by (auto simp: pos_imp_zdiv_nonneg_iff)

lemma sextet_bounds:
  fixes x y :: int
  shows "0 \<le> x \<Longrightarrow> x < 4 \<Longrightarrow> 0 \<le> y \<Longrightarrow> y < 16 \<Longrightarrow> 0 \<le> x * 16 + y \<and> x * 16 + y < 64"
    "0 \<le> x \<Longrightarrow> x < 16 \<Longrightarrow> 0 \<le> y \<Longrightarrow> y < 4 \<Longrightarrow> 0 \<le> x * 4 + y \<and> x * 4 + y < 64"
    "0 \<le> x \<Longrightarrow> x < 4 \<Longrightarrow> 0 \<le> x * 16 \<and> x * 16 < 64"
    "0 \<le> x \<Longrightarrow> x < 16 \<Longrightarrow> 0 \<le> x * 4 \<and> x * 4 < 64"
  by linarith+

lemma byte_sextets:
  fixes a b :: byte
  defines "good \<equiv> \<lambda>v. b64_value (b64_char v) = v \<and> b64_char v \<noteq> 61 \<and> b64_char v < 128"
  shows "good (uint a div 4)" "good (uint a mod 4 * 16)" "good (uint a mod 4 * 16 + uint b div 16)"
    "good (uint a mod 16 * 4)" "good (uint a mod 16 * 4 + uint b div 64)" "good (uint a mod 64)"
proof -
  have in_range: "good v" if "0 \<le> v \<and> v < 64" for v
    using that b64_char_value by (simp add: good_def)
  show "good (uint a div 4)" "good (uint a mod 64)"
    by (rule in_range, simp add: byte_parts)+
  show "good (uint a mod 4 * 16)" by (rule in_range, rule sextet_bounds(3); rule byte_parts)
  show "good (uint a mod 16 * 4)" by (rule in_range, rule sextet_bounds(4); rule byte_parts)
  show "good (uint a mod 4 * 16 + uint b div 16)"
    by (rule in_range, rule sextet_bounds(1); rule byte_parts)
  show "good (uint a mod 16 * 4 + uint b div 64)"
    by (rule in_range, rule sextet_bounds(2); rule byte_parts)
qed

lemmas sextet_values = byte_sextets [THEN conjunct1]

lemmas sextet_chars = byte_sextets [THEN conjunct2]

lemma sextet_joins:
  fixes a b c :: byte
  shows "uint a div 4 * 4 + uint a mod 4 * 16 div 16 = uint a"
    "uint a div 4 * 4 + (uint a mod 4 * 16 + uint b div 16) div 16 = uint a"
    "(uint a mod 4 * 16 + uint b div 16) mod 16 * 16 + uint b mod 16 * 4 div 4 = uint b"
    "(uint a mod 4 * 16 + uint b div 16) mod 16 * 16 + (uint b mod 16 * 4 + uint c div 64) div 4 = uint b"
    "(uint b mod 16 * 4 + uint c div 64) mod 4 * 64 + uint c mod 64 = uint c"
proof -
  note p = byte_parts [of a] byte_parts [of b] byte_parts [of c]
  have d: "(uint a mod 4 * 16 + uint b div 16) div 16 = uint a mod 4"
      "(uint a mod 4 * 16 + uint b div 16) mod 16 = uint b div 16"
      "(uint b mod 16 * 4 + uint c div 64) div 4 = uint b mod 16"
      "(uint b mod 16 * 4 + uint c div 64) mod 4 = uint c div 64"
    using p by (simp_all only: div_mod_join)
  show "uint a div 4 * 4 + uint a mod 4 * 16 div 16 = uint a"
    "uint a div 4 * 4 + (uint a mod 4 * 16 + uint b div 16) div 16 = uint a"
    "(uint a mod 4 * 16 + uint b div 16) mod 16 * 16 + uint b mod 16 * 4 div 4 = uint b"
    "(uint a mod 4 * 16 + uint b div 16) mod 16 * 16 + (uint b mod 16 * 4 + uint c div 64) div 4 = uint b"
    "(uint b mod 16 * 4 + uint c div 64) mod 4 * 64 + uint c mod 64 = uint c"
    unfolding d by simp_all
qed

lemma decode_encode: "b64_decode (encode_audio_base64 bs) = bs"
proof (induction bs rule: encode_audio_base64.induct)
  case (2 a)
  show ?case by (simp only: encode_audio_base64.simps b64_decode.simps sextet_values sextet_joins
      word_of_int_uint if_True refl)
next
  case (3 a b)
  show ?case by (simp only: encode_audio_base64.simps b64_decode.simps sextet_values sextet_joins
      sextet_chars word_of_int_uint if_True if_False refl)
next
  case (4 a b c rest)
  then show ?case by (simp only: encode_audio_base64.simps b64_decode.simps sextet_values sextet_joins
      sextet_chars word_of_int_uint if_False)
qed simp

lemma length_encode: "length (encode_audio_base64 bs) = 4 * ((length bs + 2) div 3)"
proof (induction bs rule: encode_audio_base64.induct)
  case (4 a b c rest)
  have "(length (a # b # c # rest) + 2) div 3 = Suc ((length rest + 2) div 3)" by simp
  then show ?case using 4 by simp
qed simp_all

lemma encode_ascii: "\<forall>c \<in> set (encode_audio_base64 bs). c < 128"
  by (induction bs rule: encode_audio_base64.induct) (simp_all add: sextet_chars)

subsection \<open>Properties\<close>

lemma wav_accepts_iff:
  "read_heliboard_wav_info d p = Inr info \<longleftrightarrow>
     (\<exists>m samples. node_at d p = Some (RegFile m (heliboard_wav samples)) \<and> samples \<noteq> []
        \<and> even (length samples) \<and> length samples + 36 < 2 ^ 32
        \<and> info = \<lparr>duration_seconds = of_nat (length samples) / 32000, data_size = int (length samples)\<rparr>)"
    (is "?l \<longleftrightarrow> ?r")
proof
  assume ?l
  then obtain m b where b: "node_at d p = Some (RegFile m b)" "44 \<le> length b"
    and c: "check_wav_header (int (length b)) (take 44 b) = Inr info"
    by (auto simp: read_heliboard_wav_info_def read_file_def header_bytes_def Let_def
        split: option.splits node.splits if_splits)
  have "length (take 44 b) = 44" using b by simp
  from c [unfolded check_wav_header_iff [OF this]] obtain n where n: "take 44 b = heliboard_header n"
    "0 < n" "n + 36 < 2 ^ 32" "even n" "int (length b) = n + 44"
    "info = \<lparr>duration_seconds = of_int n / 32000, data_size = n\<rparr>" by blast
  let ?s = "drop 44 b"
  have l: "int (length ?s) = n" using n(5) b(2) by (simp add: of_nat_diff)
  have bs: "b = heliboard_wav ?s"
    using n(1) l by (metis append_take_drop_id heliboard_wav_def)
  have "?s \<noteq> []" using l n(2) by force
  moreover have "even (length ?s)" using l n(4) by (metis even_of_nat)
  moreover have "length ?s + 36 < 2 ^ 32"
  proof -
    have "int (length ?s + 36) < int (2 ^ 32)" using l n(3) by simp
    then show ?thesis by (simp only: of_nat_less_iff)
  qed
  moreover have "info = \<lparr>duration_seconds = of_nat (length ?s) / 32000, data_size = int (length ?s)\<rparr>"
    using l n(6) by (metis of_int_of_nat_eq)
  ultimately show ?r using b(1) bs by metis
next
  assume ?r
  then obtain m samples where n: "node_at d p = Some (RegFile m (heliboard_wav samples))" "samples \<noteq> []"
    and s: "even (length samples)" "length samples + 36 < 2 ^ 32"
    and info: "info = \<lparr>duration_seconds = of_nat (length samples) / 32000, data_size = int (length samples)\<rparr>"
    by blast
  let ?n = "int (length samples)"
  have "check_wav_header (?n + 44) (heliboard_header ?n) = Inr info"
    using n(2) s info by (subst check_wav_header_iff) (auto intro!: exI [of _ ?n])
  then have "check_wav_header (44 + ?n) (heliboard_header ?n) = Inr info" by (simp only: add.commute)
  then show ?l
    using n by (simp add: read_heliboard_wav_info_def read_file_def header_bytes_def heliboard_wav_def Let_def)
qed

text \<open>A file as HeliBoard writes it: the header and at least one whole sample.\<close>

definition heliboard_file :: "bytes \<Rightarrow> bool" where
  "heliboard_file b \<longleftrightarrow> (\<exists>samples. b = heliboard_wav samples \<and> samples \<noteq> [] \<and> even (length samples) \<and> length samples + 36 < 2 ^ 32)"

lemma heliboard_file_read:
  assumes "node_at d p = Some (RegFile m b)"
  shows "isl (read_heliboard_wav_info d p) \<longleftrightarrow> \<not> heliboard_file b"
proof -
  have "\<not> isl (read_heliboard_wav_info d p) \<longleftrightarrow> (\<exists>info. read_heliboard_wav_info d p = Inr info)"
    by (cases "read_heliboard_wav_info d p") auto
  then show ?thesis using assms by (auto simp: wav_accepts_iff heliboard_file_def)
qed

text \<open>C16. The WAV check accepts exactly what HeliBoard writes: \<open>read_heliboard_wav_info\<close> returns
  if and only if the file is the canonical 44-byte header for 16 kHz mono 16-bit PCM followed
  by a non-empty, even number of sample bytes that fits the 32-bit size fields; and then it
  returns their number and that number over 32000 as the duration.\<close>

theorem wav_accepts_exactly_heliboard:
  "read_heliboard_wav_info d p = Inr info \<longleftrightarrow>
     (\<exists>m samples. node_at d p = Some (RegFile m (heliboard_wav samples)) \<and> samples \<noteq> []
        \<and> even (length samples) \<and> length samples + 36 < 2 ^ 32
        \<and> info = \<lparr>duration_seconds = of_nat (length samples) / 32000, data_size = int (length samples)\<rparr>)"
  by (rule wav_accepts_iff)

text \<open>Upload metadata: a name and media type are accepted exactly when the name's path suffix
  is \<open>.wav\<close> and the type is \<open>audio/wav\<close>. For a name without a slash that is one character or
  more before a final \<open>.wav\<close>; so a wrong type, a missing name and other extensions (in any
  case) are all refused with a \<open>ValueError\<close>.\<close>

theorem metadata_accepts:
  "(validate_heliboard_wav_metadata f t = Inr r \<longleftrightarrow>
      (\<exists>n. f = Some n \<and> n \<noteq> [] \<and> posix_suffix n = lit ''.wav'') \<and> t = Some (lit ''audio/wav'')
      \<and> r = lit ''audio/wav'')
   \<and> (validate_heliboard_wav_metadata f t = Inl e \<longrightarrow> (\<exists>m. e = ValueError m))
   \<and> (47 \<notin> set n \<longrightarrow> (posix_suffix n = lit ''.wav'' \<longleftrightarrow> (\<exists>stem. stem \<noteq> [] \<and> n = stem @ lit ''.wav'')))"
proof -
  have "posix_suffix n = lit ''.wav'' \<longleftrightarrow> (\<exists>stem. stem \<noteq> [] \<and> n = stem @ lit ''.wav'')" if "47 \<notin> set n"
  proof -
    have w: "lit ''.wav'' = 46 # lit ''wav''" "46 \<notin> set (lit ''wav'')" by (simp_all add: lit_def)
    have p: "posix_parts n = (if n = [] \<or> n = lit ''.'' then [] else [n])"
      using split_on_no_sep [OF that] by (simp add: posix_parts_def)
    have "name_suffix [] = []" by (simp add: name_suffix_def after_last_dot_def)
    then have ps: "posix_suffix n = (if n = [] \<or> n = lit ''.'' then [] else name_suffix n)"
      using p by (simp add: posix_suffix_def posix_name_def)
    have "name_suffix n = lit ''.wav'' \<longleftrightarrow> (\<exists>stem. stem \<noteq> [] \<and> n = stem @ lit ''.wav'')"
      using name_suffix_of_ext [of _ "lit ''wav''"] name_suffix_split [of n "lit ''.wav''"] w by auto
    moreover have "length (stem @ lit ''.wav'') \<noteq> length (lit ''.'')" for stem by simp
    ultimately show ?thesis using ps by (metis Nil_is_append_conv lit_Nil_iff(1) list.distinct(1))
  qed
  then show ?thesis
    by (auto simp: validate_heliboard_wav_metadata_def heliboard_wav_suffix_def
        heliboard_wav_mime_type_def split: if_splits)
qed

theorem metadata_accepts_witness:
  "validate_heliboard_wav_metadata (Some (lit ''note.wav'')) (Some (lit ''audio/wav'')) = Inr (lit ''audio/wav'')
   \<and> (\<forall>r. validate_heliboard_wav_metadata (Some (lit ''note.WAV'')) (Some (lit ''audio/wav'')) \<noteq> Inr r)"
proof -
  have c: "47 \<notin> set (lit ''note.wav'')" "47 \<notin> set (lit ''note.WAV'')" by (simp_all add: lit_def)
  have "lit ''note.wav'' = lit ''note'' @ lit ''.wav''" by (simp flip: lit_append)
  moreover have "lit ''note.WAV'' \<noteq> stem @ lit ''.wav''" for stem
  proof
    assume "lit ''note.WAV'' = stem @ lit ''.wav''"
    then have "last (lit ''note.WAV'') = last (lit ''.wav'')" by (metis last_appendR lit_Nil_iff(1) list.distinct(1))
    then show False by (simp add: lit_def)
  qed
  moreover have "lit ''note'' \<noteq> []" "lit ''note.wav'' \<noteq> []" by simp_all
  ultimately have p: "posix_suffix (lit ''note.wav'') = lit ''.wav''"
      "posix_suffix (lit ''note.WAV'') \<noteq> lit ''.wav''"
    using metadata_accepts [where n = "lit ''note.wav''"] metadata_accepts [where n = "lit ''note.WAV''"] c
    by (metis, metis)
  show ?thesis
    using metadata_accepts [where f = "Some (lit ''note.wav'')" and t = "Some (lit ''audio/wav'')"]
      metadata_accepts [where f = "Some (lit ''note.WAV'')" and t = "Some (lit ''audio/wav'')"] p
    by simp
qed

text \<open>The refusal message \<open>Audio filename must end in .wav\<close> is not the rule: the name \<open>.wav\<close>
  ends in \<open>.wav\<close> and is refused with that message, and \<open>a.wav/\<close> does not and is accepted.\<close>

theorem metadata_message_differs:
  "validate_heliboard_wav_metadata (Some (lit ''.wav'')) (Some (lit ''audio/wav''))
     = Inl (ValueError (lit ''Audio filename must end in .wav''))
   \<and> validate_heliboard_wav_metadata (Some (lit ''a.wav/'')) (Some (lit ''audio/wav''))
     = Inr (lit ''audio/wav'')"
  by (simp add: validate_heliboard_wav_metadata_def heliboard_wav_suffix_def heliboard_wav_mime_type_def
      posix_suffix_def posix_name_def posix_parts_def name_suffix_def after_last_dot_def lit_def Let_def)

text \<open>Base64: decoding what \<open>encode_audio_base64\<close> produced gives back the bytes; the output
  is ASCII and has four characters for every three bytes or part of three, so the model
  receives the audio file byte for byte.\<close>

theorem base64_roundtrip:
  "b64_decode (encode_audio_base64 bs) = bs
   \<and> length (encode_audio_base64 bs) = 4 * ((length bs + 2) div 3)
   \<and> list_all (\<lambda>c. c < 128) (encode_audio_base64 bs)"
  using decode_encode length_encode encode_ascii by (simp add: list_all_iff)

end
