(* ===== verification/Py_Float.thy ===== *)
theory Py_Float
  imports Py_Text
begin

section \<open>Binary floating point where its digits matter\<close>

text \<open>
  The model keeps durations and waiting times as rational numbers. Where the code prints one
  (\<open>f"{x:.2f}"\<close>, \<open>json.dumps\<close>), the digits are those of the nearest binary64 number: \<open>b64\<close>
  rounds to it (to nearest, ties to even; magnitudes below 2^1024), \<open>fixed2\<close> is the format
  \<open>.2f\<close>, and \<open>float_repr\<close> is \<open>repr\<close>: the shortest decimal that reads back as the same number,
  the nearest of those.
\<close>

subsection \<open>Rounding\<close>

definition round_even :: "rat \<Rightarrow> int" where
  "round_even q =
     (let f = \<lfloor>q\<rfloor>; r = q - of_int f
      in if r < 1 / 2 then f else if r > 1 / 2 then f + 1 else if even f then f else f + 1)"

definition pow_rat :: "nat \<Rightarrow> int \<Rightarrow> rat" where
  "pow_rat b e = (if 0 \<le> e then of_nat b ^ nat e else 1 / of_nat b ^ nat (- e))"

fun bit_length :: "nat \<Rightarrow> nat" where
  "bit_length n = (if n = 0 then 0 else Suc (bit_length (n div 2)))"

declare bit_length.simps [simp del]

text \<open>The exponent \<open>e\<close> with \<open>2^e \<le> q < 2^(e+1)\<close>, for positive \<open>q\<close>.\<close>

definition exp2 :: "rat \<Rightarrow> int" where
  "exp2 q =
     (let (n, d) = quotient_of q; e = int (bit_length (nat n)) - int (bit_length (nat d))
      in if q < pow_rat 2 e then e - 1 else e)"

definition b64 :: "rat \<Rightarrow> rat" where
  "b64 q =
     (if q = 0 then 0
      else (let ulp = pow_rat 2 (max (exp2 \<bar>q\<bar>) (- 1022) - 52) in of_int (round_even (q / ulp)) * ulp))"

text \<open>A binary64 value: a number, or one of the special values. Magnitudes of 2^1024 and above
  overflow.\<close>

datatype pyfloat = Fin rat | PosInf | NegInf | NaN

definition float_of_rat :: "rat \<Rightarrow> pyfloat" where
  "float_of_rat q = (let v = b64 q in if \<bar>v\<bar> < 2 ^ 1024 then Fin v else if 0 < v then PosInf else NegInf)"

subsection \<open>\<open>f"{x:.2f}"\<close>\<close>

text \<open>A number with a given number of digits, with leading zeros.\<close>

definition pad :: "nat \<Rightarrow> nat \<Rightarrow> str" where
  "pad k n = replicate (k - length (show_nat n)) 48 @ show_nat n"

definition decimals :: "nat \<Rightarrow> nat \<Rightarrow> str" where
  "decimals k m = show_nat (m div 10 ^ k) @ 46 # pad k (m mod 10 ^ k)"

definition fixed2 :: "rat \<Rightarrow> str" where
  "fixed2 q = (if q < 0 then [45] else []) @ decimals 2 (nat \<bar>round_even (b64 q * 100)\<bar>)"

subsection \<open>\<open>repr\<close>\<close>

text \<open>The decimal exponent of a positive number, the candidates with \<open>k\<close> digits and the first
  \<open>k\<close> with one that reads back (17 digits always do).\<close>

fun leading_zeros :: "nat \<Rightarrow> rat \<Rightarrow> nat" where
  "leading_zeros 0 v = 0"
| "leading_zeros (Suc n) v = (if 1 \<le> v then 0 else Suc (leading_zeros n (v * 10)))"

definition exp10 :: "rat \<Rightarrow> int" where
  "exp10 v = (if 1 \<le> v then int (length (show_nat (nat \<lfloor>v\<rfloor>))) - 1 else - int (leading_zeros 400 v))"

definition nearest_digits :: "rat \<Rightarrow> int \<Rightarrow> nat \<Rightarrow> nat option" where
  "nearest_digits v x k =
     (let s = pow_rat 10 (x - int k + 1); c = nat (round_even (v / s)); f = nat \<lfloor>v / s\<rfloor>;
          ok = (\<lambda>m. b64 (of_nat m * s) = v)
      in if ok c then Some c else if ok f then Some f else if ok (f + 1) then Some (f + 1) else None)"

fun shortest :: "rat \<Rightarrow> int \<Rightarrow> nat \<Rightarrow> nat \<Rightarrow> nat \<times> nat" where
  "shortest v x k 0 = (nat (round_even (v / pow_rat 10 (x - int k + 1))), k)"
| "shortest v x k (Suc n) =
     (case nearest_digits v x k of Some c \<Rightarrow> (c, k) | None \<Rightarrow> shortest v x (k + 1) n)"

definition repr_digits :: "nat \<Rightarrow> nat \<Rightarrow> int \<Rightarrow> str" where
  "repr_digits c k x =
     (let p = x - int k + 1
      in if - 4 \<le> x \<and> x < 16
         then (if 0 \<le> p then show_nat (c * 10 ^ nat p) @ [46, 48] else decimals (nat (- p)) c)
         else (if k = 1 then show_nat c else decimals (k - 1) c)
              @ 101 # (if x < 0 then 45 else 43) # pad 2 (nat \<bar>x\<bar>))"

definition float_repr :: "rat \<Rightarrow> str" where
  "float_repr q =
     (if q = 0 then lit ''0.0''
      else (let v = \<bar>b64 q\<bar>; x = exp10 v; (c, k) = shortest v x 1 16
            in (if q < 0 then [45] else []) @ repr_digits c k x))"

subsection \<open>Facts\<close>

definition is_digit :: "nat \<Rightarrow> bool" where
  "is_digit c \<longleftrightarrow> 48 \<le> c \<and> c \<le> 57"

text \<open>The float literals of JSON: sign, integer part without leading zeros, fraction, exponent,
  and at least one of the last two.\<close>

definition frac_text :: "str \<Rightarrow> bool" where
  "frac_text t \<longleftrightarrow> t = [] \<or> (\<exists>ds. t = 46 # ds \<and> ds \<noteq> [] \<and> list_all is_digit ds)"

definition exp_text :: "str \<Rightarrow> bool" where
  "exp_text t \<longleftrightarrow> t = [] \<or> (\<exists>s ds. t = 101 # s # ds \<and> (s = 43 \<or> s = 45) \<and> ds \<noteq> [] \<and> list_all is_digit ds)"

definition float_text :: "str \<Rightarrow> bool" where
  "float_text t \<longleftrightarrow> (\<exists>sg k fr ex. (sg = [] \<or> sg = [45]) \<and> t = sg @ show_nat k @ fr @ ex
     \<and> frac_text fr \<and> exp_text ex \<and> (fr \<noteq> [] \<or> ex \<noteq> []))"

lemma show_nat_is_digits: "list_all is_digit (show_nat n)"
  using show_nat_digits by (auto simp: list_all_iff is_digit_def)

lemma pad_digits: "list_all is_digit (pad k n)" "pad k n \<noteq> []"
  using show_nat_is_digits [of n] by (auto simp: pad_def list_all_iff is_digit_def)

lemma float_textI:
  "sg = [] \<or> sg = [45] \<Longrightarrow> frac_text fr \<Longrightarrow> exp_text ex \<Longrightarrow> fr \<noteq> [] \<or> ex \<noteq> [] \<Longrightarrow>
     float_text (sg @ show_nat k @ fr @ ex)"
  unfolding float_text_def by blast

text \<open>\<open>repr\<close> writes a float literal, so JSON text with a float in it stays JSON.\<close>

lemma float_text_repr: "float_text (float_repr q)"
proof -
  have body: "\<exists>n fr ex. repr_digits c k x = show_nat n @ fr @ ex \<and> frac_text fr \<and> exp_text ex \<and> (fr \<noteq> [] \<or> ex \<noteq> [])"
    for c k x
  proof -
    have dec: "decimals j m = show_nat (m div 10 ^ j) @ (46 # pad j (m mod 10 ^ j)) @ []"
      "frac_text (46 # pad j (m mod 10 ^ j))" for j m
      using pad_digits by (simp_all add: decimals_def frac_text_def)
    have z: "frac_text [46, 48]" "frac_text []" "exp_text []"
      by (auto simp: frac_text_def exp_text_def is_digit_def)
    have e: "exp_text (101 # (if x < 0 then 45 else 43) # pad 2 m)" for m
      using pad_digits by (simp add: exp_text_def)
    have wit: "\<exists>n' fr' ex'. show_nat n @ fr @ ex = show_nat n' @ fr' @ ex' \<and> frac_text fr' \<and> exp_text ex'
        \<and> (fr' \<noteq> [] \<or> ex' \<noteq> [])" if "frac_text fr" "exp_text ex" "fr \<noteq> [] \<or> ex \<noteq> []" for n fr ex
      using that by blast
    consider "- 4 \<le> x \<and> x < 16" "0 \<le> x - int k + 1" | "- 4 \<le> x \<and> x < 16" "\<not> 0 \<le> x - int k + 1"
      | "\<not> (- 4 \<le> x \<and> x < 16)" "k = 1" | "\<not> (- 4 \<le> x \<and> x < 16)" "k \<noteq> 1" by blast
    then show ?thesis
    proof cases
      case 1
      then have r: "repr_digits c k x = show_nat (c * 10 ^ nat (x - int k + 1)) @ [46, 48] @ []"
        by (simp add: repr_digits_def)
      show ?thesis unfolding r by (rule wit) (simp_all add: z)
    next
      case 2
      then have r: "repr_digits c k x = decimals (nat (- (x - int k + 1))) c" by (simp add: repr_digits_def)
      show ?thesis unfolding r dec(1) by (rule wit) (simp_all add: z dec)
    next
      case 3
      then have r: "repr_digits c k x
          = show_nat c @ [] @ (101 # (if x < 0 then 45 else 43) # pad 2 (nat \<bar>x\<bar>))"
        unfolding repr_digits_def Let_def if_not_P [OF 3(1)] by simp
      show ?thesis unfolding r by (rule wit) (simp_all only: z e, simp)
    next
      case 4
      then have r: "repr_digits c k x = show_nat (c div 10 ^ (k - 1)) @ (46 # pad (k - 1) (c mod 10 ^ (k - 1)))
          @ (101 # (if x < 0 then 45 else 43) # pad 2 (nat \<bar>x\<bar>))"
        unfolding repr_digits_def Let_def if_not_P [OF 4(1)] decimals_def by simp
      show ?thesis unfolding r by (rule wit) (simp_all only: dec e, simp)
    qed
  qed
  show ?thesis
  proof (cases "q = 0")
    case True
    have "float_text ([] @ show_nat 0 @ [46, 48] @ [])"
      by (rule float_textI) (simp_all add: frac_text_def exp_text_def is_digit_def)
    then show ?thesis using True by (simp add: float_repr_def lit_def show_nat.simps)
  next
    case False
    obtain c k where "shortest \<bar>b64 q\<bar> (exp10 \<bar>b64 q\<bar>) 1 16 = (c, k)" by fastforce
    then have r: "float_repr q = (if q < 0 then [45] else []) @ repr_digits c k (exp10 \<bar>b64 q\<bar>)"
      using False by (simp add: float_repr_def Let_def)
    obtain n fr ex where b: "repr_digits c k (exp10 \<bar>b64 q\<bar>) = show_nat n @ fr @ ex" "frac_text fr" "exp_text ex"
      "fr \<noteq> [] \<or> ex \<noteq> []" using body [of c k "exp10 \<bar>b64 q\<bar>"] by (elim exE conjE)
    show ?thesis unfolding r b(1) by (rule float_textI) (use b in auto)
  qed
qed

lemma round_even_near: "\<bar>of_int (round_even q) - q\<bar> \<le> 1 / 2"
proof -
  have "of_int \<lfloor>q\<rfloor> \<le> q" "q < of_int \<lfloor>q\<rfloor> + 1" by linarith+
  then show ?thesis
    unfolding round_even_def Let_def by (auto simp: abs_if split: if_splits) linarith
qed

lemma round_even_of_int [simp]: "round_even (of_int n) = n"
  by (simp add: round_even_def)

end
