(* ===== verification/Client_Gate.thy ===== *)
theory Client_Gate
  imports Queue_Reports Py_Float
begin

section \<open>What stands before the routes: configuration, transport and identity checks\<close>

text \<open>
  \<open>server/config.py\<close> (the validators of \<open>Settings\<close>), \<open>server/__main__.py\<close> (the checks on the
  arguments), \<open>server/app.py\<close> (the middleware that refuses plain HTTP),
  \<open>server/client_identity.py\<close> (the identity the proxy vouches for) and the two small routes
  \<open>health\<close> and \<open>queue_status\<close>. The header lookup of Starlette, the wrapped ASGI application
  and the answer of the model server are arguments of the definitions.
\<close>

subsection \<open>Settings\<close>

fun isfinite :: "pyfloat \<Rightarrow> bool" where
  "isfinite (Fin _) = True"
| "isfinite _ = False"

fun float_lt :: "pyfloat \<Rightarrow> pyfloat \<Rightarrow> bool" where
  "float_lt (Fin a) (Fin b) = (a < b)"
| "float_lt (Fin a) PosInf = True"
| "float_lt NegInf (Fin b) = True"
| "float_lt NegInf PosInf = True"
| "float_lt _ _ = False"

definition float_le :: "pyfloat \<Rightarrow> pyfloat \<Rightarrow> bool" where
  "float_le a b \<longleftrightarrow> a \<noteq> NaN \<and> b \<noteq> NaN \<and> (float_lt a b \<or> a = b)"

datatype backend = Vibevoice | Groq

record settings =
  asr_backend :: backend
  max_audio_bytes :: int
  max_queue_size :: int
  vllm_base_url :: str
  vllm_model_name :: str
  vllm_temperature :: pyfloat
  vllm_top_p :: pyfloat
  groq_api_key :: str
  groq_model_name :: str

definition positive_int :: "int \<Rightarrow> int res" where
  "positive_int value = (if value < 1 then Inl (ValueError (lit ''must be >= 1'')) else Inr value)"

definition valid_temperature :: "pyfloat \<Rightarrow> pyfloat res" where
  "valid_temperature value =
     (if \<not> isfinite value \<or> float_lt value (Fin 0) \<or> float_le (Fin 2) value
      then Inl (ValueError (lit ''vLLM temperature must be finite and in [0.0, 2.0)''))
      else Inr value)"

definition valid_top_p :: "pyfloat \<Rightarrow> pyfloat res" where
  "valid_top_p value =
     (if \<not> isfinite value \<or> float_le value (Fin 0) \<or> float_lt (Fin 1) value
      then Inl (ValueError (lit ''vLLM top_p must be finite and in (0.0, 1.0]''))
      else Inr value)"

text \<open>Pydantic runs every validator and builds the object when none of them raised.\<close>

definition settings_ok :: "settings \<Rightarrow> bool" where
  "settings_ok s \<longleftrightarrow> \<not> isl (positive_int (max_audio_bytes s))
     \<and> \<not> isl (positive_int (max_queue_size s))
     \<and> \<not> isl (valid_temperature (vllm_temperature s)) \<and> \<not> isl (valid_top_p (vllm_top_p s))"

text \<open>The two checks of \<open>main\<close> after \<open>parse_args\<close>; \<open>parser.error\<close> prints and exits.\<close>

definition main_args_error :: "settings \<Rightarrow> str option" where
  "main_args_error a =
     (if asr_backend a = Vibevoice \<and> vllm_base_url a = []
      then Some (lit ''--vllm-base-url is required when --asr-backend is vibevoice'')
      else if asr_backend a = Groq \<and> groq_api_key a = []
      then Some (lit ''--groq-api-key is required when --asr-backend is groq'')
      else None)"

text \<open>The start of the server (\<open>lifespan\<close>): the queue with the configured capacity, the
  processing function of the configured backend, the worker.\<close>

definition start_queue :: "settings \<Rightarrow> fs \<Rightarrow> tqueue res" where
  "start_queue s d =
     (case make_queue (max_queue_size s) d of
        Inl e \<Rightarrow> Inl e
      | Inr q \<Rightarrow> Inr (start_worker (set_process_fn q)))"

subsection \<open>HTTPS only\<close>

record scope =
  scope_type :: str
  scope_path :: str
  scope_headers :: "(bytes \<times> bytes) list"

datatype asgi_message = ResponseStart int "(bytes \<times> bytes) list" | ResponseBody bytes

definition open_paths :: "str set" where
  "open_paths = {lit ''/health''}"

definition https_required_body :: bytes where
  "https_required_body = ascii_bytes
     ([123, 34] @ lit ''detail'' @ [34, 58, 32, 34] @ lit ''HTTPS required'' @ [34, 125])"

text \<open>\<open>dict(headers).get(name)\<close>: of several entries with one name the last counts.\<close>

definition header_dict_get :: "(bytes \<times> bytes) list \<Rightarrow> bytes \<Rightarrow> bytes option" where
  "header_dict_get hs name = map_of (rev hs) name"

text \<open>The middleware around \<open>app\<close>: what sending messages and what the application gives is up to its caller.\<close>

definition require_https :: "(asgi_message list \<Rightarrow> 'r) \<Rightarrow> ('s scope_scheme \<Rightarrow> 'r) \<Rightarrow> 's scope_scheme \<Rightarrow> 'r" where
  "require_https send app sc =
     (if scope_type sc = lit ''http'' \<and> scope_path sc \<notin> open_paths
         \<and> (case header_dict_get (scope_headers sc) (blit ''x-forwarded-proto'') of
              None \<Rightarrow> True | Some v \<Rightarrow> bytes_lower v \<noteq> blit ''https'')
      then send [ResponseStart 403
              [(blit ''content-type'', blit ''application/json''),
               (blit ''content-length'', ascii_bytes (show_nat (length https_required_body)))],
            ResponseBody https_required_body]
      else app sc)"

subsection \<open>The client's identity\<close>

definition client_identity_header :: str where
  "client_identity_header = lit ''x-vvv-client-spki-sha256''"

definition identity_fullmatch :: "str \<Rightarrow> bool" where
  "identity_fullmatch s \<longleftrightarrow> length s = 64 \<and> list_all hex_lower s"

definition require_client_identity :: "(str \<Rightarrow> str list) \<Rightarrow> str res" where
  "require_client_identity getlist =
     (let vals = getlist client_identity_header
      in if length vals \<noteq> 1 then Inl (HTTPException 403 (lit ''mTLS client identity required''))
         else if \<not> identity_fullmatch (hd vals)
         then Inl (HTTPException 403 (lit ''mTLS client identity invalid''))
         else Inr (hd vals))"

subsection \<open>The routes \<open>health\<close> and \<open>queue_status\<close>\<close>

record json_response =
  status_code :: int
  content :: "(str \<times> str) list"

text \<open>\<open>answer\<close> is what \<open>GET <base>/health\<close> of the model server gives: a status code, or the
  exception of the HTTP client. \<open>except Exception\<close> does not catch a cancellation.\<close>

definition health :: "settings \<Rightarrow> int res \<Rightarrow> json_response res" where
  "health s answer =
     (if asr_backend s = Groq
      then Inr \<lparr>status_code = 200, content = [(lit ''status'', lit ''ok''), (lit ''asr_backend'', lit ''groq'')]\<rparr>
      else case answer of
             Inl e \<Rightarrow>
               if is_exception e
               then Inr \<lparr>status_code = 503,
                         content = [(lit ''status'', lit ''degraded''), (lit ''vllm'', lit ''unreachable'')]\<rparr>
               else Inl e
           | Inr code \<Rightarrow>
               if code = 200
               then Inr \<lparr>status_code = 200, content = [(lit ''status'', lit ''ok''), (lit ''vllm'', lit ''ok'')]\<rparr>
               else Inr \<lparr>status_code = 503,
                         content = [(lit ''status'', lit ''degraded''), (lit ''vllm'', lit ''degraded'')]\<rparr>)"

definition queue_status :: "(str \<Rightarrow> str list) \<Rightarrow> tqueue \<Rightarrow> queue_status_response res" where
  "queue_status getlist q =
     (case require_client_identity getlist of
        Inl e \<Rightarrow> Inl e
      | Inr ident \<Rightarrow> Inr (get_queue_info q ident))"

subsection \<open>Properties\<close>

lemma require_client_identity_iff:
  "require_client_identity getlist = Inr i \<longleftrightarrow>
     getlist client_identity_header = [i] \<and> length i = 64 \<and> list_all hex_lower i"
  by (cases "getlist client_identity_header")
    (auto simp: require_client_identity_def identity_fullmatch_def Let_def)

lemma require_client_identity_error:
  "require_client_identity getlist = Inl e \<Longrightarrow> \<exists>m. e = HTTPException 403 m"
  by (auto simp: require_client_identity_def Let_def split: if_splits)

text \<open>Identity: a request gets an identity exactly when it carries the header once, with 64
  characters that are all in \<open>0-9a-f\<close>, and the identity is that text; in every other case
  (absent, repeated, any other length or character) it is refused with 403.\<close>

theorem identity_required:
  "(require_client_identity getlist = Inr i \<longleftrightarrow>
      getlist (lit ''x-vvv-client-spki-sha256'') = [i] \<and> length i = 64
      \<and> list_all (\<lambda>c. 48 \<le> c \<and> c \<le> 57 \<or> 97 \<le> c \<and> c \<le> 102) i)
   \<and> ((\<exists>r. require_client_identity getlist = Inr r)
      \<or> (\<exists>m. require_client_identity getlist = Inl (HTTPException 403 m)))"
proof -
  have h: "hex_lower = (\<lambda>c. 48 \<le> c \<and> c \<le> 57 \<or> 97 \<le> c \<and> c \<le> 102)"
    by (auto simp: hex_lower_def fun_eq_iff)
  show ?thesis
    using require_client_identity_iff [of getlist i] require_client_identity_error [of getlist] h
    by (cases "require_client_identity getlist") (auto simp: client_identity_header_def)
qed

text \<open>Own jobs only: the status route answers 403 without a valid identity; with one, every job
  it reports is a job of that identity in the dictionary, and every such job is reported.\<close>

theorem queue_status_own_jobs:
  "case queue_status getlist q of
     Inl e \<Rightarrow> (\<exists>m. e = HTTPException 403 m) \<and> (\<forall>i. require_client_identity getlist \<noteq> Inr i)
   | Inr r \<Rightarrow> (\<exists>i. getlist (lit ''x-vvv-client-spki-sha256'') = [i]
       \<and> set (your_jobs r) = {job_info_of q j |k j. get_job q k = Some j \<and> client_identity j = i}
       \<and> total_queued r = int (length (filter (\<lambda>j. status j = QUEUED) (job_values q))))"
proof (cases "require_client_identity getlist")
  case (Inl e)
  then show ?thesis using require_client_identity_error [OF Inl] by (simp add: queue_status_def)
next
  case (Inr i)
  then have "getlist (lit ''x-vvv-client-spki-sha256'') = [i]"
    using require_client_identity_iff [of getlist i] by (simp add: client_identity_header_def)
  moreover have "set (your_jobs (get_queue_info q i))
      = {job_info_of q j |k j. get_job q k = Some j \<and> client_identity j = i}"
    unfolding set_eq_iff info_from_job mem_Collect_eq get_job_def by (metis option.distinct(1))
  ultimately show ?thesis using Inr by (simp add: queue_status_def get_queue_info_def)
qed

lemma map_of_rev_iff:
  "map_of (rev hs) k = Some v \<longleftrightarrow> (\<exists>a b. hs = a @ (k, v) # b \<and> k \<notin> fst ` set b)"
proof (induction hs rule: rev_induct)
  case Nil
  then show ?case by simp
next
  case (snoc x xs)
  show ?case
  proof (cases "fst x = k")
    case True
    have "xs @ [x] = a @ (k, v) # b \<and> k \<notin> fst ` set b \<longleftrightarrow> xs = a \<and> x = (k, v) \<and> b = []" for a b
      using True by (cases b rule: rev_cases) (auto simp: image_iff)
    then show ?thesis using True by (cases x) auto
  next
    case False
    have "xs @ [x] = a @ (k, v) # b \<and> k \<notin> fst ` set b
        \<longleftrightarrow> (\<exists>b'. b = b' @ [x] \<and> xs = a @ (k, v) # b' \<and> k \<notin> fst ` set b')" for a b
      using False by (cases b rule: rev_cases) auto
    then show ?thesis using False snoc by (cases x) auto
  qed
qed

text \<open>HTTPS only: for an HTTP request to any path but \<open>/health\<close> the application behind the
  middleware runs only when the last \<open>x-forwarded-proto\<close> header is \<open>https\<close> (in any case);
  otherwise the answer is 403 with a body of the announced length, whatever the application.
  Other requests pass unchanged.\<close>

theorem https_required:
  "require_https send app sc =
     (if scope_type sc = lit ''http'' \<and> scope_path sc \<noteq> lit ''/health''
         \<and> \<not> (\<exists>hs v rest. scope_headers sc = hs @ (blit ''x-forwarded-proto'', v) # rest
               \<and> blit ''x-forwarded-proto'' \<notin> fst ` set rest \<and> bytes_lower v = blit ''https'')
      then send [ResponseStart 403 [(blit ''content-type'', blit ''application/json''),
                               (blit ''content-length'', blit ''28'')], ResponseBody https_required_body]
      else app sc) \<and> length https_required_body = 28"
proof -
  have len: "length https_required_body = 28"
    by (simp add: https_required_body_def ascii_bytes_def)
  have digits: "show_nat 28 = [50, 56]" by (simp add: show_nat.simps)
  have "ascii_bytes (show_nat 28) = blit ''28''"
    unfolding digits by (simp add: ascii_bytes_def blit_def)
  moreover have "(case header_dict_get hs k of None \<Rightarrow> True | Some v \<Rightarrow> bytes_lower v \<noteq> w)
      \<longleftrightarrow> \<not> (\<exists>a v b. hs = a @ (k, v) # b \<and> k \<notin> fst ` set b \<and> bytes_lower v = w)" for hs k w
  proof (cases "header_dict_get hs k")
    case None
    then have "\<nexists>a v b. hs = a @ (k, v) # b \<and> k \<notin> fst ` set b"
      using map_of_rev_iff [of hs k] by (metis header_dict_get_def option.distinct(1))
    then show ?thesis using None by auto
  next
    case (Some u)
    then have "(\<exists>a b. hs = a @ (k, v) # b \<and> k \<notin> fst ` set b) \<longleftrightarrow> v = u" for v
      using map_of_rev_iff [of hs k v] by (auto simp: header_dict_get_def)
    then have "(\<exists>a v b. hs = a @ (k, v) # b \<and> k \<notin> fst ` set b \<and> bytes_lower v = w) \<longleftrightarrow> bytes_lower u = w"
      by metis
    then show ?thesis using Some by simp
  qed
  ultimately show ?thesis by (simp only: require_https_def len open_paths_def singleton_iff simp_thms)
qed

lemma start_queue_ready:
  assumes "\<not> max_queue_size s < 1"
  shows "\<exists>q. start_queue s d = Inr q \<and> qinit q \<and> max_size q = max_queue_size s \<and> disk q = d \<and> active_count q = 0"
proof -
  obtain q where q: "make_queue (max_queue_size s) d = Inr q" "start_queue s d = Inr (start_worker (set_process_fn q))"
    using assms by (simp add: start_queue_def make_queue_def)
  let ?q = "start_worker (set_process_fn q)"
  have "qinit ?q" using q(1) unfolding qinit_def by blast
  moreover have "max_size ?q = max_queue_size s \<and> disk ?q = d \<and> active_count ?q = 0"
    using q(1) assms by (auto simp: make_queue_def start_worker_def set_process_fn_def active_count_def job_values_def)
  ultimately show ?thesis using q(2) by blast
qed

text \<open>Configuration: settings are accepted exactly when the two sizes are positive, the
  temperature is a finite number in [0, 2) and \<open>top_p\<close> a finite number in (0, 1]; with accepted
  settings the queue always starts, empty, with the configured capacity and its worker idle.\<close>

theorem settings_accepted:
  "(settings_ok s \<longleftrightarrow> 1 \<le> max_audio_bytes s \<and> 1 \<le> max_queue_size s
      \<and> (\<exists>t. vllm_temperature s = Fin t \<and> 0 \<le> t \<and> t < 2)
      \<and> (\<exists>p. vllm_top_p s = Fin p \<and> 0 < p \<and> p \<le> 1))
   \<and> (settings_ok s \<longrightarrow> (\<exists>q. start_queue s d = Inr q \<and> qinit q \<and> max_size q = max_queue_size s
        \<and> disk q = d \<and> active_count q = 0))"
proof -
  have t: "\<not> isl (valid_temperature x) \<longleftrightarrow> (\<exists>t. x = Fin t \<and> 0 \<le> t \<and> t < 2)" for x
    by (cases x) (auto simp: valid_temperature_def float_le_def)
  have p: "\<not> isl (valid_top_p x) \<longleftrightarrow> (\<exists>p. x = Fin p \<and> 0 < p \<and> p \<le> 1)" for x
    by (cases x) (auto simp: valid_top_p_def float_le_def)
  have i: "\<not> isl (positive_int n) \<longleftrightarrow> 1 \<le> n" for n
    by (auto simp: positive_int_def)
  have ok: "settings_ok s \<longleftrightarrow> 1 \<le> max_audio_bytes s \<and> 1 \<le> max_queue_size s
      \<and> (\<exists>t. vllm_temperature s = Fin t \<and> 0 \<le> t \<and> t < 2)
      \<and> (\<exists>p. vllm_top_p s = Fin p \<and> 0 < p \<and> p \<le> 1)"
    by (simp only: settings_ok_def t p i)
  have "\<exists>q. start_queue s d = Inr q \<and> qinit q \<and> max_size q = max_queue_size s
        \<and> disk q = d \<and> active_count q = 0" if "1 \<le> max_queue_size s"
    using start_queue_ready [of s d] that by simp
  with ok show ?thesis by blast
qed

definition demo_settings :: settings where
  "demo_settings =
     \<lparr>asr_backend = Vibevoice, max_audio_bytes = 1000, max_queue_size = 3, vllm_base_url = lit ''http://m'',
      vllm_model_name = lit ''vibevoice'', vllm_temperature = Fin 0, vllm_top_p = Fin 1,
      groq_api_key = [], groq_model_name = lit ''whisper''\<rparr>"

theorem settings_accepted_witness:
  "settings_ok demo_settings \<and> \<not> settings_ok (demo_settings\<lparr>vllm_temperature := NaN\<rparr>)
   \<and> (\<exists>q. start_queue demo_settings demo_fs = Inr q \<and> qinit q \<and> max_size q = 3)"
  using settings_accepted [of demo_settings demo_fs]
    settings_accepted [of "demo_settings\<lparr>vllm_temperature := NaN\<rparr>" demo_fs]
  by (auto simp: demo_settings_def)

text \<open>Health: with the Groq backend the answer is always 200 \<open>ok\<close>; with the local model it is
  200 exactly when the model server answered 200, and 503 \<open>degraded\<close> for any other status and
  for every exception of the HTTP client, so only a cancellation leaves the handler.\<close>

theorem health_reports:
  "(health s answer = Inl e \<longrightarrow> asr_backend s = Vibevoice \<and> answer = Inl CancelledError)
   \<and> (health s answer = Inr r \<longrightarrow> status_code r = 200 \<or> status_code r = 503)
   \<and> ((\<exists>r. health s answer = Inr r \<and> status_code r = 200)
      \<longleftrightarrow> asr_backend s = Groq \<or> answer = Inr 200)"
proof -
  have c: "\<not> is_exception x \<Longrightarrow> x = CancelledError" for x by (cases x) auto
  show ?thesis
    using c by (cases "asr_backend s") (auto simp: health_def split: sum.splits if_splits)
qed

theorem health_reports_witness:
  "\<exists>r. health demo_settings (Inl OSErrorOther) = Inr r \<and> status_code r = 503"
proof -
  have "\<not> isl (health demo_settings (Inl OSErrorOther))"
    using health_reports [of demo_settings "Inl OSErrorOther"]
    by (cases "health demo_settings (Inl OSErrorOther)") auto
  then obtain r where r: "health demo_settings (Inl OSErrorOther) = Inr r"
    by (cases "health demo_settings (Inl OSErrorOther)") auto
  then show ?thesis
    using health_reports [of demo_settings "Inl OSErrorOther" _ r] by (auto simp: demo_settings_def)
qed

end
