(* ===== verification/Form_Upload.thy ===== *)
theory Form_Upload
  imports Wav_Audio
begin

section \<open>Reading an upload (\<open>server/routes/transcribe.py\<close>, helpers of the handler)\<close>

text \<open>
  The request body as a bounded stream, the mapping of the parser's errors, the check of the
  form's items and the copy of the uploaded file to a private directory. Starlette's
  \<open>MultiPartParser\<close>, its header lookup and its \<open>UploadFile.read\<close> are arguments: the parser is
  a function from the stream it is given to a form or an exception, an upload carries the
  results of its successive reads (an empty one or none at all is the end of the file).
\<close>

subsection \<open>The body stream\<close>

datatype body_event = Chunk bytes | Stalled | BodyRaised exn

text \<open>
  What the generator yields for the events it meets, and the exception it ends with.
  \<open>Stalled\<close> is the timeout of \<open>asyncio.wait_for\<close>; a \<open>TimeoutError\<close> of the stream itself is taken
  for one. The end of the list is the end of the body.
\<close>

fun limited_request_stream :: "int \<Rightarrow> int \<Rightarrow> body_event list \<Rightarrow> bytes list \<times> exn option" where
  "limited_request_stream max_body_bytes sofar [] = ([], None)"
| "limited_request_stream max_body_bytes sofar (Stalled # evs) =
     ([], Some (MultiPartException (lit ''Request body stalled'')))"
| "limited_request_stream max_body_bytes sofar (BodyRaised e # evs) =
     ([], Some (if e = TimeoutError then MultiPartException (lit ''Request body stalled'') else e))"
| "limited_request_stream max_body_bytes sofar (Chunk c # evs) =
     (let now = sofar + int (length c)
      in if now > max_body_bytes then ([], Some (MultiPartException (lit ''Request body too large'')))
         else (let (cs, e) = limited_request_stream max_body_bytes now evs in (c # cs, e)))"

subsection \<open>The form\<close>

record upload =
  up_filename :: "str option"
  up_content_type :: "str option"
  up_reads :: "bytes res list"

datatype form_value = FieldText str | FileField upload

type_synonym form = "(str \<times> form_value) list"

definition max_multipart_overhead_bytes :: int where
  "max_multipart_overhead_bytes = 1024 * 1024"

text \<open>
  \<open>_parse_transcribe_form\<close>: the media type, then the parser on the bounded stream. The second
  component says whether the handler closed the parser's temporary files (Starlette does it
  itself for its own errors, not for a cancellation).
\<close>

definition multipart_status :: "str \<Rightarrow> int" where
  "multipart_status message =
     (if message = lit ''Request body too large'' then 413
      else if message = lit ''Request body stalled'' then 408 else 400)"

definition map_parse_error :: "exn \<Rightarrow> exn \<times> bool" where
  "map_parse_error e =
     (if e = CancelledError then (e, True)
      else case e of
             MultiPartException m \<Rightarrow> (HTTPException (multipart_status m) m, False)
           | ValueError m \<Rightarrow> (HTTPException 400 (lit ''Invalid multipart body''), False)
           | _ \<Rightarrow> if is_os_error e then (HTTPException 507 (lit ''Temporary upload storage exhausted''), False)
                  else (e, False))"

definition media_type_of :: "str \<Rightarrow> str" where
  "media_type_of content_type = py_lower (py_strip (split_first 59 content_type))"

definition parse_transcribe_form ::
    "str option \<Rightarrow> int \<Rightarrow> body_event list \<Rightarrow> (bytes list \<times> exn option \<Rightarrow> form res) \<Rightarrow> form res \<times> bool" where
  "parse_transcribe_form content_type max_audio_bytes body parser =
     (if media_type_of (case content_type of None \<Rightarrow> [] | Some t \<Rightarrow> t) \<noteq> lit ''multipart/form-data''
      then (Inl (HTTPException 400 (lit ''multipart/form-data required'')), False)
      else case parser (limited_request_stream (max_audio_bytes + max_multipart_overhead_bytes) 0 body) of
             Inr f \<Rightarrow> (Inr f, False)
           | Inl e \<Rightarrow> (let (e', c) = map_parse_error e in (Inl e', c)))"

definition validate_hotwords_value :: "form_value option \<Rightarrow> str option res" where
  "validate_hotwords_value v =
     (case v of
        None \<Rightarrow> Inr None
      | Some (FileField u) \<Rightarrow> Inl (HTTPException 400 (lit ''hotwords must be a text field''))
      | Some (FieldText s) \<Rightarrow>
          if control_token_search s
          then Inl (HTTPException 400 (lit ''hotwords contain reserved control tokens''))
          else Inr (Some s))"

text \<open>\<open>_get_audio_upload\<close> and \<open>_get_hotwords\<close> (\<open>form.get\<close> gives the last value of a name).\<close>

definition get_audio_upload :: "form \<Rightarrow> upload res" where
  "get_audio_upload f =
     (case map_of (rev f) (lit ''audio'') of
        Some (FileField u) \<Rightarrow> Inr u
      | _ \<Rightarrow> Inl (HTTPException 400 (lit ''Audio file is required'')))"

definition get_hotwords :: "form \<Rightarrow> str option res" where
  "get_hotwords f = validate_hotwords_value (map_of (rev f) (lit ''hotwords''))"

fun extract_items :: "form \<Rightarrow> upload option \<Rightarrow> str option \<Rightarrow> bool \<Rightarrow> bool \<Rightarrow> (upload \<times> str option) res" where
  "extract_items [] audio hw seen_audio seen_hotwords =
     (case audio of
        None \<Rightarrow> Inl (HTTPException 400 (lit ''Audio file is required''))
      | Some a \<Rightarrow> Inr (a, hw))"
| "extract_items ((name, v) # items) audio hw seen_audio seen_hotwords =
     (if name = lit ''audio'' then
        (if seen_audio then Inl (HTTPException 400 (lit ''Duplicate audio field''))
         else case v of
                FieldText s \<Rightarrow> Inl (HTTPException 400 (lit ''audio must be a file field''))
              | FileField u \<Rightarrow> extract_items items (Some u) hw True seen_hotwords)
      else if name = lit ''hotwords'' then
        (if seen_hotwords then Inl (HTTPException 400 (lit ''Duplicate hotwords field''))
         else case validate_hotwords_value (Some v) of
                Inl e \<Rightarrow> Inl e
              | Inr h \<Rightarrow> extract_items items audio h seen_audio True)
      else Inl (HTTPException 400 (lit ''Unexpected form field: '' @ name)))"

definition extract_transcribe_form :: "form \<Rightarrow> (upload \<times> str option) res" where
  "extract_transcribe_form f = extract_items f None None False False"

subsection \<open>Copying the upload to disk\<close>

fun spool_loop :: "path \<Rightarrow> int \<Rightarrow> int \<Rightarrow> bytes res list \<Rightarrow> fs \<Rightarrow> int res \<times> fs" where
  "spool_loop p max_audio_bytes sofar [] d = (Inr sofar, d)"
| "spool_loop p max_audio_bytes sofar (Inl e # reads) d = (Inl e, d)"
| "spool_loop p max_audio_bytes sofar (Inr c # reads) d =
     (if c = [] then (Inr sofar, d)
      else (let now = sofar + int (length c)
            in if now > max_audio_bytes then (Inl (HTTPException 413 (lit ''Audio file too large'')), d)
               else case append_file p c d of
                      (Some e, d1) \<Rightarrow> (Inl e, d1)
                    | (None, d1) \<Rightarrow> spool_loop p max_audio_bytes now reads d1))"

text \<open>
  \<open>_spool_upload\<close>. \<open>dir\<close> is the name \<open>tempfile.mkdtemp\<close> chose (it creates it with mode 0700,
  before the \<open>try\<close>). Both \<open>except\<close> clauses remove the tree and raise the error again.
\<close>

definition spool_upload :: "path \<Rightarrow> upload \<Rightarrow> int \<Rightarrow> fs \<Rightarrow> (path \<times> int) res \<times> fs" where
  "spool_upload dir u max_audio_bytes d =
     (case mkdir 448 dir d of
        (Some e, d1) \<Rightarrow> (Inl e, d1)
      | (None, d1) \<Rightarrow>
          (let p = dir @ [lit ''audio.audio''];
               (r, d2) = (case open_excl 384 p d1 of
                            (Some e, d2) \<Rightarrow> (Inl e, d2)
                          | (None, d2) \<Rightarrow> spool_loop p max_audio_bytes 0 (up_reads u) d2)
           in case r of
                Inl e \<Rightarrow> (Inl e, rmtree dir d2)
              | Inr n \<Rightarrow> if n = 0
                         then (Inl (HTTPException 400 (lit ''Empty audio file'')), rmtree dir d2)
                         else (Inr (p, n), d2)))"

subsection \<open>Lemmas\<close>

text \<open>The stream never yields more than the bound, and without an error it yields the body.\<close>

lemma limited_stream_bound:
  "sofar \<le> m \<Longrightarrow> sofar + int (length (concat (fst (limited_request_stream m sofar evs)))) \<le> m"
  by (induction m sofar evs rule: limited_request_stream.induct) (auto simp: Let_def split: prod.splits)

lemma limited_stream_fits:
  "sofar + int (length (concat cs)) \<le> m \<Longrightarrow> limited_request_stream m sofar (map Chunk cs) = (cs, None)"
proof (induction cs arbitrary: sofar)
  case Nil
  then show ?case by simp
next
  case (Cons c cs)
  then have "limited_request_stream m (sofar + int (length c)) (map Chunk cs) = (cs, None)" by simp
  then show ?case using Cons.prems by (simp add: Let_def)
qed

lemma limited_stream_too_large:
  assumes "sofar \<le> m" and "sofar + int (length (concat cs)) > m"
  shows "\<exists>k < length cs. limited_request_stream m sofar (map Chunk cs @ rest)
           = (take k cs, Some (MultiPartException (lit ''Request body too large'')))"
  using assms
proof (induction cs arbitrary: sofar)
  case Nil
  then show ?case by simp
next
  case (Cons c cs)
  show ?case
  proof (cases "sofar + int (length c) > m")
    case True
    then show ?thesis by (intro exI [of _ 0]) (simp add: Let_def)
  next
    case False
    then obtain k where "k < length cs" "limited_request_stream m (sofar + int (length c)) (map Chunk cs @ rest)
        = (take k cs, Some (MultiPartException (lit ''Request body too large'')))"
      using Cons.IH [of "sofar + int (length c)"] Cons.prems(2) by auto
    then show ?thesis using False by (intro exI [of _ "Suc k"]) (simp add: Let_def)
  qed
qed

text \<open>What the copy loop reads: the results up to the first empty one.\<close>

fun upload_data :: "bytes res list \<Rightarrow> bytes" where
  "upload_data [] = []"
| "upload_data (Inl e # reads) = []"
| "upload_data (Inr c # reads) = (if c = [] then [] else c @ upload_data reads)"

lemma spool_loop_frame:
  assumes "spool_loop p m s reads d = (r, d')" and "node_at d p = Some (RegFile mode b)"
  shows "(\<exists>c. node_at d' = (node_at d)(p \<mapsto> RegFile mode c)) \<and> locked d' = locked d"
  using assms
proof (induction p m s reads d arbitrary: b rule: spool_loop.induct)
  case (1 p m s d)
  then show ?case by (auto intro!: exI [of _ b] simp: fun_upd_idem)
next
  case (2 p m s e reads d)
  then show ?case by (auto intro!: exI [of _ b] simp: fun_upd_idem)
next
  case (3 p m s c reads d)
  show ?case
  proof (cases "c = [] \<or> s + int (length c) > m")
    case True
    then have "d' = d" using 3 by (auto simp: Let_def split: if_splits)
    then show ?thesis using 3(3) by (auto intro!: exI [of _ b] simp: fun_upd_idem)
  next
    case False
    obtain e d1 where ap: "append_file p c d = (e, d1)" by fastforce
    show ?thesis
    proof (cases e)
      case None
      then have n: "node_at d1 = (node_at d)(p \<mapsto> RegFile mode (b @ c))" and l: "locked d1 = locked d"
        using ap 3(3) node_at_append_file [of p c d d1]
        by (auto simp: append_file_def split: if_splits)
      have "spool_loop p m (s + int (length c)) reads d1 = (r, d')"
        using 3(2) False ap None by (simp add: Let_def)
      moreover have "node_at d1 p = Some (RegFile mode (b @ c))" by (simp add: n)
      moreover have "c \<noteq> []" "\<not> m < s + int (length c)" using False by auto
      ultimately obtain x where "node_at d' = (node_at d1)(p \<mapsto> RegFile mode x)" and l': "locked d' = locked d1"
        using 3(1) [OF _ refl _ ap [symmetric] None, of "b @ c"] by blast
      then have "node_at d' = (node_at d)(p \<mapsto> RegFile mode x)" by (simp add: n)
      then show ?thesis using l l' by (intro conjI exI [of _ x]) simp_all
    next
      case (Some x)
      then have "d' = d1" using 3(2) False ap by (simp add: Let_def)
      moreover have "d1 = d" using ap Some by (auto simp: append_file_def split: option.splits node.splits if_splits)
      ultimately show ?thesis using 3(3) by (auto intro!: exI [of _ b] simp: fun_upd_idem)
    qed
  qed
qed

lemma spool_loop_ok:
  assumes "spool_loop p m s reads d = (Inr n, d')" and "node_at d p = Some (RegFile mode b)" and "s \<le> m"
  shows "n = s + int (length (upload_data reads)) \<and> n \<le> m
    \<and> node_at d' = (node_at d)(p \<mapsto> RegFile mode (b @ upload_data reads))"
  using assms
proof (induction p m s reads d arbitrary: b rule: spool_loop.induct)
  case (3 p m s c reads d)
  show ?case
  proof (cases "c = []")
    case True
    then show ?thesis using 3 by auto
  next
    case False
    then have le: "s + int (length c) \<le> m" using 3(2) by (auto simp: Let_def split: if_splits)
    obtain d1 where ap: "append_file p c d = (None, d1)"
      using 3(2) False le by (auto simp: Let_def split: prod.splits option.splits)
    then have n: "node_at d1 = (node_at d)(p \<mapsto> RegFile mode (b @ c))"
      using 3(3) node_at_append_file [OF ap] by auto
    have "spool_loop p m (s + int (length c)) reads d1 = (Inr n, d')"
      using 3(2) False ap le by (simp add: Let_def)
    then have "n = s + int (length c) + int (length (upload_data reads)) \<and> n \<le> m
      \<and> node_at d' = (node_at d1)(p \<mapsto> RegFile mode ((b @ c) @ upload_data reads))"
      using 3(1) [OF False refl _ ap [symmetric] refl, of "b @ c"] le n by auto
    then show ?thesis using n False by simp
  qed
qed auto


text \<open>A file system in which every node lies in a directory.\<close>

definition wf_fs :: "fs \<Rightarrow> bool" where
  "wf_fs d \<longleftrightarrow> (\<forall>p. node_at d p \<noteq> None \<longrightarrow> p \<noteq> [] \<and> is_dir d (butlast p))"

lemma wf_fs_below:
  assumes "wf_fs d" and "node_at d p = None" and "p \<noteq> []"
  shows "node_at d (p @ r) = None"
proof (induction r rule: rev_induct)
  case Nil
  then show ?case using assms by simp
next
  case (snoc x r)
  then have "\<not> is_dir d (p @ r)" using assms(3) by (simp add: is_dir_def)
  then show ?case using assms(1) by (auto simp: wf_fs_def butlast_append simp flip: append_assoc)
qed

lemma at_or_below_iff: "at_or_below p q \<longleftrightarrow> (\<exists>r. q = p @ r)"
  unfolding at_or_below_def by (metis append_eq_conv_conj append_take_drop_id)

lemma wf_fs_rmtree:
  assumes "wf_fs d" and "locked d' = []" and "dir \<noteq> []" and "node_at d dir = None"
    and "\<And>q. \<not> at_or_below dir q \<Longrightarrow> node_at d' q = node_at d q"
  shows "node_at (rmtree dir d') = node_at d"
proof
  fix q
  show "node_at (rmtree dir d') q = node_at d q"
    using assms wf_fs_below [OF assms(1,4,3)]
    by (cases "at_or_below dir q") (auto simp: node_at_rmtree survives_rmtree_def at_or_below_iff)
qed

text \<open>The copy in one view: what it created before it may have failed.\<close>

lemma spool_upload_cases:
  assumes run0: "spool_upload dir u m d = (r, d')" and m0: "0 \<le> m"
  obtains (no_dir) e where "r = Inl e" "d' = d" "is_os_error e"
  | (failed) e d2 where "r = Inl e" "d' = rmtree dir d2" "node_at d dir = None" "dir \<noteq> []"
      "\<And>q. \<not> at_or_below dir q \<Longrightarrow> node_at d2 q = node_at d q" "locked d2 = locked d"
  | (stored) "r = Inr (dir @ [lit ''audio.audio''], int (length (upload_data (up_reads u))))"
      "0 < length (upload_data (up_reads u))" "int (length (upload_data (up_reads u))) \<le> m"
      "node_at d dir = None" "dir \<noteq> []" "node_at d (dir @ [lit ''audio.audio'']) = None"
      "node_at d' = (node_at d)(dir \<mapsto> Directory 448,
         dir @ [lit ''audio.audio''] \<mapsto> RegFile 384 (upload_data (up_reads u)))" "locked d' = locked d"
proof -
  let ?p = "dir @ [lit ''audio.audio'']"
  obtain e1 d1 where mk: "mkdir 448 dir d = (e1, d1)" by fastforce
  show ?thesis
  proof (cases e1)
    case (Some e)
    then have "r = Inl e" "d' = d1" using run0 mk by (simp_all add: spool_upload_def)
    moreover have "d1 = d" "is_os_error e" using mk Some by (auto simp: mkdir_def split: if_splits)
    ultimately show ?thesis using no_dir by simp
  next
    case None
    then have dir: "node_at d dir = None" "dir \<noteq> []" "node_at d1 = (node_at d)(dir \<mapsto> Directory 448)"
        "locked d1 = locked d"
      using mk node_at_mkdir [of 448 dir d d1] by (auto simp: mkdir_def split: if_splits)
    obtain e2 d2 where op: "open_excl 384 ?p d1 = (e2, d2)" by fastforce
    have out: "\<not> at_or_below dir q \<Longrightarrow> q \<noteq> dir \<and> q \<noteq> ?p" for q
      by (auto simp: at_or_below_def)
    show ?thesis
    proof (cases e2)
      case (Some e)
      then have "r = Inl e" "d' = rmtree dir d2" using run0 mk None op by (simp_all add: spool_upload_def)
      moreover have "d2 = d1" using op Some by (auto simp: open_excl_def split: if_splits)
      ultimately show ?thesis using failed dir out by auto
    next
      case e2: None
      then have f: "node_at d2 = (node_at d1)(?p \<mapsto> RegFile 384 [])" "node_at d1 ?p = None" "locked d2 = locked d1"
        using op node_at_open_excl [of 384 ?p d1 d2] by (auto simp: open_excl_def split: if_splits)
      obtain r3 d3 where lp: "spool_loop ?p m 0 (up_reads u) d2 = (r3, d3)" by fastforce
      have p2: "node_at d2 ?p = Some (RegFile 384 [])" using f by simp
      obtain c where c: "node_at d3 = (node_at d2)(?p \<mapsto> RegFile 384 c)" "locked d3 = locked d2"
        using spool_loop_frame [OF lp p2] by blast
      have frame: "\<not> at_or_below dir q \<Longrightarrow> node_at d3 q = node_at d q" for q
        using out [of q] c f dir by simp
      have run: "(r, d') = (case r3 of Inl e \<Rightarrow> (Inl e, rmtree dir d3)
          | Inr n \<Rightarrow> if n = 0 then (Inl (HTTPException 400 (lit ''Empty audio file'')), rmtree dir d3)
                     else (Inr (?p, n), d3))"
        using run0 mk None op e2 lp by (simp add: spool_upload_def)
      show ?thesis
      proof (cases "\<exists>n. r3 = Inr n \<and> n \<noteq> 0")
        case False
        then obtain e where "r = Inl e" "d' = rmtree dir d3" using run by (cases r3) auto
        then show ?thesis using failed dir frame c f by metis
      next
        case True
        then obtain n where n: "r3 = Inr n" "n \<noteq> 0" by blast
        have m: "n = int (length (upload_data (up_reads u))) \<and> n \<le> m
            \<and> node_at d3 = (node_at d2)(?p \<mapsto> RegFile 384 (upload_data (up_reads u)))"
          using spool_loop_ok [OF lp [unfolded n] p2 m0] by simp
        with m run n dir f show ?thesis
          using c(2) by (intro stored) auto
      qed
    qed
  qed
qed

text \<open>How the copy fails: each error with its reason.\<close>

lemma spool_loop_error:
  assumes "spool_loop p m s reads d = (Inl e, d')" "s \<le> m"
  shows "is_os_error e \<or> e = HTTPException 413 (lit ''Audio file too large'') \<and> m < s + int (length (upload_data reads))
    \<or> Inl e \<in> set reads"
  using assms
proof (induction p m s reads d rule: spool_loop.induct)
  case (3 p m s c reads d)
  obtain e1 d1 where ap: "append_file p c d = (e1, d1)" by fastforce
  then have "e1 = Some x \<Longrightarrow> is_os_error x" for x
    by (auto simp: append_file_def split: option.splits node.splits if_splits)
  then show ?case using 3 ap by (auto simp: Let_def algebra_simps split: if_splits option.splits)
qed auto

lemma spool_loop_zero: "spool_loop p m s reads d = (Inr n, d') \<Longrightarrow> 0 \<le> s \<Longrightarrow> n = s + int (length (upload_data reads))"
proof (induction p m s reads d rule: spool_loop.induct)
  case (3 p m s c reads d)
  then show ?case by (auto simp: Let_def split: if_splits option.splits prod.splits)
qed auto

lemma spool_upload_error:
  assumes "spool_upload dir u m d = (Inl e, d')" "0 \<le> m"
  shows "is_os_error e \<or> e = HTTPException 413 (lit ''Audio file too large'') \<and> m < int (length (upload_data (up_reads u)))
    \<or> e = HTTPException 400 (lit ''Empty audio file'') \<and> upload_data (up_reads u) = [] \<or> Inl e \<in> set (up_reads u)"
proof -
  have "mkdir mode p f = (Some x, g) \<Longrightarrow> is_os_error x" "open_excl mode p f = (Some x, g) \<Longrightarrow> is_os_error x"
    for mode p f g x by (auto simp: mkdir_def open_excl_def split: if_splits)
  then show ?thesis
    using assms spool_loop_error [of _ m 0 "up_reads u"]
    by (auto simp: spool_upload_def Let_def dest!: spool_loop_zero split: prod.splits option.splits sum.splits if_splits)
qed

subsection \<open>Properties\<close>

text \<open>C37. Bounded body: the stream hands the parser at most \<open>max_body_bytes\<close> bytes, whatever
  arrives; a body within the bound passes unchanged, and a larger one is cut before the chunk
  that exceeds it and ends with \<open>Request body too large\<close>.\<close>

theorem body_stream_bounded:
  assumes "0 \<le> m"
  shows "int (length (concat (fst (limited_request_stream m 0 evs)))) \<le> m
    \<and> (int (length (concat cs)) \<le> m \<longrightarrow> limited_request_stream m 0 (map Chunk cs) = (cs, None))
    \<and> (int (length (concat cs)) > m \<longrightarrow> (\<exists>k < length cs. limited_request_stream m 0 (map Chunk cs @ evs)
         = (take k cs, Some (MultiPartException (lit ''Request body too large'')))))"
  using assms limited_stream_bound [of 0 m evs] limited_stream_fits [of 0 cs m]
    limited_stream_too_large [of 0 m cs evs] by simp

theorem body_stream_bounded_witness:
  "limited_request_stream 3 0 (map Chunk [[1, 2], [3]]) = ([[1, 2], [3]], None)
   \<and> (\<exists>k < Suc 1. limited_request_stream 3 0 (map Chunk [[1, 2], [3, 4]] @ [Stalled])
        = (take k [[1, 2], [3, 4]], Some (MultiPartException (lit ''Request body too large''))))"
  using body_stream_bounded [where m = 3 and cs = "[[1, 2], [3]]" and evs = "[]"]
    body_stream_bounded [where m = 3 and cs = "[[1, 2], [3, 4]]" and evs = "[Stalled]"] by simp

text \<open>Parse errors: the handler's form parsing raises only HTTP errors and what the parser raised
  unchanged; a body over the limit (the audio limit plus 1 MiB) gives 413 when the parser lets
  the stream's error through, a stalled one 408, an \<open>OSError\<close> 507, and the parser's temporary
  files are closed by the handler exactly when the parser was cancelled.\<close>

theorem parse_error_mapping:
  assumes "\<And>cs e. parser (cs, Some e) = Inl e"
    and "media_type_of ct = lit ''multipart/form-data''" and "0 \<le> max_audio"
  shows "(int (length (concat cs)) > max_audio + 1048576 \<longrightarrow>
        parse_transcribe_form (Some ct) max_audio (map Chunk cs @ evs) parser
          = (Inl (HTTPException 413 (lit ''Request body too large'')), False))
    \<and> (int (length (concat cs)) \<le> max_audio + 1048576 \<longrightarrow>
        parse_transcribe_form (Some ct) max_audio (map Chunk cs @ [Stalled]) parser
          = (Inl (HTTPException 408 (lit ''Request body stalled'')), False))
    \<and> (snd (parse_transcribe_form (Some ct) max_audio evs parser)
        \<longleftrightarrow> fst (parse_transcribe_form (Some ct) max_audio evs parser) = Inl CancelledError)"
proof -
  let ?m = "max_audio + 1048576"
  have stall: "limited_request_stream ?m s (map Chunk cs @ [Stalled])
      = (cs, Some (MultiPartException (lit ''Request body stalled'')))"
    if "s + int (length (concat cs)) \<le> ?m" for s
    using that by (induction cs arbitrary: s) (auto simp: Let_def)
  have large: "\<exists>k. limited_request_stream ?m 0 (map Chunk cs @ evs)
      = (take k cs, Some (MultiPartException (lit ''Request body too large'')))"
    if "int (length (concat cs)) > ?m"
    using limited_stream_too_large [of 0 ?m cs evs] that assms(3) by auto
  have closed: "snd (map_parse_error e) \<longleftrightarrow> fst (map_parse_error e) = CancelledError" for e
    by (cases e) (simp_all add: map_parse_error_def)
  have parse: "parse_transcribe_form (Some ct) max_audio body parser
      = (case parser (limited_request_stream ?m 0 body) of
           Inr f \<Rightarrow> (Inr f, False) | Inl e \<Rightarrow> (let (e', c) = map_parse_error e in (Inl e', c)))" for body
    using assms(2) by (simp add: parse_transcribe_form_def max_multipart_overhead_bytes_def)
  have errs: "map_parse_error (MultiPartException (lit ''Request body too large''))
      = (HTTPException 413 (lit ''Request body too large''), False)"
    "map_parse_error (MultiPartException (lit ''Request body stalled''))
      = (HTTPException 408 (lit ''Request body stalled''), False)"
    by (simp_all add: map_parse_error_def multipart_status_def)
  have 1: "parse_transcribe_form (Some ct) max_audio (map Chunk cs @ evs) parser
          = (Inl (HTTPException 413 (lit ''Request body too large'')), False)"
    if "int (length (concat cs)) > ?m"
    using large [OF that] assms(1) by (auto simp: parse errs)
  have 2: "parse_transcribe_form (Some ct) max_audio (map Chunk cs @ [Stalled]) parser
          = (Inl (HTTPException 408 (lit ''Request body stalled'')), False)"
    if "int (length (concat cs)) \<le> ?m"
    using stall [of 0] that assms(1) by (simp add: parse errs)
  have 3: "snd (parse_transcribe_form (Some ct) max_audio evs parser)
        \<longleftrightarrow> fst (parse_transcribe_form (Some ct) max_audio evs parser) = Inl CancelledError"
    unfolding parse using closed by (simp split: sum.split prod.split) (metis fst_conv snd_conv)
  show ?thesis using 1 2 3 by blast
qed

theorem parse_error_mapping_witness:
  "parse_transcribe_form (Some (lit ''Multipart/Form-Data; boundary=x'')) 0
     (map Chunk [[1, 2, 3]] @ [Stalled]) (\<lambda>(cs, e). case e of Some x \<Rightarrow> Inl x | None \<Rightarrow> Inr [])
   = (Inl (HTTPException 408 (lit ''Request body stalled'')), False)"
proof -
  have "media_type_of (lit ''Multipart/Form-Data; boundary=x'') = lit ''multipart/form-data''"
    by (simp add: media_type_of_def split_first_def py_strip_def py_lower_def lower_char_def
        py_space_def lit_def)
  from parse_error_mapping [where parser = "\<lambda>(cs, e). case e of Some x \<Rightarrow> Inl x | None \<Rightarrow> Inr []"
      and max_audio = 0 and cs = "[[1, 2, 3]]", OF _ this]
  show ?thesis by simp
qed

lemma validate_hotwords_iff:
  "validate_hotwords_value (Some v) = Inr h \<longleftrightarrow> (\<exists>s. v = FieldText s \<and> \<not> control_token_search s \<and> h = Some s)"
  by (cases v) (auto simp: validate_hotwords_value_def)

lemma extract_items_iff:
  "extract_items f a w sa sh = Inr (u, h) \<longleftrightarrow>
     (if sa then a = Some u \<and> (\<forall>x \<in> set f. fst x \<noteq> lit ''audio'')
      else filter (\<lambda>x. fst x = lit ''audio'') f = [(lit ''audio'', FileField u)]
           \<or> a = Some u \<and> (\<forall>x \<in> set f. fst x \<noteq> lit ''audio''))
     \<and> (if sh \<or> (\<forall>x \<in> set f. fst x \<noteq> lit ''hotwords'')
        then h = w \<and> (\<forall>x \<in> set f. fst x \<noteq> lit ''hotwords'')
        else \<exists>s. h = Some s \<and> \<not> control_token_search s
               \<and> filter (\<lambda>x. fst x = lit ''hotwords'') f = [(lit ''hotwords'', FieldText s)])
     \<and> (\<forall>x \<in> set f. fst x = lit ''audio'' \<or> fst x = lit ''hotwords'')"
proof (induction f a w sa sh rule: extract_items.induct)
  case (1 a w sa sh)
  then show ?case by (cases a) auto
next
  case (2 n v items a w sa sh)
  consider "n = lit ''audio''" | "n = lit ''hotwords''" | "n \<noteq> lit ''audio''" "n \<noteq> lit ''hotwords''" by blast
  then show ?case
  proof cases
    case 1
    then show ?thesis
      using 2(1) by (cases v; cases sa) (auto simp: filter_empty_conv)
  next
    case 2
    then show ?thesis
      using "2.IH"(2)
      by (cases sh; cases v) (auto simp: filter_empty_conv validate_hotwords_value_def split: if_splits)
  next
    case 3
    then show ?thesis by simp
  qed
qed

text \<open>C36. Form items: the extraction succeeds exactly for the forms with one \<open>audio\<close> item, which is
  a file, at most one \<open>hotwords\<close> item, which is text without a reserved control token
  \<open><|...|>\<close>, and nothing else, and it returns those two; every other form is refused with an
  HTTP 400.\<close>

theorem form_extraction:
  "(extract_transcribe_form f = Inr (u, h) \<longleftrightarrow>
      filter (\<lambda>x. fst x = lit ''audio'') f = [(lit ''audio'', FileField u)]
      \<and> filter (\<lambda>x. fst x = lit ''hotwords'') f
          = (case h of None \<Rightarrow> [] | Some s \<Rightarrow> [(lit ''hotwords'', FieldText s)])
      \<and> (case h of None \<Rightarrow> True | Some s \<Rightarrow> \<not> control_token_search s)
      \<and> list_all (\<lambda>x. fst x = lit ''audio'' \<or> fst x = lit ''hotwords'') f)
   \<and> raises_only (\<lambda>e. \<exists>m. e = HTTPException 400 m) (extract_transcribe_form f)"
proof -
  have empty: "(\<forall>x \<in> set f. fst x \<noteq> n) \<longleftrightarrow> filter (\<lambda>x. fst x = n) f = []" for n
    by (simp add: filter_empty_conv)
  have "extract_transcribe_form f = Inr (u, h) \<longleftrightarrow>
      filter (\<lambda>x. fst x = lit ''audio'') f = [(lit ''audio'', FileField u)]
      \<and> filter (\<lambda>x. fst x = lit ''hotwords'') f
          = (case h of None \<Rightarrow> [] | Some s \<Rightarrow> [(lit ''hotwords'', FieldText s)])
      \<and> (case h of None \<Rightarrow> True | Some s \<Rightarrow> \<not> control_token_search s)
      \<and> list_all (\<lambda>x. fst x = lit ''audio'' \<or> fst x = lit ''hotwords'') f"
    unfolding extract_transcribe_form_def extract_items_iff empty
    by (cases h) (auto simp: list_all_iff)
  moreover have "raises_only (\<lambda>e. \<exists>m. e = HTTPException 400 m) (extract_items f a w sa sh)" for a w sa sh
    by (induction f a w sa sh rule: extract_items.induct)
      (auto simp: validate_hotwords_value_def split: option.splits form_value.splits sum.splits)
  ultimately show ?thesis by (simp add: extract_transcribe_form_def)
qed

text \<open>A stored upload: when \<open>_spool_upload\<close> returns, its result is the file \<open>audio.audio\<close> in the
  new private directory; both are new, with modes 0600 and 0700; the file holds exactly the
  bytes that were read, of the returned number, which is positive and at most the limit; no
  other node of the file system changed.\<close>

theorem spool_stores_upload:
  assumes "spool_upload dir u m d = (Inr (p, n), d')" and "0 \<le> m"
  shows "p = dir @ [lit ''audio.audio''] \<and> n = int (length (upload_data (up_reads u))) \<and> 0 < n \<and> n \<le> m
    \<and> node_at d dir = None \<and> node_at d p = None
    \<and> node_at d' = (node_at d)(dir \<mapsto> Directory 448, p \<mapsto> RegFile 384 (upload_data (up_reads u)))"
  using assms by (cases rule: spool_upload_cases) auto

definition demo_upload :: upload where
  "demo_upload = \<lparr>up_filename = Some (lit ''a.wav''), up_content_type = Some (lit ''audio/wav''),
                  up_reads = [Inr [1, 2], Inr [3]]\<rparr>"

definition small_fs :: fs where
  "small_fs = \<lparr>nodes = [([lit ''tmp''], Directory 511)], locked = [], space = 100\<rparr>"

definition small_dir :: path where
  "small_dir = [lit ''tmp'', lit ''vvv-upload-q'']"

lemma small_spool:
  "\<exists>d'. spool_upload small_dir demo_upload 3 small_fs = (Inr (small_dir @ [lit ''audio.audio''], 3), d')"
  by (simp add: spool_upload_def small_dir_def small_fs_def demo_upload_def mkdir_def open_excl_def
      append_file_def node_at_def is_dir_def path_parent_def Let_def)

theorem spool_stores_upload_witness:
  "\<exists>d'. spool_upload small_dir demo_upload 3 small_fs = (Inr (small_dir @ [lit ''audio.audio''], 3), d')
     \<and> node_at d' (small_dir @ [lit ''audio.audio'']) = Some (RegFile 384 [1, 2, 3])"
proof -
  obtain d' where d': "spool_upload small_dir demo_upload 3 small_fs
      = (Inr (small_dir @ [lit ''audio.audio''], 3), d')" using small_spool by blast
  have "upload_data (up_reads demo_upload) = [1, 2, 3]" by (simp add: demo_upload_def)
  then show ?thesis using spool_stores_upload [OF d'] d' by simp
qed

text \<open>A failed upload leaves nothing: when \<open>_spool_upload\<close> raises anything (an oversized or
  empty file, a full disk, a read error, a cancellation), the file system has exactly the nodes
  it had before, provided its files can be removed; and the error is 413 for too large, 400 for
  empty, an \<open>OSError\<close> of the disk, or what the read raised.\<close>

theorem spool_failure_clean:
  assumes "spool_upload dir u m d = (Inl e, d')" and "0 \<le> m" and "wf_fs d" and "locked d = []"
  shows "node_at d' = node_at d
    \<and> (is_os_error e \<or> e = HTTPException 413 (lit ''Audio file too large'')
       \<or> e = HTTPException 400 (lit ''Empty audio file'') \<or> Inl e \<in> set (up_reads u))"
proof -
  from assms(1,2) have "node_at d' = node_at d"
  proof (cases rule: spool_upload_cases)
    case (failed e2 d2)
    then show ?thesis using wf_fs_rmtree [OF assms(3), of d2 dir] assms(4) by simp
  qed auto
  with spool_upload_error [OF assms(1,2)] show ?thesis by blast
qed

theorem spool_failure_clean_witness:
  "\<exists>d'. spool_upload small_dir demo_upload 2 small_fs = (Inl (HTTPException 413 (lit ''Audio file too large'')), d')
     \<and> node_at d' = node_at small_fs"
proof -
  obtain d' where d': "spool_upload small_dir demo_upload 2 small_fs
      = (Inl (HTTPException 413 (lit ''Audio file too large'')), d')"
    by (simp add: spool_upload_def small_dir_def small_fs_def demo_upload_def mkdir_def open_excl_def
      append_file_def node_at_def is_dir_def path_parent_def Let_def)
  have "wf_fs small_fs" by (simp add: wf_fs_def small_fs_def node_at_def is_dir_def)
  then show ?thesis using spool_failure_clean [OF d'] d' by (simp add: small_fs_def)
qed

end
