(* ===== verification/Job_Slots.thy ===== *)
theory Job_Slots
  imports Queue_Reports
begin

section \<open>The queue as the request handlers see it: places that are taken and given back\<close>

text \<open>
  The route handler and the event stream use the queue through one contract: a job they
  reserved is known for ever, \<open>cancel\<close> ends it, a job that ended stays ended whatever the
  others do, and everything the handlers do is a step of the queue. The contract is a locale;
  what follows from it is proved there once, and the queue implements it.
\<close>

locale upload_slots =
  fixes ok :: "'q \<Rightarrow> bool"
    and known :: "'i \<Rightarrow> 'q \<Rightarrow> bool"
    and gone :: "'i \<Rightarrow> 'q \<Rightarrow> bool"
    and release :: "'i \<Rightarrow> 'q \<Rightarrow> 'q"
    and others :: "'q \<Rightarrow> 'q \<Rightarrow> bool"
  assumes others_ok: "ok q \<Longrightarrow> others q q' \<Longrightarrow> ok q'"
    and known_stays: "ok q \<Longrightarrow> others q q' \<Longrightarrow> known i q \<Longrightarrow> known i q'"
    and gone_stays: "ok q \<Longrightarrow> others q q' \<Longrightarrow> gone i q \<Longrightarrow> gone i q'"
    and release_step: "ok q \<Longrightarrow> others q (release i q)"
    and released: "ok q \<Longrightarrow> known i q \<Longrightarrow> gone i (release i q)"
begin

lemma steps_ok: "others\<^sup>*\<^sup>* q q' \<Longrightarrow> ok q \<Longrightarrow> ok q'"
  by (induction rule: rtranclp_induct) (auto intro: others_ok)

lemma steps_known: "others\<^sup>*\<^sup>* q q' \<Longrightarrow> ok q \<Longrightarrow> known i q \<Longrightarrow> known i q'"
  by (induction rule: rtranclp_induct) (auto intro: known_stays steps_ok)

lemma steps_gone: "others\<^sup>*\<^sup>* q q' \<Longrightarrow> ok q \<Longrightarrow> gone i q \<Longrightarrow> gone i q'"
  by (induction rule: rtranclp_induct) (auto intro: gone_stays steps_ok)

text \<open>Whatever happened before and happens after, a released job does not come back.\<close>

lemma released_for_good:
  assumes "ok q" and "known i q" and "others\<^sup>*\<^sup>* q q1" and "others\<^sup>*\<^sup>* (release i q1) q2"
  shows "gone i q2 \<and> ok q2 \<and> others\<^sup>*\<^sup>* q q2"
proof -
  have 1: "ok q1" "known i q1" using steps_ok steps_known assms by blast+
  have "others\<^sup>*\<^sup>* q (release i q1)"
    using assms(3) release_step [OF 1(1)] by (rule rtranclp.rtrancl_into_rtrancl)
  then show ?thesis
    using 1 assms(1,4) released [OF 1] steps_gone steps_ok others_ok release_step rtranclp_trans by metis
qed

end

definition ended :: "tqueue \<Rightarrow> str \<Rightarrow> bool" where
  "ended q i \<longleftrightarrow> (\<exists>j. store q i = Some j \<and> terminal_status (status j))"

subsection \<open>The queue's steps keep objects and endings\<close>

lemma worker_finally_store [simp]:
  "store (worker_finally k st now w q) i = None \<longleftrightarrow> store q i = None"
proof -
  define q2 where "q2 = upd_job k (\<lambda>j. j\<lparr>process_task := None\<rparr>)
      (if (case store q k of Some j \<Rightarrow> status j = COMPLETED \<or> status j = FAILED | None \<Rightarrow> False)
       then q\<lparr>processing_times := push_time (now - st) (processing_times q)\<rparr> else q)"
  obtain e q3 where d: "discard_audio k q2 = (e, q3)" by fastforce
  then have "store q3 = (store q2)(k := map_option forget_audio (store q2 k))"
    using store_discard_audio [of k q2] by simp
  then have "store q3 x = None \<longleftrightarrow> store q x = None" for x by (simp add: q2_def)
  moreover have "worker_finally k st now w q = (case discard_audio k q2 of
           (Some e, q3) \<Rightarrow> q3\<lparr>worker_task := Some (WorkerOver (Some e))\<rparr>
         | (None, q3) \<Rightarrow> (schedule_cleanup k (notify_terminal k q3))\<lparr>worker_task := Some w\<rparr>)"
    by (simp add: worker_finally_def Let_def q2_def)
  ultimately show ?thesis using d by (cases e) simp_all
qed

lemma worker_settle_store [simp]:
  "store (worker_settle k st now r q) i = None \<longleftrightarrow> store q i = None"
  by (simp add: worker_settle_def Let_def)

lemma worker_pick_store [simp]: "store (worker_pick now q) i = None \<longleftrightarrow> store q i = None"
  by (simp add: worker_pick_def Let_def split: list.split option.split)

lemma worker_resume_store [simp]: "store (worker_resume now q) i = None \<longleftrightarrow> store q i = None"
  by (simp add: worker_resume_def split: option.split worker.split task.split)

lemma store_persists:
  assumes "qstep q q'" and "store q i \<noteq> None"
  shows "store q' i \<noteq> None"
  using assms(1)
proof cases
  case (s_reserve k ident now)
  then show ?thesis using assms(2) by (auto simp: reserve_def split: if_splits)
next
  case (s_submit k)
  then show ?thesis using assms(2) by (auto simp: submit_def split: option.splits if_splits)
next
  case (s_cancel k r)
  from s_cancel show ?thesis using assms(2) by (cases rule: cancel_effect) auto
next
  case (s_pick now)
  then show ?thesis using assms(2) by simp
next
  case (s_resume now)
  then show ?thesis using assms(2) by simp
next
  case (s_cleanup k)
  then show ?thesis using assms(2) by (auto simp: cleanup_job_def Let_def)
next
  case s_stop_request
  then show ?thesis
    using assms(2) by (auto simp: stop_request_def split: option.splits worker.splits task.splits)
next
  case s_stop_finish
  then show ?thesis using assms(2) by (auto simp: stop_finish_def split: option.splits worker.splits)
qed (use assms(2) in \<open>auto simp: segment_defs\<close>)

lemma usual_step_keeps_ended:
  assumes "reach usual_init usual_step q" and "usual_step q q'" and "ended q i"
  shows "ended q' i"
proof -
  have inv: "qinv q" using reach_service [OF assms(1)] by (simp add: service_ok_def)
  have step: "qstep q q'" using assms(2) by (simp add: usual_step_def)
  obtain a where a: "store q i = Some a" "terminal_status (status a)" using assms(3) by (auto simp: ended_def)
  then obtain b where b: "store q' i = Some b" using store_persists [OF step, of i] by auto
  have "terminal_status (status b)"
    using life_cycle_step [OF inv step a(1) b] a(2)
    by (cases "status a"; cases "status b") (auto simp: status_order)
  with b show ?thesis by (simp add: ended_def)
qed

lemma cancel_usual_step:
  assumes "reach usual_init usual_step q"
  shows "usual_step q (snd (cancel i q))"
proof -
  have t: "tidy q" using reach_service [OF assms] by (simp add: service_ok_def)
  have "qstep q (snd (cancel i q))" using s_cancel [of i q] by (metis prod.collapse)
  moreover have "tidy (snd (cancel i q))" using tidy_cancel [OF t] by (metis prod.collapse)
  ultimately show ?thesis by (simp add: usual_step_def tidy_def)
qed

lemma cancel_ends:
  assumes "reach usual_init usual_step q" and "store q i \<noteq> None"
  shows "ended (snd (cancel i q)) i" and "\<exists>b. fst (cancel i q) = Inr b"
proof -
  have inv: "qinv q" and t: "tidy q"
    using reach_service [OF assms(1)] by (simp_all add: service_ok_def)
  obtain j where j: "store q i = Some j" using assms(2) by blast
  have "ended (snd (cancel i q)) i \<and> (\<exists>b. fst (cancel i q) = Inr b)"
  proof (cases "terminal_status (status j)")
    case True
    then have "cancel i q = (Inr False, q)"
      using j by (auto simp: cancel_def get_job_def)
    with True j show ?thesis by (auto simp: ended_def)
  next
    case False
    then have "get_job q i = Some j"
      using qinvD [OF inv j] j by (simp add: job_ok_def get_job_def active_not_terminal)
    from cancel_usual(1,2) [OF t this False] show ?thesis by (auto simp: ended_def job_marks)
  qed
  then show "ended (snd (cancel i q)) i" and "\<exists>b. fst (cancel i q) = Inr b" by blast+
qed

interpretation slots: upload_slots "reach usual_init usual_step" "\<lambda>i q. store q i \<noteq> None"
  "\<lambda>i q. ended q i" "\<lambda>i q. snd (cancel i q)" usual_step
proof unfold_locales
  show "reach usual_init usual_step q \<Longrightarrow> usual_step q q' \<Longrightarrow> reach usual_init usual_step q'" for q q'
    by (rule reach_step)
  show "usual_step q q' \<Longrightarrow> store q i \<noteq> None \<Longrightarrow> store q' i \<noteq> None" for q q' i
    unfolding usual_step_def using store_persists by blast
  show "reach usual_init usual_step q \<Longrightarrow> usual_step q q' \<Longrightarrow> ended q i \<Longrightarrow> ended q' i" for q q' i
    by (rule usual_step_keeps_ended)
  show "reach usual_init usual_step q \<Longrightarrow> usual_step q (snd (cancel i q))" for q i
    by (rule cancel_usual_step)
  show "reach usual_init usual_step q \<Longrightarrow> store q i \<noteq> None \<Longrightarrow> ended (snd (cancel i q)) i" for q i
    by (rule cancel_ends)
qed

end
