(* ===== verification/Event_Stream.thy ===== *)
theory Event_Stream
  imports Job_Slots
begin

section \<open>The event stream of a request (\<open>event_stream\<close> in \<open>server/routes/transcribe.py\<close>)\<close>

text \<open>
  The async generator behind the response, as a state machine over the shared queue state. It
  is suspended before its first instruction (\<open>EsBegin\<close>), at a \<open>yield\<close> inside the loop
  (\<open>EsYielded\<close>), at \<open>await request.is_disconnected()\<close> (\<open>EsPoll\<close>), at the bounded
  \<open>await job.chunk_queue.get()\<close> (\<open>EsWait\<close>), at the \<open>yield\<close> of the final event (\<open>EsEnd\<close>), or
  finished (\<open>EsDone\<close>). Each definition is one segment between two suspensions; closing the
  generator at a suspension runs its \<open>finally\<close> block. Frames are the texts it yields, before
  they are rendered.
\<close>

subsection \<open>State\<close>

datatype frame =
    QueueFrame queue_position_event
  | AcceptedFrame
  | KeepaliveFrame
  | DataFrame transcription_chunk_event
  | ErrorFrame error_event
  | DoneFrame str

datatype es_pc = EsBegin | EsYielded | EsPoll | EsWait | EsEnd | EsDone

record stream =
  es_pc :: es_pc
  es_started :: bool
  es_terminal :: bool
  es_last_sent :: rat
  es_sent :: "frame list"

definition keepalive_seconds :: rat where
  "keepalive_seconds = 5"

definition new_stream :: "stream" where
  "new_stream = \<lparr>es_pc = EsBegin, es_started = False, es_terminal = False, es_last_sent = 0, es_sent = []\<rparr>"

definition yield_frame :: "frame \<Rightarrow> es_pc \<Rightarrow> stream \<Rightarrow> stream" where
  "yield_frame f pc s = s\<lparr>es_pc := pc, es_sent := es_sent s @ [f]\<rparr>"

subsection \<open>Segments\<close>

text \<open>The \<open>finally\<close> block, when the generator is closed or cancelled at a suspension. Closing
  before the first instruction runs nothing.\<close>

definition stream_finally :: "str \<Rightarrow> stream \<times> tqueue \<Rightarrow> stream \<times> tqueue" where
  "stream_finally i = (\<lambda>(s, q).
     (s\<lparr>es_pc := EsDone\<rparr>, if es_terminal s then q else snd (cancel i q)))"

definition stream_close :: "str \<Rightarrow> stream \<times> tqueue \<Rightarrow> stream \<times> tqueue" where
  "stream_close i = (\<lambda>(s, q).
     case es_pc s of
       EsBegin \<Rightarrow> (s\<lparr>es_pc := EsDone\<rparr>, q)
     | EsDone \<Rightarrow> (s, q)
     | _ \<Rightarrow> stream_finally i (s, q))"

text \<open>From the start to the first \<open>yield\<close> (a missing estimate is a failed assertion).\<close>

definition stream_begin :: "str \<Rightarrow> rat \<Rightarrow> stream \<times> tqueue \<Rightarrow> stream \<times> tqueue" where
  "stream_begin i now = (\<lambda>(s, q).
     let s1 = s\<lparr>es_started := True, es_terminal := False, es_last_sent := now\<rparr>
     in case get_position_and_eta q i of
          (Some p, Some eta) \<Rightarrow>
            (yield_frame (QueueFrame \<lparr>qpe_job_id = i, qpe_position = p, qpe_estimated_wait_seconds = eta\<rparr>)
               EsYielded s1, q)
        | (Some p, None) \<Rightarrow> stream_finally i (s1, q)
        | (None, _) \<Rightarrow> (yield_frame AcceptedFrame EsYielded s1, q))"

text \<open>After a \<open>yield\<close> in the loop: the time is noted and the connection is polled next.\<close>

definition stream_resume :: "rat \<Rightarrow> stream \<Rightarrow> stream" where
  "stream_resume now s = s\<lparr>es_pc := EsPoll, es_last_sent := now\<rparr>"

definition stream_poll :: "str \<Rightarrow> bool \<Rightarrow> stream \<times> tqueue \<Rightarrow> stream \<times> tqueue" where
  "stream_poll i gone = (\<lambda>(s, q).
     if \<not> gone then (s\<lparr>es_pc := EsWait\<rparr>, q)
     else (case cancel i q of
             (Inl e, q1) \<Rightarrow> stream_finally i (s, q1)
           | (Inr b, q1) \<Rightarrow> stream_finally i (s\<lparr>es_terminal := True\<rparr>, q1)))"

text \<open>The wait ends without an item after its second, or with one; \<open>stream_end\<close> is the code
  after the loop.\<close>

definition stream_timeout :: "rat \<Rightarrow> stream \<Rightarrow> stream" where
  "stream_timeout now s =
     (if now - es_last_sent s \<ge> keepalive_seconds then yield_frame KeepaliveFrame EsYielded s
      else s\<lparr>es_pc := EsPoll\<rparr>)"

definition error_text :: "str option \<Rightarrow> str" where
  "error_text m = (case m of None \<Rightarrow> lit ''Transcription failed''
                   | Some t \<Rightarrow> if t = [] then lit ''Transcription failed'' else t)"

definition stream_end :: "str \<Rightarrow> job \<Rightarrow> stream \<Rightarrow> stream" where
  "stream_end i j s =
     (let s1 = s\<lparr>es_terminal := True\<rparr>
      in if status j = CANCELLED then s1\<lparr>es_pc := EsDone\<rparr>
         else if status j = FAILED \<or> error_message j \<noteq> None
         then yield_frame (ErrorFrame \<lparr>ee_error = error_text (error_message j)\<rparr>) EsEnd s1
         else yield_frame (DoneFrame i) EsEnd s1)"

definition stream_take :: "str \<Rightarrow> stream \<times> tqueue \<Rightarrow> stream \<times> tqueue" where
  "stream_take i = (\<lambda>(s, q).
     case store q i of
       None \<Rightarrow> (s, q)
     | Some j \<Rightarrow>
         (case chunk_queue j of
            [] \<Rightarrow> (s, q)
          | Some t # _ \<Rightarrow> (yield_frame (DataFrame \<lparr>tce_text = t\<rparr>) EsYielded s, take_chunk i q)
          | None # _ \<Rightarrow> (stream_end i j s, take_chunk i q)))"

subsection \<open>The stream and the rest of the server\<close>

text \<open>What the others do: any step of the queue's components that leaves the job's chunk queue
  alone or appends to it, since only its own stream takes items from it.\<close>

definition only_appends :: "str \<Rightarrow> tqueue \<Rightarrow> tqueue \<Rightarrow> bool" where
  "only_appends i q q' \<longleftrightarrow>
     (\<forall>a b. store q i = Some a \<longrightarrow> store q' i = Some b \<longrightarrow> (\<exists>ys. chunk_queue b = chunk_queue a @ ys))"

inductive stream_step :: "str \<Rightarrow> stream \<times> tqueue \<Rightarrow> stream \<times> tqueue \<Rightarrow> bool" for i :: str where
  e_begin: "es_pc s = EsBegin \<Longrightarrow> stream_step i (s, q) (stream_begin i now (s, q))"
| e_resume: "es_pc s = EsYielded \<Longrightarrow> stream_step i (s, q) (stream_resume now s, q)"
| e_poll: "es_pc s = EsPoll \<Longrightarrow> stream_step i (s, q) (stream_poll i gone (s, q))"
| e_timeout: "es_pc s = EsWait \<Longrightarrow> stream_step i (s, q) (stream_timeout now s, q)"
| e_take: "es_pc s = EsWait \<Longrightarrow> store q i = Some j \<Longrightarrow> chunk_queue j \<noteq> [] \<Longrightarrow>
     stream_step i (s, q) (stream_take i (s, q))"
| e_finish: "es_pc s = EsEnd \<Longrightarrow> stream_step i (s, q) (s\<lparr>es_pc := EsDone\<rparr>, q)"
| e_close: "stream_step i (s, q) (stream_close i (s, q))"
| e_others: "usual_step q q' \<Longrightarrow> only_appends i q q' \<Longrightarrow> stream_step i (s, q) (s, q')"

text \<open>The stream starts when the response is sent, in a reachable state of the queue.\<close>

definition stream_init :: "str \<Rightarrow> stream \<times> tqueue \<Rightarrow> bool" where
  "stream_init i = (\<lambda>(s, q). s = new_stream \<and> reach usual_init usual_step q \<and> store q i \<noteq> None)"

definition stream_ok :: "str \<Rightarrow> stream \<times> tqueue \<Rightarrow> bool" where
  "stream_ok i = (\<lambda>(s, q).
     reach usual_init usual_step q \<and> store q i \<noteq> None
     \<and> (es_terminal s \<longrightarrow> es_pc s = EsEnd \<or> es_pc s = EsDone)
     \<and> (es_pc s = EsEnd \<longrightarrow> es_terminal s)
     \<and> (es_pc s = EsBegin \<longrightarrow> \<not> es_started s)
     \<and> (es_pc s \<noteq> EsBegin \<and> es_pc s \<noteq> EsDone \<longrightarrow> es_started s)
     \<and> (es_pc s = EsEnd \<or> es_pc s = EsDone \<and> es_started s \<longrightarrow> ended q i))"

lemma take_usual_step:
  assumes "reach usual_init usual_step q" and "store q i = Some j" and "chunk_queue j \<noteq> []"
  shows "usual_step q (take_chunk i q)"
proof -
  have "locked (disk q) = []" using reach_service [OF assms(1)] by (simp add: service_ok_def tidy_def)
  then show ?thesis using s_take [OF assms(2,3)] by (simp add: usual_step_def take_chunk_def)
qed

subsection \<open>The invariant of a stream\<close>

lemma stream_finally_ok:
  assumes "reach usual_init usual_step q" and "store q i \<noteq> None" and "es_terminal s \<longrightarrow> ended q i"
  shows "stream_ok i (stream_finally i (s, q))"
proof -
  have "reach usual_init usual_step (snd (cancel i q))"
    using assms(1) cancel_usual_step [OF assms(1)] by (rule reach_step)
  then show ?thesis
    using assms cancel_ends(1) [OF assms(1,2)]
    by (auto simp: stream_finally_def stream_ok_def ended_def)
qed

lemma stream_ok_begin:
  "stream_ok i (s, q) \<Longrightarrow> es_pc s = EsBegin \<Longrightarrow> stream_ok i (stream_begin i now (s, q))"
  using stream_finally_ok [of q i]
  by (auto simp: stream_begin_def stream_ok_def yield_frame_def get_position_and_eta_def Let_def
      split: option.splits)

lemma stream_ok_poll:
  assumes ok: "stream_ok i (s, q)" and pc: "es_pc s = EsPoll"
  shows "stream_ok i (stream_poll i gone (s, q))"
proof -
  have r: "reach usual_init usual_step q" "store q i \<noteq> None" "\<not> es_terminal s" "es_started s"
    using ok pc by (auto simp: stream_ok_def)
  obtain b q1 where c: "cancel i q = (Inr b, q1)"
    using cancel_ends(2) [OF r(1,2)] by (metis prod.collapse)
  have q1: "reach usual_init usual_step q1" "ended q1 i" "store q1 i \<noteq> None"
    using reach_step [OF r(1) cancel_usual_step [OF r(1), of i]] cancel_ends(1) [OF r(1,2)] c
    by (auto simp: ended_def)
  show ?thesis
  proof (cases gone)
    case True
    then have "stream_poll i gone (s, q) = stream_finally i (s\<lparr>es_terminal := True\<rparr>, q1)"
      using c by (simp add: stream_poll_def)
    then show ?thesis using stream_finally_ok [OF q1(1,3)] q1(2) by simp
  next
    case False
    then show ?thesis using ok pc by (auto simp: stream_poll_def stream_ok_def)
  qed
qed

lemma stream_ok_take:
  assumes ok: "stream_ok i (s, q)" and pc: "es_pc s = EsWait" and j: "store q i = Some j" "chunk_queue j \<noteq> []"
  shows "stream_ok i (stream_take i (s, q))"
proof -
  have r: "reach usual_init usual_step q" using ok by (simp add: stream_ok_def)
  then have inv: "qinv q" using reach_service by (simp add: service_ok_def)
  have r': "reach usual_init usual_step (take_chunk i q)"
    using r take_usual_step [OF r j] by (rule reach_step)
  have st: "store (take_chunk i q) i = Some (j\<lparr>chunk_queue := tl (chunk_queue j)\<rparr>)"
    by (simp add: take_chunk_def j)
  obtain x xs where x: "chunk_queue j = x # xs" using j(2) by (cases "chunk_queue j") auto
  have "terminal_status (status j)" if "x = None"
    using qinvD [OF inv j(1)] x that by (auto simp: job_ok_def chunks_ok_def)
  then show ?thesis
    using ok pc j x r' st
    by (cases x) (auto simp: stream_take_def stream_ok_def stream_end_def yield_frame_def ended_def Let_def)
qed

interpretation stream_runs: invariant_system "stream_init i" "stream_step i" "stream_ok i" for i
proof unfold_locales
  show "stream_init i x \<Longrightarrow> stream_ok i x" for x
    by (auto simp: stream_init_def stream_ok_def new_stream_def)
  show "stream_ok i x \<Longrightarrow> stream_step i x y \<Longrightarrow> stream_ok i y" for x y
  proof -
    assume ok: "stream_ok i x" and "stream_step i x y"
    from this(2) show "stream_ok i y"
    proof cases
      case (e_begin s q now)
      then show ?thesis using stream_ok_begin ok by blast
    next
      case (e_resume s q now)
      then show ?thesis using ok by (auto simp: stream_ok_def stream_resume_def)
    next
      case (e_poll s q gone)
      then show ?thesis using stream_ok_poll ok by blast
    next
      case (e_timeout s q now)
      then show ?thesis using ok by (auto simp: stream_ok_def stream_timeout_def yield_frame_def)
    next
      case (e_take s q j)
      then show ?thesis using stream_ok_take ok by blast
    next
      case (e_finish s q)
      then show ?thesis using ok by (auto simp: stream_ok_def)
    next
      case (e_close s q)
      show ?thesis
      proof (cases "es_pc s = EsBegin \<or> es_pc s = EsDone")
        case True
        then show ?thesis using ok e_close by (auto simp: stream_close_def stream_ok_def)
      next
        case False
        then have "y = stream_finally i (s, q)"
          using e_close by (cases "es_pc s") (simp_all add: stream_close_def)
        then show ?thesis
          using ok e_close False stream_finally_ok [of q i s] by (auto simp: stream_ok_def)
      qed
    next
      case (e_others q q' s)
      have r: "reach usual_init usual_step q" using ok e_others by (simp add: stream_ok_def)
      have "store q' i \<noteq> None"
        using store_persists [of q q' i] e_others ok by (auto simp: usual_step_def stream_ok_def)
      moreover have "reach usual_init usual_step q'" using r e_others(3) by (rule reach_step)
      moreover have "ended q i \<Longrightarrow> ended q' i" using usual_step_keeps_ended [OF r e_others(3)] .
      ultimately show ?thesis using ok e_others(1,2) by (auto simp: stream_ok_def)
    qed
  qed
qed

lemmas reach_stream = stream_runs.reach_inv

subsection \<open>What has been delivered\<close>

definition texts_of :: "frame list \<Rightarrow> str list" where
  "texts_of fs = List.map_filter (\<lambda>f. case f of DataFrame e \<Rightarrow> Some (tce_text e) | _ \<Rightarrow> None) fs"

definition queued_texts :: "str \<Rightarrow> tqueue \<Rightarrow> str list" where
  "queued_texts i q = (case store q i of None \<Rightarrow> [] | Some j \<Rightarrow> List.map_filter id (chunk_queue j))"

text \<open>The text of a job so far: what its stream sent and what still waits to be sent.\<close>

definition job_text :: "str \<Rightarrow> stream \<times> tqueue \<Rightarrow> str list" where
  "job_text i = (\<lambda>(s, q). texts_of (es_sent s) @ queued_texts i q)"

lemma texts_of_yield [simp]:
  "texts_of (es_sent (yield_frame f pc s)) = texts_of (es_sent s) @ (case f of DataFrame e \<Rightarrow> [tce_text e] | _ \<Rightarrow> [])"
  by (simp add: texts_of_def yield_frame_def split: frame.split)

lemma queued_texts_cancel:
  assumes "reach usual_init usual_step q"
  shows "queued_texts i (snd (cancel i q)) = queued_texts i q"
proof (cases "\<exists>j. get_job q i = Some j \<and> \<not> terminal_status (status j)")
  case False
  then have "snd (cancel i q) = q" by (auto simp: cancel_def split: option.splits)
  then show ?thesis by simp
next
  case True
  then obtain j where j: "get_job q i = Some j" "\<not> terminal_status (status j)" by blast
  have t: "tidy q" using reach_service [OF assms] by (simp add: service_ok_def)
  from cancel_usual(2) [OF t j] get_job_store [OF j(1)] show ?thesis
    by (auto simp: queued_texts_def job_marks)
qed

lemma job_text_finally:
  "reach usual_init usual_step q \<Longrightarrow> job_text i (stream_finally i (s, q)) = job_text i (s, q)"
  by (simp add: stream_finally_def job_text_def queued_texts_cancel)

lemma job_text_take: "job_text i (stream_take i (s, q)) = job_text i (s, q)"
  by (auto simp: stream_take_def job_text_def queued_texts_def take_chunk_def stream_end_def Let_def
      split: option.split list.split)

lemma job_text_poll:
  assumes "reach usual_init usual_step q"
  shows "job_text i (stream_poll i gone (s, q)) = job_text i (s, q)"
proof -
  obtain r q1 where c: "cancel i q = (r, q1)" by fastforce
  have "reach usual_init usual_step q1" "queued_texts i q1 = queued_texts i q"
    using reach_step [OF assms cancel_usual_step [OF assms, of i]] queued_texts_cancel [OF assms, of i] c
    by simp_all
  then show ?thesis
    using job_text_finally [of q1 i] c
    by (auto simp: stream_poll_def job_text_def split: sum.split)
qed

lemma job_text_begin:
  "reach usual_init usual_step q \<Longrightarrow> job_text i (stream_begin i now (s, q)) = job_text i (s, q)"
  using job_text_finally [of q i]
  by (auto simp: stream_begin_def get_position_and_eta_def Let_def job_text_def split: option.split)

lemma job_text_close:
  "reach usual_init usual_step q \<Longrightarrow> job_text i (stream_close i (s, q)) = job_text i (s, q)"
  using job_text_finally [of q i s]
  by (auto simp: stream_close_def job_text_def split: es_pc.split)

text \<open>Order and completeness of the text: along every run of a stream, what it has sent followed
  by what waits in the job's queue only ever grows at its end, and only by what others put
  there: no segment of the stream loses, repeats or reorders a text.\<close>

theorem stream_in_order:
  assumes "reach (stream_init i) (stream_step i) (s, q)" and "stream_step i (s, q) (s', q')"
  shows "\<exists>new. job_text i (s', q') = job_text i (s, q) @ new \<and> (s' \<noteq> s \<longrightarrow> new = [])"
proof -
  have ok: "stream_ok i (s, q)" using reach_stream assms(1) .
  then have r: "reach usual_init usual_step q" and st: "store q i \<noteq> None" by (simp_all add: stream_ok_def)
  from assms(2) show ?thesis
  proof cases
    case (e_begin now)
    then show ?thesis using job_text_begin [OF r, of i now s] by simp
  next
    case (e_resume now)
    then show ?thesis by (simp add: job_text_def stream_resume_def)
  next
    case (e_poll gone)
    then show ?thesis using job_text_poll [OF r, of i gone s] by simp
  next
    case (e_timeout now)
    then show ?thesis by (simp add: job_text_def stream_timeout_def)
  next
    case (e_take j)
    then show ?thesis using job_text_take [of i s q] by simp
  next
    case e_finish
    then show ?thesis by (simp add: job_text_def)
  next
    case e_close
    then show ?thesis using job_text_close [OF r, of i s] by simp
  next
    case e_others
    obtain a where a: "store q i = Some a" using st by blast
    obtain b where b: "store q' i = Some b"
      using store_persists [of q q' i] e_others st by (auto simp: usual_step_def)
    obtain ys where "chunk_queue b = chunk_queue a @ ys"
      using e_others a b by (auto simp: only_appends_def)
    then show ?thesis using e_others(1) a b by (simp add: job_text_def queued_texts_def)
  qed
qed

definition demo_stream :: "stream" where
  "demo_stream = fst (stream_begin id_a 0 (new_stream, demo_both))"

lemma demo_stream_eq:
  "stream_begin id_a 0 (new_stream, demo_both) = (demo_stream, demo_both)"
  "es_sent demo_stream = [QueueFrame \<lparr>qpe_job_id = id_a, qpe_position = 1, qpe_estimated_wait_seconds = 30\<rparr>]"
  "es_pc demo_stream = EsYielded"
  by (simp_all add: demo_stream_def stream_begin_def get_position_and_eta_def demo_positions
      estimate_wait_def demo_store_simps yield_frame_def new_stream_def)

lemma demo_stream_reach:
  "reach (stream_init id_a) (stream_step id_a) (new_stream, demo_both)"
  "reach (stream_init id_a) (stream_step id_a) (demo_stream, demo_both)"
proof -
  show 1: "reach (stream_init id_a) (stream_step id_a) (new_stream, demo_both)"
    by (rule reach_init) (simp add: stream_init_def demo_usual demo_store_simps)
  have "stream_step id_a (new_stream, demo_both) (stream_begin id_a 0 (new_stream, demo_both))"
    by (rule e_begin) (simp add: new_stream_def)
  then show "reach (stream_init id_a) (stream_step id_a) (demo_stream, demo_both)"
    using reach_step [OF 1] demo_stream_eq(1) by simp
qed

theorem stream_in_order_witness:
  "\<exists>s' q' new. stream_step id_a (new_stream, demo_both) (s', q')
     \<and> job_text id_a (s', q') = job_text id_a (new_stream, demo_both) @ new"
proof -
  have "stream_step id_a (new_stream, demo_both) (stream_begin id_a 0 (new_stream, demo_both))"
    by (rule e_begin) (simp add: new_stream_def)
  then have s: "stream_step id_a (new_stream, demo_both) (demo_stream, demo_both)"
    by (simp add: demo_stream_eq)
  from stream_in_order [OF demo_stream_reach(1) s] s show ?thesis by blast
qed

lemma stream_end_raw:
  assumes "reach (stream_init i) (stream_step i) (s, q)" and "es_pc s = EsWait"
    and "store q i = Some j" and "chunk_queue j = None # rest"
  shows "rest = [] \<and> terminal_status (status j)
    \<and> es_sent (fst (stream_take i (s, q))) = es_sent s @
        (if status j = COMPLETED then [DoneFrame i]
         else if status j = FAILED then [ErrorFrame \<lparr>ee_error = error_text (error_message j)\<rparr>] else [])
    \<and> snd (stream_close i (stream_take i (s, q))) = take_chunk i q"
proof -
  have "reach usual_init usual_step q" using reach_stream [OF assms(1)] by (simp add: stream_ok_def)
  then have ok: "job_ok q i j" using reach_service qinvD assms(3) by (auto simp: service_ok_def)
  then have "rest = []"
    using assms(4) unfolding job_ok_def chunks_ok_def by (cases rest) auto
  moreover have t: "terminal_status (status j)"
    using ok assms(4) by (simp add: job_ok_def chunks_ok_def)
  moreover have "status j = COMPLETED \<longleftrightarrow> error_message j = None"
    using ok t by (simp add: job_ok_def)
  ultimately show ?thesis
    using assms(2-4)
    by (auto simp: stream_take_def stream_end_def yield_frame_def stream_close_def stream_finally_def
        Let_def terminal_status_def)
qed

text \<open>The last event: when the stream reads the end marker, nothing is left behind it, the job
  has ended, and the stream ends with \<open>done\<close> for a completed job, with one \<open>error\<close> event
  carrying its message for a failed one, and silently for a cancelled one; closing it then
  cancels nothing.\<close>

theorem stream_last_event:
  assumes "reach (stream_init i) (stream_step i) (s, q)" and "es_pc s = EsWait"
    and "store q i = Some j" and "chunk_queue j = None # rest"
  shows "rest = [] \<and> terminal_status (status j)
    \<and> es_sent (fst (stream_take i (s, q))) = es_sent s @
        (if status j = COMPLETED then [DoneFrame i]
         else if status j = FAILED then [ErrorFrame \<lparr>ee_error = error_text (error_message j)\<rparr>] else [])
    \<and> snd (stream_close i (stream_take i (s, q))) = take_chunk i q"
  using assms by (rule stream_end_raw)

definition demo_waiting :: "stream" where
  "demo_waiting = demo_stream\<lparr>es_pc := EsWait, es_last_sent := 1\<rparr>"

definition demo_gone :: tqueue where
  "demo_gone = snd (cancel id_a demo_both)"

lemma demo_waiting_reach: "reach (stream_init id_a) (stream_step id_a) (demo_waiting, demo_both)"
proof -
  have 1: "stream_step id_a (demo_stream, demo_both) (stream_resume 1 demo_stream, demo_both)"
    by (rule e_resume) (simp add: demo_stream_eq)
  have 2: "stream_step id_a (stream_resume 1 demo_stream, demo_both)
      (stream_poll id_a False (stream_resume 1 demo_stream, demo_both))"
    by (rule e_poll) (simp add: stream_resume_def)
  have "stream_poll id_a False (stream_resume 1 demo_stream, demo_both) = (demo_waiting, demo_both)"
    by (simp add: stream_poll_def stream_resume_def demo_waiting_def)
  then show ?thesis using reach_step [OF reach_step [OF demo_stream_reach(2) 1] 2] by simp
qed

lemma demo_gone_a:
  "\<exists>j. store demo_gone id_a = Some j \<and> chunk_queue j = [None] \<and> status j = CANCELLED"
proof -
  have "tidy demo_both" using reach_service [OF demo_usual(2)] by (simp add: service_ok_def)
  moreover have "get_job demo_both id_a = Some (job_a\<lparr>status := QUEUED\<rparr>)"
    by (simp add: get_job_def demo_store_simps)
  ultimately show ?thesis
    using cancel_usual(2) [of demo_both id_a] by (auto simp: demo_gone_def job_marks)
qed

lemma demo_gone_reach: "reach (stream_init id_a) (stream_step id_a) (demo_waiting, demo_gone)"
proof (rule reach_step [OF demo_waiting_reach], rule e_others)
  show "usual_step demo_both demo_gone"
    unfolding demo_gone_def using cancel_usual_step [OF demo_usual(2)] .
  show "only_appends id_a demo_both demo_gone"
    using demo_gone_a by (auto simp: only_appends_def demo_store_simps)
qed

theorem stream_last_event_witness:
  "es_sent (fst (stream_take id_a (demo_waiting, demo_gone))) = es_sent demo_waiting"
proof -
  obtain j where j: "store demo_gone id_a = Some j" "chunk_queue j = None # []" "status j = CANCELLED"
    using demo_gone_a by blast
  have "es_pc demo_waiting = EsWait" by (simp add: demo_waiting_def)
  from stream_last_event [OF demo_gone_reach this j(1,2)] j(3) show ?thesis by simp
qed

text \<open>C15. No abandoned jobs: once a stream that has begun is finished, in whatever way (the last
  event, a client that went away, an error or a cancellation at any suspension), its job has
  ended, so it holds no place in the queue any more (on a disk that refuses no removal).\<close>

theorem stream_leaves_no_job:
  assumes "reach (stream_init i) (stream_step i) (s, q)" and "es_pc s = EsDone" and "es_started s"
  shows "\<exists>j. store q i = Some j \<and> terminal_status (status j) \<and> \<not> active_status (status j)"
  using reach_stream [OF assms(1)] assms(2,3) by (auto simp: stream_ok_def ended_def active_not_terminal)

theorem stream_leaves_no_job_witness:
  "\<exists>j. store (snd (stream_close id_a (demo_stream, demo_both))) id_a = Some j \<and> terminal_status (status j)"
proof -
  have c: "stream_close id_a (demo_stream, demo_both) = (demo_stream\<lparr>es_pc := EsDone\<rparr>, demo_gone)"
    by (simp add: stream_close_def stream_finally_def demo_stream_eq demo_gone_def demo_stream_def
        stream_begin_def get_position_and_eta_def demo_positions yield_frame_def)
  have "reach (stream_init id_a) (stream_step id_a) (demo_stream\<lparr>es_pc := EsDone\<rparr>, demo_gone)"
    using reach_step [OF demo_stream_reach(2) e_close] c by simp
  moreover have "es_started demo_stream"
    by (simp add: demo_stream_def stream_begin_def get_position_and_eta_def demo_positions yield_frame_def)
  ultimately show ?thesis
    using stream_leaves_no_job [of id_a "demo_stream\<lparr>es_pc := EsDone\<rparr>" demo_gone] c by auto
qed

text \<open>A response that is dropped before its body starts cancels nothing: closing the generator
  before its first instruction runs no \<open>finally\<close> block, so the queued job stays queued and is
  transcribed for nobody.\<close>

theorem stream_unstarted_keeps_job:
  "reach (stream_init id_a) (stream_step id_a) (stream_close id_a (new_stream, demo_both))
   \<and> es_pc (fst (stream_close id_a (new_stream, demo_both))) = EsDone
   \<and> (\<exists>j. store (snd (stream_close id_a (new_stream, demo_both))) id_a = Some j \<and> status j = QUEUED)"
proof -
  have "reach (stream_init id_a) (stream_step id_a) (stream_close id_a (new_stream, demo_both))"
    using demo_stream_reach(1) e_close by (rule reach_step)
  then show ?thesis by (simp add: stream_close_def new_stream_def demo_store_simps)
qed

end
