(* ===== verification/Transcribe_Route.thy ===== *)
theory Transcribe_Route
  imports Event_Stream Form_Upload Client_Gate
begin

section \<open>The transcription route (\<open>transcribe\<close> in \<open>server/routes/transcribe.py\<close>)\<close>

text \<open>
  The whole handler over the state of the queue and the disk. What the other tasks of the server
  do while it is suspended (during the parse, the copy and the close of the form) is an argument
  for each suspension, a function on the state; the properties hold for every such function
  that runs steps of the queue. The copy of the upload is one segment: the other tasks do not
  touch its private directory. The identifier \<open>jid\<close>, the clock and the name of the private
  directory are arguments too.
\<close>

record post =
  post_content_type :: "str option"
  post_body :: "body_event list"
  post_parser :: "bytes list \<times> exn option \<Rightarrow> form res"
  post_close :: "exn option"
  post_dir :: path

record env =
  during_parse :: "tqueue \<Rightarrow> tqueue"
  during_copy :: "tqueue \<Rightarrow> tqueue"
  during_close :: "tqueue \<Rightarrow> tqueue"

subsection \<open>The handler\<close>

text \<open>\<open>except Exception: queue.cancel(...); raise\<close> (an error of \<open>cancel\<close> replaces the first).\<close>

definition cancel_and_raise :: "str \<Rightarrow> exn \<Rightarrow> tqueue \<Rightarrow> str res \<times> tqueue" where
  "cancel_and_raise i e q =
     (case cancel i q of (Inl e', q') \<Rightarrow> (Inl e', q') | (Inr b, q') \<Rightarrow> (Inl e, q'))"

definition except_exception :: "str \<Rightarrow> exn \<Rightarrow> tqueue \<Rightarrow> str res \<times> tqueue" where
  "except_exception i e q = (if is_exception e then cancel_and_raise i e q else (Inl e, q))"

definition wav_error :: "exn \<Rightarrow> exn" where
  "wav_error e = (case e of ValueError m \<Rightarrow> HTTPException 422 (lit ''Invalid HeliBoard WAV: '' @ m) | _ \<Rightarrow> e)"

definition spool_error :: "exn \<Rightarrow> exn" where
  "spool_error e = (if is_os_error e then HTTPException 507 (lit ''Temporary upload storage exhausted'') else e)"

text \<open>From the stored file to the submitted job, without a suspension.\<close>

definition finish_upload :: "str \<Rightarrow> path \<Rightarrow> tqueue \<Rightarrow> str res \<times> tqueue" where
  "finish_upload i p q =
     (let q1 = upd_job i (\<lambda>j. j\<lparr>audio_path := Some p\<rparr>) q
      in case read_heliboard_wav_info (disk q1) p of
           Inl e \<Rightarrow> except_exception i (wav_error e) q1
         | Inr info \<Rightarrow>
             (let q2 = upd_job i (\<lambda>j. j\<lparr>audio_duration_seconds := duration_seconds info\<rparr>) q1
              in case submit i q2 of
                   (Some e, q3) \<Rightarrow> except_exception i e q3
                 | (None, q3) \<Rightarrow> (Inr i, q3)))"

definition transcribe_authenticated ::
    "int \<Rightarrow> path \<Rightarrow> (tqueue \<Rightarrow> tqueue) \<Rightarrow> str \<Rightarrow> upload \<Rightarrow> str option \<Rightarrow> tqueue \<Rightarrow> str res \<times> tqueue" where
  "transcribe_authenticated max_audio dir other i u hw q =
     (case validate_heliboard_wav_metadata (up_filename u) (up_content_type u) of
        Inl e \<Rightarrow> (Inl (case e of ValueError m \<Rightarrow> HTTPException 400 m | _ \<Rightarrow> e), q)
      | Inr mime \<Rightarrow>
          (let q1 = other (describe_upload i mime hw q);
               (r, d) = spool_upload dir u max_audio (disk q1);
               q2 = q1\<lparr>disk := d\<rparr>
           in case r of
                Inl e \<Rightarrow> except_exception i (spool_error e) q2
              | Inr (p, n) \<Rightarrow> finish_upload i p q2))"

text \<open>The \<open>try\<close> block of the handler; the flag says that a form was parsed.\<close>

definition transcribe_body :: "int \<Rightarrow> post \<Rightarrow> env \<Rightarrow> str \<Rightarrow> tqueue \<Rightarrow> (str res \<times> tqueue) \<times> bool" where
  "transcribe_body max_audio po en i q =
     (let q1 = during_parse en q
      in case fst (parse_transcribe_form (post_content_type po) max_audio (post_body po) (post_parser po)) of
           Inl e \<Rightarrow> ((Inl e, q1), False)
         | Inr f \<Rightarrow>
             (case extract_transcribe_form f of
                Inl e \<Rightarrow> ((Inl e, q1), True)
              | Inr (u, hw) \<Rightarrow>
                  (transcribe_authenticated max_audio (post_dir po) (during_copy en) i u hw q1, True)))"

text \<open>The \<open>finally\<close> block: the form is closed, then the job is cancelled unless the response is
  ready. An error of the close leaves the block at once.\<close>

definition transcribe_finally :: "post \<Rightarrow> env \<Rightarrow> str \<Rightarrow> (str res \<times> tqueue) \<times> bool \<Rightarrow> str res \<times> tqueue" where
  "transcribe_finally po en i = (\<lambda>((r, q), form_present).
     let q1 = (if form_present then during_close en q else q)
     in if form_present \<and> post_close po \<noteq> None then (Inl (the (post_close po)), q1)
        else case r of Inr x \<Rightarrow> (Inr x, q1) | Inl e \<Rightarrow> cancel_and_raise i e q1)"

definition transcribe :: "int \<Rightarrow> str \<Rightarrow> str \<Rightarrow> rat \<Rightarrow> post \<Rightarrow> env \<Rightarrow> tqueue \<Rightarrow> str res \<times> tqueue" where
  "transcribe max_audio ident i now po en q =
     (case reserve (new_job i ident now) q of
        (Some e, q1) \<Rightarrow> (Inl (if e = QueueFull then HTTPException 503 (lit ''Queue is full'') else e), q1)
      | (None, q1) \<Rightarrow> transcribe_finally po en i (transcribe_body max_audio po en i q1))"

definition transcribe_route ::
    "(str \<Rightarrow> str list) \<Rightarrow> int \<Rightarrow> str \<Rightarrow> rat \<Rightarrow> post \<Rightarrow> env \<Rightarrow> tqueue \<Rightarrow> str res \<times> tqueue" where
  "transcribe_route getlist max_audio i now po en q =
     (case require_client_identity getlist of
        Inl e \<Rightarrow> (Inl e, q)
      | Inr ident \<Rightarrow> transcribe max_audio ident i now po en q)"

subsection \<open>Every segment is a run of the queue\<close>

text \<open>A well-behaved environment: steps of the queue's components that leave a proper file system
  and do not touch the upload of this request.\<close>

definition calm :: "str \<Rightarrow> (tqueue \<Rightarrow> tqueue) \<Rightarrow> bool" where
  "calm i f \<longleftrightarrow> (\<forall>q. usual_step\<^sup>*\<^sup>* q (f q) \<and> (wf_fs (disk q) \<longrightarrow> wf_fs (disk (f q)))
     \<and> (store q i \<noteq> None \<longrightarrow> store (f q) i = store q i)
     \<and> (i \<in> set (jobs q) \<longrightarrow> i \<in> set (jobs (f q))))"

lemma cancel_and_raise_eq:
  assumes "reach usual_init usual_step q" and "store q i \<noteq> None"
  shows "cancel_and_raise i e q = (Inl e, snd (cancel i q))"
  using cancel_ends(2) [OF assms]
  by (cases "cancel i q") (auto simp: cancel_and_raise_def split: sum.splits)

text \<open>The job while its upload is received.\<close>

definition receiving :: "tqueue \<Rightarrow> str \<Rightarrow> job \<Rightarrow> bool" where
  "receiving q i j \<longleftrightarrow> get_job q i = Some j \<and> status j = UPLOADING \<and> audio_path j = None"

lemma receiving_known: "receiving q i j \<Longrightarrow> store q i = Some j \<and> i \<in> set (jobs q)"
  by (simp add: receiving_def get_job_store)

lemma calm_receiving:
  assumes "calm i f" and "receiving q i j"
  shows "receiving (f q) i j"
  using assms receiving_known [OF assms(2)] by (auto simp: calm_def receiving_def get_job_def)

lemma attach_usual_step:
  assumes r: "reach usual_init usual_step q" and j: "receiving q i j"
    and f: "node_at (disk q) p = Some (RegFile m b)" "p \<noteq> []" "path_free q p"
  shows "usual_step q (attach_upload i p mime hw dur q)"
proof -
  have "locked (disk q) = []" using reach_service [OF r] by (simp add: service_ok_def tidy_def)
  then show ?thesis
    using s_attach [of q i j p m b] j f by (simp add: receiving_def usual_step_def attach_upload_def)
qed

lemma describe_usual_step:
  assumes r: "reach usual_init usual_step q" and j: "receiving q i j"
  shows "usual_step q (describe_upload i mime hw q)"
    and "receiving (describe_upload i mime hw q) i (j\<lparr>audio_mime := mime, hotwords := hw\<rparr>)"
proof -
  have "locked (disk q) = []" using reach_service [OF r] by (simp add: service_ok_def tidy_def)
  then show "usual_step q (describe_upload i mime hw q)"
    using s_describe [of q i j] j by (simp add: receiving_def usual_step_def describe_upload_def)
  show "receiving (describe_upload i mime hw q) i (j\<lparr>audio_mime := mime, hotwords := hw\<rparr>)"
    using j by (simp add: receiving_def describe_upload_def)
qed

lemma disk_usual_step:
  assumes "reach usual_init usual_step q" and "locked d = []"
    and "\<And>p m b. node_at (disk q) p = Some (RegFile m b) \<Longrightarrow> node_at d p = Some (RegFile m b)"
  shows "usual_step q (q\<lparr>disk := d\<rparr>)"
proof -
  have t: "tidy q" using reach_service [OF assms(1)] by (simp add: service_ok_def)
  have keep: "node_at d p = node_at (disk q) p" 
    if a: "store q i = Some j" "audio_path j = Some p" for i j p
  proof -
    obtain m b where "node_at (disk q) p = Some (RegFile m b)"
      using tidyD [OF t a(1)] a(2) by (auto simp: tidy_job_def stored_file_def)
    then show ?thesis using assms(3) by simp
  qed
  have "qstep q (q\<lparr>disk := d\<rparr>)" by (rule s_disk) (rule keep)
  then show ?thesis using assms(2) by (simp add: usual_step_def)
qed

lemma submit_usual_step:
  assumes "reach usual_init usual_step q" and "submit i q = (None, q')"
  shows "usual_step q q'"
proof -
  have "locked (disk q) = []" using reach_service [OF assms(1)] by (simp add: service_ok_def tidy_def)
  moreover have "disk q' = disk q"
    using assms(2) by (auto simp: submit_def split: option.splits if_splits)
  ultimately show ?thesis using s_submit [OF assms(2)] by (simp add: usual_step_def)
qed

lemma finish_upload_effect:
  assumes r: "reach usual_init usual_step q" and j: "receiving q i j"
    and f: "node_at (disk q) p = Some (RegFile m b)" "p \<noteq> []" "path_free q p"
    and run: "finish_upload i p q = (res, q')"
  shows "usual_step\<^sup>*\<^sup>* q q'
    \<and> (case res of
         Inl e \<Rightarrow> ended q' i \<and> (\<exists>msg. e = HTTPException 422 msg) \<and> isl (read_heliboard_wav_info (disk q) p)
       | Inr x \<Rightarrow> x = i \<and> (\<exists>info. read_heliboard_wav_info (disk q) p = Inr info
           \<and> get_job q' i = Some (j\<lparr>audio_path := Some p, audio_duration_seconds := duration_seconds info, status := QUEUED\<rparr>)
           \<and> pending q' = pending q @ [i] \<and> disk q' = disk q))"
proof -
  have sj: "store q i = Some j" using receiving_known [OF j] by simp
  have upd: "upd_job i (\<lambda>j. j\<lparr>audio_path := Some p\<rparr>) q
      = attach_upload i p (audio_mime j) (hotwords j) (audio_duration_seconds j) q"
    unfolding attach_upload_def upd_job_def using sj by (cases j) simp
  have dur: "upd_job i (\<lambda>j. j\<lparr>audio_duration_seconds := t\<rparr>) (upd_job i (\<lambda>j. j\<lparr>audio_path := Some p\<rparr>) q)
      = attach_upload i p (audio_mime j) (hotwords j) t q" for t
    unfolding attach_upload_def upd_job_upd_job unfolding upd_job_def using sj by (cases j) simp
  have step: "usual_step q (attach_upload i p (audio_mime j) (hotwords j) t q)" for t
    by (rule attach_usual_step [OF r j f])
  show ?thesis
  proof (cases "read_heliboard_wav_info (disk q) p")
    case (Inl e)
    obtain msg where e: "e = ValueError msg"
      using raises_onlyD [OF read_wav_raises [OF f(1)] Inl] by (auto simp: is_value_error_def split: exn.splits)
    let ?q1 = "attach_upload i p (audio_mime j) (hotwords j) (audio_duration_seconds j) q"
    have r1: "reach usual_init usual_step ?q1" and k1: "store ?q1 i \<noteq> None"
      using reach_step [OF r step] sj by (simp_all add: attach_upload_def)
    have "finish_upload i p q = (Inl (wav_error e), snd (cancel i ?q1))"
      using Inl e cancel_and_raise_eq [OF r1 k1]
      by (simp add: finish_upload_def except_exception_def wav_error_def upd attach_upload_def Let_def
          flip: upd_job_def)
    then show ?thesis
      using run e Inl cancel_ends(1) [OF r1 k1] step cancel_usual_step [OF r1, of i]
      by (auto simp: wav_error_def intro: rtranclp.rtrancl_into_rtrancl)
  next
    case (Inr info)
    let ?q1 = "attach_upload i p (audio_mime j) (hotwords j) (duration_seconds info) q"
    have r1: "reach usual_init usual_step ?q1" using reach_step [OF r step] .
    have g1: "get_job ?q1 i = Some (j\<lparr>audio_path := Some p, audio_duration_seconds := duration_seconds info\<rparr>)"
      using j by (cases j) (simp add: attach_upload_def receiving_def)
    then obtain q2 where s: "submit i ?q1 = (None, q2)"
        "q2 = (upd_job i (\<lambda>j. j\<lparr>status := QUEUED\<rparr>) ?q1)\<lparr>pending := pending ?q1 @ [i]\<rparr>"
      using j by (simp add: submit_def receiving_def)
    have "finish_upload i p q = (Inr i, q2)"
      using Inr s(1) by (simp add: finish_upload_def dur Let_def)
    moreover have "usual_step ?q1 q2" using submit_usual_step [OF r1 s(1)] .
    moreover have "get_job q2 i = Some (j\<lparr>audio_path := Some p, audio_duration_seconds := duration_seconds info, status := QUEUED\<rparr>)"
      using g1 s(2) by (simp add: get_job_def split: if_splits)
    moreover have "pending q2 = pending q @ [i]" "disk q2 = disk q" by (simp_all add: s(2) attach_upload_def)
    ultimately show ?thesis
      using run step Inr by (auto intro: rtranclp.rtrancl_into_rtrancl)
  qed
qed

lemma spool_segment:
  assumes r: "reach usual_init usual_step q" and wf: "wf_fs (disk q)" and m: "0 \<le> m"
    and run: "spool_upload dir u m (disk q) = (res, d)"
  shows "usual_step q (q\<lparr>disk := d\<rparr>)"
    and "\<And>p n. res = Inr (p, n) \<Longrightarrow> p \<noteq> [] \<and> path_free (q\<lparr>disk := d\<rparr>) p \<and> 0 < n \<and> n \<le> m
      \<and> n = int (length (upload_data (up_reads u)))
      \<and> node_at d p = Some (RegFile 384 (upload_data (up_reads u)))"
proof -
  have t: "tidy q" using reach_service [OF r] by (simp add: service_ok_def)
  then have lk: "locked (disk q) = []" by (simp add: tidy_def)
  have l2: "locked (rmtree dir x) = locked x" for x by (simp add: rmtree_def)
  from run m have "locked d = [] \<and> (\<forall>p k b. node_at (disk q) p = Some (RegFile k b) \<longrightarrow> node_at d p = Some (RegFile k b))"
  proof (cases rule: spool_upload_cases)
    case (failed e d2)
    then have "node_at d = node_at (disk q)" using wf_fs_rmtree [OF wf, of d2 dir] lk by simp
    then show ?thesis using failed lk l2 by simp
  qed (use lk in auto)
  then show "usual_step q (q\<lparr>disk := d\<rparr>)" using disk_usual_step [OF r] by blast
  fix p n assume "res = Inr (p, n)"
  with run m show "p \<noteq> [] \<and> path_free (q\<lparr>disk := d\<rparr>) p \<and> 0 < n \<and> n \<le> m
      \<and> n = int (length (upload_data (up_reads u)))
      \<and> node_at d p = Some (RegFile 384 (upload_data (up_reads u)))"
  proof (cases rule: spool_upload_cases)
    case stored
    have "audio_path j \<noteq> Some p" if "store q k = Some j" for k j
      using tidyD [OF t that] stored(1,6) \<open>res = Inr (p, n)\<close> by (auto simp: tidy_job_def stored_file_def)
    then show ?thesis using stored \<open>res = Inr (p, n)\<close> by (auto simp: path_free_def)
  qed auto
qed

definition accepted_upload :: "tqueue \<Rightarrow> str \<Rightarrow> int \<Rightarrow> upload \<Rightarrow> str option \<Rightarrow> bool" where
  "accepted_upload q i m u hw \<longleftrightarrow>
     (\<exists>j p samples. get_job q i = Some j \<and> status j = QUEUED \<and> i \<in> set (pending q)
        \<and> audio_path j = Some p \<and> audio_mime j = lit ''audio/wav'' \<and> hotwords j = hw
        \<and> node_at (disk q) p = Some (RegFile 384 (heliboard_wav samples))
        \<and> heliboard_wav samples = upload_data (up_reads u)
        \<and> samples \<noteq> [] \<and> 44 + int (length samples) \<le> m
        \<and> audio_duration_seconds j = of_nat (length samples) / 32000)"

text \<open>Why an upload was refused once its form was read.\<close>

definition upload_refused :: "int \<Rightarrow> upload \<Rightarrow> exn \<Rightarrow> bool" where
  "upload_refused m u e \<longleftrightarrow>
     isl (validate_heliboard_wav_metadata (up_filename u) (up_content_type u))
   \<or> e = HTTPException 507 (lit ''Temporary upload storage exhausted'')
   \<or> e = HTTPException 413 (lit ''Audio file too large'') \<and> m < int (length (upload_data (up_reads u)))
   \<or> e = HTTPException 400 (lit ''Empty audio file'') \<and> upload_data (up_reads u) = []
   \<or> (\<exists>msg. e = HTTPException 422 msg) \<and> \<not> heliboard_file (upload_data (up_reads u))
   \<or> (\<exists>x. Inl x \<in> set (up_reads u))"

lemma authenticated_effect:
  assumes r: "reach usual_init usual_step q" and j: "receiving q i j" and c: "calm i other"
    and wf: "wf_fs (disk q)" and m: "0 \<le> m"
    and run: "transcribe_authenticated m dir other i u hw q = (res, q')"
  shows "usual_step\<^sup>*\<^sup>* q q' \<and> (case res of Inl e \<Rightarrow> upload_refused m u e | Inr x \<Rightarrow> x = i \<and> accepted_upload q' i m u hw)"
proof (cases "validate_heliboard_wav_metadata (up_filename u) (up_content_type u)")
  case (Inl e)
  then show ?thesis using run by (auto simp: transcribe_authenticated_def upload_refused_def)
next
  case (Inr mime)
  have mime: "mime = lit ''audio/wav''"
    using Inr by (auto simp: validate_heliboard_wav_metadata_def heliboard_wav_mime_type_def split: if_splits)
  let ?j = "j\<lparr>audio_mime := mime, hotwords := hw\<rparr>"
  define q0 where "q0 = describe_upload i mime hw q"
  define q1 where "q1 = other q0"
  have s0: "usual_step q q0" and j0: "receiving q0 i ?j"
    using describe_usual_step [OF r j] by (simp_all add: q0_def)
  have s1: "usual_step\<^sup>*\<^sup>* q0 q1" and w1: "wf_fs (disk q1)"
    using c wf by (simp_all add: calm_def q1_def q0_def describe_upload_def)
  have r1: "reach usual_init usual_step q1" using slots.steps_ok [OF s1] reach_step [OF r s0] by blast
  have j1: "receiving q1 i ?j" using calm_receiving [OF c j0] by (simp add: q1_def)
  have run1: "usual_step\<^sup>*\<^sup>* q q1" using s0 s1 by (rule converse_rtranclp_into_rtranclp)
  obtain sr d where sp: "spool_upload dir u m (disk q1) = (sr, d)" by fastforce
  define q2 where "q2 = q1\<lparr>disk := d\<rparr>"
  note seg = spool_segment [OF r1 w1 m sp, folded q2_def]
  have r2: "reach usual_init usual_step q2" using reach_step [OF r1 seg(1)] .
  have run2: "usual_step\<^sup>*\<^sup>* q q2" using run1 seg(1) by (rule rtranclp.rtrancl_into_rtrancl)
  have j2: "receiving q2 i ?j" using j1 by (auto simp: q2_def receiving_def get_job_def split: if_splits)
  have k2: "store q2 i \<noteq> None" using receiving_known [OF j2] by simp
  have eq: "transcribe_authenticated m dir other i u hw q = (case sr of
      Inl e \<Rightarrow> except_exception i (spool_error e) q2 | Inr (p, n) \<Rightarrow> finish_upload i p q2)"
    unfolding q2_def using Inr sp
    by (simp add: transcribe_authenticated_def Let_def q0_def [symmetric] q1_def [symmetric])
  show ?thesis
  proof (cases sr)
    case (Inl e)
    then have "res = Inl (spool_error e) \<and> (q' = q2 \<or> q' = snd (cancel i q2))"
      using eq run cancel_and_raise_eq [OF r2 k2] by (auto simp: except_exception_def split: if_splits)
    moreover have "upload_refused m u (spool_error e)"
      using spool_upload_error [OF sp [unfolded Inl] m] by (auto simp: upload_refused_def spool_error_def)
    ultimately show ?thesis
      using run2 rtranclp.rtrancl_into_rtrancl [OF run2 cancel_usual_step [OF r2, of i]] by auto
  next
    case (Inr pn)
    obtain p n where pn: "sr = Inr (p, n)" using Inr by (cases pn) auto
    let ?b = "upload_data (up_reads u)"
    have f: "node_at (disk q2) p = Some (RegFile 384 ?b)" "p \<noteq> []" "path_free q2 p"
      and n: "n \<le> m" "n = int (length ?b)"
      using seg(2) [OF pn] by (simp_all add: q2_def)
    have run3: "finish_upload i p q2 = (res, q')" using eq run pn by simp
    note fin = finish_upload_effect [OF r2 j2 f run3]
    have steps: "usual_step\<^sup>*\<^sup>* q q'" using run2 fin by (meson rtranclp_trans)
    show ?thesis
    proof (cases res)
      case (Inl e)
      then have "\<not> heliboard_file ?b" "\<exists>msg. e = HTTPException 422 msg"
        using fin heliboard_file_read [OF f(1)] by auto
      then show ?thesis using steps Inl by (simp add: upload_refused_def)
    next
      case (Inr x)
      then obtain info where x: "x = i" and info: "read_heliboard_wav_info (disk q2) p = Inr info"
        and g: "get_job q' i = Some (?j\<lparr>audio_path := Some p, audio_duration_seconds := duration_seconds info, status := QUEUED\<rparr>)"
        and pend: "pending q' = pending q2 @ [i]" "disk q' = disk q2"
        using fin by auto
      obtain samples where s: "?b = heliboard_wav samples" "samples \<noteq> []"
        "duration_seconds info = of_nat (length samples) / 32000"
        using info f(1) by (auto simp: wav_accepts_iff)
      have "44 + int (length samples) \<le> m" using n s(1) by (simp add: heliboard_wav_def)
      then have "accepted_upload q' i m u hw"
        unfolding accepted_upload_def using g pend f(1) s mime
        by (intro exI [of _ "?j\<lparr>audio_path := Some p, audio_duration_seconds := duration_seconds info, status := QUEUED\<rparr>"]
            exI [of _ p] exI [of _ samples]) simp
      then show ?thesis using steps Inr x by simp
    qed
  qed
qed

text \<open>The form that the handler works on.\<close>

definition parsed_form :: "int \<Rightarrow> post \<Rightarrow> form res" where
  "parsed_form m po =
     fst (parse_transcribe_form (post_content_type po) m (post_body po) (post_parser po))"

text \<open>Why the body of the handler raised.\<close>

definition request_refused :: "int \<Rightarrow> post \<Rightarrow> exn \<Rightarrow> bool" where
  "request_refused m po e \<longleftrightarrow>
     parsed_form m po = Inl e
   \<or> (\<exists>f. parsed_form m po = Inr f \<and> extract_transcribe_form f = Inl e)
   \<or> (\<exists>f u hw. parsed_form m po = Inr f \<and> extract_transcribe_form f = Inr (u, hw) \<and> upload_refused m u e)"

lemma body_effect:
  assumes r: "reach usual_init usual_step q" and j: "receiving q i j"
    and c: "calm i (during_parse en)" "calm i (during_copy en)"
    and wf: "wf_fs (disk q)" and m: "0 \<le> m"
    and run: "transcribe_body m po en i q = ((res, q'), fp)"
  shows "usual_step\<^sup>*\<^sup>* q q' \<and> (case res of Inl e \<Rightarrow> request_refused m po e
      | Inr x \<Rightarrow> x = i \<and> (\<exists>f u hw. parsed_form m po = Inr f \<and> extract_transcribe_form f = Inr (u, hw) \<and> accepted_upload q' i m u hw))"
proof -
  define q1 where "q1 = during_parse en q"
  have s1: "usual_step\<^sup>*\<^sup>* q q1" and w1: "wf_fs (disk q1)" and j1: "receiving q1 i j"
    using c(1) wf calm_receiving [OF c(1) j] by (simp_all add: calm_def q1_def)
  have r1: "reach usual_init usual_step q1" using slots.steps_ok [OF s1 r] .
  show ?thesis
  proof (cases "fst (parse_transcribe_form (post_content_type po) m (post_body po) (post_parser po))")
    case (Inl e)
    then show ?thesis using run s1 by (auto simp: transcribe_body_def q1_def Let_def request_refused_def parsed_form_def)
  next
    case f: (Inr f)
    show ?thesis
    proof (cases "extract_transcribe_form f")
      case (Inl e)
      then show ?thesis using run s1 f by (auto simp: transcribe_body_def q1_def Let_def request_refused_def parsed_form_def)
    next
      case (Inr uh)
      obtain u hw where uh: "extract_transcribe_form f = Inr (u, hw)" using Inr by (cases uh) auto
      then have "transcribe_authenticated m (post_dir po) (during_copy en) i u hw q1 = (res, q')"
        using run f by (simp add: transcribe_body_def q1_def Let_def)
      from authenticated_effect [OF r1 j1 c(2) w1 m this] s1 uh f show ?thesis
        by (auto simp: parsed_form_def request_refused_def split: sum.splits intro: rtranclp_trans)
    qed
  qed
qed

lemma reserve_usual_step:
  assumes "reach usual_init usual_step q" and "store q i = None" and "reserve (new_job i ident now) q = (None, q')"
  shows "usual_step q q'" and "\<exists>j. receiving q' i j" and "disk q' = disk q"
proof -
  have t: "tidy q" using reach_service [OF assms(1)] by (simp add: service_ok_def)
  show d: "disk q' = disk q" using assms(3) by (auto simp: reserve_def split: if_splits)
  then show "usual_step q q'"
    using s_reserve [OF assms(2,3)] t by (simp add: usual_step_def tidy_def)
  show "\<exists>j. receiving q' i j"
    using assms(3) by (auto simp: reserve_def receiving_def get_job_def new_job_def split: if_splits)
qed

definition calm_env :: "str \<Rightarrow> env \<Rightarrow> bool" where
  "calm_env i en \<longleftrightarrow> calm i (during_parse en) \<and> calm i (during_copy en) \<and> calm i (during_close en)"

lemma transcribe_effect:
  assumes r: "reach usual_init usual_step q" and fresh: "store q i = None" and c: "calm_env i en"
    and wf: "wf_fs (disk q)" and m: "0 \<le> m" and close: "post_close po = None"
    and run: "transcribe m ident i now po en q = (res, q')"
  shows "usual_step\<^sup>*\<^sup>* q q'
    \<and> (case res of
         Inl e \<Rightarrow> (q' = q \<and> e = HTTPException 503 (lit ''Queue is full'')) \<or> ended q' i \<and> request_refused m po e
       | Inr x \<Rightarrow> x = i \<and> (\<exists>f u hw q2. parsed_form m po = Inr f \<and> extract_transcribe_form f = Inr (u, hw)
           \<and> accepted_upload q2 i m u hw \<and> usual_step\<^sup>*\<^sup>* q q2 \<and> usual_step\<^sup>*\<^sup>* q2 q')
         \<and> (\<exists>q1. reserve (new_job i ident now) q = (None, q1) \<and> usual_step q q1 \<and> usual_step\<^sup>*\<^sup>* q1 q'))"
proof (cases "reserve (new_job i ident now) q")
  case (Pair e q1)
  show ?thesis
  proof (cases e)
    case (Some x)
    then have "x = QueueFull" "q1 = q" using Pair by (auto simp: reserve_def split: if_splits)
    then show ?thesis using run Pair Some by (auto simp: transcribe_def)
  next
    case None
    obtain j where s1: "usual_step q q1" and j: "receiving q1 i j" and d: "disk q1 = disk q"
      using reserve_usual_step [OF r fresh] Pair None by blast
    have r1: "reach usual_init usual_step q1" using r s1 by (rule reach_step)
    obtain br q2 fp where b: "transcribe_body m po en i q1 = ((br, q2), fp)" by (metis prod.collapse)
    have "wf_fs (disk q1)" using wf d by simp
    from body_effect [OF r1 j _ _ this m b] c
    have eff: "usual_step\<^sup>*\<^sup>* q1 q2 \<and> (case br of Inl e \<Rightarrow> request_refused m po e
      | Inr x \<Rightarrow> x = i \<and> (\<exists>f u hw. parsed_form m po = Inr f \<and> extract_transcribe_form f = Inr (u, hw) \<and> accepted_upload q2 i m u hw))"
      by (simp add: calm_env_def)
    define q3 where "q3 = (if fp then during_close en q2 else q2)"
    have s3: "usual_step\<^sup>*\<^sup>* q2 q3" using c by (simp add: q3_def calm_env_def calm_def)
    have q2s: "usual_step\<^sup>*\<^sup>* q q2"
      using s1 eff by (blast intro: converse_rtranclp_into_rtranclp)
    then have q3s: "usual_step\<^sup>*\<^sup>* q q3" using s3 by (rule rtranclp_trans)
    have r3: "reach usual_init usual_step q3" using slots.steps_ok [OF q3s r] .
    have k3: "store q3 i \<noteq> None"
      using slots.steps_known [of q1 q3 i] eff s3 r1 receiving_known [OF j]
      by (metis option.distinct(1) rtranclp_trans)
    have out: "(res, q') = (case br of Inr x \<Rightarrow> (Inr x, q3) | Inl e \<Rightarrow> cancel_and_raise i e q3)"
      unfolding q3_def using run Pair None b close
      by (simp add: transcribe_def transcribe_finally_def Let_def)
    show ?thesis
    proof (cases br)
      case (Inl x)
      then have "res = Inl x" "q' = snd (cancel i q3)"
        using out cancel_and_raise_eq [OF r3 k3] by simp_all
      then show ?thesis
        using rtranclp.rtrancl_into_rtrancl [OF q3s cancel_usual_step [OF r3, of i]]
          cancel_ends(1) [OF r3 k3] eff Inl by simp
    next
      case (Inr x)
      have "usual_step\<^sup>*\<^sup>* q1 q3" using eff s3 by (meson rtranclp_trans)
      then show ?thesis using Inr out eff q2s s3 q3s s1 Pair None by auto
    qed
  qed
qed

subsection \<open>Properties\<close>

text \<open>C2. No leaked places: whatever the request sends and however the handler fails (a refused form,
  a wrong name or format, a full disk, an error of the parser, a cancellation while it reads or
  copies), and whatever steps the other tasks run meanwhile that leave this job to its handler, when
  the handler raises, the job it reserved has ended and holds no place; or nothing was reserved and
  nothing changed. This needs that closing the form does not raise and that the disk refuses no
  removal.\<close>

theorem transcribe_failure_releases:
  assumes "reach usual_init usual_step q" and "store q i = None" and "calm_env i en"
    and "wf_fs (disk q)" and "0 \<le> m" and "post_close po = None"
    and "transcribe m ident i now po en q = (Inl e, q')"
  shows "reach usual_init usual_step q'
    \<and> (q' = q \<and> e = HTTPException 503 (lit ''Queue is full'')
       \<or> (\<exists>j. store q' i = Some j \<and> terminal_status (status j) \<and> audio_path j = None))"
proof -
  note eff = transcribe_effect [OF assms]
  have r: "reach usual_init usual_step q'" using slots.steps_ok eff assms(1) by blast
  then have t: "tidy q'" using reach_service by (auto simp: service_ok_def)
  show ?thesis using eff r tidyD [OF t] by (auto simp: ended_def tidy_job_def)
qed

text \<open>C3. What is accepted: when the handler returns its response, the upload it extracted was
  complete: at its submission the job was \<open>QUEUED\<close> in the pending list, with the media type
  \<open>audio/wav\<close>, the hotwords of the form, and as audio a private file that holds exactly the
  uploaded bytes, a HeliBoard WAV no longer than the limit, whose duration is the job's. (The other
  tasks leave the job to its handler and the disk refuses no removal, as before.)\<close>

theorem transcribe_success_accepts:
  assumes "reach usual_init usual_step q" and "store q i = None" and "calm_env i en"
    and "wf_fs (disk q)" and "0 \<le> m" and "post_close po = None"
    and "transcribe m ident i now po en q = (Inr x, q')"
  shows "x = i \<and> (\<exists>q2 f u hw j p samples. usual_step\<^sup>*\<^sup>* q q2 \<and> usual_step\<^sup>*\<^sup>* q2 q'
    \<and> parsed_form m po = Inr f \<and> extract_transcribe_form f = Inr (u, hw)
    \<and> get_job q2 i = Some j \<and> status j = QUEUED \<and> i \<in> set (pending q2)
    \<and> audio_mime j = lit ''audio/wav'' \<and> hotwords j = hw \<and> audio_path j = Some p
    \<and> node_at (disk q2) p = Some (RegFile 384 (heliboard_wav samples))
    \<and> heliboard_wav samples = upload_data (up_reads u) \<and> 44 + int (length samples) \<le> m
    \<and> audio_duration_seconds j = of_nat (length samples) / 32000)"
proof -
  obtain f u hw q2 where x: "x = i" "parsed_form m po = Inr f" "extract_transcribe_form f = Inr (u, hw)"
    and a: "accepted_upload q2 i m u hw" and s: "usual_step\<^sup>*\<^sup>* q q2" "usual_step\<^sup>*\<^sup>* q2 q'"
    using transcribe_effect [OF assms] by auto
  from a obtain j p samples where "get_job q2 i = Some j" "status j = QUEUED" "i \<in> set (pending q2)"
      "audio_mime j = lit ''audio/wav''" "hotwords j = hw" "audio_path j = Some p"
      "node_at (disk q2) p = Some (RegFile 384 (heliboard_wav samples))"
      "heliboard_wav samples = upload_data (up_reads u)" "44 + int (length samples) \<le> m"
      "audio_duration_seconds j = of_nat (length samples) / 32000"
    unfolding accepted_upload_def by blast
  with x s show ?thesis by blast
qed

subsection \<open>Example requests\<close>

definition quiet :: env where
  "quiet = \<lparr>during_parse = id, during_copy = id, during_close = id\<rparr>"

lemma quiet_calm: "calm_env i quiet"
  by (simp add: calm_env_def calm_def quiet_def)

definition id_n :: str where "id_n = lit ''n''"

lemma id_n_fresh: "store demo_one id_n = None" "store demo_both id_n = None" "store demo_start id_n = None"
  by (simp_all add: id_n_def demo_one_eq demo_both_eq demo_start_def id_a_def id_b_def)

definition sample_wav :: bytes where
  "sample_wav = heliboard_wav [1, 2, 3, 4]"

definition sample_upload :: upload where
  "sample_upload = \<lparr>up_filename = Some (lit ''a.wav''), up_content_type = Some (lit ''audio/wav''),
     up_reads = [Inr sample_wav]\<rparr>"

definition sample_post :: "form \<Rightarrow> exn option \<Rightarrow> post" where
  "sample_post f c = \<lparr>post_content_type = Some (lit ''multipart/form-data''), post_body = [],
     post_parser = (\<lambda>_. Inr f), post_close = c, post_dir = [lit ''tmp'', lit ''vvv-upload-n'']\<rparr>"

lemma sample_parse:
  "fst (parse_transcribe_form (post_content_type (sample_post f c)) m (post_body (sample_post f c))
     (post_parser (sample_post f c))) = Inr f"
proof -
  have "media_type_of (lit ''multipart/form-data'') = lit ''multipart/form-data''"
    by (simp add: media_type_of_def split_first_def py_strip_def py_lower_def lower_char_def
        py_space_def lit_def)
  then show ?thesis by (simp add: sample_post_def parse_transcribe_form_def)
qed

lemma demo_wf: "wf_fs (disk demo_one)" "wf_fs (disk demo_start)"
  by (auto simp: wf_fs_def demo_one_eq demo_start_def demo_fs_def node_at_def is_dir_def
      demo_dir_def demo_file_def split: if_splits)

lemma demo_one_usual: "reach usual_init usual_step demo_one" "reach usual_init usual_step demo_start"
proof -
  show 0: "reach usual_init usual_step demo_start"
    by (rule reach_init) (simp add: usual_init_def demo_start_init demo_unlocked)
  show "reach usual_init usual_step demo_one"
    by (rule reach_step [OF 0]) (simp add: usual_step_def demo_step_one demo_unlocked)
qed

lemma demo_one_reserve:
  "reserve (new_job id_n ident_y 5) demo_one =
     (None, demo_one\<lparr>store := (store demo_one)(id_n \<mapsto> (new_job id_n ident_y 5)\<lparr>status := UPLOADING\<rparr>),
        jobs := jobs demo_one @ [id_n]\<rparr>)"
proof -
  have "active_count demo_one = 1" "max_size demo_one = 2" "id_n \<notin> set (jobs demo_one)"
    by (simp_all add: active_count_def job_values_def demo_one_eq demo_start_def new_job_def id_n_def id_a_def)
  then show ?thesis by (simp add: reserve_def new_job_def)
qed

text \<open>A request without an audio field; one with a good upload.\<close>

lemma sample_refused:
  "\<exists>q'. transcribe 1000 ident_y id_n 5 (sample_post [] None) quiet demo_one
     = (Inl (HTTPException 400 (lit ''Audio file is required'')), q')"
proof -
  obtain q1 where r: "reserve (new_job id_n ident_y 5) demo_one = (None, q1)"
    using demo_one_reserve by blast
  have s: "usual_step demo_one q1" using reserve_usual_step [OF demo_one_usual(1) _ r] id_n_fresh by simp
  have k: "store q1 id_n \<noteq> None" using r by (auto simp: reserve_def new_job_def split: if_splits)
  have b: "transcribe_body 1000 (sample_post [] None) quiet id_n q1
      = ((Inl (HTTPException 400 (lit ''Audio file is required'')), q1), True)"
    by (simp add: transcribe_body_def sample_parse quiet_def extract_transcribe_form_def)
  show ?thesis
    using cancel_and_raise_eq [OF reach_step [OF demo_one_usual(1) s] k]
    by (simp add: transcribe_def r b) (simp add: transcribe_finally_def quiet_def sample_post_def)
qed

theorem transcribe_failure_releases_witness:
  "\<exists>q' j. transcribe 1000 ident_y id_n 5 (sample_post [] None) quiet demo_one
     = (Inl (HTTPException 400 (lit ''Audio file is required'')), q')
     \<and> store q' id_n = Some j \<and> terminal_status (status j)"
proof -
  obtain q' where q': "transcribe 1000 ident_y id_n 5 (sample_post [] None) quiet demo_one
     = (Inl (HTTPException 400 (lit ''Audio file is required'')), q')" using sample_refused by blast
  have "post_close (sample_post [] None) = None" by (simp add: sample_post_def)
  from transcribe_failure_releases [OF demo_one_usual(1) id_n_fresh(1) quiet_calm demo_wf(1) _ this q'] q'
  show ?thesis by auto
qed

definition bad_form :: form where
  "bad_form = [(lit ''audio'', FileField sample_upload), (lit ''x'', FieldText [])]"

text \<open>A place can leak: the \<open>finally\<close> block closes the form before it cancels the job. When the
  form is refused and closing it raises (a cancellation of the request at that \<open>await\<close>), the
  block ends there, and the reserved job stays in \<open>UPLOADING\<close> and keeps its place; nothing in
  the server refers to it any more.\<close>

theorem transcribe_close_error_leaks:
  "\<exists>q' j. transcribe 1000 ident_y id_n 5 (sample_post bad_form (Some CancelledError)) quiet demo_one
       = (Inl CancelledError, q')
     \<and> get_job q' id_n = Some j \<and> status j = UPLOADING \<and> active_count q' = active_count demo_one + 1"
proof -
  define q1 where q1: "q1 = demo_one\<lparr>store := (store demo_one)(id_n \<mapsto> (new_job id_n ident_y 5)\<lparr>status := UPLOADING\<rparr>),
      jobs := jobs demo_one @ [id_n]\<rparr>"
  have r: "reserve (new_job id_n ident_y 5) demo_one = (None, q1)"
    unfolding q1 by (rule demo_one_reserve)
  have b: "transcribe_body 1000 (sample_post bad_form (Some CancelledError)) quiet id_n q1
      = ((Inl (HTTPException 400 (lit ''Unexpected form field: '' @ lit ''x'')), q1), True)"
    by (simp add: transcribe_body_def sample_parse quiet_def extract_transcribe_form_def bad_form_def)
  have run: "transcribe 1000 ident_y id_n 5 (sample_post bad_form (Some CancelledError)) quiet demo_one
       = (Inl CancelledError, q1)"
    by (simp add: transcribe_def r b) (simp add: transcribe_finally_def quiet_def sample_post_def)
  have "active_count q1 = active_count demo_one + 1"
    unfolding q1 by (rule active_count_fresh) (simp_all add: demo_one_eq id_n_def id_a_def)
  moreover have "get_job q1 id_n = Some ((new_job id_n ident_y 5)\<lparr>status := UPLOADING\<rparr>)"
    by (simp add: q1 get_job_def)
  ultimately show ?thesis using run by auto
qed

definition good_form :: form where
  "good_form = [(lit ''hotwords'', FieldText (lit ''Bo'')), (lit ''audio'', FileField sample_upload)]"

lemma good_form_parts:
  "extract_transcribe_form good_form = Inr (sample_upload, Some (lit ''Bo''))"
  "validate_heliboard_wav_metadata (up_filename sample_upload) (up_content_type sample_upload)
     = Inr (lit ''audio/wav'')"
proof -
  have "\<not> control_token_search (lit ''Bo'')" by (simp add: lit_def)
  then show "extract_transcribe_form good_form = Inr (sample_upload, Some (lit ''Bo''))"
    by (simp add: good_form_def extract_transcribe_form_def validate_hotwords_value_def)
  show "validate_heliboard_wav_metadata (up_filename sample_upload) (up_content_type sample_upload)
     = Inr (lit ''audio/wav'')"
    by (simp add: sample_upload_def validate_heliboard_wav_metadata_def heliboard_wav_suffix_def
        heliboard_wav_mime_type_def posix_suffix_def posix_name_def posix_parts_def name_suffix_def
        after_last_dot_def lit_def Let_def)
qed

lemma sample_spool:
  "\<exists>d. spool_upload [lit ''tmp'', lit ''vvv-upload-n''] sample_upload 1000 demo_fs
     = (Inr ([lit ''tmp'', lit ''vvv-upload-n'', lit ''audio.audio''], 48), d)"
proof -
  have l: "length sample_wav = 48" "sample_wav \<noteq> []"
    by (simp_all add: sample_wav_def heliboard_wav_def heliboard_header_def)
  show ?thesis
    by (simp add: spool_upload_def sample_upload_def l demo_fs_def demo_dir_def demo_file_def mkdir_def
        open_excl_def append_file_def node_at_def is_dir_def path_parent_def Let_def)
qed

lemma sample_queued:
  "\<exists>q' j. transcribe 1000 ident id_n 5 (sample_post good_form None) quiet demo_start = (Inr id_n, q')
     \<and> worker_task q' = Some WaitPending \<and> has_process_fn q' \<and> pending q' = [id_n] \<and> get_job q' id_n = Some j \<and> status j = QUEUED"
proof -
  let ?p = "[lit ''tmp'', lit ''vvv-upload-n'', lit ''audio.audio'']"
  obtain q1 where r: "reserve (new_job id_n ident 5) demo_start = (None, q1)"
      and w1: "worker_task q1 = Some WaitPending" "has_process_fn q1" "pending q1 = []"
    by (simp add: reserve_def active_count_def job_values_def demo_start_def)
  have s1: "usual_step demo_start q1" and ex: "\<exists>j. receiving q1 id_n j" and d1: "disk q1 = demo_fs"
    using reserve_usual_step [OF demo_one_usual(2) _ r] id_n_fresh by (simp_all add: demo_start_def)
  obtain j where j: "receiving q1 id_n j" using ex by blast
  have r1: "reach usual_init usual_step q1" using demo_one_usual(2) s1 by (rule reach_step)
  define q2 where "q2 = describe_upload id_n (lit ''audio/wav'') (Some (lit ''Bo'')) q1"
  note ds = describe_usual_step [OF r1 j, of "lit ''audio/wav''" "Some (lit ''Bo'')", folded q2_def]
  have r2: "reach usual_init usual_step q2" using r1 ds(1) by (rule reach_step)
  have d2: "disk q2 = demo_fs" by (simp add: q2_def describe_upload_def d1)
  have wf: "wf_fs (disk q2)" using demo_wf(2) d2 by (simp add: demo_start_def)
  obtain d where sp: "spool_upload [lit ''tmp'', lit ''vvv-upload-n''] sample_upload 1000 (disk q2) = (Inr (?p, 48), d)"
    using sample_spool d2 by auto
  note seg = spool_segment [OF r2 wf _ sp]
  have up: "upload_data (up_reads sample_upload) = sample_wav" "sample_wav \<noteq> []"
    by (simp_all add: sample_upload_def sample_wav_def heliboard_wav_def heliboard_header_def)
  have f: "node_at (disk (q2\<lparr>disk := d\<rparr>)) ?p = Some (RegFile 384 sample_wav)" "path_free (q2\<lparr>disk := d\<rparr>) ?p"
    using seg(2) [of ?p 48] up(1) by simp_all
  have r3: "reach usual_init usual_step (q2\<lparr>disk := d\<rparr>)" using seg(1) r2 by (simp add: reach_step)
  have j3: "receiving (q2\<lparr>disk := d\<rparr>) id_n (j\<lparr>audio_mime := lit ''audio/wav'', hotwords := Some (lit ''Bo'')\<rparr>)"
    using ds(2) by (auto simp: receiving_def get_job_def split: if_splits)
  obtain res q4 where fin: "finish_upload id_n ?p (q2\<lparr>disk := d\<rparr>) = (res, q4)" by fastforce
  have rd: "read_heliboard_wav_info (disk (q2\<lparr>disk := d\<rparr>)) ?p
      = Inr \<lparr>duration_seconds = 4 / 32000, data_size = 4\<rparr>"
    unfolding wav_accepts_iff using f(1) by (intro exI [of _ 384] exI [of _ "[1, 2, 3, 4]"]) (simp add: sample_wav_def)
  with fin j3 have "\<not> isl res"
    by (auto simp: finish_upload_def submit_def receiving_def Let_def)
  then have fin': "finish_upload id_n ?p (q2\<lparr>disk := d\<rparr>) = (Inr id_n, q4)"
    using fin finish_upload_effect [OF r3 j3 f(1) _ f(2) fin] by (cases res) auto
  have "get_job (q\<lparr>pending := ps\<rparr>) k = get_job q k" for q ps k by (simp add: get_job_def)
  then have q4: "worker_task q4 = Some WaitPending" "has_process_fn q4" "pending q4 = [id_n]" "\<exists>k. get_job q4 id_n = Some k \<and> status k = QUEUED"
    using fin' rd j3 w1 by (auto simp: finish_upload_def submit_def receiving_def q2_def describe_upload_def Let_def)
  have "transcribe_authenticated 1000 [lit ''tmp'', lit ''vvv-upload-n''] id id_n sample_upload (Some (lit ''Bo'')) q1
      = (Inr id_n, q4)"
    using sp fin' good_form_parts(2) by (simp add: transcribe_authenticated_def flip: q2_def)
  then have "transcribe_body 1000 (sample_post good_form None) quiet id_n q1 = ((Inr id_n, q4), True)"
    by (simp add: transcribe_body_def sample_parse good_form_parts(1) quiet_def) (simp add: sample_post_def)
  then have "transcribe 1000 ident id_n 5 (sample_post good_form None) quiet demo_start = (Inr id_n, q4)"
    by (simp add: transcribe_def r) (simp add: transcribe_finally_def sample_post_def quiet_def)
  with q4 show ?thesis by blast
qed

lemma sample_accepted:
  "\<exists>q'. transcribe 1000 ident_y id_n 5 (sample_post good_form None) quiet demo_start = (Inr id_n, q')"
  using sample_queued by blast

theorem transcribe_success_accepts_witness:
  "\<exists>q2 p. usual_step\<^sup>*\<^sup>* demo_start q2
     \<and> node_at (disk q2) p = Some (RegFile 384 (heliboard_wav [1, 2, 3, 4]))"
proof -
  obtain q' where q': "transcribe 1000 ident_y id_n 5 (sample_post good_form None) quiet demo_start = (Inr id_n, q')"
    using sample_accepted by blast
  have "post_close (sample_post good_form None) = None" by (simp add: sample_post_def)
  note acc = transcribe_success_accepts [OF demo_one_usual(2) id_n_fresh(3) quiet_calm demo_wf(2) _ this q']
  have "parsed_form 1000 (sample_post good_form None) = Inr good_form"
    by (simp add: parsed_form_def sample_parse)
  with acc obtain q2 u hw p samples where "usual_step\<^sup>*\<^sup>* demo_start q2"
      and e: "extract_transcribe_form good_form = Inr (u, hw)"
      and n: "node_at (disk q2) p = Some (RegFile 384 (heliboard_wav samples))"
      "heliboard_wav samples = upload_data (up_reads u)"
    by (auto simp del: One_nat_def)
  moreover have "upload_data (up_reads sample_upload) = heliboard_wav [1, 2, 3, 4]"
    by (simp add: sample_upload_def sample_wav_def heliboard_wav_def heliboard_header_def)
  moreover have "u = sample_upload" using e good_form_parts(1) by simp
  ultimately show ?thesis by metis
qed

end
