(* ===== verification/Utf8_Text.thy ===== *)
theory Utf8_Text
  imports Py_Text
begin

section \<open>Text on the wire: UTF-8 (\<open>str.encode\<close>, \<open>bytes.decode\<close>)\<close>

text \<open>
  \<open>encode\<close> refuses surrogates; \<open>decode\<close> with \<open>errors="replace"\<close> gives one U+FFFD for each
  maximal ill-formed part, and never raises. Decoding an encoded text gives the text.
\<close>

definition scalar_char :: "nat \<Rightarrow> bool" where
  "scalar_char c \<longleftrightarrow> c < 55296 \<or> 57344 \<le> c \<and> c < 1114112"

subsection \<open>Encoding\<close>

definition utf8_char :: "nat \<Rightarrow> nat list" where
  "utf8_char c =
     (if c < 128 then [c]
      else if c < 2048 then [192 + c div 64, 128 + c mod 64]
      else if c < 65536 then [224 + c div 4096, 128 + c div 64 mod 64, 128 + c mod 64]
      else [240 + c div 262144, 128 + c div 4096 mod 64, 128 + c div 64 mod 64, 128 + c mod 64])"

definition utf8_bytes :: "str \<Rightarrow> bytes" where
  "utf8_bytes s = map of_nat (concat (map utf8_char s))"

definition py_encode :: "str \<Rightarrow> bytes res" where
  "py_encode s = (if list_all scalar_char s then Inr (utf8_bytes s) else Inl (ValueError (lit ''surrogates not allowed'')))"

subsection \<open>Decoding\<close>

definition cont_byte :: "nat \<Rightarrow> bool" where
  "cont_byte c \<longleftrightarrow> 128 \<le> c \<and> c \<le> 191"

text \<open>The second bytes of the three- and four-byte forms: no overlong form, no surrogate, nothing
  above U+10FFFF.\<close>

definition second3 :: "nat \<Rightarrow> nat \<Rightarrow> bool" where
  "second3 b c \<longleftrightarrow> cont_byte c \<and> (b = 224 \<longrightarrow> 160 \<le> c) \<and> (b = 237 \<longrightarrow> c \<le> 159)"

definition second4 :: "nat \<Rightarrow> nat \<Rightarrow> bool" where
  "second4 b c \<longleftrightarrow> cont_byte c \<and> (b = 240 \<longrightarrow> 144 \<le> c) \<and> (b = 244 \<longrightarrow> c \<le> 143)"

fun utf8_units :: "nat list \<Rightarrow> str" where
  "utf8_units [] = []"
| "utf8_units (b # r) =
     (if b < 128 then b # utf8_units r
      else if 194 \<le> b \<and> b \<le> 223 then
        (case r of
           c # r1 \<Rightarrow> if cont_byte c then ((b - 192) * 64 + (c - 128)) # utf8_units r1 else 65533 # utf8_units r
         | [] \<Rightarrow> [65533])
      else if 224 \<le> b \<and> b \<le> 239 then
        (case r of
           c # r1 \<Rightarrow>
             if \<not> second3 b c then 65533 # utf8_units r
             else (case r1 of
                     d # r2 \<Rightarrow>
                       if cont_byte d then ((b - 224) * 4096 + (c - 128) * 64 + (d - 128)) # utf8_units r2
                       else 65533 # utf8_units r1
                   | [] \<Rightarrow> [65533])
         | [] \<Rightarrow> [65533])
      else if 240 \<le> b \<and> b \<le> 244 then
        (case r of
           c # r1 \<Rightarrow>
             if \<not> second4 b c then 65533 # utf8_units r
             else (case r1 of
                     d # r2 \<Rightarrow>
                       if \<not> cont_byte d then 65533 # utf8_units r1
                       else (case r2 of
                               e # r3 \<Rightarrow>
                                 if cont_byte e
                                 then ((b - 240) * 262144 + (c - 128) * 4096 + (d - 128) * 64 + (e - 128)) # utf8_units r3
                                 else 65533 # utf8_units r2
                             | [] \<Rightarrow> [65533])
                   | [] \<Rightarrow> [65533])
         | [] \<Rightarrow> [65533])
      else 65533 # utf8_units r)"

definition decode_replace :: "bytes \<Rightarrow> str" where
  "decode_replace b = utf8_units (map unat b)"

subsection \<open>The round trip\<close>

lemma split64: "(c::nat) = 64 * (c div 64) + c mod 64"
  by simp

lemma ascii_utf8: "list_all (\<lambda>c. c < 128) s \<Longrightarrow> utf8_bytes s = ascii_bytes s"
  by (induction s) (simp_all add: utf8_bytes_def utf8_char_def ascii_bytes_def)

lemma utf8_char_units:
  assumes "scalar_char c"
  shows "utf8_units (utf8_char c @ r) = c # utf8_units r"
proof -
  have m: "x mod 64 \<le> 63" for x :: nat using mod_less_divisor [of 64 x] by linarith
  have d: "c div 4096 = c div 64 div 64" "c div 262144 = c div 64 div 64 div 64"
    by (simp_all flip: div_mult2_eq)
  consider "c < 128" | "128 \<le> c" "c < 2048" | "2048 \<le> c" "c < 65536" | "65536 \<le> c" by linarith
  then show ?thesis
  proof cases
    case 1
    then show ?thesis by (simp add: utf8_char_def)
  next
    case 2
    have b: "2 \<le> c div 64" "c div 64 \<le> 31" using 2 split64 [of c] m [of c] by linarith+
    have "(192 + c div 64 - 192) * 64 + (128 + c mod 64 - 128) = c" using split64 [of c] by simp
    then show ?thesis using 2 b m [of c] by (simp add: utf8_char_def cont_byte_def)
  next
    case 3
    define u where "u = c div 64"
    define t where "t = u div 64"
    have e: "c = 4096 * t + 64 * (u mod 64) + c mod 64"
      unfolding t_def u_def using split64 [of c] split64 [of "c div 64"] by linarith
    have t: "t < 16" using 3 by (simp add: t_def u_def div_less_iff_less_mult)
    have s2: "t = 0 \<Longrightarrow> 32 \<le> u mod 64" using e 3 m [of c] by simp
    have s3: "t = 13 \<Longrightarrow> u mod 64 \<le> 31" using e 3 m [of c] assms by (auto simp: scalar_char_def)
    have "utf8_char c = [224 + t, 128 + u mod 64, 128 + c mod 64]"
      using 3 by (simp add: utf8_char_def d u_def t_def)
    then show ?thesis
      using t s2 s3 m [of u] m [of c] e by (simp add: second3_def cont_byte_def)
  next
    case 4
    define u where "u = c div 64"
    define t where "t = u div 64"
    define q where "q = t div 64"
    have e: "c = 262144 * q + 4096 * (t mod 64) + 64 * (u mod 64) + c mod 64"
      unfolding q_def t_def u_def
      using split64 [of c] split64 [of "c div 64"] split64 [of "c div 64 div 64"] by linarith
    have c: "c < 1114112" using 4 assms by (simp add: scalar_char_def)
    then have q: "q \<le> 4" using e by linarith
    have s2: "q = 0 \<Longrightarrow> 16 \<le> t mod 64" using e 4 m [of c] m [of u] by linarith
    have s3: "q = 4 \<Longrightarrow> t mod 64 \<le> 15" using e c by linarith
    have "utf8_char c = [240 + q, 128 + t mod 64, 128 + u mod 64, 128 + c mod 64]"
      using 4 by (simp add: utf8_char_def d u_def t_def q_def)
    then show ?thesis
      using q s2 s3 m [of t] m [of u] m [of c] e by (simp add: second4_def cont_byte_def)
  qed
qed

lemma utf8_char_byte: "scalar_char c \<Longrightarrow> x \<in> set (utf8_char c) \<Longrightarrow> x < 256"
proof -
  have m: "y mod 64 < 64" for y :: nat by simp
  assume "scalar_char c"
  then have "c < 1114112" by (auto simp: scalar_char_def)
  then have "c < 2048 \<Longrightarrow> c div 64 < 32" "c < 65536 \<Longrightarrow> c div 4096 < 16" "c div 262144 < 5"
    by (simp_all add: div_less_iff_less_mult)
  moreover assume "x \<in> set (utf8_char c)"
  ultimately show ?thesis using m [of c] m [of "c div 64"] m [of "c div 4096"]
    by (auto simp: utf8_char_def split: if_splits)
qed

lemma utf8_round_trip: "list_all scalar_char s \<Longrightarrow> decode_replace (utf8_bytes s) = s"
proof -
  assume s: "list_all scalar_char s"
  have "map (unat \<circ> (of_nat :: nat \<Rightarrow> byte)) (concat (map utf8_char s)) = concat (map utf8_char s)"
    using s utf8_char_byte by (intro map_idI) (auto simp: list_all_iff unat_of_nat)
  moreover have "utf8_units (concat (map utf8_char s)) = s"
    using s by (induction s) (simp_all add: utf8_char_units)
  ultimately show ?thesis by (simp add: decode_replace_def utf8_bytes_def)
qed

lemma utf8_ascii: "list_all (\<lambda>c. c < 128) s \<Longrightarrow> utf8_bytes s = ascii_bytes s"
  by (induction s) (simp_all add: utf8_bytes_def ascii_bytes_def utf8_char_def)

end
