(* ===== verification/Json_Text.thy ===== *)
theory Json_Text
  imports Py_Float Utf8_Text "HOL-Library.AList"
begin

section \<open>JSON as the server reads and writes it (\<open>json.loads\<close>, \<open>json.dumps\<close>)\<close>

text \<open>
  The decoder and the encoder of Python's standard library, as far as the program uses them:
  \<open>loads\<close> on text, \<open>dumps\<close> with its default options. An integer literal is an \<open>int\<close>; a float is
  kept as its literal text, since no code here computes with it. A dictionary is the
  association list of its keys in insertion order. The parser counts its recursive calls down
  from twice the length of the text and two; \<open>pvalue_fuel\<close> shows that this is enough. Python's
  limits on nesting and on the digits of an integer are not modelled.
\<close>

datatype json =
    JNull
  | JBool bool
  | JInt int
  | JFloat str
  | JStr str
  | JList "json list"
  | JDict "(str \<times> json) list"

subsection \<open>Decoding\<close>

definition json_space :: "nat \<Rightarrow> bool" where
  "json_space c \<longleftrightarrow> c = 32 \<or> c = 9 \<or> c = 10 \<or> c = 13"

definition skip_ws :: "str \<Rightarrow> str" where
  "skip_ws s = dropWhile json_space s"

definition hex_value :: "nat \<Rightarrow> nat option" where
  "hex_value c = (if 48 \<le> c \<and> c \<le> 57 then Some (c - 48)
                  else if 97 \<le> c \<and> c \<le> 102 then Some (c - 87)
                  else if 65 \<le> c \<and> c \<le> 70 then Some (c - 55) else None)"

text \<open>The four hexadecimal digits of \<open>\uXXXX\<close>.\<close>

fun hex4 :: "str \<Rightarrow> (nat \<times> str) option" where
  "hex4 (a # b # c # d # r) =
     (case (hex_value a, hex_value b, hex_value c, hex_value d) of
        (Some x, Some y, Some z, Some w) \<Rightarrow> Some (4096 * x + 256 * y + 16 * z + w, r)
      | _ \<Rightarrow> None)"
| "hex4 _ = None"

lemma hex4_length: "hex4 s = Some (n, r) \<Longrightarrow> length s = length r + 4"
  by (cases s rule: hex4.cases) (auto split: option.splits)

text \<open>A pair of surrogate escapes is one character; a lone one is kept.\<close>

definition unicode_escape :: "str \<Rightarrow> (nat \<times> str) option" where
  "unicode_escape s =
     (case hex4 s of
        None \<Rightarrow> None
      | Some (u, r) \<Rightarrow>
          if 55296 \<le> u \<and> u \<le> 56319 \<and> take 2 r = [92, 117]
          then (case hex4 (drop 2 r) of
                  None \<Rightarrow> None
                | Some (v, r2) \<Rightarrow>
                    if 56320 \<le> v \<and> v \<le> 57343
                    then Some (65536 + (u - 55296) * 1024 + (v - 56320), r2) else Some (u, r))
          else Some (u, r))"

definition simple_escape :: "nat \<Rightarrow> nat option" where
  "simple_escape c =
     (if c = 34 \<or> c = 92 \<or> c = 47 then Some c
      else if c = 98 then Some 8 else if c = 102 then Some 12 else if c = 110 then Some 10
      else if c = 114 then Some 13 else if c = 116 then Some 9 else None)"

lemma unicode_escape_length: "unicode_escape s = Some (u, r) \<Longrightarrow> length r < length s"
  by (auto simp: unicode_escape_def dest!: hex4_length split: option.splits if_splits)

text \<open>The rest of a string literal after its opening quote.\<close>

function scan_string :: "str \<Rightarrow> (str \<times> str) option" where
  "scan_string s =
     (case s of
        [] \<Rightarrow> None
      | c # cs \<Rightarrow>
          if c = 34 then Some ([], cs)
          else if c = 92 then
            (case cs of
               [] \<Rightarrow> None
             | e # r \<Rightarrow>
                 if e = 117 then
                   (case unicode_escape r of
                      None \<Rightarrow> None
                    | Some (u, r2) \<Rightarrow> map_option (apfst ((#) u)) (scan_string r2))
                 else
                   (case simple_escape e of
                      None \<Rightarrow> None
                    | Some u \<Rightarrow> map_option (apfst ((#) u)) (scan_string r)))
          else if c < 32 then None
          else map_option (apfst ((#) c)) (scan_string cs))"
  by pat_completeness auto

termination
  by (relation "measure length") (auto dest: unicode_escape_length)

declare scan_string.simps [simp del]

definition digits_value :: "str \<Rightarrow> int" where
  "digits_value ds = foldl (\<lambda>n d. 10 * n + (int d - 48)) 0 ds"

text \<open>The number literals: integer part, optional fraction, optional exponent, as matched by the
  decoder's regular expression from the start of the text.\<close>

definition scan_int :: "str \<Rightarrow> (str \<times> str) option" where
  "scan_int s =
     (case s of
        [] \<Rightarrow> None
      | c # cs \<Rightarrow> if c = 48 then Some ([48], cs)
                  else if is_digit c then Some (takeWhile is_digit s, dropWhile is_digit s) else None)"

definition scan_frac :: "str \<Rightarrow> str \<times> str" where
  "scan_frac s =
     (case s of
        c # d # r \<Rightarrow> if c = 46 \<and> is_digit d
                     then (46 # takeWhile is_digit (d # r), dropWhile is_digit (d # r)) else ([], s)
      | _ \<Rightarrow> ([], s))"

definition scan_exp :: "str \<Rightarrow> str \<times> str" where
  "scan_exp s =
     (case s of
        [] \<Rightarrow> ([], s)
      | c # r \<Rightarrow>
          if c = 101 \<or> c = 69 then
            (let sg = takeWhile (\<lambda>x. x = 43 \<or> x = 45) (take 1 r); r1 = drop (length sg) r;
                 ds = takeWhile is_digit r1
             in if ds = [] then ([], s) else (c # sg @ ds, drop (length ds) r1))
          else ([], s))"

definition scan_number :: "str \<Rightarrow> (json \<times> str) option" where
  "scan_number s =
     (let neg = (s \<noteq> [] \<and> hd s = 45); s1 = (if neg then tl s else s)
      in case scan_int s1 of
           None \<Rightarrow> None
         | Some (ds, r1) \<Rightarrow>
             (let (fr, r2) = scan_frac r1; (ex, r3) = scan_exp r2; sg = (if neg then [45] else [])
              in Some (if fr = [] \<and> ex = []
                       then JInt (if neg then - digits_value ds else digits_value ds)
                       else JFloat (sg @ ds @ fr @ ex), r3)))"

text \<open>The constants, tried in the order of the decoder.\<close>

definition scan_word :: "string \<Rightarrow> json \<Rightarrow> str \<Rightarrow> (json \<times> str) option" where
  "scan_word w v s = (if py_startswith s (lit w) then Some (v, drop (length w) s) else None)"

fun first_some :: "'a option list \<Rightarrow> 'a option" where
  "first_some [] = None"
| "first_some (None # xs) = first_some xs"
| "first_some (Some x # xs) = Some x"

definition scan_atom :: "str \<Rightarrow> (json \<times> str) option" where
  "scan_atom s = first_some
     [scan_word ''null'' JNull s, scan_word ''true'' (JBool True) s, scan_word ''false'' (JBool False) s,
      scan_number s, scan_word ''NaN'' (JFloat (lit ''NaN'')) s,
      scan_word ''Infinity'' (JFloat (lit ''Infinity'')) s,
      scan_word ''-Infinity'' (JFloat (lit ''-Infinity'')) s]"

text \<open>A \<open>dict\<close> from its pairs: a repeated key keeps its place and gets the last value.\<close>

definition dict_of_pairs :: "(str \<times> json) list \<Rightarrow> (str \<times> json) list" where
  "dict_of_pairs ps = foldl (\<lambda>d (k, v). AList.update k v d) [] ps"

fun pvalue :: "nat \<Rightarrow> str \<Rightarrow> (json \<times> str) option"
  and pitems :: "nat \<Rightarrow> str \<Rightarrow> (json list \<times> str) option"
  and ppairs :: "nat \<Rightarrow> str \<Rightarrow> ((str \<times> json) list \<times> str) option" where
  "pvalue 0 s = None"
| "pvalue (Suc n) s =
     (case s of
        [] \<Rightarrow> None
      | c # cs \<Rightarrow>
          if c = 34 then map_option (apfst JStr) (scan_string cs)
          else if c = 123 then
            (let r = skip_ws cs
             in if r \<noteq> [] \<and> hd r = 125 then Some (JDict [], tl r)
                else map_option (apfst (JDict \<circ> dict_of_pairs)) (ppairs n r))
          else if c = 91 then
            (let r = skip_ws cs
             in if r \<noteq> [] \<and> hd r = 93 then Some (JList [], tl r)
                else map_option (apfst JList) (pitems n r))
          else scan_atom s)"
| "pitems 0 s = None"
| "pitems (Suc n) s =
     (case pvalue n s of
        None \<Rightarrow> None
      | Some (v, r) \<Rightarrow>
          (case skip_ws r of
             [] \<Rightarrow> None
           | c # r2 \<Rightarrow>
               if c = 93 then Some ([v], r2)
               else if c = 44 then map_option (apfst ((#) v)) (pitems n (skip_ws r2))
               else None))"
| "ppairs 0 s = None"
| "ppairs (Suc n) s =
     (if s = [] \<or> hd s \<noteq> 34 then None
      else case scan_string (tl s) of
        None \<Rightarrow> None
      | Some (k, r) \<Rightarrow>
          (let r1 = skip_ws r
           in if r1 = [] \<or> hd r1 \<noteq> 58 then None
              else case pvalue n (skip_ws (tl r1)) of
                None \<Rightarrow> None
              | Some (v, r2) \<Rightarrow>
                  (case skip_ws r2 of
                     [] \<Rightarrow> None
                   | c # r3 \<Rightarrow>
                       if c = 125 then Some ([(k, v)], r3)
                       else if c = 44 then map_option (apfst ((#) (k, v))) (ppairs n (skip_ws r3))
                       else None)))"

definition json_loads :: "str \<Rightarrow> json option" where
  "json_loads s =
     (if s \<noteq> [] \<and> hd s = 65279 then None
      else case pvalue (2 * length s + 2) (skip_ws s) of
        None \<Rightarrow> None
      | Some (v, r) \<Rightarrow> if skip_ws r = [] then Some v else None)"

subsection \<open>Encoding\<close>

definition hex_char :: "nat \<Rightarrow> nat" where
  "hex_char v = (if v < 10 then 48 + v else 87 + v)"

definition u_escape :: "nat \<Rightarrow> str" where
  "u_escape n = [92, 117, hex_char (n div 4096 mod 16), hex_char (n div 256 mod 16),
                 hex_char (n div 16 mod 16), hex_char (n mod 16)]"

definition escape_char :: "nat \<Rightarrow> str" where
  "escape_char c =
     (if c = 34 then [92, 34] else if c = 92 then [92, 92] else if c = 10 then [92, 110]
      else if c = 13 then [92, 114] else if c = 9 then [92, 116] else if c = 12 then [92, 102]
      else if c = 8 then [92, 98] else if 32 \<le> c \<and> c \<le> 126 then [c]
      else if c < 65536 then u_escape c
      else u_escape (55296 + (c - 65536) div 1024 mod 1024) @ u_escape (56320 + (c - 65536) mod 1024))"

definition dump_string :: "str \<Rightarrow> str" where
  "dump_string s = 34 # concat (map escape_char s) @ [34]"

fun join_with :: "str \<Rightarrow> str list \<Rightarrow> str" where
  "join_with sep [] = []"
| "join_with sep [x] = x"
| "join_with sep (x # y # xs) = x @ sep @ join_with sep (y # xs)"

fun json_dumps :: "json \<Rightarrow> str" where
  "json_dumps JNull = lit ''null''"
| "json_dumps (JBool b) = (if b then lit ''true'' else lit ''false'')"
| "json_dumps (JInt n) = show_int n"
| "json_dumps (JFloat t) = t"
| "json_dumps (JStr s) = dump_string s"
| "json_dumps (JList vs) = 91 # join_with [44, 32] (map json_dumps vs) @ [93]"
| "json_dumps (JDict ps) =
     123 # join_with [44, 32] (map (\<lambda>(k, v). dump_string k @ [58, 32] @ json_dumps v) ps) @ [125]"

subsection \<open>The fuel is enough\<close>

lemma skip_ws_length: "length (skip_ws s) \<le> length s"
  by (simp add: skip_ws_def length_dropWhile_le)

lemma scan_string_length: "scan_string s = Some (t, r) \<Longrightarrow> length r < length s"
proof (induction s arbitrary: t r rule: scan_string.induct)
  case (1 s)
  show ?case
  proof (cases s)
    case Nil
    then show ?thesis using 1(4) by (simp add: scan_string.simps)
  next
    case (Cons c cs)
    show ?thesis
    proof (cases "c = 92")
      case False
      then show ?thesis
        using 1(4) 1(3) [OF Cons] Cons by (subst (asm) scan_string.simps) (auto split: if_splits)
    next
      case True
      then obtain e r1 where cs: "cs = e # r1"
        using 1(4) Cons by (subst (asm) scan_string.simps) (auto split: list.splits)
      show ?thesis
      proof (cases "e = 117")
        case u: True
        then obtain x r2 where x: "unicode_escape r1 = Some (x, r2)"
          using 1(4) Cons True cs by (subst (asm) scan_string.simps) (auto split: option.splits)
        then obtain t' where "scan_string r2 = Some (t', r)"
          using 1(4) Cons True cs u by (subst (asm) scan_string.simps) auto
        then have "length r < length r2"
          using 1(1) [OF Cons _ True cs u x] True by simp
        then show ?thesis using unicode_escape_length [OF x] Cons cs by simp
      next
        case False
        then obtain x where x: "simple_escape e = Some x"
          using 1(4) Cons True cs by (subst (asm) scan_string.simps) (auto split: option.splits)
        then obtain t' where "scan_string r1 = Some (t', r)"
          using 1(4) Cons True cs False by (subst (asm) scan_string.simps) auto
        then have "length r < length r1"
          using 1(2) [OF Cons _ True cs False x] True by simp
        then show ?thesis using Cons cs by simp
      qed
    qed
  qed
qed

lemma scan_int_length: "scan_int s = Some (ds, r) \<Longrightarrow> length r < length s"
proof -
  assume s: "scan_int s = Some (ds, r)"
  then obtain c cs where c: "s = c # cs" by (cases s) (auto simp: scan_int_def)
  show ?thesis
    using s c length_dropWhile_le [of is_digit cs] by (auto simp: scan_int_def split: if_splits)
qed

lemma scan_frac_length: "scan_frac s = (f, r) \<Longrightarrow> length r \<le> length s"
  using length_dropWhile_le [of is_digit "tl s"]
  by (auto simp: scan_frac_def split: list.splits if_splits)

lemma scan_exp_length: "scan_exp s = (f, r) \<Longrightarrow> length r \<le> length s"
  by (auto simp: scan_exp_def Let_def split: list.splits if_splits)

lemma scan_number_length: "scan_number s = Some (v, r) \<Longrightarrow> length r < length s"
  by (auto simp: scan_number_def Let_def split: option.splits prod.splits if_splits
      dest!: scan_int_length scan_frac_length scan_exp_length)

lemma scan_word_length: "scan_word w v s = Some (x, r) \<Longrightarrow> w \<noteq> [] \<Longrightarrow> length r < length s"
  by (auto simp: scan_word_def py_startswith_iff split: if_splits)

lemma scan_atom_length: "scan_atom s = Some (v, r) \<Longrightarrow> length r < length s"
proof -
  have "first_some xs = Some x \<Longrightarrow> Some x \<in> set xs" for xs and x :: "json \<times> str"
    by (induction xs rule: first_some.induct) auto
  moreover assume "scan_atom s = Some (v, r)"
  ultimately have "Some (v, r) \<in> set
     [scan_word ''null'' JNull s, scan_word ''true'' (JBool True) s, scan_word ''false'' (JBool False) s,
      scan_number s, scan_word ''NaN'' (JFloat (lit ''NaN'')) s,
      scan_word ''Infinity'' (JFloat (lit ''Infinity'')) s,
      scan_word ''-Infinity'' (JFloat (lit ''-Infinity'')) s]"
    unfolding scan_atom_def by blast
  then show "length r < length s"
    using scan_word_length [OF sym] scan_number_length [OF sym] by (elim set_ConsD [elim_format] disjE) auto
qed

lemma tl_length: "r \<noteq> [] \<Longrightarrow> length (tl r) < length r"
  by (cases r) auto

lemma parser_consumes_all:
  "(\<forall>s v r. pvalue n s = Some (v, r) \<longrightarrow> length r < length s)
   \<and> (\<forall>s vs r. pitems n s = Some (vs, r) \<longrightarrow> length r < length s)
   \<and> (\<forall>s ps r. ppairs n s = Some (ps, r) \<longrightarrow> length r < length s)"
proof (induction n)
  case 0
  then show ?case by simp
next
  case (Suc n)
  note ws = skip_ws_length
  have v: "length r < length s" if h: "pvalue (Suc n) s = Some (v, r)" for s v r
  proof -
    obtain c cs where s: "s = c # cs" using h by (cases s) auto
    consider "c = 34" | "c = 123" | "c = 91" | "c \<noteq> 34" "c \<noteq> 123" "c \<noteq> 91" by blast
    then show ?thesis
    proof cases
      case 1
      then show ?thesis using h s scan_string_length by fastforce
    next
      case 2
      show ?thesis
      proof (cases "skip_ws cs \<noteq> [] \<and> hd (skip_ws cs) = 125")
        case True
        then show ?thesis using h s 2 ws [of cs] tl_length [of "skip_ws cs"] by (simp add: Let_def)
      next
        case False
        then obtain ps where "ppairs n (skip_ws cs) = Some (ps, r)" using h s 2 by (auto simp: Let_def)
        then show ?thesis using Suc ws [of cs] s by fastforce
      qed
    next
      case 3
      show ?thesis
      proof (cases "skip_ws cs \<noteq> [] \<and> hd (skip_ws cs) = 93")
        case True
        then show ?thesis using h s 3 ws [of cs] tl_length [of "skip_ws cs"] by (simp add: Let_def)
      next
        case False
        then obtain vs where "pitems n (skip_ws cs) = Some (vs, r)" using h s 3 by (auto simp: Let_def)
        then show ?thesis using Suc ws [of cs] s by fastforce
      qed
    next
      case 4
      then have "scan_atom s = Some (v, r)" using h s by simp
      then show ?thesis by (rule scan_atom_length)
    qed
  qed
  have i: "length r < length s" if h: "pitems (Suc n) s = Some (vs, r)" for s vs r
  proof -
    obtain v r1 where 1: "pvalue n s = Some (v, r1)" using h by (auto split: option.splits)
    then obtain c r2 where 2: "skip_ws r1 = c # r2" using h by (auto split: list.splits)
    have l: "length r1 < length s" "length r2 < length r1" using Suc 1 ws [of r1] 2 by auto
    show ?thesis
    proof (cases "c = 93")
      case True
      then show ?thesis using h 1 2 l by simp
    next
      case False
      then obtain vs' where "pitems n (skip_ws r2) = Some (vs', r)" using h 1 2 by (auto split: if_splits)
      then show ?thesis using Suc ws [of r2] l by fastforce
    qed
  qed
  have p: "length r < length s" if h: "ppairs (Suc n) s = Some (ps, r)" for s ps r
  proof -
    have s: "s \<noteq> []" "hd s = 34" using h by (auto split: if_splits)
    then obtain k r0 where 0: "scan_string (tl s) = Some (k, r0)" using h by (auto split: option.splits)
    have r0: "skip_ws r0 \<noteq> []" "hd (skip_ws r0) = 58" using h s 0 by (auto simp: Let_def split: if_splits)
    then obtain v r1 where 1: "pvalue n (skip_ws (tl (skip_ws r0))) = Some (v, r1)"
      using h s 0 by (auto simp: Let_def split: option.splits)
    then obtain c r2 where 2: "skip_ws r1 = c # r2"
      using h s 0 r0 by (auto simp: Let_def split: list.splits)
    have "length r1 < length (skip_ws (tl (skip_ws r0)))" using Suc 1 by blast
    then have l: "length r1 < length s" "length r2 < length r1"
      using scan_string_length [OF 0] tl_length [OF s(1)] tl_length [OF r0(1)] ws [of r0]
        ws [of "tl (skip_ws r0)"] ws [of r1] 2 by simp_all
    show ?thesis
    proof (cases "c = 125")
      case True
      then show ?thesis using h s 0 r0 1 2 l by (simp add: Let_def)
    next
      case False
      then obtain ps' where "ppairs n (skip_ws r2) = Some (ps', r)"
        using h s 0 r0 1 2 by (auto simp: Let_def split: if_splits)
      then show ?thesis using Suc ws [of r2] l by fastforce
    qed
  qed
  show ?case using v i p by blast
qed

lemmas parser_consumes = parser_consumes_all [THEN conjunct1, rule_format]
  parser_consumes_all [THEN conjunct2, THEN conjunct1, rule_format]
  parser_consumes_all [THEN conjunct2, THEN conjunct2, rule_format]

text \<open>Two amounts of fuel that are large enough for the text give the same result.\<close>

lemma parser_fuel_all:
  "(\<forall>s m. 2 * length s + 1 \<le> n \<longrightarrow> 2 * length s + 1 \<le> m \<longrightarrow> pvalue n s = pvalue m s)
   \<and> (\<forall>s m. 2 * length s + 2 \<le> n \<longrightarrow> 2 * length s + 2 \<le> m \<longrightarrow> pitems n s = pitems m s)
   \<and> (\<forall>s m. 2 * length s + 2 \<le> n \<longrightarrow> 2 * length s + 2 \<le> m \<longrightarrow> ppairs n s = ppairs m s)"
proof (induction n)
  case 0
  then show ?case by simp
next
  case (Suc n)
  note ws = skip_ws_length
  have v: "pvalue (Suc n) s = pvalue m s" if h: "2 * length s + 1 \<le> Suc n" "2 * length s + 1 \<le> m" for s m
  proof (cases s)
    case Nil
    then show ?thesis using h by (cases m) auto
  next
    case (Cons c cs)
    obtain k where k: "m = Suc k" using h by (cases m) auto
    have "2 * length (skip_ws cs) + 2 \<le> n" "2 * length (skip_ws cs) + 2 \<le> k"
      using h Cons k ws [of cs] by simp_all
    then have "pitems n (skip_ws cs) = pitems k (skip_ws cs)" "ppairs n (skip_ws cs) = ppairs k (skip_ws cs)"
      using Suc by blast+
    then show ?thesis unfolding Cons k by (simp only: pvalue.simps list.case Let_def)
  qed
  have i: "pitems (Suc n) s = pitems m s" if h: "2 * length s + 2 \<le> Suc n" "2 * length s + 2 \<le> m" for s m
  proof -
    obtain k where k: "m = Suc k" using h by (cases m) auto
    have "2 * length s + 1 \<le> n" "2 * length s + 1 \<le> k" using h k by linarith+
    then have eq: "pvalue n s = pvalue k s" using Suc by blast
    have "pitems n (skip_ws r2) = pitems k (skip_ws r2)"
      if "pvalue k s = Some (x, r)" "skip_ws r = c # r2" for x r c r2
    proof -
      have "length (skip_ws r2) + 2 \<le> length s"
        using parser_consumes(1) [OF that(1)] ws [of r] ws [of r2] that(2) by simp
      then have "2 * length (skip_ws r2) + 2 \<le> n" "2 * length (skip_ws r2) + 2 \<le> k" using h k by linarith+
      then show ?thesis using Suc by blast
    qed
    then show ?thesis unfolding k by (simp add: eq split: option.split list.split)
  qed
  have p: "ppairs (Suc n) s = ppairs m s" if h: "2 * length s + 2 \<le> Suc n" "2 * length s + 2 \<le> m" for s m
  proof -
    obtain k where k: "m = Suc k" using h by (cases m) auto
    have eq: "pvalue n (skip_ws (tl (skip_ws r0))) = pvalue k (skip_ws (tl (skip_ws r0)))"
      if "scan_string (tl s) = Some (x, r0)" "s \<noteq> []" for x r0
    proof -
      have "length (skip_ws (tl (skip_ws r0))) \<le> length s"
        using scan_string_length [OF that(1)] ws [of r0] ws [of "tl (skip_ws r0)"] by simp
      then have "2 * length (skip_ws (tl (skip_ws r0))) + 1 \<le> n"
        "2 * length (skip_ws (tl (skip_ws r0))) + 1 \<le> k" using h k by linarith+
      then show ?thesis using Suc by blast
    qed
    have "ppairs n (skip_ws r2) = ppairs k (skip_ws r2)"
      if "scan_string (tl s) = Some (x, r0)" "s \<noteq> []" "skip_ws r0 \<noteq> []"
        "pvalue k (skip_ws (tl (skip_ws r0))) = Some (y, r)" "skip_ws r = c # r2" for x r0 y r c r2
    proof -
      have "length (skip_ws r2) + 2 \<le> length s"
        using parser_consumes(1) [OF that(4)] scan_string_length [OF that(1)] ws [of r] ws [of r2] ws [of r0]
          ws [of "tl (skip_ws r0)"] tl_length [OF that(2)] tl_length [OF that(3)] that(5) by simp
      then have "2 * length (skip_ws r2) + 2 \<le> n" "2 * length (skip_ws r2) + 2 \<le> k" using h k by linarith+
      then show ?thesis using Suc by blast
    qed
    with eq show ?thesis
      unfolding k by (simp add: Let_def split: option.split list.split)
  qed
  show ?case using v i p by blast
qed

lemma pvalue_fuel: "2 * length s + 1 \<le> n \<Longrightarrow> 2 * length s + 1 \<le> m \<Longrightarrow> pvalue n s = pvalue m s"
  using parser_fuel_all by blast

subsection \<open>Reading back what was written\<close>

text \<open>The values that can be read back: text without surrogates, floats in decimal notation,
  dictionaries (whose keys are distinct).\<close>

fun wf_json :: "json \<Rightarrow> bool" where
  "wf_json (JFloat t) = float_text t"
| "wf_json (JStr s) = list_all scalar_char s"
| "wf_json (JList vs) = list_all wf_json vs"
| "wf_json (JDict ps) = (distinct (map fst ps) \<and> list_all (\<lambda>(k, v). list_all scalar_char k \<and> wf_json v) ps)"
| "wf_json _ = True"

lemma hex_value_char: "v < 16 \<Longrightarrow> hex_value (hex_char v) = Some v"
  by (auto simp: hex_value_def hex_char_def)

lemma hex4_escape:
  assumes "n < 65536"
  shows "hex4 (drop 2 (u_escape n) @ t) = Some (n, t)"
proof -
  have "n div 16 div 16 = n div 256" "n div 256 div 16 = n div 4096" by (simp_all flip: div_mult2_eq)
  then have "n = 16 * (n div 16) + n mod 16" "n div 16 = 16 * (n div 256) + n div 16 mod 16"
    "n div 256 = 16 * (n div 4096) + n div 256 mod 16"
    by (metis mult_div_mod_eq)+
  moreover have "n div 4096 mod 16 = n div 4096" using assms by (simp add: div_less_iff_less_mult)
  ultimately have "4096 * (n div 4096) + 256 * (n div 256 mod 16) + 16 * (n div 16 mod 16) + n mod 16 = n"
    and "n div 4096 mod 16 = n div 4096"
    by linarith+
  then show ?thesis using assms by (simp add: u_escape_def hex_value_char)
qed

lemma u_escape_split: "u_escape n = [92, 117] @ drop 2 (u_escape n)"
  by (simp add: u_escape_def)

lemma scan_u_escape:
  assumes "unicode_escape (drop 2 (u_escape n) @ t) = Some (c, r)"
  shows "scan_string (u_escape n @ t) = map_option (apfst ((#) c)) (scan_string r)"
  using assms by (subst scan_string.simps) (simp add: u_escape_def)

lemma unicode_escape_pair:
  assumes u: "55296 \<le> u" "u \<le> 56319" and v: "56320 \<le> v" "v \<le> 57343"
  shows "unicode_escape (drop 2 (u_escape u) @ u_escape v @ t)
    = Some (65536 + (u - 55296) * 1024 + (v - 56320), t)"
proof -
  have 1: "hex4 (drop 2 (u_escape u) @ u_escape v @ t) = Some (u, u_escape v @ t)"
    by (rule hex4_escape) (use u in simp)
  have 2: "hex4 (drop 2 (u_escape v) @ t) = Some (v, t)" by (rule hex4_escape) (use v in simp)
  have 3: "take 2 (u_escape v @ t) = [92, 117]" "drop 2 (u_escape v @ t) = drop 2 (u_escape v) @ t"
    by (simp_all add: u_escape_def)
  show ?thesis unfolding unicode_escape_def 1 using u v by (simp only: option.case prod.case 3 2) simp
qed

lemma scan_escaped_char:
  assumes "scalar_char c"
  shows "scan_string (escape_char c @ t) = map_option (apfst ((#) c)) (scan_string t)"
proof -
  consider "c = 34 \<or> c = 92 \<or> c = 10 \<or> c = 13 \<or> c = 9 \<or> c = 12 \<or> c = 8"
    | "c \<noteq> 34" "c \<noteq> 92" "32 \<le> c" "c \<le> 126"
    | "escape_char c = u_escape c" "c < 65536"
    | "escape_char c = u_escape (55296 + (c - 65536) div 1024 mod 1024) @ u_escape (56320 + (c - 65536) mod 1024)"
      "65536 \<le> c"
  proof -
    let ?short = "c = 34 \<or> c = 92 \<or> c = 10 \<or> c = 13 \<or> c = 9 \<or> c = 12 \<or> c = 8"
    have "escape_char c = (if c < 65536 then u_escape c
        else u_escape (55296 + (c - 65536) div 1024 mod 1024) @ u_escape (56320 + (c - 65536) mod 1024))"
      if "\<not> ?short" "\<not> (32 \<le> c \<and> c \<le> 126)"
      using that by (auto simp: escape_char_def)
    then show thesis using that by (cases ?short; cases "32 \<le> c \<and> c \<le> 126"; cases "c < 65536") auto
  qed
  then show ?thesis
  proof cases
    case 1
    then show ?thesis
      by (subst scan_string.simps) (auto simp: escape_char_def simple_escape_def)
  next
    case 2
    then show ?thesis by (subst scan_string.simps) (simp add: escape_char_def)
  next
    case 3
    then have "unicode_escape (drop 2 (u_escape c) @ t) = Some (c, t)"
      using assms hex4_escape [of c t] by (auto simp: unicode_escape_def scalar_char_def)
    then show ?thesis using 3 scan_u_escape by simp
  next
    case 4
    let ?x = "c - 65536"
    let ?u = "55296 + ?x div 1024 mod 1024"
    let ?v = "56320 + ?x mod 1024"
    have x: "?x < 1048576" using assms 4 by (auto simp: scalar_char_def)
    have uv: "?u < 65536" "?v < 65536" "55296 \<le> ?u" "?u \<le> 56319" "56320 \<le> ?v" "?v \<le> 57343"
      using mod_less_divisor [of 1024 "?x div 1024"] mod_less_divisor [of 1024 ?x] by linarith+
    have "?x div 1024 < 1024" using x by (simp add: div_less_iff_less_mult)
    then have joined: "65536 + (?u - 55296) * 1024 + (?v - 56320) = c"
      using 4 by simp
    have "unicode_escape (drop 2 (u_escape ?u) @ u_escape ?v @ t) = Some (c, t)"
      unfolding unicode_escape_pair [OF uv(3-6)] joined ..
    from scan_u_escape [OF this] show ?thesis unfolding 4(1) append_assoc .
  qed
qed

lemma scan_dumped_string:
  "list_all scalar_char s \<Longrightarrow> scan_string (concat (map escape_char s) @ 34 # r) = Some (s, r)"
proof (induction s)
  case Nil
  then show ?case by (subst scan_string.simps) simp
next
  case (Cons c s)
  then show ?case by (simp add: scan_escaped_char)
qed

text \<open>Numbers: what follows must not continue the literal.\<close>

definition stops :: "str \<Rightarrow> bool" where
  "stops r \<longleftrightarrow> r = [] \<or> \<not> is_digit (hd r) \<and> hd r \<noteq> 46 \<and> hd r \<noteq> 101 \<and> hd r \<noteq> 69"

lemma digits_value_append: "digits_value (ds @ [d]) = 10 * digits_value ds + (int d - 48)"
  by (simp add: digits_value_def)

lemma digits_value_show_nat: "digits_value (show_nat n) = int n"
proof (induction n rule: show_nat.induct)
  case (1 n)
  show ?case
  proof (cases "n < 10")
    case True
    then show ?thesis by (subst show_nat.simps) (simp add: digits_value_def)
  next
    case False
    then have "digits_value (show_nat n) = 10 * int (n div 10) + int (n mod 10)"
      using 1 by (subst show_nat.simps) (simp add: digits_value_append)
    then show ?thesis by (metis mult_div_mod_eq of_nat_add of_nat_mult of_nat_numeral)
  qed
qed

lemma show_nat_zero: "hd (show_nat n) = 48 \<Longrightarrow> show_nat n = [48]"
proof (induction n rule: show_nat.induct)
  case (1 n)
  show ?case
  proof (cases "n < 10")
    case True
    then show ?thesis using 1(2) by (subst show_nat.simps, subst (asm) show_nat.simps) simp
  next
    case False
    have "hd (show_nat n) = hd (show_nat (n div 10))"
      using False by (subst show_nat.simps) simp
    then have "show_nat (n div 10) = [48]" using 1 False by simp
    then have "digits_value (show_nat (n div 10)) = 0" by (simp add: digits_value_def)
    then show ?thesis using False by (simp add: digits_value_show_nat)
  qed
qed

lemma takeWhile_digits:
  assumes "list_all is_digit ds" and "r = [] \<or> \<not> is_digit (hd r)"
  shows "takeWhile is_digit (ds @ r) = ds" "dropWhile is_digit (ds @ r) = r"
proof -
  have "takeWhile is_digit r = []" "dropWhile is_digit r = r" using assms(2) by (cases r; auto)+
  then show "takeWhile is_digit (ds @ r) = ds" "dropWhile is_digit (ds @ r) = r"
    using assms(1) by (simp_all add: takeWhile_append dropWhile_append list_all_iff)
qed

lemma scan_int_show_nat:
  assumes "r = [] \<or> \<not> is_digit (hd r)"
  shows "scan_int (show_nat n @ r) = Some (show_nat n, r)"
proof -
  obtain c cs where c: "show_nat n = c # cs" using show_nat_nonempty by (cases "show_nat n") auto
  have d: "list_all is_digit (c # cs)" using show_nat_is_digits [of n] c by simp
  show ?thesis
  proof (cases "c = 48")
    case True
    then have "cs = []" using show_nat_zero [of n] c by simp
    then show ?thesis using c True by (simp add: scan_int_def)
  next
    case False
    then have "scan_int ((c # cs) @ r)
        = Some (takeWhile is_digit ((c # cs) @ r), dropWhile is_digit ((c # cs) @ r))"
      using d by (simp add: scan_int_def)
    then show ?thesis using takeWhile_digits [OF d assms] c by simp
  qed
qed

lemma scan_stop: "stops r \<Longrightarrow> scan_frac r = ([], r) \<and> scan_exp r = ([], r)"
  by (cases r) (auto simp: stops_def scan_frac_def scan_exp_def split: list.splits)

lemma show_nat_head: "hd (show_nat n @ r) \<noteq> 45 \<and> is_digit (hd (show_nat n @ r))"
  using show_nat_is_digits [of n] show_nat_nonempty [of n] by (cases "show_nat n") (auto simp: is_digit_def)

lemma scan_number_show_int: "stops r \<Longrightarrow> scan_number (show_int n @ r) = Some (JInt n, r)"
  using scan_int_show_nat [of r "nat n"] scan_int_show_nat [of r "nat (- n)"] scan_stop [of r]
    show_nat_head [of "nat n" r] digits_value_show_nat
  by (auto simp: scan_number_def show_int_def stops_def Let_def)

lemma scan_exp_text:
  assumes "exp_text ex" and "stops r"
  shows "scan_exp (ex @ r) = (ex, r)"
proof (cases "ex = []")
  case True
  then show ?thesis using scan_stop [OF assms(2)] by simp
next
  case False
  then obtain sg ds where e: "ex = 101 # sg # ds" "sg = 43 \<or> sg = 45" "ds \<noteq> []" "list_all is_digit ds"
    using assms(1) by (auto simp: exp_text_def)
  have r: "r = [] \<or> \<not> is_digit (hd r)" using assms(2) by (auto simp: stops_def)
  show ?thesis using e takeWhile_digits [OF e(4) r] by (auto simp: scan_exp_def Let_def)
qed

lemma scan_frac_text:
  assumes "frac_text fr" and "exp_text ex" and "stops r"
  shows "scan_frac (fr @ ex @ r) = (fr, ex @ r)"
proof -
  have nd: "ex @ r = [] \<or> \<not> is_digit (hd (ex @ r))" "scan_frac (ex @ r) = ([], ex @ r)"
    using assms(2,3) scan_stop [OF assms(3)]
    by (auto simp: exp_text_def stops_def is_digit_def scan_frac_def split: list.splits)
  show ?thesis
  proof (cases "fr = []")
    case True
    then show ?thesis using nd by simp
  next
    case False
    then obtain d ds where f: "fr = 46 # d # ds" "list_all is_digit (d # ds)"
      using assms(1) by (auto simp: frac_text_def neq_Nil_conv)
    show ?thesis using f takeWhile_digits [OF f(2) nd(1)] by (simp add: scan_frac_def)
  qed
qed

lemma scan_number_float:
  assumes "float_text t" and "stops r"
  shows "scan_number (t @ r) = Some (JFloat t, r)"
proof -
  obtain sg k fr ex where t: "sg = [] \<or> sg = [45]" "t = sg @ show_nat k @ fr @ ex" "frac_text fr" "exp_text ex"
    "fr \<noteq> [] \<or> ex \<noteq> []"
    using assms(1) by (auto simp: float_text_def)
  have "fr @ ex @ r = [] \<or> \<not> is_digit (hd (fr @ ex @ r))"
    using t(3-5) by (auto simp: frac_text_def exp_text_def is_digit_def)
  then have i: "scan_int (show_nat k @ fr @ ex @ r) = Some (show_nat k, fr @ ex @ r)"
    by (rule scan_int_show_nat)
  show ?thesis
    using t(1,5) i scan_frac_text [OF t(3,4) assms(2)] scan_exp_text [OF t(4) assms(2)]
      show_nat_head [of k "fr @ ex @ r"]
    by (auto simp: scan_number_def t(2) Let_def)
qed

subsection \<open>The round trip\<close>

lemma first_some_cases:
  "first_some (x # xs) = (case x of None \<Rightarrow> first_some xs | Some y \<Rightarrow> Some y)"
  by (cases x) simp_all

lemma scan_word_miss: "s \<noteq> [] \<Longrightarrow> w \<noteq> [] \<Longrightarrow> hd s \<noteq> hd (lit w) \<Longrightarrow> scan_word w v s = None"
  by (cases s; cases w) (auto simp: scan_word_def py_startswith_def lit_def)

lemma scan_word_hit: "scan_word w v (lit w @ r) = Some (v, r)"
  by (simp add: scan_word_def py_startswith_append)

lemma scan_atom_number:
  assumes "scan_number s = Some x" and "s \<noteq> []" and "hd s = 45 \<or> is_digit (hd s)"
  shows "scan_atom s = Some x"
proof -
  have h: "hd s \<noteq> 110" "hd s \<noteq> 116" "hd s \<noteq> 102" using assms(3) by (auto simp: is_digit_def)
  have "scan_word ''null'' v s = None" "scan_word ''true'' v s = None" "scan_word ''false'' v s = None" for v
    using h assms(2) by (auto intro!: scan_word_miss simp: lit_def)
  then show ?thesis using assms(1) by (simp add: scan_atom_def first_some_cases)
qed

lemma scan_atom_words:
  "scan_atom (lit ''null'' @ r) = Some (JNull, r)"
  "scan_atom (lit ''true'' @ r) = Some (JBool True, r)"
  "scan_atom (lit ''false'' @ r) = Some (JBool False, r)"
proof -
  have "scan_word ''null'' v (lit ''true'' @ r) = None" "scan_word ''null'' v (lit ''false'' @ r) = None"
    "scan_word ''true'' v (lit ''false'' @ r) = None" for v
    by (auto intro!: scan_word_miss simp: lit_def)
  then show "scan_atom (lit ''null'' @ r) = Some (JNull, r)"
    "scan_atom (lit ''true'' @ r) = Some (JBool True, r)"
    "scan_atom (lit ''false'' @ r) = Some (JBool False, r)"
    by (simp_all add: scan_atom_def first_some_cases scan_word_hit)
qed

text \<open>How a value starts.\<close>

definition value_start :: "nat \<Rightarrow> bool" where
  "value_start c \<longleftrightarrow> c = 34 \<or> c = 91 \<or> c = 123 \<or> c = 110 \<or> c = 116 \<or> c = 102 \<or> c = 45 \<or> is_digit c"

lemma dumps_start: "wf_json v \<Longrightarrow> json_dumps v \<noteq> [] \<and> value_start (hd (json_dumps v))"
proof (cases v)
  case (JInt n)
  have "value_start (hd (show_nat k))" for k
    using show_nat_head [of k "[]"] by (simp add: value_start_def)
  then show ?thesis using JInt by (auto simp: show_int_def value_start_def)
next
  case (JFloat t)
  assume "wf_json v"
  then obtain sg k fr where "sg = [] \<or> sg = [45]" "t = sg @ show_nat k @ fr"
    using JFloat by (auto simp: float_text_def)
  then show ?thesis using JFloat show_nat_head [of k fr] by (auto simp: value_start_def)
qed (auto simp: value_start_def dump_string_def lit_def)

lemma value_start_no_space:
  "s \<noteq> [] \<Longrightarrow> value_start (hd s) \<Longrightarrow> skip_ws (s @ r) = s @ r \<and> hd s \<noteq> 93 \<and> hd s \<noteq> 125"
  by (cases s) (auto simp: skip_ws_def value_start_def json_space_def is_digit_def)

lemma skip_ws_simps [simp]:
  "skip_ws (93 # r) = 93 # r" "skip_ws (44 # r) = 44 # r" "skip_ws (125 # r) = 125 # r"
  "skip_ws (58 # r) = 58 # r" "skip_ws (34 # r) = 34 # r" "skip_ws (32 # r) = skip_ws r" "skip_ws [] = []"
  by (simp_all add: skip_ws_def json_space_def)

lemma stops_simps [simp]: "stops []" "stops (93 # r)" "stops (44 # r)" "stops (125 # r)"
  by (simp_all add: stops_def is_digit_def)

lemma dict_of_distinct: "distinct (map fst ps) \<Longrightarrow> dict_of_pairs ps = ps"
proof -
  have upd: "AList.update k v d = d @ [(k, v)]" if "k \<notin> fst ` set d" for k and v :: json and d
    using that by (induction d) auto
  have "foldl (\<lambda>d (k, v). AList.update k v d) d ps = d @ ps"
    if "distinct (map fst (d @ ps))" for d
    using that
  proof (induction ps arbitrary: d)
    case Nil
    then show ?case by simp
  next
    case (Cons p ps)
    then show ?case using Cons.IH [of "d @ [p]"] upd [of "fst p" d "snd p"] by (cases p) auto
  qed
  from this [of "[]"] show "distinct (map fst ps) \<Longrightarrow> dict_of_pairs ps = ps"
    by (simp add: dict_of_pairs_def)
qed

definition parses :: "json \<Rightarrow> bool" where
  "parses v \<longleftrightarrow> (\<forall>n r. stops r \<longrightarrow> length (json_dumps v) < n \<longrightarrow> pvalue n (json_dumps v @ r) = Some (v, r))"

lemma pitems_dumps:
  assumes "\<And>v. v \<in> set vs \<Longrightarrow> parses v \<and> wf_json v" and "vs \<noteq> []"
    and "length (join_with [44, 32] (map json_dumps vs)) + 1 < n"
  shows "pitems n (join_with [44, 32] (map json_dumps vs) @ 93 # r) = Some (vs, r)"
  using assms
proof (induction vs arbitrary: n)
  case Nil
  then show ?case by simp
next
  case (Cons v vs)
  obtain m where m: "n = Suc m" using Cons.prems(3) by (cases n) auto
  have p: "parses v" "wf_json v" using Cons.prems(1) by auto
  show ?case
  proof (cases vs)
    case Nil
    then have "pvalue m (json_dumps v @ 93 # r) = Some (v, 93 # r)"
      using p Cons.prems(3) m by (simp add: parses_def)
    then show ?thesis using Nil m by simp
  next
    case (Cons w ws)
    let ?rest = "join_with [44, 32] (map json_dumps vs)"
    have j: "join_with [44, 32] (map json_dumps (v # vs)) = json_dumps v @ 44 # 32 # ?rest"
      using Cons by simp
    then have len: "length (json_dumps v) < m" "length ?rest + 1 < m" using Cons.prems(3) m by simp_all
    have 1: "pvalue m (json_dumps v @ 44 # 32 # ?rest @ 93 # r) = Some (v, 44 # 32 # ?rest @ 93 # r)"
      using p len by (simp add: parses_def)
    have "?rest \<noteq> [] \<and> value_start (hd ?rest)"
      using dumps_start [of w] Cons Cons.prems(1) by (cases ws) auto
    then have "skip_ws (32 # ?rest @ 93 # r) = ?rest @ 93 # r"
      using value_start_no_space [of ?rest "93 # r"] by simp
    moreover have "pitems m (?rest @ 93 # r) = Some (vs, r)"
      using Cons.IH [of m] Cons.prems(1) len(2) Cons by auto
    ultimately show ?thesis unfolding m j using 1 by simp
  qed
qed

lemma scan_dumped_key: "list_all scalar_char k \<Longrightarrow> scan_string (tl (dump_string k @ r)) = Some (k, r)"
  using scan_dumped_string [of k r] by (simp add: dump_string_def)

lemma dump_string_start: "dump_string k @ r \<noteq> []" "hd (dump_string k @ r) = 34"
  by (simp_all add: dump_string_def)

lemma ppairs_step:
  assumes "list_all scalar_char k" and "wf_json v"
    and "pvalue m (json_dumps v @ r) = Some (v, r)"
  shows "ppairs (Suc m) (dump_string k @ 58 # 32 # json_dumps v @ r) =
    (case skip_ws r of
       [] \<Rightarrow> None
     | c # r3 \<Rightarrow>
         if c = 125 then Some ([(k, v)], r3)
         else if c = 44 then map_option (apfst ((#) (k, v))) (ppairs m (skip_ws r3))
         else None)"
  using assms scan_dumped_key [of k "58 # 32 # json_dumps v @ r"]
    value_start_no_space [of "json_dumps v" r] dumps_start [of v]
  by (simp add: dump_string_start Let_def)

lemma ppairs_dumps:
  defines "dp \<equiv> \<lambda>(k, v). dump_string k @ [58, 32] @ json_dumps v"
  assumes "\<And>k v. (k, v) \<in> set ps \<Longrightarrow> list_all scalar_char k \<and> parses v \<and> wf_json v" and "ps \<noteq> []"
    and "length (join_with [44, 32] (map dp ps)) + 1 < n"
  shows "ppairs n (join_with [44, 32] (map dp ps) @ 125 # r) = Some (ps, r)"
  using assms(2-)
proof (induction ps arbitrary: n)
  case Nil
  then show ?case by simp
next
  case (Cons p ps)
  obtain m where m: "n = Suc m" using Cons.prems(3) by (cases n) auto
  obtain k v where p: "p = (k, v)" by (cases p)
  have kv: "list_all scalar_char k" "parses v" "wf_json v" using Cons.prems(1) p by auto
  have dp: "dp p = dump_string k @ 58 # 32 # json_dumps v" by (simp add: dp_def p)
  show ?case
  proof (cases ps)
    case Nil
    then have "pvalue m (json_dumps v @ 125 # r) = Some (v, 125 # r)"
      using kv Cons.prems(3) m by (simp add: parses_def dp)
    from ppairs_step [OF kv(1,3) this] show ?thesis unfolding m using Nil
      by (simp add: dp [unfolded p] p del: ppairs.simps)
  next
    case (Cons q qs)
    let ?rest = "join_with [44, 32] (map dp ps)"
    have j: "join_with [44, 32] (map dp (p # ps)) @ 125 # r
        = dump_string k @ 58 # 32 # json_dumps v @ 44 # 32 # ?rest @ 125 # r"
      using Cons by (simp add: dp)
    have len: "length (json_dumps v) < m" "length ?rest + 1 < m"
      using Cons.prems(3) m Cons by (simp_all add: dp)
    have 1: "pvalue m (json_dumps v @ 44 # 32 # ?rest @ 125 # r) = Some (v, 44 # 32 # ?rest @ 125 # r)"
      using kv len by (simp add: parses_def)
    have "?rest \<noteq> [] \<and> hd ?rest = 34"
      using Cons by (cases qs) (auto simp: dp_def dump_string_def split: prod.split)
    then have w: "skip_ws (32 # ?rest @ 125 # r) = ?rest @ 125 # r"
      using value_start_no_space [of ?rest "125 # r"] by (simp add: value_start_def)
    have 2: "ppairs m (?rest @ 125 # r) = Some (ps, r)"
      using Cons.IH [of m] Cons.prems(1) len(2) Cons by auto
    show ?thesis unfolding m j ppairs_step [OF kv(1,3) 1] using w 2 by (simp add: p)
  qed
qed

lemma pvalue_atom:
  "scan_atom s = Some x \<Longrightarrow> s \<noteq> [] \<Longrightarrow> hd s \<notin> {34, 91, 123} \<Longrightarrow> pvalue (Suc m) s = Some x"
  by (cases s) auto

lemma parses_atom:
  assumes "\<And>r. stops r \<Longrightarrow> scan_atom (json_dumps v @ r) = Some (v, r)"
    and "json_dumps v \<noteq> []" and "hd (json_dumps v) \<notin> {34, 91, 123}"
  shows "parses v"
  unfolding parses_def
proof (intro allI impI)
  fix n r
  assume "stops r" "length (json_dumps v) < n"
  then obtain m where "n = Suc m" by (cases n) auto
  then show "pvalue n (json_dumps v @ r) = Some (v, r)"
    using assms \<open>stops r\<close> by (simp add: pvalue_atom del: pvalue.simps)
qed

lemma parses_number:
  assumes "\<And>r. stops r \<Longrightarrow> scan_number (json_dumps v @ r) = Some (v, r)"
    and "json_dumps v \<noteq> []" and h: "hd (json_dumps v) = 45 \<or> is_digit (hd (json_dumps v))"
  shows "parses v"
proof (rule parses_atom)
  fix r
  assume "stops r"
  then show "scan_atom (json_dumps v @ r) = Some (v, r)" using assms by (intro scan_atom_number) auto
qed (use assms in \<open>auto simp: is_digit_def\<close>)

lemma parses_dumps: "wf_json v \<Longrightarrow> parses v"
proof (induction v)
  case JNull
  show ?case by (rule parses_atom; simp add: scan_atom_words) (simp_all add: lit_def)
next
  case (JBool b)
  show ?case by (rule parses_atom; cases b; simp add: scan_atom_words) (simp_all add: lit_def)
next
  case (JInt k)
  have "show_int k \<noteq> [] \<and> (hd (show_int k) = 45 \<or> is_digit (hd (show_int k)))"
    using show_nat_head [of "nat k" "[]"] show_nat_nonempty by (auto simp: show_int_def)
  then show ?case by (intro parses_number) (simp_all add: scan_number_show_int)
next
  case (JFloat t)
  then have t: "float_text t" by simp
  then have "t \<noteq> [] \<and> (hd t = 45 \<or> is_digit (hd t))"
    using show_nat_head by (auto simp: float_text_def)
  then show ?case using t by (intro parses_number) (simp_all add: scan_number_float)
next
  case (JStr s)
  then show ?case
    by (auto simp: parses_def dump_string_def scan_dumped_string gr0_conv_Suc less_iff_Suc_add)
next
  case (JList vs)
  then have all: "\<And>v. v \<in> set vs \<Longrightarrow> parses v \<and> wf_json v" by (auto simp: list_all_iff)
  let ?j = "join_with [44, 32] (map json_dumps vs)"
  have "pvalue n (91 # ?j @ 93 # r) = Some (JList vs, r)" if n: "length ?j + 2 < n" for n r
  proof (cases vs)
    case Nil
    then show ?thesis using n by (cases n) auto
  next
    case (Cons w ws)
    obtain m where m: "n = Suc m" using n by (cases n) auto
    have "?j \<noteq> [] \<and> value_start (hd ?j)" using dumps_start [of w] all Cons by (cases ws) auto
    then have "skip_ws (?j @ 93 # r) = ?j @ 93 # r" "?j @ 93 # r \<noteq> []" "hd (?j @ 93 # r) \<noteq> 93"
      using value_start_no_space [of ?j "93 # r"] by simp_all
    then show ?thesis
      using pitems_dumps [of vs m r] all Cons n m by (simp add: Let_def del: map_eq_Cons_conv)
  qed
  then show ?case by (simp add: parses_def)
next
  case (JDict ps)
  let ?dp = "\<lambda>(k, v). dump_string k @ [58, 32] @ json_dumps v"
  let ?j = "join_with [44, 32] (map ?dp ps)"
  have d: "dict_of_pairs ps = ps" using JDict.prems dict_of_distinct by simp
  have all: "list_all scalar_char k \<and> parses v \<and> wf_json v" if "(k, v) \<in> set ps" for k v
    using that JDict by (fastforce simp: list_all_iff)
  have "pvalue n (123 # ?j @ 125 # r) = Some (JDict ps, r)" if n: "length ?j + 2 < n" for n r
  proof (cases ps)
    case Nil
    then show ?thesis using n by (cases n) auto
  next
    case (Cons q qs)
    obtain m where m: "n = Suc m" using n by (cases n) auto
    have "?j \<noteq> [] \<and> hd ?j = 34" using Cons by (cases qs) (auto simp: dump_string_def split: prod.split)
    then have "skip_ws (?j @ 125 # r) = ?j @ 125 # r" "hd (?j @ 125 # r) = 34"
      using value_start_no_space [of ?j "125 # r"] by (simp_all add: value_start_def)
    moreover have "ppairs m (?j @ 125 # r) = Some (ps, r)"
      using ppairs_dumps [of ps m r] all Cons n m by simp
    ultimately show ?thesis unfolding m using d by (simp add: Let_def)
  qed
  then show ?case by (simp add: parses_def)
qed

lemma json_roundtrip_raw:
  assumes "wf_json v"
  shows "json_loads (json_dumps v) = Some v"
proof -
  let ?d = "json_dumps v"
  have s: "?d \<noteq> [] \<and> value_start (hd ?d)" by (rule dumps_start [OF assms])
  then have "skip_ws ?d = ?d" "hd ?d \<noteq> 65279"
    using value_start_no_space [of ?d "[]"] by (auto simp: value_start_def is_digit_def)
  moreover have "pvalue (2 * length ?d + 2) ?d = Some (v, [])"
    using parses_dumps [OF assms] unfolding parses_def by (metis append_Nil2 stops_simps(1) less_add_same_cancel1
        mult_2 add.assoc add_2_eq_Suc' zero_less_Suc trans_less_add1 lessI less_SucI)
  ultimately show ?thesis by (simp add: json_loads_def)
qed

text \<open>The JSON encoder and decoder agree: every value the program can write (text without lone
  surrogates, floats in decimal notation, dictionaries with distinct keys) is read back as itself,
  whatever the nesting, so an SSE event's data, the server's JSON answers and the response of
  VibeVoice survive the wire.\<close>

theorem json_roundtrip:
  assumes "wf_json v"
  shows "json_loads (json_dumps v) = Some v"
  using assms by (rule json_roundtrip_raw)

definition demo_json :: json where
  "demo_json = JDict [(lit ''a'', JList [JInt (- 12), JFloat (lit ''0.5''), JBool True, JNull]),
     (lit ''b'', JStr [233, 128512, 10, 34])]"

theorem json_roundtrip_witness: "json_loads (json_dumps demo_json) = Some demo_json"
proof (rule json_roundtrip)
  have "lit ''0.5'' = [] @ show_nat 0 @ [46, 53] @ []" "frac_text [46, 53]" "exp_text []"
    by (simp_all add: lit_def show_nat.simps frac_text_def exp_text_def is_digit_def)
  then have "float_text (lit ''0.5'')" unfolding float_text_def by blast
  then show "wf_json demo_json" by (simp add: demo_json_def lit_def scalar_char_def)
qed

end
