(* ===== verification/Py_Convert.thy ===== *)
theory Py_Convert
  imports Json_Text
begin

section \<open>Conversions of Python: \<open>repr\<close>, \<open>str\<close>, \<open>int\<close>, \<open>float\<close>\<close>

text \<open>
  What the code does to text and to values decoded from JSON with \<open>str(x)\<close>, \<open>int(x)\<close>,
  \<open>float(x)\<close> and \<open>f"{x!r}"\<close>, with the exceptions they raise. The table of printable characters
  is a parameter. A float is its value: the sign of a zero only shows in \<open>float_text_of\<close>. Digits are the ASCII ones (the decimal digits of Latin-1); Python's limit on
  the number of digits is not modelled.
\<close>

subsection \<open>Texts of values\<close>

fun type_name :: "json \<Rightarrow> string" where
  "type_name JNull = ''NoneType''"
| "type_name (JBool _) = ''bool''"
| "type_name (JInt _) = ''int''"
| "type_name (JFloat _) = ''float''"
| "type_name (JStr _) = ''str''"
| "type_name (JList _) = ''list''"
| "type_name (JDict _) = ''dict''"

definition hex2 :: "nat \<Rightarrow> str" where
  "hex2 n = [hex_char (n div 16 mod 16), hex_char (n mod 16)]"

definition repr_char :: "(nat \<Rightarrow> bool) \<Rightarrow> nat \<Rightarrow> nat \<Rightarrow> str" where
  "repr_char pr quote c =
     (if c = 92 \<or> c = quote then [92, c]
      else if c = 9 then [92, 116] else if c = 10 then [92, 110] else if c = 13 then [92, 114]
      else if c < 32 \<or> c = 127 then [92, 120] @ hex2 c
      else if c < 127 \<or> pr c then [c]
      else if c < 256 then [92, 120] @ hex2 c
      else if c < 65536 then u_escape c
      else [92, 85] @ hex2 (c div 16777216) @ hex2 (c div 65536) @ hex2 (c div 256) @ hex2 c)"

definition repr_text :: "(nat \<Rightarrow> bool) \<Rightarrow> str \<Rightarrow> str" where
  "repr_text pr s =
     (let quote = (if 39 \<in> set s \<and> 34 \<notin> set s then 34 else 39)
      in quote # concat (map (repr_char pr quote) s) @ [quote])"

text \<open>The value of a float literal, and when it is zero as a binary64 number (half of the least
  positive one and below rounds to zero).\<close>

definition literal_value :: "str \<Rightarrow> rat" where
  "literal_value t =
     (let t1 = (if t \<noteq> [] \<and> hd t = 45 then tl t else t);
          ip = takeWhile is_digit t1; r = dropWhile is_digit t1;
          (fr, r2) = scan_frac r; (ex, _) = scan_exp r2;
          e = (if ex = [] then 0
               else if ex ! 1 = 45 then - digits_value (drop 2 ex)
               else if ex ! 1 = 43 then digits_value (drop 2 ex) else digits_value (drop 1 ex))
      in of_int (digits_value (ip @ drop 1 fr)) * pow_rat 10 (e - int (length (drop 1 fr))))"

definition literal_zero :: "str \<Rightarrow> bool" where
  "literal_zero t \<longleftrightarrow> t \<noteq> lit ''NaN'' \<and> t \<noteq> lit ''Infinity'' \<and> t \<noteq> lit ''-Infinity''
     \<and> literal_value t \<le> pow_rat 2 (- 1075)"

fun json_of_float :: "pyfloat \<Rightarrow> json" where
  "json_of_float (Fin q) = JFloat (float_repr q)"
| "json_of_float PosInf = JFloat (lit ''Infinity'')"
| "json_of_float NegInf = JFloat (lit ''-Infinity'')"
| "json_of_float NaN = JFloat (lit ''NaN'')"

text \<open>\<open>repr\<close> and \<open>str\<close> of a decoded value.\<close>

definition literal_float :: "str \<Rightarrow> pyfloat" where
  "literal_float t =
     (if t = lit ''NaN'' then NaN else if t = lit ''Infinity'' then PosInf else if t = lit ''-Infinity'' then NegInf
      else float_of_rat (literal_value t))"

definition float_text_of :: "str \<Rightarrow> str" where
  "float_text_of t =
     (case literal_float t of
        NaN \<Rightarrow> lit ''nan'' | PosInf \<Rightarrow> lit ''inf'' | NegInf \<Rightarrow> lit ''-inf''
      | Fin q \<Rightarrow> if q = 0 then (if py_startswith t (lit ''-'') then lit ''-0.0'' else lit ''0.0'') else float_repr q)"

fun py_repr :: "(nat \<Rightarrow> bool) \<Rightarrow> json \<Rightarrow> str" where
  "py_repr pr JNull = lit ''None''"
| "py_repr pr (JBool b) = (if b then lit ''True'' else lit ''False'')"
| "py_repr pr (JInt n) = show_int n"
| "py_repr pr (JFloat t) = float_text_of t"
| "py_repr pr (JStr s) = repr_text pr s"
| "py_repr pr (JList vs) = lit ''['' @ join_with [44, 32] (map (py_repr pr) vs) @ lit '']''"
| "py_repr pr (JDict ps) =
     lit ''{'' @ join_with [44, 32] (map (\<lambda>(k, v). repr_text pr k @ [58, 32] @ py_repr pr v) ps) @ lit ''}''"

definition py_str :: "(nat \<Rightarrow> bool) \<Rightarrow> json \<Rightarrow> str" where
  "py_str pr v = (case v of JStr s \<Rightarrow> s | _ \<Rightarrow> py_repr pr v)"

subsection \<open>Numbers from text\<close>

text \<open>Digits with single underscores between them; an optional sign; surrounding white space.\<close>

definition digit_or_bar :: "nat \<Rightarrow> bool" where
  "digit_or_bar c \<longleftrightarrow> is_digit c \<or> c = 95"

fun bars_single :: "str \<Rightarrow> bool" where
  "bars_single (a # b # s) = (\<not> (a = 95 \<and> b = 95) \<and> bars_single (b # s))"
| "bars_single _ = True"

definition digits_ok :: "str \<Rightarrow> bool" where
  "digits_ok u \<longleftrightarrow> u \<noteq> [] \<and> list_all digit_or_bar u \<and> is_digit (hd u) \<and> is_digit (last u) \<and> bars_single u"

definition signed :: "str \<Rightarrow> bool \<times> str" where
  "signed t = (case t of [] \<Rightarrow> (False, []) | c # r \<Rightarrow> if c = 45 then (True, r) else if c = 43 then (False, r) else (False, t))"

definition int_of_text :: "str \<Rightarrow> int option" where
  "int_of_text s =
     (let (neg, u) = signed (py_strip s); n = digits_value (filter is_digit u)
      in if digits_ok u then Some (if neg then - n else n) else None)"

definition exponent_of_text :: "str \<Rightarrow> int option" where
  "exponent_of_text r =
     (case r of
        [] \<Rightarrow> Some 0
      | c # e \<Rightarrow>
          (let (neg, u) = signed e; n = digits_value (filter is_digit u)
           in if (c = 101 \<or> c = 69) \<and> digits_ok u then Some (if neg then - n else n) else None))"

definition float_of_text :: "str \<Rightarrow> pyfloat option" where
  "float_of_text s =
     (let (neg, u) = signed (py_strip s); w = py_lower u;
          ip = takeWhile digit_or_bar u; r = dropWhile digit_or_bar u; dot = (r \<noteq> [] \<and> hd r = 46);
          fp = (if dot then takeWhile digit_or_bar (tl r) else []);
          r2 = (if dot then dropWhile digit_or_bar (tl r) else r)
      in if w = lit ''inf'' \<or> w = lit ''infinity'' then Some (if neg then NegInf else PosInf)
         else if w = lit ''nan'' then Some NaN
         else if (ip = [] \<or> digits_ok ip) \<and> (fp = [] \<or> digits_ok fp) \<and> (ip \<noteq> [] \<or> fp \<noteq> [])
         then (case exponent_of_text r2 of
                 None \<Rightarrow> None
               | Some e \<Rightarrow>
                   (let k = length (filter is_digit fp);
                        q = of_int (digits_value (filter is_digit (ip @ fp))) * pow_rat 10 (e - int k)
                    in Some (float_of_rat (if neg then - q else q))))
         else None)"

subsection \<open>\<open>int\<close> and \<open>float\<close> of a decoded value\<close>

definition overflow_error :: "string \<Rightarrow> exn" where
  "overflow_error m = OtherError (lit ''OverflowError'') (lit m)"

definition truncate_rat :: "rat \<Rightarrow> int" where
  "truncate_rat q = (if 0 \<le> q then \<lfloor>q\<rfloor> else \<lceil>q\<rceil>)"

definition quoted :: "string \<Rightarrow> str" where
  "quoted s = lit ([CHR 39] @ s @ [CHR 39])"

fun py_int :: "(nat \<Rightarrow> bool) \<Rightarrow> json \<Rightarrow> int res" where
  "py_int pr (JInt n) = Inr n"
| "py_int pr (JBool b) = Inr (if b then 1 else 0)"
| "py_int pr (JFloat t) =
     (case literal_float t of
        Fin q \<Rightarrow> Inr (truncate_rat q)
      | NaN \<Rightarrow> Inl (ValueError (lit ''cannot convert float NaN to integer''))
      | _ \<Rightarrow> Inl (overflow_error ''cannot convert float infinity to integer''))"
| "py_int pr (JStr s) =
     (case int_of_text s of
        Some n \<Rightarrow> Inr n
      | None \<Rightarrow> Inl (ValueError (lit ''invalid literal for int() with base 10: '' @ repr_text pr s)))"
| "py_int pr v = Inl (TypeError (lit ''int() argument must be a string, a bytes-like object or a real number, not ''
     @ quoted (type_name v)))"

fun py_float :: "(nat \<Rightarrow> bool) \<Rightarrow> json \<Rightarrow> pyfloat res" where
  "py_float pr (JInt n) =
     (case float_of_rat (of_int n) of
        Fin q \<Rightarrow> Inr (Fin q)
      | _ \<Rightarrow> Inl (overflow_error ''int too large to convert to float''))"
| "py_float pr (JBool b) = Inr (Fin (if b then 1 else 0))"
| "py_float pr (JFloat t) = Inr (literal_float t)"
| "py_float pr (JStr s) =
     (case float_of_text s of
        Some x \<Rightarrow> Inr x
      | None \<Rightarrow> Inl (ValueError (lit ''could not convert string to float: '' @ repr_text pr s)))"
| "py_float pr v = Inl (TypeError (lit ''float() argument must be a string or a real number, not '' @ quoted (type_name v)))"

subsection \<open>Facts\<close>

lemma takeWhile_not_bar: "list_all is_digit s \<Longrightarrow> bars_single s"
  by (induction s rule: bars_single.induct) (auto simp: is_digit_def)

text \<open>\<open>int(str(n))\<close> is \<open>n\<close>.\<close>

lemma digits_ok_show_nat: "digits_ok (show_nat n)"
  using show_nat_is_digits [of n] takeWhile_not_bar [OF show_nat_is_digits]
  by (auto simp: digits_ok_def digit_or_bar_def list_all_iff)

lemma show_nat_no_space: "py_strip (show_nat n) = show_nat n"
proof (rule py_strip_no_space)
  have "\<not> py_space c" if "c \<in> set (show_nat n)" for c
    using show_nat_digits [OF that] by (auto simp: py_space_def)
  then show "\<not> py_space (hd (show_nat n))" "\<not> py_space (last (show_nat n))" by simp_all
qed simp

lemma int_of_show_nat: "int_of_text (show_nat n) = Some (int n)"
proof -
  have "filter is_digit (show_nat n) = show_nat n"
    using show_nat_is_digits [of n] by (simp add: list_all_iff)
  moreover obtain c r where s: "show_nat n = c # r" "is_digit c"
    using show_nat_is_digits [of n] by (cases "show_nat n") auto
  then have "signed (show_nat n) = (False, show_nat n)" by (simp add: signed_def is_digit_def)
  ultimately show ?thesis
    by (simp add: int_of_text_def show_nat_no_space digits_ok_show_nat digits_value_show_nat)
qed

end
