(* ===== verification/Vllm_Client.thy ===== *)
theory Vllm_Client
  imports Client_Gate Py_Convert
begin

section \<open>The client of the model server (\<open>server/vllm_client.py\<close>)\<close>

text \<open>
  \<open>stream_transcription\<close>: the request it builds, and what it makes of the lines of the
  response. The HTTP client is a parameter: from the URL and the body of the request it gives
  the response or raises. Lines are text after decoding; a run of the line iterator is the
  lines it gives and the exception it ends with, if any. Subscripts, membership and truth of
  decoded JSON are Python's, with the exceptions they raise on values of the wrong type.
\<close>

subsection \<open>Operations of Python on decoded JSON\<close>

fun has_sub :: "str \<Rightarrow> str \<Rightarrow> bool" where
  "has_sub k [] = (k = [])"
| "has_sub k (c # cs) = (py_startswith (c # cs) k \<or> has_sub k cs)"

fun py_in :: "str \<Rightarrow> json \<Rightarrow> bool res" where
  "py_in k (JDict ps) = Inr (k \<in> fst ` set ps)"
| "py_in k (JList vs) = Inr (JStr k \<in> set vs)"
| "py_in k (JStr s) = Inr (has_sub k s)"
| "py_in k v = Inl (TypeError (lit (''argument of type '' @ [CHR 39] @ type_name v @ [CHR 39] @ '' is not iterable'')))"

fun py_get :: "json \<Rightarrow> str \<Rightarrow> json res" where
  "py_get (JDict ps) k = (case map_of ps k of None \<Rightarrow> Inl (KeyError k) | Some v \<Rightarrow> Inr v)"
| "py_get (JList _) k = Inl (TypeError (lit ''list indices must be integers or slices, not str''))"
| "py_get (JStr _) k = Inl (TypeError (lit (''string indices must be integers, not '' @ [CHR 39] @ ''str'' @ [CHR 39])))"
| "py_get v k = Inl (TypeError (lit ([CHR 39] @ type_name v @ [CHR 39] @ '' object is not subscriptable'')))"

fun py_first :: "json \<Rightarrow> json res" where
  "py_first (JList vs) = (case vs of [] \<Rightarrow> Inl (IndexError (lit ''list index out of range'')) | v # _ \<Rightarrow> Inr v)"
| "py_first (JStr s) = (case s of [] \<Rightarrow> Inl (IndexError (lit ''string index out of range'')) | c # _ \<Rightarrow> Inr (JStr [c]))"
| "py_first (JDict _) = Inl (KeyError (lit ''0''))"
| "py_first v = Inl (TypeError (lit ([CHR 39] @ type_name v @ [CHR 39] @ '' object is not subscriptable'')))"

fun truthy :: "json \<Rightarrow> bool" where
  "truthy JNull = False"
| "truthy (JBool b) = b"
| "truthy (JInt n) = (n \<noteq> 0)"
| "truthy (JFloat t) = (\<not> literal_zero t)"
| "truthy (JStr s) = (s \<noteq> [])"
| "truthy (JList vs) = (vs \<noteq> [])"
| "truthy (JDict ps) = (ps \<noteq> [])"

subsection \<open>The request\<close>

record vllm_args =
  va_base_url :: str
  va_model_name :: str
  va_audio_base64 :: str
  va_audio_mime :: str
  va_audio_duration :: rat
  va_hotwords :: "str option"
  va_temperature :: pyfloat
  va_top_p :: pyfloat

definition text_prompt :: "vllm_args \<Rightarrow> str" where
  "text_prompt a =
     lit ''This is a '' @ fixed2 (va_audio_duration a) @ lit '' seconds audio, ''
     @ (case va_hotwords a of
          None \<Rightarrow> []
        | Some h \<Rightarrow> if h = [] then [] else lit ''with extra info: '' @ h @ [10, 10])
     @ lit ''please transcribe it with these keys: Start time, End time, Speaker ID, Content''"

definition chat_payload :: "vllm_args \<Rightarrow> json" where
  "chat_payload a =
     (let audio_url = lit ''data:'' @ va_audio_mime a @ lit '';base64,'' @ va_audio_base64 a;
          content = JList
            [JDict [(lit ''type'', JStr (lit ''audio_url'')),
                    (lit ''audio_url'', JDict [(lit ''url'', JStr audio_url)])],
             JDict [(lit ''type'', JStr (lit ''text'')), (lit ''text'', JStr (text_prompt a))]]
      in JDict
        [(lit ''model'', JStr (va_model_name a)),
         (lit ''messages'', JList
            [JDict [(lit ''role'', JStr (lit ''system'')),
                    (lit ''content'', JStr (lit (''You are a helpful assistant that transcribes audio ''
                       @ ''input into text output in JSON format.'')))],
             JDict [(lit ''role'', JStr (lit ''user'')), (lit ''content'', content)]]),
         (lit ''temperature'', json_of_float (va_temperature a)),
         (lit ''top_p'', json_of_float (va_top_p a)),
         (lit ''stream'', JBool True)])"

subsection \<open>The response\<close>

record vllm_response =
  vr_status :: int
  vr_body :: "bytes res"
  vr_lines :: "str list"
  vr_end :: "exn option"

text \<open>What one decoded event gives: nothing, a value to yield, or an exception.\<close>

definition delta_content :: "json \<Rightarrow> json option res" where
  "delta_content data =
     bind_res (py_in (lit ''choices'') data) (\<lambda>has_choices.
       if \<not> has_choices then Inr None
       else bind_res (py_get data (lit ''choices'')) (\<lambda>choices.
         if \<not> truthy choices then Inr None
         else bind_res (py_first choices) (\<lambda>choice.
           bind_res (py_in (lit ''delta'') choice) (\<lambda>has_delta.
             if \<not> has_delta then Inr None
             else bind_res (py_get choice (lit ''delta'')) (\<lambda>delta.
               bind_res (py_in (lit ''content'') delta) (\<lambda>has_content.
                 if \<not> has_content then Inr None
                 else bind_res (py_get delta (lit ''content'')) (\<lambda>text.
                   Inr (if truthy text then Some text else None))))))))"

datatype line_action = Skip | Stop | Yield json | Fail exn

definition vllm_line :: "str \<Rightarrow> line_action" where
  "vllm_line line =
     (if \<not> py_startswith line (lit ''data: '') then Skip
      else (let data_str = drop 6 line
            in if py_strip data_str = lit ''[DONE]'' then Stop
               else case json_loads data_str of
                      None \<Rightarrow> Skip
                    | Some data \<Rightarrow>
                        (case delta_content data of
                           Inl e \<Rightarrow> Fail e | Inr None \<Rightarrow> Skip | Inr (Some v) \<Rightarrow> Yield v)))"

fun vllm_lines :: "str list \<Rightarrow> exn option \<Rightarrow> json list \<times> exn option" where
  "vllm_lines [] e = ([], e)"
| "vllm_lines (l # ls) e =
     (case vllm_line l of
        Skip \<Rightarrow> vllm_lines ls e
      | Stop \<Rightarrow> ([], None)
      | Fail x \<Rightarrow> ([], Some x)
      | Yield v \<Rightarrow> apfst ((#) v) (vllm_lines ls e))"

definition stream_transcription ::
    "(str \<Rightarrow> json \<Rightarrow> vllm_response res) \<Rightarrow> vllm_args \<Rightarrow> json list \<times> exn option" where
  "stream_transcription http a =
     (case http (va_base_url a @ lit ''/v1/chat/completions'') (chat_payload a) of
        Inl e \<Rightarrow> ([], Some e)
      | Inr r \<Rightarrow>
          if vr_status r \<noteq> 200
          then ([], Some (case vr_body r of
                  Inl e \<Rightarrow> e
                | Inr body \<Rightarrow> RuntimeError (lit ''vLLM error '' @ show_int (vr_status r) @ lit '': '' @ decode_replace body)))
          else vllm_lines (vr_lines r) (vr_end r))"

subsection \<open>What a well-formed stream delivers\<close>

text \<open>The events of the chat-completion protocol: a line with a payload that is JSON, however it is
  written, for an object; of it, the object \<open>delta\<close> of the first choice, if it gets that far.\<close>

definition event_object :: "str \<Rightarrow> (str \<times> json) list \<Rightarrow> bool" where
  "event_object line ps \<longleftrightarrow> (\<exists>t. line = lit ''data: '' @ t \<and> py_strip t \<noteq> lit ''[DONE]'' \<and> json_loads t = Some (JDict ps))"

definition first_delta :: "(str \<times> json) list \<Rightarrow> (str \<times> json) list \<Rightarrow> bool" where
  "first_delta ps ds \<longleftrightarrow> (\<exists>qs vs. map_of ps (lit ''choices'') = Some (JList (JDict qs # vs))
     \<and> map_of qs (lit ''delta'') = Some (JDict ds))"

text \<open>A line that carries a piece of text, whatever other fields there are.\<close>

definition carries :: "str \<Rightarrow> str \<Rightarrow> bool" where
  "carries line c \<longleftrightarrow> c \<noteq> [] \<and> (\<exists>ps ds. event_object line ps \<and> first_delta ps ds \<and> map_of ds (lit ''content'') = Some (JStr c))"

text \<open>A line without text: another field of the stream, a payload that is no JSON, an event with no
  choices, none in a list that is empty or null, a first choice with no \<open>delta\<close>, and a \<open>delta\<close>
  with no content or with content that is empty or null.\<close>

definition textless :: "str \<Rightarrow> bool" where
  "textless line \<longleftrightarrow>
     \<not> py_startswith line (lit ''data: '')
   \<or> (\<exists>t. line = lit ''data: '' @ t \<and> py_strip t \<noteq> lit ''[DONE]'' \<and> json_loads t = None)
   \<or> (\<exists>ps. event_object line ps \<and>
       (map_of ps (lit ''choices'') \<in> {None, Some (JList []), Some JNull}
        \<or> (\<exists>qs vs. map_of ps (lit ''choices'') = Some (JList (JDict qs # vs)) \<and> map_of qs (lit ''delta'') = None)
        \<or> (\<exists>ds. first_delta ps ds \<and> map_of ds (lit ''content'') \<in> {None, Some (JStr []), Some JNull})))"

definition event_line :: "str \<times> str option \<Rightarrow> bool" where
  "event_line = (\<lambda>(l, c). case c of None \<Rightarrow> textless l | Some t \<Rightarrow> carries l t)"

definition end_line :: "str \<Rightarrow> bool" where
  "end_line l \<longleftrightarrow> (\<exists>t. l = lit ''data: '' @ t \<and> py_strip t = lit ''[DONE]'')"

lemma map_of_key: "map_of ps k = Some v \<Longrightarrow> k \<in> fst ` set ps"
  by (metis domI dom_map_of_conv_image_fst)

lemma map_of_no_key: "map_of ps k = None \<Longrightarrow> k \<notin> fst ` set ps"
  by (simp add: map_of_eq_None_iff)

lemma data_line: "py_startswith (lit ''data: '' @ t) (lit ''data: '')" "drop 6 (lit ''data: '' @ t) = t"
  by (simp_all add: py_startswith_iff lit_def)

lemma vllm_line_object:
  assumes "event_object l ps"
  shows "vllm_line l = (case delta_content (JDict ps) of Inl e \<Rightarrow> Fail e | Inr None \<Rightarrow> Skip | Inr (Some v) \<Rightarrow> Yield v)"
  using assms by (auto simp: event_object_def vllm_line_def Let_def data_line)

lemma delta_content_first:
  assumes "first_delta ps ds"
  shows "delta_content (JDict ps) = Inr (case map_of ds (lit ''content'') of None \<Rightarrow> None | Some v \<Rightarrow> if truthy v then Some v else None)"
proof -
  obtain qs vs where m: "map_of ps (lit ''choices'') = Some (JList (JDict qs # vs))" "map_of qs (lit ''delta'') = Some (JDict ds)"
    using assms by (auto simp: first_delta_def)
  show ?thesis
  proof (cases "map_of ds (lit ''content'')")
    case None
    then show ?thesis using m m [THEN map_of_key] map_of_no_key [OF None] by (simp add: delta_content_def)
  next
    case (Some v)
    then show ?thesis using m m [THEN map_of_key] map_of_key [OF Some] by (simp add: delta_content_def)
  qed
qed

lemma vllm_line_carries: "carries l c \<Longrightarrow> vllm_line l = Yield (JStr c)"
  by (auto simp: carries_def vllm_line_object delta_content_first)

lemma vllm_line_textless:
  assumes "textless l"
  shows "vllm_line l = Skip"
  using assms unfolding textless_def
proof (elim disjE exE conjE)
  fix ps assume o: "event_object l ps"
  { assume "map_of ps (lit ''choices'') \<in> {None, Some (JList []), Some JNull}"
    then show "vllm_line l = Skip"
      using vllm_line_object [OF o] map_of_key [of ps "lit ''choices''"] map_of_no_key [of ps "lit ''choices''"]
      by (auto simp: delta_content_def) }
  { fix qs vs assume m: "map_of ps (lit ''choices'') = Some (JList (JDict qs # vs))" "map_of qs (lit ''delta'') = None"
    then show "vllm_line l = Skip"
      using vllm_line_object [OF o] map_of_key [OF m(1)] map_of_no_key [OF m(2)] by (simp add: delta_content_def) }
  { fix ds assume "first_delta ps ds" "map_of ds (lit ''content'') \<in> {None, Some (JStr []), Some JNull}"
    then show "vllm_line l = Skip" using vllm_line_object [OF o] by (auto simp: delta_content_first) }
qed (auto simp: vllm_line_def Let_def data_line)

lemma vllm_line_end: "end_line l \<Longrightarrow> vllm_line l = Stop"
  by (auto simp: end_line_def vllm_line_def Let_def data_line)

lemma vllm_stream_raw:
  assumes "http (va_base_url a @ lit ''/v1/chat/completions'') (chat_payload a)
      = Inr \<lparr>vr_status = 200, vr_body = b, vr_lines = map fst evs @ tail, vr_end = e\<rparr>"
    and "list_all event_line evs" and "tail = [] \<or> end_line (hd tail)"
  shows "stream_transcription http a = (map JStr (List.map_filter snd evs), if tail = [] then e else None)"
proof -
  have "vllm_lines tail e = ([], if tail = [] then e else None)"
    using assms(3) by (cases tail) (auto simp: vllm_line_end)
  then have "vllm_lines (map fst evs @ tail) e = (map JStr (List.map_filter snd evs), if tail = [] then e else None)"
    using assms(2)
  proof (induction evs)
    case (Cons ev evs)
    obtain l c where ev: "ev = (l, c)" by (cases ev)
    have "case c of None \<Rightarrow> vllm_line l = Skip | Some t \<Rightarrow> vllm_line l = Yield (JStr t)"
      using Cons.prems(2) ev vllm_line_textless [of l] vllm_line_carries [of l] by (cases c) (simp_all add: event_line_def)
    then show ?case using Cons ev by (cases c) simp_all
  qed simp
  then show ?thesis using assms(1) by (simp add: stream_transcription_def)
qed

text \<open>C38. The text of the model arrives complete: when the model server answers 200 with events of
  the chat-completion protocol (any JSON text of them), those that carry a text in the \<open>delta\<close> of
  their first choice and those without, between lines of other kinds, the generator yields exactly
  these texts in their order. At a \<open>[DONE]\<close> event it ends without an error and looks at nothing
  behind it; when the response ends without one, it ends as the response does.\<close>

theorem vllm_stream_delivers:
  assumes "http (va_base_url a @ lit ''/v1/chat/completions'') (chat_payload a)
      = Inr \<lparr>vr_status = 200, vr_body = b, vr_lines = map fst evs @ tail, vr_end = e\<rparr>"
    and "list_all event_line evs" and "tail = [] \<or> end_line (hd tail)"
  shows "stream_transcription http a = (map JStr (List.map_filter snd evs), if tail = [] then e else None)"
  using assms by (rule vllm_stream_raw)

definition demo_event :: "str \<Rightarrow> str" where
  "demo_event t = lit ''data: '' @ json_dumps (JDict [(lit ''id'', JInt 7), (lit ''choices'', JList
     [JDict [(lit ''delta'', JDict [(lit ''content'', JStr t)])]])])"

definition demo_args :: vllm_args where
  "demo_args = \<lparr>va_base_url = lit ''http://m'', va_model_name = lit ''v'', va_audio_base64 = lit ''QUJD'',
     va_audio_mime = lit ''audio/wav'', va_audio_duration = 5 / 2, va_hotwords = None,
     va_temperature = Fin 0, va_top_p = Fin 1\<rparr>"

definition demo_http :: "str \<Rightarrow> json \<Rightarrow> vllm_response res" where
  "demo_http url body =
     Inr \<lparr>vr_status = 200, vr_body = Inr [],
          vr_lines = map fst [(demo_event (lit ''[''), Some (lit ''['')), ([], None), (demo_event (lit '']''), Some (lit '']''))]
            @ lit ''data: [DONE]'' # [demo_event (lit ''late'')],
          vr_end = Some TimeoutError\<rparr>"

lemma carries_demo:
  assumes "list_all scalar_char t" "t \<noteq> []"
  shows "carries (demo_event t) t"
proof -
  let ?ps = "[(lit ''id'', JInt 7), (lit ''choices'', JList [JDict [(lit ''delta'', JDict [(lit ''content'', JStr t)])]])]"
  have "wf_json (JDict ?ps)" using assms(1) by (auto simp: list_all_iff lit_def scalar_char_def)
  then have "json_loads (json_dumps (JDict ?ps)) = Some (JDict ?ps)" by (rule json_roundtrip_raw)
  moreover have "py_strip (json_dumps (JDict ?ps)) = json_dumps (JDict ?ps)"
    by (rule py_strip_no_space) (simp_all add: py_space_def)
  then have "py_strip (json_dumps (JDict ?ps)) \<noteq> lit ''[DONE]''" by (simp add: lit_def)
  ultimately have "event_object (demo_event t) ?ps" unfolding event_object_def demo_event_def by blast
  moreover have "first_delta ?ps [(lit ''content'', JStr t)]" by (simp add: first_delta_def lit_def)
  ultimately show ?thesis using assms(2) unfolding carries_def by (metis map_of_Cons_code(2))
qed

lemma demo_end: "end_line (lit ''data: [DONE]'')"
  unfolding end_line_def
  by (rule exI [of _ "lit ''[DONE]''"], rule conjI, simp add: lit_def, rule py_strip_no_space) (simp_all add: lit_def py_space_def)

lemma demo_events:
  "list_all event_line
     [(demo_event (lit ''[''), Some (lit ''['')), ([], None), (demo_event (lit '']''), Some (lit '']''))]"
proof -
  have "textless []" by (simp add: textless_def py_startswith_def lit_def)
  then show ?thesis
    using carries_demo [of "lit ''[''"] carries_demo [of "lit '']''"] by (simp add: event_line_def lit_def scalar_char_def)
qed

lemma demo_stream_any: "stream_transcription demo_http a = ([JStr (lit ''[''), JStr (lit '']'')], None)"
  using vllm_stream_raw [of demo_http a, OF _ demo_events, of "Inr []" "lit ''data: [DONE]'' # [demo_event (lit ''late'')]"] demo_end
  by (simp add: demo_http_def)

text \<open>Two events as a server writes them, in compact JSON: one that names the role, one with the text.\<close>

definition role_line :: str where
  \<open>role_line = lit ''data: {"choices":[{"delta":{"role":"assistant"}}]}''\<close>

definition text_line :: str where
  \<open>text_line = lit ''data: {"choices":[{"delta":{"content":"ok"}}]}''\<close>

lemmas parse_numeral = pvalue.simps(2) [of "pred_numeral k", folded numeral_eq_Suc]
  pitems.simps(2) [of "pred_numeral k", folded numeral_eq_Suc] ppairs.simps(2) [of "pred_numeral k", folded numeral_eq_Suc] for k

lemma compact_events:
  "event_object role_line [(lit ''choices'', JList [JDict [(lit ''delta'', JDict [(lit ''role'', JStr (lit ''assistant''))])]])]"
  "event_object text_line [(lit ''choices'', JList [JDict [(lit ''delta'', JDict [(lit ''content'', JStr (lit ''ok''))])]])]"
proof -
  have strip: "t \<noteq> [] \<Longrightarrow> hd t = 123 \<Longrightarrow> last t = 125 \<Longrightarrow> py_strip t \<noteq> lit ''[DONE]''" for t
    using py_strip_no_space [of t] by (auto simp: lit_def py_space_def)
  show "event_object role_line [(lit ''choices'', JList [JDict [(lit ''delta'', JDict [(lit ''role'', JStr (lit ''assistant''))])]])]"
    unfolding event_object_def
    by (rule exI [of _ "drop 6 role_line"], intro conjI strip)
      (simp_all add: role_line_def lit_def json_loads_def parse_numeral scan_string.simps skip_ws_def json_space_def dict_of_pairs_def)
  show "event_object text_line [(lit ''choices'', JList [JDict [(lit ''delta'', JDict [(lit ''content'', JStr (lit ''ok''))])]])]"
    unfolding event_object_def
    by (rule exI [of _ "drop 6 text_line"], intro conjI strip)
      (simp_all add: text_line_def lit_def json_loads_def parse_numeral scan_string.simps skip_ws_def json_space_def dict_of_pairs_def)
qed

lemma compact_lines: "list_all event_line [(role_line, None), ([], None), (text_line, Some (lit ''ok'')), ([], None)]"
proof -
  have "first_delta [(lit ''choices'', JList [JDict [(lit ''delta'', JDict ds)]])] ds" for ds
    by (simp add: first_delta_def)
  moreover have "map_of [(lit ''role'', JStr (lit ''assistant''))] (lit ''content'') = None" by (simp add: lit_def)
  ultimately have "textless role_line" "carries text_line (lit ''ok'')"
    using compact_events unfolding textless_def carries_def by (blast, metis lit_def list.map_disc_iff list.distinct(1) map_of_Cons_code(2))
  moreover have "textless []" by (simp add: textless_def py_startswith_def lit_def)
  ultimately show ?thesis by (simp add: event_line_def)
qed

theorem vllm_stream_delivers_witness:
  "stream_transcription (\<lambda>url body. Inr \<lparr>vr_status = 200, vr_body = Inr [],
       vr_lines = [role_line, [], text_line, [], lit ''data: [DONE]'', text_line], vr_end = Some TimeoutError\<rparr>) demo_args
     = ([JStr (lit ''ok'')], None)"
  using vllm_stream_delivers [OF _ compact_lines, of _ demo_args "Inr []" "[lit ''data: [DONE]'', text_line]" "Some TimeoutError"] demo_end
  by simp

end
