(* ===== verification/File_Ops.thy ===== *)
theory File_Ops
  imports File_Store
begin

section \<open>File operations of the scripts (\<open>pathlib.Path\<close>, \<open>os.open\<close>)\<close>

text \<open>
  What the certificate scripts and the server's socket use beyond \<open>File_Store\<close>: tests of the kind
  of a path, permission bits, directories with their parents, and the exclusive creation of a
  file. Only the last component of a path may be a symbolic link; links are followed at most
  40 times, as the system does. \<open>umask\<close> is an argument where it matters.
\<close>

text \<open>\<open>str(path)\<close> of an absolute path, and a mode in octal with at least three digits.\<close>

definition path_text :: "path \<Rightarrow> str" where
  "path_text p = (if p = [] then lit ''/'' else concat (map (\<lambda>c. 47 # c) p))"

fun octal :: "nat \<Rightarrow> str" where
  "octal n = (if n < 8 then [48 + n] else octal (n div 8) @ [48 + n mod 8])"

declare octal.simps [simp del]

definition mode_text :: "int \<Rightarrow> str" where
  "mode_text m = replicate (3 - length (octal (nat m))) 48 @ octal (nat m)"

subsection \<open>Kind and mode of a path\<close>

fun follow :: "nat \<Rightarrow> fs \<Rightarrow> path \<Rightarrow> path option" where
  "follow 0 d p = None"
| "follow (Suc n) d p = (case node_at d p of Some (Symlink q) \<Rightarrow> follow n d q | _ \<Rightarrow> Some p)"

definition path_exists :: "fs \<Rightarrow> path \<Rightarrow> bool" where
  "path_exists d p \<longleftrightarrow> (case follow 40 d p of None \<Rightarrow> False | Some q \<Rightarrow> q = [] \<or> node_at d q \<noteq> None)"

definition is_symlink :: "fs \<Rightarrow> path \<Rightarrow> bool" where
  "is_symlink d p \<longleftrightarrow> (case node_at d p of Some (Symlink _) \<Rightarrow> True | _ \<Rightarrow> False)"

definition path_is_dir :: "fs \<Rightarrow> path \<Rightarrow> bool" where
  "path_is_dir d p \<longleftrightarrow> (case follow 40 d p of None \<Rightarrow> False | Some q \<Rightarrow> is_dir d q)"

definition path_is_file :: "fs \<Rightarrow> path \<Rightarrow> bool" where
  "path_is_file d p \<longleftrightarrow> (case follow 40 d p of
     None \<Rightarrow> False
   | Some q \<Rightarrow> (case node_at d q of Some (RegFile _ _) \<Rightarrow> True | _ \<Rightarrow> False))"

text \<open>\<open>stat.S_IMODE(path.stat(follow_symlinks=False).st_mode)\<close>; the root has mode 0755, a link 0777.\<close>

definition file_mode :: "fs \<Rightarrow> path \<Rightarrow> int res" where
  "file_mode d p =
     (if p = [] then Inr 493
      else case node_at d p of
        None \<Rightarrow> Inl FileNotFoundError
      | Some (RegFile m _) \<Rightarrow> Inr m
      | Some (Directory m) \<Rightarrow> Inr m
      | Some (Symlink _) \<Rightarrow> Inr 511
      | Some (Socket m) \<Rightarrow> Inr m)"

text \<open>\<open>Path.read_bytes\<close>.\<close>

definition read_bytes :: "fs \<Rightarrow> path \<Rightarrow> bytes res" where
  "read_bytes d p =
     (case follow 40 d p of
        None \<Rightarrow> Inl OSErrorOther
      | Some q \<Rightarrow>
          (case node_at d q of
             Some (RegFile _ b) \<Rightarrow> Inr b
           | Some _ \<Rightarrow> Inl OSErrorOther
           | None \<Rightarrow> Inl (if q = [] then OSErrorOther else FileNotFoundError)))"

subsection \<open>Changing modes, making directories and files\<close>

fun with_mode :: "int \<Rightarrow> node \<Rightarrow> node" where
  "with_mode m (RegFile _ b) = RegFile m b"
| "with_mode m (Directory _) = Directory m"
| "with_mode m (Symlink q) = Symlink q"
| "with_mode m (Socket _) = Socket m"

definition chmod :: "int \<Rightarrow> path \<Rightarrow> fs \<Rightarrow> exn option \<times> fs" where
  "chmod m p d =
     (case follow 40 d p of
        None \<Rightarrow> (Some OSErrorOther, d)
      | Some q \<Rightarrow>
          (case node_at d q of
             None \<Rightarrow> (Some (if q = [] then OSErrorOther else FileNotFoundError), d)
           | Some n \<Rightarrow>
               if q \<in> set (locked d) then (Some OSErrorOther, d)
               else (None, d\<lparr>nodes := AList.update q (with_mode m n) (nodes d)\<rparr>)))"

text \<open>\<open>Path.mkdir(parents=True, exist_ok=...)\<close>: the parents are made first when they are missing
  (they may exist), with the default mode.\<close>

function mkdir_parents :: "int \<Rightarrow> bool \<Rightarrow> path \<Rightarrow> fs \<Rightarrow> exn option \<times> fs" where
  "mkdir_parents m exist_ok p d =
     (case mkdir m p d of
        (None, d1) \<Rightarrow> (None, d1)
      | (Some FileNotFoundError, d1) \<Rightarrow>
          if p = [] then (Some FileNotFoundError, d1)
          else (case mkdir_parents m True (path_parent p) d1 of
                  (Some e, d2) \<Rightarrow> (Some e, d2)
                | (None, d2) \<Rightarrow>
                    (case mkdir m p d2 of
                       (None, d3) \<Rightarrow> (None, d3)
                     | (Some e, d3) \<Rightarrow> (if exist_ok \<and> path_is_dir d3 p then None else Some e, d3)))
      | (Some e, d1) \<Rightarrow> (if exist_ok \<and> path_is_dir d1 p then None else Some e, d1))"
  by pat_completeness auto

termination
  by (relation "measure (\<lambda>(m, ok, p, d). length p)") (auto simp: path_parent_def)

declare mkdir_parents.simps [simp del]

text \<open>\<open>os.open(path, O_WRONLY | O_CREAT | O_EXCL | O_NOFOLLOW, mode)\<close>, the write through the
  descriptor, and the \<open>chmod\<close> that follows it. A failed write leaves the file.\<close>

definition write_exclusive :: "path \<Rightarrow> bytes \<Rightarrow> int \<Rightarrow> fs \<Rightarrow> exn option \<times> fs" where
  "write_exclusive p data mode d =
     (case open_excl mode p d of
        (Some e, d1) \<Rightarrow> (Some e, d1)
      | (None, d1) \<Rightarrow>
          (case append_file p data d1 of
             (Some e, d2) \<Rightarrow> (Some e, d2)
           | (None, d2) \<Rightarrow> chmod mode p d2))"

subsection \<open>Facts\<close>

lemma follow_plain: "\<not> is_symlink d p \<Longrightarrow> follow 40 d p = Some p"
proof -
  assume "\<not> is_symlink d p"
  then have "follow (Suc 39) d p = Some p"
    by (simp only: follow.simps) (simp add: is_symlink_def split: option.splits node.splits)
  then show ?thesis by simp
qed

declare follow.simps [simp del]

lemma node_at_chmod:
  "chmod m p d = (None, d') \<Longrightarrow> \<not> is_symlink d p \<Longrightarrow>
     \<exists>n. node_at d p = Some n \<and> node_at d' = (node_at d)(p \<mapsto> with_mode m n) \<and> locked d' = locked d"
  by (auto simp: chmod_def follow_plain node_at_def AList.update_conv' split: option.splits if_splits)

lemma write_exclusive_ok:
  assumes "write_exclusive p data mode d = (None, d')"
  shows "node_at d p = None" "node_at d' = (node_at d)(p \<mapsto> RegFile mode data)" "locked d' = locked d" "p \<noteq> []"
proof -
  obtain d1 where o: "open_excl mode p d = (None, d1)"
    using assms by (auto simp: write_exclusive_def split: prod.splits option.splits)
  obtain d2 where a: "append_file p data d1 = (None, d2)"
    using assms o by (auto simp: write_exclusive_def split: prod.splits option.splits)
  have c: "chmod mode p d2 = (None, d')" using assms o a by (simp add: write_exclusive_def)
  have n1: "node_at d1 = (node_at d)(p \<mapsto> RegFile mode [])" by (rule node_at_open_excl [OF o])
  then have n2: "node_at d2 = (node_at d)(p \<mapsto> RegFile mode data)" using node_at_append_file [OF a] by auto
  have s: "\<not> is_symlink d2 p" by (simp add: is_symlink_def n2)
  show "node_at d' = (node_at d)(p \<mapsto> RegFile mode data)" using node_at_chmod [OF c s] n2 by auto
  show "node_at d p = None" "p \<noteq> []" using o by (auto simp: open_excl_def split: if_splits)
  have "locked d1 = locked d" using o by (auto simp: open_excl_def split: if_splits)
  moreover have "locked d2 = locked d1" using a by (auto simp: append_file_def split: option.splits node.splits if_splits)
  ultimately show "locked d' = locked d" using node_at_chmod [OF c s] by (elim exE conjE) simp
qed

text \<open>An existing path is never changed, whatever happens.\<close>

lemma write_exclusive_keeps: "q \<noteq> p \<Longrightarrow> node_at (snd (write_exclusive p data mode d)) q = node_at d q"
proof -
  assume qp: "q \<noteq> p"
  have o: "node_at (snd (open_excl mode p d)) q = node_at d q"
    using qp by (auto simp: open_excl_def node_at_def AList.update_conv')
  have a: "node_at (snd (append_file p data x)) q = node_at x q" for x
    using qp by (auto simp: append_file_def node_at_def AList.update_conv' split: option.splits node.splits)
  have c: "node_at (snd (chmod mode p x)) q = node_at x q" if "\<not> is_symlink x p" for x
    using qp that by (auto simp: chmod_def follow_plain node_at_def AList.update_conv' split: option.splits)
  show ?thesis
  proof (cases "open_excl mode p d")
    case (Pair e d1)
    show ?thesis
    proof (cases "append_file p data d1")
      case (Pair e2 d2)
      have "e2 = None \<Longrightarrow> \<not> is_symlink d2 p"
        using Pair by (auto simp: append_file_def is_symlink_def node_at_def AList.update_conv' split: option.splits node.splits if_splits)
      then show ?thesis
        using Pair \<open>open_excl mode p d = (e, d1)\<close> o a [of d1] c [of d2]
        by (auto simp: write_exclusive_def split: option.splits)
    qed
  qed
qed

lemma write_exclusive_existing:
  "node_at d p \<noteq> None \<Longrightarrow> write_exclusive p data mode d = (Some FileExistsError, d)"
  by (auto simp: write_exclusive_def open_excl_def)

text \<open>The interface of the functions that write one new file. The scripts have three of them, each
  with the modes of its own; what they rest on is that no call changes a path that exists.\<close>

locale exclusive_writer =
  fixes put :: "path \<Rightarrow> bytes \<Rightarrow> fs \<Rightarrow> exn option \<times> fs"
    and file_bits :: int
  assumes put_ok: "put p b d = (None, d') \<Longrightarrow> node_at d p = None \<and> node_at d' = (node_at d)(p \<mapsto> RegFile file_bits b)"
    and put_keeps: "q \<noteq> p \<Longrightarrow> node_at (snd (put p b d)) q = node_at d q"
    and put_existing: "node_at d p \<noteq> None \<Longrightarrow> put p b d = (Some FileExistsError, d)"
begin

lemma never_overwrites: "put p b d = (e, d') \<Longrightarrow> node_at d q = Some n \<Longrightarrow> node_at d' q = Some n"
  using put_keeps [of q p b d] put_existing [of d p b] by (cases "q = p") auto

lemma second_refused: "put p b d = (None, d') \<Longrightarrow> put p b2 d' = (Some FileExistsError, d')"
  using put_ok [of p b d d'] put_existing [of d' p b2] by simp

end

interpretation any_file: exclusive_writer "\<lambda>p b. write_exclusive p b m" m for m
  using write_exclusive_ok(1,2) by unfold_locales (blast, rule write_exclusive_keeps, assumption, rule write_exclusive_existing)

text \<open>Making a directory and its parents only adds directories.\<close>

definition only_dirs_added :: "fs \<Rightarrow> fs \<Rightarrow> bool" where
  "only_dirs_added d d' \<longleftrightarrow> (\<forall>q. node_at d' q = node_at d q \<or> node_at d q = None \<and> (\<exists>m. node_at d' q = Some (Directory m)))"

lemma only_dirs_added_refl [simp]: "only_dirs_added d d"
  by (simp add: only_dirs_added_def)

lemma only_dirs_added_trans: "only_dirs_added d d1 \<Longrightarrow> only_dirs_added d1 d2 \<Longrightarrow> only_dirs_added d d2"
  unfolding only_dirs_added_def by (metis option.distinct(1))

lemma only_dirs_added_keeps: "only_dirs_added d d' \<Longrightarrow> node_at d q = Some n \<Longrightarrow> node_at d' q = Some n"
  unfolding only_dirs_added_def by (metis option.distinct(1))

lemma only_dirs_added_file:
  "only_dirs_added d d' \<Longrightarrow> node_at d' q = Some (RegFile m b) \<longleftrightarrow> node_at d q = Some (RegFile m b)"
  unfolding only_dirs_added_def by (drule spec [of _ q]) auto

lemma mkdir_adds: "mkdir m p d = (e, d') \<Longrightarrow> only_dirs_added d d'"
  by (auto simp: mkdir_def only_dirs_added_def node_at_def AList.update_conv' split: if_splits)

lemma mkdir_new: "mkdir m p d = (None, d') \<Longrightarrow> p \<noteq> [] \<and> node_at d p = None \<and> node_at d' p = Some (Directory m)"
  by (auto simp: mkdir_def node_at_def AList.update_conv' split: if_splits)

lemma mkdir_os_error: "mkdir m p d = (Some e, d') \<Longrightarrow> is_os_error e"
  by (auto simp: mkdir_def split: if_splits)

lemma mkdir_parents_facts:
  "mkdir_parents m ok p d = (e, d') \<Longrightarrow> only_dirs_added d d' \<and> (\<forall>x. e = Some x \<longrightarrow> is_os_error x)
     \<and> (e = None \<longrightarrow> \<not> ok \<longrightarrow> p \<noteq> [] \<and> node_at d p = None \<and> node_at d' p = Some (Directory m))"
proof (induction m ok p d arbitrary: e d' rule: mkdir_parents.induct)
  case (1 m ok p d)
  obtain e1 d1 where k: "mkdir m p d = (e1, d1)" by fastforce
  note a1 = mkdir_adds [OF k]
  show ?case
  proof (cases "e1 = Some FileNotFoundError \<and> p \<noteq> []")
    case False
    then consider "e1 = None" | x where "e1 = Some x" "x \<noteq> FileNotFoundError" | "e1 = Some FileNotFoundError" "p = []"
      by (cases e1) auto
    then show ?thesis
      using 1(2) k a1 mkdir_new [of m p d d1] mkdir_os_error [of m p d _ d1]
      by cases (subst (asm) mkdir_parents.simps; auto split: exn.splits if_splits)+
  next
    case True
    then have k1: "mkdir m p d = (Some FileNotFoundError, d1)" "p \<noteq> []" using k by simp_all
    obtain e2 d2 where r: "mkdir_parents m True (path_parent p) d1 = (e2, d2)" by fastforce
    note ih = 1(1) [OF k1(1) [symmetric] refl refl k1(2) r]
    have a2: "only_dirs_added d d2" using a1 ih only_dirs_added_trans by blast
    show ?thesis
    proof (cases e2)
      case (Some x)
      then show ?thesis using 1(2) k1 r ih a2 by (subst (asm) mkdir_parents.simps) auto
    next
      case None
      obtain e3 d3 where k3: "mkdir m p d2 = (e3, d3)" by fastforce
      have a3: "only_dirs_added d d3" using a2 mkdir_adds [OF k3] only_dirs_added_trans by blast
      have res: "(e, d') = (case e3 of None \<Rightarrow> (None, d3) | Some y \<Rightarrow> (if ok \<and> path_is_dir d3 p then None else Some y, d3))"
        using 1(2) k1 r None k3 by (subst (asm) mkdir_parents.simps) auto
      have "node_at d p = None" if "e3 = None"
        using mkdir_new [of m p d2 d3] k3 that a2 unfolding only_dirs_added_def by (metis option.distinct(1))
      then show ?thesis
        using res a3 mkdir_new [of m p d2 d3] mkdir_os_error [of m p d2 _ d3] k3 by (auto split: option.splits if_splits)
    qed
  qed
qed

lemma chmod_os_error: "chmod m p d = (Some e, d') \<Longrightarrow> is_os_error e \<and> d' = d"
  by (auto simp: chmod_def split: option.splits if_splits)

lemma file_mode_os_error: "file_mode d p = Inl e \<Longrightarrow> is_os_error e"
  by (auto simp: file_mode_def split: option.splits node.splits if_splits)

lemma write_exclusive_os_error: "write_exclusive p b m d = (Some e, d') \<Longrightarrow> is_os_error e"
  using chmod_os_error
  by (auto simp: write_exclusive_def open_excl_def append_file_def
      split: if_splits option.splits prod.splits node.splits)

lemma write_exclusive_free:
  assumes "p \<noteq> []" "node_at d p = None" "is_dir d (path_parent p)" "locked d = []" "length b \<le> space d"
  shows "\<exists>d'. write_exclusive p b m d = (None, d') \<and> node_at d' = (node_at d)(p \<mapsto> RegFile m b) \<and> locked d' = []
    \<and> space d' = space d - length b"
proof -
  have p: "path_parent p \<noteq> p" using assms(1) by (metis path_parent_def append_butlast_last_id append_self_conv not_Cons_self2)
  show ?thesis using assms p
    by (auto simp: write_exclusive_def open_excl_def append_file_def chmod_def follow_plain is_symlink_def node_at_def
      AList.update_conv')
qed

text \<open>A disk that is full: the file is made, and the write fails.\<close>

lemma write_exclusive_full:
  assumes "p \<noteq> []" "node_at d p = None" "is_dir d (path_parent p)" "locked d = []" "space d < length b"
  shows "fst (write_exclusive p b m d) = Some OSErrorOther"
proof -
  have p: "path_parent p \<noteq> p" using assms(1) by (metis path_parent_def append_butlast_last_id append_self_conv not_Cons_self2)
  show ?thesis using assms p
    by (auto simp: write_exclusive_def open_excl_def append_file_def node_at_def AList.update_conv')
qed

end
