(* ===== verification/Opus_Audio.thy ===== *)
theory Opus_Audio
  imports Wav_Audio Utf8_Text File_Ops
begin

section \<open>Compression for the cloud backend (\<open>server/audio.py\<close>)\<close>

text \<open>
  \<open>compress_file_to_opus\<close> runs \<open>ffmpeg\<close> on a temporary output file. What the program does is a
  parameter: whether it could be started, how the wait for it ended (its exit status and
  standard error, the time limit, an exception at the \<open>await\<close>), what the wait after a kill
  raised, and what happened to the disk meanwhile. The state of the process is kept, so that
  a process left behind would be seen.
\<close>

subsection \<open>Waiting for a process\<close>

datatype process = Alive | Exited int

datatype wait_end = Finished int bytes | TimedOut | WaitRaised exn

definition ffmpeg_timeout_seconds :: nat where
  "ffmpeg_timeout_seconds = 900"

definition ffmpeg_threads :: str where
  "ffmpeg_threads = lit ''1''"

text \<open>\<open>kill\<close> of a process that has exited raises \<open>ProcessLookupError\<close>; of a running one, the
  process ends by the signal. Both errors of the block are suppressed when they are \<open>Exception\<close>s.\<close>

definition kill_process :: "process \<Rightarrow> exn option \<times> process" where
  "kill_process p = (case p of Alive \<Rightarrow> (None, Exited (- 9)) | Exited n \<Rightarrow> (Some ProcessLookupError, Exited n))"

definition suppress :: "(exn \<Rightarrow> bool) \<Rightarrow> exn option \<Rightarrow> exn option" where
  "suppress P e = (case e of None \<Rightarrow> None | Some x \<Rightarrow> if P x then None else Some x)"

definition kill_and_drain :: "exn option \<Rightarrow> process \<Rightarrow> exn option \<times> process" where
  "kill_and_drain drain p =
     (let (e, p1) = kill_process p
      in case suppress (\<lambda>x. x = ProcessLookupError) e of
           Some x \<Rightarrow> (Some x, p1)
         | None \<Rightarrow> (suppress is_exception drain, p1))"

text \<open>\<open>_communicate_or_kill\<close>. The label of the time limit is \<open>f"{timeout_seconds:.3g}"\<close>, the plain
  numeral for a whole number below 1000.\<close>

definition communicate_or_kill :: "nat \<Rightarrow> str \<Rightarrow> wait_end \<Rightarrow> exn option \<Rightarrow> process \<Rightarrow> bytes res \<times> process" where
  "communicate_or_kill timeout operation w drain p =
     (case w of
        Finished rc err \<Rightarrow> (Inr err, Exited rc)
      | TimedOut \<Rightarrow>
          (case kill_and_drain drain p of
             (Some x, p1) \<Rightarrow> (Inl x, p1)
           | (None, p1) \<Rightarrow>
               (Inl (RuntimeError (operation @ lit '' timed out after '' @ show_nat timeout @ lit '' seconds'')), p1))
      | WaitRaised CancelledError \<Rightarrow>
          (case kill_and_drain drain p of (Some x, p1) \<Rightarrow> (Inl x, p1) | (None, p1) \<Rightarrow> (Inl CancelledError, p1))
      | WaitRaised TimeoutError \<Rightarrow>
          (case kill_and_drain drain p of
             (Some x, p1) \<Rightarrow> (Inl x, p1)
           | (None, p1) \<Rightarrow>
               (Inl (RuntimeError (operation @ lit '' timed out after '' @ show_nat timeout @ lit '' seconds'')), p1))
      | WaitRaised e \<Rightarrow> (Inl e, p))"

subsection \<open>Compressing a file\<close>

record ffmpeg_run =
  ff_spawn :: "exn option"
  ff_wait :: wait_end
  ff_drain :: "exn option"
  ff_disk :: "fs \<Rightarrow> fs"

definition ffmpeg_args :: "str \<Rightarrow> str \<Rightarrow> str list" where
  "ffmpeg_args path dst_path =
     [lit ''ffmpeg'', lit ''-y'', lit ''-nostdin'', lit ''-threads'', ffmpeg_threads,
      lit ''-protocol_whitelist'', lit ''file,pipe'', lit ''-i'', path, lit ''-vn'', lit ''-ac'', lit ''1'',
      lit ''-ar'', lit ''16000'', lit ''-c:a'', lit ''libopus'', lit ''-b:a'', lit ''64k'', dst_path]"

text \<open>The \<open>try\<close> block, from the started process to the bytes; no process if it was not started.\<close>

definition opus_body :: "ffmpeg_run \<Rightarrow> path \<Rightarrow> fs \<Rightarrow> bytes res \<times> process option \<times> fs" where
  "opus_body run dst d =
     (case ff_spawn run of
        Some e \<Rightarrow> (Inl e, None, d)
      | None \<Rightarrow>
          (let d1 = ff_disk run d;
               (r, p) = communicate_or_kill ffmpeg_timeout_seconds (lit ''ffmpeg opus compression'')
                          (ff_wait run) (ff_drain run) Alive
           in case r of
                Inl e \<Rightarrow> (Inl e, Some p, d1)
              | Inr err \<Rightarrow>
                  if p \<noteq> Exited 0
                  then (Inl (RuntimeError (lit ''ffmpeg opus compression failed: '' @ decode_replace err)), Some p, d1)
                  else (read_file d1 dst, Some p, d1)))"

definition compress_file_to_opus ::
    "(str list \<Rightarrow> ffmpeg_run) \<Rightarrow> path \<Rightarrow> path \<Rightarrow> fs \<Rightarrow> bytes res \<times> process option \<times> fs" where
  "compress_file_to_opus ffmpeg dst path d =
     (case open_excl 384 dst d of
        (Some e, d1) \<Rightarrow> (Inl e, None, d1)
      | (None, d1) \<Rightarrow>
          (let (r, p, d2) = opus_body (ffmpeg (ffmpeg_args (path_text path) (path_text dst))) dst d1;
               (e, d3) = unlink dst d2
           in (case e of None \<Rightarrow> r | Some x \<Rightarrow> Inl x, p, d3)))"

text \<open>\<open>compress_to_opus\<close>: a named temporary source file around it, removed at the end.\<close>

definition compress_to_opus ::
    "(str list \<Rightarrow> ffmpeg_run) \<Rightarrow> path \<Rightarrow> path \<Rightarrow> bytes \<Rightarrow> fs \<Rightarrow> bytes res \<times> process option \<times> fs" where
  "compress_to_opus ffmpeg src dst raw d =
     (case open_excl 384 src d of
        (Some e, d1) \<Rightarrow> (Inl e, None, d1)
      | (None, d1) \<Rightarrow>
          (let (r, p, d3) =
                 (case append_file src raw d1 of
                    (Some e, d2) \<Rightarrow> (Inl e, None, d2)
                  | (None, d2) \<Rightarrow> compress_file_to_opus ffmpeg dst src d2);
               (e, d4) = unlink src d3
           in (if e = None \<or> e = Some FileNotFoundError then r else Inl (the e), p, d4)))"

subsection \<open>Nothing is left behind\<close>

lemma kill_and_drain_dead: "snd (kill_and_drain x p) \<noteq> Alive"
  by (cases p) (auto simp: kill_and_drain_def kill_process_def suppress_def Let_def split: option.splits)

lemma communicate_dead:
  assumes "communicate_or_kill t op w x Alive = (r, p)"
  shows "p = Alive \<longrightarrow> (\<exists>e. w = WaitRaised e \<and> e \<noteq> CancelledError \<and> e \<noteq> TimeoutError)"
    and "r = Inr err \<longleftrightarrow> (\<exists>rc. w = Finished rc err \<and> p = Exited rc)"
proof -
  have k: "kill_and_drain x Alive = (y, Alive) \<longleftrightarrow> False" for y
    using kill_and_drain_dead [of x Alive] by auto
  show "p = Alive \<longrightarrow> (\<exists>e. w = WaitRaised e \<and> e \<noteq> CancelledError \<and> e \<noteq> TimeoutError)"
    using assms k by (auto simp: communicate_or_kill_def split: wait_end.splits exn.splits prod.splits option.splits)
  show "r = Inr err \<longleftrightarrow> (\<exists>rc. w = Finished rc err \<and> p = Exited rc)"
    using assms by (auto simp: communicate_or_kill_def split: wait_end.splits exn.splits prod.splits option.splits)
qed

lemma unlink_gone: "locked d = [] \<Longrightarrow> \<not> is_dir d p \<Longrightarrow> node_at (snd (unlink p d)) p = None"
  by (auto simp: unlink_def)

text \<open>A program (and other tasks) that leave the output path a file or nothing.\<close>

definition tame :: "path \<Rightarrow> (str list \<Rightarrow> ffmpeg_run) \<Rightarrow> bool" where
  "tame dst ffmpeg \<longleftrightarrow> (\<forall>a d. locked d = [] \<longrightarrow> \<not> is_dir d dst \<longrightarrow>
     locked (ff_disk (ffmpeg a) d) = [] \<and> \<not> is_dir (ff_disk (ffmpeg a) d) dst)"

lemma opus_body_facts:
  assumes "opus_body run dst d = (r, p, d')"
  shows "d' = d \<or> d' = ff_disk run d"
    and "p = Some Alive \<longrightarrow> (\<exists>e. ff_wait run = WaitRaised e \<and> e \<noteq> CancelledError \<and> e \<noteq> TimeoutError)"
    and "r = Inr b \<Longrightarrow> \<exists>err. ff_wait run = Finished 0 err \<and> read_file (ff_disk run d) dst = Inr b"
proof -
  obtain r0 p0 where c: "communicate_or_kill ffmpeg_timeout_seconds (lit ''ffmpeg opus compression'')
      (ff_wait run) (ff_drain run) Alive = (r0, p0)" by fastforce
  have body: "opus_body run dst d = (case ff_spawn run of
        Some e \<Rightarrow> (Inl e, None, d)
      | None \<Rightarrow> (case r0 of
                   Inl e \<Rightarrow> (Inl e, Some p0, ff_disk run d)
                 | Inr err \<Rightarrow>
                     if p0 \<noteq> Exited 0
                     then (Inl (RuntimeError (lit ''ffmpeg opus compression failed: '' @ decode_replace err)), Some p0, ff_disk run d)
                     else (read_file (ff_disk run d) dst, Some p0, ff_disk run d)))"
    by (simp add: opus_body_def Let_def c split: option.split)
  show "d' = d \<or> d' = ff_disk run d"
    using assms body by (auto split: option.splits sum.splits if_splits)
  have "p = Some Alive \<Longrightarrow> p0 = Alive" using assms body by (auto split: option.splits sum.splits if_splits)
  then show "p = Some Alive \<longrightarrow> (\<exists>e. ff_wait run = WaitRaised e \<and> e \<noteq> CancelledError \<and> e \<noteq> TimeoutError)"
    using communicate_dead(1) [OF c] by blast
  assume "r = Inr b"
  then obtain err where "r0 = Inr err" "p0 = Exited 0" "read_file (ff_disk run d) dst = Inr b"
    using assms body by (auto split: option.splits sum.splits if_splits)
  then show "\<exists>err. ff_wait run = Finished 0 err \<and> read_file (ff_disk run d) dst = Inr b"
    using communicate_dead(2) [OF c] by auto
qed

text \<open>C39. Compression leaves nothing behind: whatever \<open>ffmpeg\<close> does, however the wait for it ends
  (its exit, the time limit, a cancellation of the job), the temporary output file is gone
  afterwards and the process is not left running; bytes are returned only when it exited with
  status 0, and are what it left in the output file.\<close>

theorem opus_leaves_nothing:
  assumes "compress_file_to_opus ffmpeg dst path d = (r, p, d')"
    and "node_at d dst = None" and "locked d = []" and "dst \<noteq> []" and "tame dst ffmpeg"
    and "run = ffmpeg (ffmpeg_args (path_text path) (path_text dst))"
  shows "node_at d' dst = None
    \<and> (p = Some Alive \<longrightarrow> (\<exists>e. ff_wait run = WaitRaised e \<and> e \<noteq> CancelledError \<and> e \<noteq> TimeoutError))
    \<and> (\<forall>b. r = Inr b \<longrightarrow> (\<exists>d1 err. ff_wait run = Finished 0 err \<and> read_file (ff_disk run d1) dst = Inr b))"
proof (cases "open_excl 384 dst d")
  case (Pair e d1)
  show ?thesis
  proof (cases e)
    case (Some x)
    then have "d' = d" "p = None" "r = Inl x"
      using assms(1) Pair by (auto simp: compress_file_to_opus_def open_excl_def split: if_splits)
    then show ?thesis using assms(2) by simp
  next
    case None
    have d1: "locked d1 = []" "\<not> is_dir d1 dst"
      using Pair None assms(3,4) node_at_open_excl [of 384 dst d d1]
      by (auto simp: open_excl_def is_dir_def split: if_splits)
    obtain r1 p1 d2 where b: "opus_body run dst d1 = (r1, p1, d2)" by (cases "opus_body run dst d1") auto
    have d2: "locked d2 = []" "\<not> is_dir d2 dst"
      using opus_body_facts(1) [OF b] d1 assms(5,6) by (auto simp: tame_def)
    have out: "p = p1" "d' = snd (unlink dst d2)" "r = Inr b \<Longrightarrow> r1 = Inr b" for b
      using assms(1,6) Pair None b by (auto simp: compress_file_to_opus_def Let_def split: prod.splits option.splits)
    show ?thesis
      using unlink_gone [OF d2] opus_body_facts(2,3) [OF b] out by blast
  qed
qed

definition demo_ffmpeg :: "str list \<Rightarrow> ffmpeg_run" where
  "demo_ffmpeg a = \<lparr>ff_spawn = None, ff_wait = TimedOut, ff_drain = None, ff_disk = (\<lambda>d. d)\<rparr>"

theorem opus_leaves_nothing_witness:
  "\<exists>r d'. compress_file_to_opus demo_ffmpeg [lit ''o.ogg''] [lit ''a.wav'']
      \<lparr>nodes = [([lit ''a.wav''], RegFile 384 [1])], locked = [], space = 9\<rparr> = (r, Some (Exited (- 9)), d')
    \<and> r = Inl (RuntimeError (lit ''ffmpeg opus compression timed out after 900 seconds''))
    \<and> node_at d' [lit ''o.ogg''] = None"
proof -
  let ?d = "\<lparr>nodes = [([lit ''a.wav''], RegFile 384 [1])], locked = [], space = 9\<rparr>"
  obtain r p d' where c: "compress_file_to_opus demo_ffmpeg [lit ''o.ogg''] [lit ''a.wav''] ?d = (r, p, d')"
    by (cases "compress_file_to_opus demo_ffmpeg [lit ''o.ogg''] [lit ''a.wav''] ?d") auto
  then have "p = Some (Exited (- 9)) \<and> r = Inl (RuntimeError (lit ''ffmpeg opus compression timed out after 900 seconds''))"
    by (simp add: compress_file_to_opus_def open_excl_def node_at_def is_dir_def path_parent_def opus_body_def
        demo_ffmpeg_def communicate_or_kill_def kill_and_drain_def kill_process_def suppress_def unlink_def
        ffmpeg_timeout_seconds_def show_nat.simps lit_def split: if_splits)
  moreover have "node_at d' [lit ''o.ogg''] = None"
    using opus_leaves_nothing [OF c] by (simp add: node_at_def tame_def demo_ffmpeg_def)
  ultimately show ?thesis using c by auto
qed

end
