(* ===== verification/Process_Job.thy ===== *)
theory Process_Job
  imports Vllm_Client Opus_Audio Queue_Theorems
begin

section \<open>Processing a job (\<open>server/transcribe.py\<close>, \<open>server/groq_client.py\<close>)\<close>

text \<open>
  The two processing functions that the worker runs as the job's process task. They change the
  job through the segments \<open>proc_streaming\<close>, \<open>proc_put\<close> and \<open>proc_error\<close> of the queue's step
  relation; what the other tasks do while the function waits for the next chunk is an argument,
  a function on the state for each wait. A chunk that is no text (no event of the protocol
  has one) fails the \<open>join\<close> at the end and is not kept in the chunk queue, whose items are
  text here. The wording of a decoding error and the table of printable characters, which only
  occur in diagnostics, are parameters.
\<close>

subsection \<open>Diagnostics\<close>

record diagnostics =
  printable :: "nat \<Rightarrow> bool"
  json_error :: "str \<Rightarrow> str"

definition repr_list :: "(nat \<Rightarrow> bool) \<Rightarrow> str list \<Rightarrow> str" where
  "repr_list pr ks = lit ''['' @ join_with [44, 32] (map (repr_text pr) ks) @ lit '']''"

definition preview :: "diagnostics \<Rightarrow> str \<Rightarrow> str" where
  "preview dg s = repr_text (printable dg) (take 500 s)"

subsection \<open>The output of VibeVoice\<close>

text \<open>\<open>_validate_vibevoice_output\<close>: the message it records and raises, if any.\<close>

fun bad_segment :: "diagnostics \<Rightarrow> str \<Rightarrow> nat \<Rightarrow> json list \<Rightarrow> str option" where
  "bad_segment dg trimmed i [] = None"
| "bad_segment dg trimmed i (seg # segs) =
     (case seg of
        JDict ps \<Rightarrow>
          if lit ''Content'' \<in> set (map fst ps) then bad_segment dg trimmed (i + 1) segs
          else Some (lit ''VibeVoice segment['' @ show_nat i @ lit (''] missing '' @ [CHR 39] @ ''Content'' @ [CHR 39] @ '' key. '')
                 @ lit ''keys='' @ repr_list (printable dg) (map fst ps) @ lit '', ''
                 @ lit ''output_preview='' @ preview dg trimmed)
      | _ \<Rightarrow> Some (lit ''VibeVoice segment['' @ show_nat i @ lit ''] is '' @ lit (type_name seg)
                 @ lit '', expected object. '' @ lit ''output_preview='' @ preview dg trimmed))"

definition validate_vibevoice_output :: "diagnostics \<Rightarrow> str \<Rightarrow> job \<Rightarrow> str option" where
  "validate_vibevoice_output dg raw j =
     (let trimmed = py_strip raw; dur = fixed2 (audio_duration_seconds j)
      in if trimmed = []
         then Some (lit ''VibeVoice model returned empty output. '' @ lit ''audio_duration='' @ dur @ lit ''s, ''
                    @ lit ''audio_mime='' @ audio_mime j)
         else case json_loads trimmed of
           None \<Rightarrow> Some (lit ''VibeVoice model output is not valid JSON: '' @ json_error dg trimmed @ lit ''. ''
                     @ lit ''audio_duration='' @ dur @ lit ''s, '' @ lit ''output_length='' @ show_nat (length trimmed)
                     @ lit '', '' @ lit ''output_preview='' @ preview dg trimmed)
         | Some (JList segs) \<Rightarrow> bad_segment dg trimmed 0 segs
         | Some v \<Rightarrow> Some (lit ''VibeVoice model output is '' @ lit (type_name v) @ lit '', expected list. ''
                     @ lit ''audio_duration='' @ dur @ lit ''s, '' @ lit ''output_preview='' @ preview dg trimmed))"

subsection \<open>\<open>process_vibevoice_job\<close>\<close>

definition vllm_args_of :: "settings \<Rightarrow> str \<Rightarrow> job \<Rightarrow> vllm_args" where
  "vllm_args_of config audio_base64 j =
     \<lparr>va_base_url = vllm_base_url config, va_model_name = vllm_model_name config,
      va_audio_base64 = audio_base64, va_audio_mime = audio_mime j,
      va_audio_duration = audio_duration_seconds j, va_hotwords = hotwords j,
      va_temperature = vllm_temperature config, va_top_p = vllm_top_p config\<rparr>"

fun chunk_text :: "json \<Rightarrow> str option" where
  "chunk_text (JStr s) = Some s"
| "chunk_text _ = None"

text \<open>The loop over the chunks: wait \<open>k\<close>, the first chunk sets the status, the chunk is queued;
  then the wait for the end of the stream.\<close>

fun deliver :: "str \<Rightarrow> (nat \<Rightarrow> tqueue \<Rightarrow> tqueue) \<Rightarrow> nat \<Rightarrow> json list \<Rightarrow> tqueue \<Rightarrow> tqueue" where
  "deliver i others k [] q = others k q"
| "deliver i others k (c # cs) q =
     (let q1 = others k q; q2 = (if k = 0 then proc_streaming i q1 else q1);
          q3 = (case chunk_text c of Some t \<Rightarrow> proc_put i t q2 | None \<Rightarrow> q2)
      in deliver i others (k + 1) cs q3)"

definition join_error :: "json list \<Rightarrow> exn" where
  "join_error cs =
     (let n = length (takeWhile (\<lambda>c. chunk_text c \<noteq> None) cs)
      in TypeError (lit ''sequence item '' @ show_nat n @ lit '': expected str instance, ''
                    @ lit (type_name (cs ! n)) @ lit '' found''))"

definition finish_vibevoice :: "diagnostics \<Rightarrow> str \<Rightarrow> json list \<Rightarrow> tqueue \<Rightarrow> exn option \<times> tqueue" where
  "finish_vibevoice dg i cs q =
     (if list_ex (\<lambda>c. chunk_text c = None) cs then (Some (join_error cs), q)
      else case store q i of
        None \<Rightarrow> (None, q)
      | Some j \<Rightarrow>
          (case validate_vibevoice_output dg (concat (List.map_filter chunk_text cs)) j of
             None \<Rightarrow> (None, q)
           | Some m \<Rightarrow> (Some (RuntimeError m), proc_error i m q)))"

definition process_vibevoice_job ::
    "diagnostics \<Rightarrow> settings \<Rightarrow> (str \<Rightarrow> json \<Rightarrow> vllm_response res) \<Rightarrow> (nat \<Rightarrow> tqueue \<Rightarrow> tqueue) \<Rightarrow> str \<Rightarrow> tqueue
     \<Rightarrow> exn option \<times> tqueue" where
  "process_vibevoice_job dg config http others i q =
     (case store q i of
        None \<Rightarrow> (None, q)
      | Some j \<Rightarrow>
          (case bind_res (require_audio_path j) (encode_audio_file_base64 (disk q)) of
             Inl e \<Rightarrow> (Some e, q)
           | Inr audio_base64 \<Rightarrow>
               (let (cs, err) = stream_transcription http (vllm_args_of config audio_base64 j);
                    q1 = deliver i others 0 cs q
                in case err of Some e \<Rightarrow> (Some e, q1) | None \<Rightarrow> finish_vibevoice dg i cs q1)))"

text \<open>How the process task ends with what the function raised (\<open>str(exc)\<close> is given by \<open>text\<close>).\<close>

fun class_name :: "exn \<Rightarrow> str" where
  "class_name (HTTPException _ _) = lit ''HTTPException''"
| "class_name (ValueError _) = lit ''ValueError''"
| "class_name (RuntimeError _) = lit ''RuntimeError''"
| "class_name (KeyError _) = lit ''KeyError''"
| "class_name (IndexError _) = lit ''IndexError''"
| "class_name (TypeError _) = lit ''TypeError''"
| "class_name FileNotFoundError = lit ''FileNotFoundError''"
| "class_name FileExistsError = lit ''FileExistsError''"
| "class_name ProcessLookupError = lit ''ProcessLookupError''"
| "class_name TimeoutError = lit ''TimeoutError''"
| "class_name (SSLError _) = lit ''SSLError''"
| "class_name OSErrorOther = lit ''OSError''"
| "class_name (MultiPartException _) = lit ''MultiPartException''"
| "class_name QueueFull = lit ''QueueFull''"
| "class_name (OtherError c _) = c"
| "class_name CancelledError = lit ''CancelledError''"

definition task_end :: "(exn \<Rightarrow> str) \<Rightarrow> exn option \<Rightarrow> task_result" where
  "task_end text e =
     (case e of
        None \<Rightarrow> Returned
      | Some CancelledError \<Rightarrow> TaskCancelled
      | Some (RuntimeError m) \<Rightarrow> Raised m (lit ''RuntimeError'')
      | Some x \<Rightarrow> Raised (text x) (class_name x))"

subsection \<open>The Groq client and \<open>process_groq_job\<close>\<close>

text \<open>The request (the multipart file, the form fields, the authorization header) and the
  response: its status, its text, and what \<open>response.json()\<close> gives or the text of what it raises.\<close>

record groq_request =
  gq_url :: str
  gq_authorization :: str
  gq_file :: "str \<times> bytes \<times> str"
  gq_data :: "(str \<times> str) list"

record groq_response =
  gr_status :: int
  gr_text :: str
  gr_json :: "str + json"

definition groq_request_of :: "str \<Rightarrow> str \<Rightarrow> str option \<Rightarrow> bytes \<Rightarrow> groq_request" where
  "groq_request_of api_key model_name hw opus =
     \<lparr>gq_url = lit ''https://api.groq.com/openai/v1/audio/transcriptions'',
      gq_authorization = lit ''Bearer '' @ api_key,
      gq_file = (lit ''audio.ogg'', opus, lit ''audio/ogg''),
      gq_data = [(lit ''model'', model_name), (lit ''response_format'', lit ''json''), (lit ''temperature'', lit ''0'')]
        @ (case hw of None \<Rightarrow> [] | Some h \<Rightarrow> if h = [] then [] else [(lit ''prompt'', h)])\<rparr>"

definition read_groq_response :: "diagnostics \<Rightarrow> groq_response \<Rightarrow> str res" where
  "read_groq_response dg resp =
     (let body = lit ''response_body='' @ preview dg (gr_text resp)
      in if gr_status resp \<noteq> 200
         then Inl (RuntimeError (lit ''Groq API error '' @ show_int (gr_status resp) @ lit '': '' @ gr_text resp))
         else case gr_json resp of
           Inl e \<Rightarrow> Inl (RuntimeError (lit ''Groq response is not valid JSON: '' @ e @ lit ''. '' @ body))
         | Inr (JDict ps) \<Rightarrow>
             (case map_of ps (lit ''text'') of
                None \<Rightarrow> Inl (RuntimeError (lit (''Groq response missing '' @ [CHR 39] @ ''text'' @ [CHR 39] @ '' key. '')
                          @ lit ''keys='' @ repr_list (printable dg) (map fst ps) @ lit '', '' @ body))
              | Some (JStr t) \<Rightarrow> Inr t
              | Some v \<Rightarrow> Inl (RuntimeError (lit (''Groq response '' @ [CHR 39] @ ''text'' @ [CHR 39] @ '' is '')
                          @ lit (type_name v) @ lit '', expected string. '' @ body)))
         | Inr v \<Rightarrow> Inl (RuntimeError (lit ''Groq response is '' @ lit (type_name v) @ lit '', expected object. '' @ body)))"

definition transcribe_audio_file ::
    "diagnostics \<Rightarrow> (str list \<Rightarrow> ffmpeg_run) \<Rightarrow> path \<Rightarrow> (groq_request \<Rightarrow> groq_response res) \<Rightarrow> str \<Rightarrow> str \<Rightarrow> path
     \<Rightarrow> str option \<Rightarrow> fs \<Rightarrow> str res \<times> process option \<times> fs" where
  "transcribe_audio_file dg ffmpeg dst post api_key model_name path hw d =
     (let (r, p, d1) = compress_file_to_opus ffmpeg dst path d
      in (bind_res r (\<lambda>opus. bind_res (post (groq_request_of api_key model_name hw opus)) (read_groq_response dg)),
          p, d1))"

definition groq_segment :: "rat \<Rightarrow> str \<Rightarrow> str" where
  "groq_segment dur text = json_dumps (JList [JDict
     [(lit ''Start'', JInt 0), (lit ''End'', JFloat (float_repr dur)), (lit ''Content'', JStr text)]])"

text \<open>\<open>others\<close>: what the other tasks do to the queue during the compression and the request.\<close>

definition process_groq_job ::
    "diagnostics \<Rightarrow> settings \<Rightarrow> (str list \<Rightarrow> ffmpeg_run) \<Rightarrow> path \<Rightarrow> (groq_request \<Rightarrow> groq_response res) \<Rightarrow>
     (tqueue \<Rightarrow> tqueue) \<Rightarrow> str \<Rightarrow> tqueue \<Rightarrow> exn option \<times> tqueue" where
  "process_groq_job dg config ffmpeg dst post others i q =
     (let q1 = proc_streaming i q
      in case store q1 i of
           None \<Rightarrow> (None, q1)
         | Some j \<Rightarrow>
             (case require_audio_path j of
                Inl e \<Rightarrow> (Some e, q1)
              | Inr path \<Rightarrow>
                  (let (r, p, d) = transcribe_audio_file dg ffmpeg dst post (groq_api_key config)
                                     (groq_model_name config) path (hotwords j) (disk q1);
                       q2 = others (q1\<lparr>disk := d\<rparr>)
                   in case r of
                        Inl e \<Rightarrow> (Some e, q2)
                      | Inr text \<Rightarrow>
                          if text = [] then (None, q2)
                          else (None, proc_put i (groq_segment (audio_duration_seconds j) text) q2))))"

subsection \<open>What counts as a transcription\<close>

definition segments_ok :: "str \<Rightarrow> bool" where
  "segments_ok raw \<longleftrightarrow> (\<exists>vs. json_loads (py_strip raw) = Some (JList vs)
     \<and> (\<forall>v \<in> set vs. \<exists>ps. v = JDict ps \<and> lit ''Content'' \<in> fst ` set ps))"

lemma bad_segment_None:
  "bad_segment dg t i vs = None \<longleftrightarrow> (\<forall>v \<in> set vs. \<exists>ps. v = JDict ps \<and> lit ''Content'' \<in> fst ` set ps)"
  by (induction vs arbitrary: i) (auto split: json.splits)

lemma json_loads_empty: "json_loads [] = None"
  by (simp add: json_loads_def skip_ws_def)

lemma validate_None: "validate_vibevoice_output dg raw j = None \<longleftrightarrow> segments_ok raw"
  by (auto simp: validate_vibevoice_output_def segments_ok_def Let_def bad_segment_None json_loads_empty
      split: option.splits json.splits)

text \<open>The Groq backend speaks VibeVoice's format: for every text and duration the segment it
  queues parses as the one-element list with exactly that text (start 0, end the duration's
  float), and passes the validation that VibeVoice's output must pass.\<close>

theorem groq_segment_valid:
  assumes "list_all scalar_char text"
  shows "json_loads (groq_segment dur text) = Some (JList [JDict
      [(lit ''Start'', JInt 0), (lit ''End'', JFloat (float_repr dur)), (lit ''Content'', JStr text)]])
    \<and> validate_vibevoice_output dg (groq_segment dur text) j = None"
proof -
  let ?v = "JList [JDict [(lit ''Start'', JInt 0), (lit ''End'', JFloat (float_repr dur)), (lit ''Content'', JStr text)]]"
  have "wf_json ?v" using assms float_text_repr by (simp add: lit_def scalar_char_def)
  then have l: "json_loads (groq_segment dur text) = Some ?v"
    unfolding groq_segment_def by (rule json_roundtrip_raw)
  have "py_strip (groq_segment dur text) = groq_segment dur text"
    by (rule py_strip_no_space) (simp_all add: groq_segment_def py_space_def)
  then show ?thesis using l by (auto simp: validate_None segments_ok_def)
qed

theorem groq_segment_valid_witness:
  "json_loads (groq_segment (5 / 2) (lit ''hi'')) = Some (JList [JDict
      [(lit ''Start'', JInt 0), (lit ''End'', JFloat (float_repr (5 / 2))), (lit ''Content'', JStr (lit ''hi''))]])"
  using groq_segment_valid [of "lit ''hi''" "5 / 2"] by (simp add: lit_def scalar_char_def)

subsection \<open>Processing as a run of the queue\<close>

text \<open>Other tasks that let this job be processed: they run steps of the queue that leave the worker
  waiting for it and touch nothing of the job but its chunk queue (the event stream reads it).\<close>

definition listening :: "str \<Rightarrow> (nat \<Rightarrow> tqueue \<Rightarrow> tqueue) \<Rightarrow> bool" where
  "listening i others \<longleftrightarrow> (\<forall>k q j. store q i = Some j \<longrightarrow> process_task j = Some Running \<longrightarrow>
     locked (disk q) = [] \<longrightarrow>
     usual_step\<^sup>*\<^sup>* q (others k q) \<and> locked (disk (others k q)) = [] \<and> worker_task (others k q) = worker_task q
     \<and> (\<exists>ys. store (others k q) i = Some (j\<lparr>chunk_queue := ys\<rparr>)))"

lemma deliver_run:
  assumes "listening i others" and "store q i = Some j" and "process_task j = Some Running"
    and "locked (disk q) = []"
  shows "usual_step\<^sup>*\<^sup>* q (deliver i others k (map JStr ts) q)
    \<and> locked (disk (deliver i others k (map JStr ts) q)) = []
    \<and> worker_task (deliver i others k (map JStr ts) q) = worker_task q
    \<and> (\<exists>ys st. store (deliver i others k (map JStr ts) q) i = Some (j\<lparr>chunk_queue := ys, status := st\<rparr>))"
  using assms(2-)
proof (induction ts arbitrary: k q j)
  case Nil
  obtain ys where o: "usual_step\<^sup>*\<^sup>* q (others k q)" "locked (disk (others k q)) = []"
    "worker_task (others k q) = worker_task q" "store (others k q) i = Some (j\<lparr>chunk_queue := ys\<rparr>)"
    using assms(1) Nil by (force simp: listening_def)
  have "j\<lparr>chunk_queue := ys\<rparr> = j\<lparr>chunk_queue := ys, status := status j\<rparr>" by (cases j) simp
  then have "\<exists>ys st. store (others k q) i = Some (j\<lparr>chunk_queue := ys, status := st\<rparr>)"
    using o(4) by metis
  then show ?case using o(1-3) by simp
next
  case (Cons t ts)
  define q1 where "q1 = others k q"
  define q2 where "q2 = (if k = 0 then proc_streaming i q1 else q1)"
  define q3 where "q3 = proc_put i t q2"
  obtain ys where 1: "usual_step\<^sup>*\<^sup>* q q1" "locked (disk q1) = []"
    "worker_task q1 = worker_task q" "store q1 i = Some (j\<lparr>chunk_queue := ys\<rparr>)"
    using assms(1) Cons.prems by (force simp: listening_def q1_def)
  have r1: "task_running q1 i" using 1(4) Cons.prems(2) by (simp add: task_running_def)
  define st where "st = (if k = 0 then STREAMING else status j)"
  have 2: "usual_step\<^sup>*\<^sup>* q1 q2" "locked (disk q2) = []" "worker_task q2 = worker_task q1"
    "store q2 i = Some (j\<lparr>chunk_queue := ys, status := st\<rparr>)"
    using usual_running(1) [OF r1 1(2)] 1(2,4) by (auto simp: q2_def st_def proc_streaming_def)
  have r2: "task_running q2 i" using 2(4) Cons.prems(2) by (simp add: task_running_def)
  have 3: "usual_step q2 q3" "locked (disk q3) = []" "worker_task q3 = worker_task q2"
    "store q3 i = Some (j\<lparr>chunk_queue := ys @ [Some t], status := st\<rparr>)"
    using usual_running(2) [OF r2 2(2)] 2(2,4) by (simp_all add: q3_def proc_put_def)
  have go: "deliver i others k (map JStr (t # ts)) q = deliver i others (k + 1) (map JStr ts) q3"
    by (simp add: q1_def q2_def q3_def Let_def)
  have run: "usual_step\<^sup>*\<^sup>* q q3" using 1(1) 2(1) 3(1) by auto
  show ?case
    using Cons.IH [OF 3(4) _ 3(2), of "k + 1"] Cons.prems(2) run 1(3) 2(3) 3(3) unfolding go by auto
qed

lemma chunk_texts: "List.map_filter chunk_text (map JStr ts) = ts" "\<not> list_ex (\<lambda>c. chunk_text c = None) (map JStr ts)"
  by (induction ts) auto

lemma validate_cong:
  "audio_duration_seconds j = audio_duration_seconds j' \<Longrightarrow> audio_mime j = audio_mime j' \<Longrightarrow>
     validate_vibevoice_output dg raw j = validate_vibevoice_output dg raw j'"
  unfolding validate_vibevoice_output_def by (simp only:)

lemma bad_segment_message: "bad_segment dg t i vs = Some m \<Longrightarrow> m \<noteq> []"
  by (induction vs arbitrary: i) (auto split: json.splits if_splits simp: lit_def)

lemma validate_message: "validate_vibevoice_output dg raw j = Some m \<Longrightarrow> m \<noteq> []"
  by (auto simp: validate_vibevoice_output_def Let_def lit_def dest: bad_segment_message
      split: option.splits json.splits if_splits)

text \<open>The end of the processing function, with the verdict \<open>v\<close> on the output.\<close>

lemma finish_vibevoice_run:
  assumes "(e, q1) = finish_vibevoice dg i (map JStr ts) qd" "store qd i = Some (j\<lparr>chunk_queue := ys, status := s\<rparr>)"
    and "process_task j = Some Running" "error_message j = None" "locked (disk qd) = []"
    and v: "v = validate_vibevoice_output dg (concat ts) j"
  shows "store q1 i = Some (j\<lparr>chunk_queue := ys, status := s, error_message := v\<rparr>)" "usual_step\<^sup>*\<^sup>* qd q1"
    "locked (disk q1) = []" "worker_task q1 = worker_task qd" "e = map_option RuntimeError v"
proof -
  have "validate_vibevoice_output dg (concat ts) (j\<lparr>chunk_queue := ys, status := s\<rparr>) = v"
    unfolding v by (rule validate_cong) simp_all
  then have fin: "finish_vibevoice dg i (map JStr ts) qd
      = (case v of None \<Rightarrow> (None, qd) | Some m \<Rightarrow> (Some (RuntimeError m), proc_error i m qd))"
    using assms(2) chunk_texts [of ts] by (simp add: finish_vibevoice_def)
  have r: "task_running qd i" using assms(2,3) by (simp add: task_running_def)
  show "store q1 i = Some (j\<lparr>chunk_queue := ys, status := s, error_message := v\<rparr>)" "usual_step\<^sup>*\<^sup>* qd q1"
    "locked (disk q1) = []" "worker_task q1 = worker_task qd" "e = map_option RuntimeError v"
    using assms(1,2,4,5) usual_running(3) [OF r assms(5)] unfolding fin
    by (auto simp: proc_error_def split: option.splits)
qed

text \<open>While the finished job waits for the worker, the others only touch its chunk queue.\<close>

definition left_to_worker :: "str \<Rightarrow> tqueue \<Rightarrow> tqueue \<Rightarrow> bool" where
  "left_to_worker i q q' \<longleftrightarrow> worker_task q' = worker_task q
     \<and> (\<exists>j ys. store q i = Some j \<and> store q' i = Some (j\<lparr>chunk_queue := ys\<rparr>))"

text \<open>The worker's next segment on a job whose process task ended in a usual run.\<close>

lemma resume_job:
  assumes "reach usual_init usual_step q" and "worker_task q = Some (Awaiting i st False)"
    and "store q i = Some j" and "process_task j = Some (Done r)"
  shows "usual_step q (worker_resume now q)"
    "store (worker_resume now q) i = Some (final_job q i (settle_job r j))"
    "audio_path j = Some p \<Longrightarrow> node_at (disk (worker_resume now q)) p = None"
proof -
  have t: "tidy q" and l: "locked (disk q) = []" "locked (disk (worker_resume now q)) = []"
    using reach_service [OF assms(1)] tidy_resume [of q] by (simp_all add: service_ok_def tidy_def)
  then show "usual_step q (worker_resume now q)"
    and b: "store (worker_resume now q) i = Some (final_job q i (settle_job r j))"
    using s_resume resume_usual(1) [OF t assms(2-4) refl, where now = now] by (simp_all add: usual_step_def)
  have r: "held q" "qinv q" using reach_held [OF reach_weaken [OF assms(1)]] by simp_all
  show "node_at (disk (worker_resume now q)) p = None" if p: "audio_path j = Some p"
  proof -
    have "\<not> terminal_status (status j)" using heldD(2) [OF r(1) assms(3)] p by auto
    moreover have "terminal_status (status (settle_job x j))" for x by (cases x) (simp_all add: settle_job_def)
    ultimately have "ends_job q i (worker_resume now q)" using step_ends_job [OF r s_resume assms(3) _ b] by simp
    then show ?thesis using assms(3) p l(1) by (auto simp: ends_job_def refused_def)
  qed
qed

text \<open>C17. The outcome of a VibeVoice job that the worker has picked, when the model's stream ended
  and gave the texts \<open>ts\<close>, and as long as the disk refuses no removal and nobody cancels the job or
  stops the server before the worker has settled it: at every wait of the processing, and between
  the end of the processing and the worker's next segment, the other tasks run any steps that leave
  the worker waiting for the job and change nothing of it but its chunk queue. Then all of this is a
  run of the queue, and the job ends \<open>COMPLETED\<close> exactly when the texts together are a JSON list of
  objects that all have a \<open>Content\<close>; otherwise it is \<open>FAILED\<close> with the diagnosis as its message.
  In both cases its file is removed and its stream has its end.\<close>

theorem vibevoice_job_outcome:
  assumes "reach usual_init usual_step q" and "worker_task q = Some (Awaiting i st False)"
    and "store q i = Some j" and "process_task j = Some Running" and "error_message j = None"
    and "listening i others" and "audio_path j = Some p" and "node_at (disk q) p = Some (RegFile m bs)"
    and "stream_transcription http (vllm_args_of config (encode_audio_base64 bs) j) = (map JStr ts, None)"
    and "process_vibevoice_job dg config http others i q = (e, q1)"
    and "usual_step\<^sup>*\<^sup>* (proc_finish i (task_end text e) q1) q2"
    and "left_to_worker i (proc_finish i (task_end text e) q1) q2"
    and "q3 = worker_resume now q2"
  shows "usual_step\<^sup>*\<^sup>* q q3 \<and> (\<exists>b. store q3 i = Some b \<and> audio_path b = None \<and> node_at (disk q3) p = None \<and> terminal_notified b
    \<and> (if segments_ok (concat ts) then status b = COMPLETED \<and> error_message b = None
       else status b = FAILED \<and> error_message b \<noteq> None
         \<and> error_message b = validate_vibevoice_output dg (concat ts) j))"
proof -
  have lk: "locked (disk q) = []" using reach_service [OF assms(1)] by (simp add: service_ok_def tidy_def)
  define qd where "qd = deliver i others 0 (map JStr ts) q"
  obtain ys s where d: "usual_step\<^sup>*\<^sup>* q qd" "locked (disk qd) = []" "worker_task qd = worker_task q"
    "store qd i = Some (j\<lparr>chunk_queue := ys, status := s\<rparr>)"
    using deliver_run [OF assms(6,3,4) lk, of 0 ts] by (auto simp: qd_def)
  let ?v = "validate_vibevoice_output dg (concat ts) j"
  have "encode_audio_file_base64 (disk q) p = Inr (encode_audio_base64 bs)"
    using assms(8) by (simp add: encode_audio_file_base64_def read_file_def)
  then have run: "(e, q1) = finish_vibevoice dg i (map JStr ts) qd"
    using assms(3,7,9,10) by (simp add: process_vibevoice_job_def require_audio_path_def qd_def)
  define j1 where "j1 = j\<lparr>chunk_queue := ys, status := s, error_message := ?v\<rparr>"
  have q1: "store q1 i = Some j1" "usual_step\<^sup>*\<^sup>* qd q1" "locked (disk q1) = []" "worker_task q1 = worker_task q"
    "e = map_option RuntimeError ?v"
    using finish_vibevoice_run [OF run d(4) assms(4,5) d(2) refl] d(3) by (simp_all add: j1_def)
  have t: "task_end text e = (case ?v of None \<Rightarrow> Returned | Some m \<Rightarrow> Raised m (lit ''RuntimeError''))"
    by (simp add: q1(5) task_end_def split: option.split)
  define r where "r = task_end text e"
  have rc: "r \<noteq> TaskCancelled" using t by (simp add: r_def split: option.splits)
  define qf where "qf = proc_finish i r q1"
  have run1: "task_running q1 i" using q1(1) assms(4) by (simp add: task_running_def j1_def)
  have qf: "store qf i = Some (j1\<lparr>process_task := Some (Done r)\<rparr>)" "worker_task qf = worker_task q" "usual_step q1 qf"
    using q1(1,4) usual_running(4) [OF run1 q1(3) rc] by (simp_all add: qf_def proc_finish_def)
  obtain zs where q2: "usual_step\<^sup>*\<^sup>* qf q2" "worker_task q2 = Some (Awaiting i st False)"
      "store q2 i = Some (j1\<lparr>process_task := Some (Done r), chunk_queue := zs\<rparr>)"
    using assms(2,11,12) qf(1,2) by (auto simp: left_to_worker_def qf_def r_def)
  have steps: "usual_step\<^sup>*\<^sup>* q q2" using d(1) q1(2) qf(3) q2(1) by (meson rtranclp_trans rtranclp.rtrancl_into_rtrancl)
  note w = resume_job [OF reach_rtranclp [OF assms(1) steps] q2(2,3), where r = r and now = now, simplified]
  have gone: "node_at (disk (worker_resume now q2)) p = None" using w(3) assms(7) by (simp add: j1_def)
  have seg: "segments_ok (concat ts) \<longleftrightarrow> ?v = None" by (simp add: validate_None)
  show ?thesis
    using rtranclp.rtrancl_into_rtrancl [OF steps w(1)] w(2) gone t validate_message [of dg "concat ts" j]
    unfolding assms(13) seg by (auto simp: settle_job_def j1_def r_def split: option.splits)
qed

text \<open>The worker on the job with the stored upload.\<close>

definition demo_mine :: tqueue where
  "demo_mine = worker_pick 2 (snd (submit id_a demo_stored))"

lemma demo_mine_eq:
  "snd (submit id_a demo_stored) = demo_start\<lparr>store := [id_a \<mapsto> job_a\<lparr>status := QUEUED\<rparr>, id_b \<mapsto> job_b],
     jobs := [id_a, id_b], pending := [id_a]\<rparr>"
  "demo_mine = demo_start\<lparr>store := [id_a \<mapsto> job_a\<lparr>status := PROCESSING, process_task := Some Running\<rparr>,
       id_b \<mapsto> job_b], jobs := [id_a, id_b], worker_task := Some (Awaiting id_a 2 False)\<rparr>"
  by (simp_all add: demo_mine_def demo_stored_eq demo_start_def submit_def get_job_def upd_job_def
      worker_pick_def Let_def fun_upd_twist)

lemma demo_mine_reach: "reach usual_init usual_step demo_mine"
proof -
  have s: "qstep demo_stored (snd (submit id_a demo_stored))"
    by (rule s_submit [of id_a]) (simp add: submit_def get_job_def demo_stored_eq)
  have 1: "reach usual_init usual_step (snd (submit id_a demo_stored))"
    by (rule reach_step [OF demo_usual(1)], unfold usual_step_def, rule conjI [OF s])
      (simp add: demo_mine_eq demo_start_def demo_fs_def)
  have p: "qstep (snd (submit id_a demo_stored)) demo_mine"
    unfolding demo_mine_def by (rule s_pick) (simp add: demo_mine_eq demo_start_def)
  show ?thesis
    by (rule reach_step [OF 1], unfold usual_step_def, rule conjI [OF p])
      (simp add: demo_mine_eq demo_start_def demo_fs_def)
qed

definition demo_diag :: diagnostics where
  "demo_diag = \<lparr>printable = (\<lambda>c. True), json_error = (\<lambda>s. lit ''Expecting value'')\<rparr>"

lemma demo_segments: "segments_ok (lit ''[]'')"
proof -
  have "json_loads (json_dumps (JList [])) = Some (JList [])" by (rule json_roundtrip_raw) simp
  moreover have "json_dumps (JList []) = lit ''[]''" by (simp add: lit_def)
  moreover have "py_strip (lit ''[]'') = lit ''[]''" by (rule py_strip_no_space) (simp_all add: lit_def py_space_def)
  ultimately show ?thesis by (simp add: segments_ok_def)
qed

text \<open>The example: the two texts of \<open>demo_http\<close>, with nobody else at work.\<close>

definition demo_streamed :: tqueue where
  "demo_streamed = proc_put id_a (lit '']'') (proc_put id_a (lit ''['') (proc_streaming id_a demo_mine))"

lemma demo_streamed_store:
  "store demo_streamed id_a = Some (job_a\<lparr>status := STREAMING, process_task := Some Running, chunk_queue := [Some (lit ''[''), Some (lit '']'')]\<rparr>)"
  "worker_task demo_streamed = Some (Awaiting id_a 2 False)" "reach usual_init usual_step demo_streamed" "locked (disk demo_streamed) = []"
proof -
  have r: "task_running demo_mine id_a" "task_running (proc_streaming id_a demo_mine) id_a"
      "task_running (proc_put id_a (lit ''['') (proc_streaming id_a demo_mine)) id_a"
    and lk: "locked (disk demo_mine) = []" "locked (disk (proc_streaming id_a demo_mine)) = []"
      "locked (disk (proc_put id_a (lit ''['') (proc_streaming id_a demo_mine))) = []"
    by (simp_all add: demo_mine_eq demo_start_def demo_fs_def task_running_def proc_streaming_def proc_put_def)
  show "reach usual_init usual_step demo_streamed"
    unfolding demo_streamed_def
    using usual_running(1) [OF r(1) lk(1)] usual_running(2) [OF r(2) lk(2)] usual_running(2) [OF r(3) lk(3)] demo_mine_reach
    by (meson reach_step)
  show "store demo_streamed id_a = Some (job_a\<lparr>status := STREAMING, process_task := Some Running, chunk_queue := [Some (lit ''[''), Some (lit '']'')]\<rparr>)"
    "worker_task demo_streamed = Some (Awaiting id_a 2 False)" "locked (disk demo_streamed) = []"
    by (simp_all add: demo_streamed_def demo_mine_eq demo_start_def demo_fs_def proc_streaming_def proc_put_def job_a_def new_job_def)
qed

lemma demo_run:
  "process_vibevoice_job demo_diag demo_settings demo_http (\<lambda>k q. q) id_a demo_mine = (None, demo_streamed)"
proof -
  let ?ts = "[lit ''['', lit '']'']"
  let ?j = "job_a\<lparr>status := PROCESSING, process_task := Some Running\<rparr>"
  have st: "stream_transcription demo_http (vllm_args_of demo_settings (encode_audio_base64 [1, 2, 3]) ?j) = (map JStr ?ts, None)"
    using demo_stream_any by simp
  have cat: "concat ?ts = lit ''[]''" by (simp add: lit_def)
  have n: "store demo_mine id_a = Some ?j" "node_at (disk demo_mine) demo_file = Some (RegFile 384 [1, 2, 3])"
    by (simp_all add: demo_mine_eq demo_start_def demo_fs_def node_at_def)
  have none: "validate_vibevoice_output demo_diag (lit ''['' @ lit '']'') j = None" for j
    using demo_segments cat by (simp add: validate_None)
  show ?thesis
    using n(1,2) st demo_streamed_store(1)
    by (simp add: process_vibevoice_job_def require_audio_path_def encode_audio_file_base64_def read_file_def job_a_def new_job_def
        demo_streamed_def finish_vibevoice_def Let_def none)
qed

theorem vibevoice_job_outcome_witness:
  "\<exists>b. process_vibevoice_job demo_diag demo_settings demo_http (\<lambda>k q. q) id_a demo_mine = (None, demo_streamed)
     \<and> store (worker_resume 9 (proc_finish id_a Returned demo_streamed)) id_a = Some b \<and> status b = COMPLETED"
proof -
  let ?j = "job_a\<lparr>status := PROCESSING, process_task := Some Running\<rparr>"
  have st: "stream_transcription demo_http (vllm_args_of demo_settings (encode_audio_base64 [1, 2, 3]) ?j)
      = (map JStr [lit ''['', lit '']''], None)"
    using demo_stream_any by simp
  have cat: "concat [lit ''['', lit '']''] = lit ''[]''" by (simp add: lit_def)
  have same: "\<exists>ys. j = j\<lparr>chunk_queue := ys\<rparr>" for j :: job by (rule exI [of _ "chunk_queue j"]) simp
  then have l: "listening id_a (\<lambda>k q. q)" by (simp add: listening_def)
  have n: "store demo_mine id_a = Some ?j" "node_at (disk demo_mine) demo_file = Some (RegFile 384 [1, 2, 3])"
    "worker_task demo_mine = Some (Awaiting id_a 2 False)"
    by (simp_all add: demo_mine_eq demo_start_def demo_fs_def node_at_def)
  have te: "task_end (\<lambda>x. []) None = Returned" by (simp add: task_end_def)
  let ?qf = "proc_finish id_a (task_end (\<lambda>x. []) None) demo_streamed"
  obtain jf where "store ?qf id_a = Some jf" using demo_streamed_store(1) by (simp add: proc_finish_def)
  then have left: "left_to_worker id_a ?qf ?qf" using same by (auto simp: left_to_worker_def)
  show ?thesis
    using vibevoice_job_outcome [OF demo_mine_reach n(3) n(1) _ _ l _ n(2) st demo_run rtranclp.rtrancl_refl left refl, of 9]
      demo_run demo_segments
    unfolding cat te by auto
qed

end
