(* ===== verification/Client_Setup.thy ===== *)
theory Client_Setup
  imports Py_Convert Wav_Audio
begin

section \<open>The client's server address and key pin (\<open>client/client.py\<close>)\<close>

text \<open>
  \<open>_normalize_base_url\<close> over \<open>urllib.parse.urlparse\<close>, \<open>_normalize_server_pin\<close> over
  \<open>base64.b64decode(..., validate=True)\<close>, the \<open>Host\<close> header and the pinned connection. The
  parser of URLs is that of Python 3.11, exact for ASCII text (other text goes through a check
  on its NFKC form). What the \<open>ipaddress\<close> module says of a host in brackets is a parameter,
  as is the table of printable characters.
\<close>

subsection \<open>\<open>urlparse\<close>\<close>

record url =
  u_scheme :: str
  u_netloc :: str
  u_path :: str
  u_params :: str
  u_query :: str
  u_fragment :: str

text \<open>\<open>s.partition(c)\<close> without the separator, and the part behind the last \<open>c\<close>.\<close>

definition before :: "nat \<Rightarrow> str \<Rightarrow> str" where
  "before c s = takeWhile (\<lambda>x. x \<noteq> c) s"

definition behind :: "nat \<Rightarrow> str \<Rightarrow> str" where
  "behind c s = drop (Suc (length (before c s))) s"

definition last_part :: "nat \<Rightarrow> str \<Rightarrow> str" where
  "last_part c s = rev (takeWhile (\<lambda>x. x \<noteq> c) (rev s))"

definition is_alpha :: "nat \<Rightarrow> bool" where
  "is_alpha c \<longleftrightarrow> 65 \<le> c \<and> c \<le> 90 \<or> 97 \<le> c \<and> c \<le> 122"

definition scheme_char :: "nat \<Rightarrow> bool" where
  "scheme_char c \<longleftrightarrow> is_alpha c \<or> is_digit c \<or> c = 43 \<or> c = 45 \<or> c = 46"

definition clean_url :: "str \<Rightarrow> str" where
  "clean_url s = filter (\<lambda>c. c \<noteq> 9 \<and> c \<noteq> 10 \<and> c \<noteq> 13) (dropWhile (\<lambda>c. c \<le> 32) s)"

definition split_scheme :: "str \<Rightarrow> str \<times> str" where
  "split_scheme s =
     (let pre = before 58 s
      in if 58 \<in> set s \<and> pre \<noteq> [] \<and> is_alpha (hd pre) \<and> list_all scheme_char pre
         then (py_lower pre, behind 58 s) else ([], s))"

definition split_netloc :: "str \<Rightarrow> str \<times> str" where
  "split_netloc s =
     (if take 2 s = [47, 47]
      then (let r = drop 2 s; n = takeWhile (\<lambda>c. c \<noteq> 47 \<and> c \<noteq> 63 \<and> c \<noteq> 35) r in (n, drop (length n) r))
      else ([], s))"

definition check_netloc :: "(str \<Rightarrow> str option) \<Rightarrow> str \<Rightarrow> unit res" where
  "check_netloc bad_bracketed n =
     (if (91 \<in> set n) \<noteq> (93 \<in> set n) then Inl (ValueError (lit ''Invalid IPv6 URL''))
      else if 91 \<in> set n
      then (case bad_bracketed (before 93 (behind 91 n)) of Some m \<Rightarrow> Inl (ValueError m) | None \<Rightarrow> Inr ())
      else Inr ())"

definition uses_params :: "str list" where
  "uses_params = [[], lit ''ftp'', lit ''hdl'', lit ''prospero'', lit ''http'', lit ''https'', lit ''shttp'',
     lit ''rtsp'', lit ''rtspu'', lit ''sip'', lit ''sips'', lit ''mms'', lit ''sftp'', lit ''tel'']"

definition split_params :: "str \<Rightarrow> str \<times> str" where
  "split_params s =
     (let tail = last_part 47 s; hd_part = take (length s - length tail) s
      in if 59 \<in> set tail then (hd_part @ before 59 tail, behind 59 tail) else (s, []))"

definition urlparse :: "(str \<Rightarrow> str option) \<Rightarrow> str \<Rightarrow> url res" where
  "urlparse bad_bracketed s =
     (let (scheme, r) = split_scheme (clean_url s); (netloc, r1) = split_netloc r
      in bind_res (check_netloc bad_bracketed netloc) (\<lambda>_.
        let fragment = behind 35 r1; r2 = before 35 r1; query = behind 63 r2; r3 = before 63 r2;
            (path, params) = (if scheme \<in> set uses_params then split_params r3 else (r3, []))
        in Inr \<lparr>u_scheme = scheme, u_netloc = netloc, u_path = path, u_params = params,
               u_query = query, u_fragment = fragment\<rparr>))"

text \<open>The attributes of the result: user name and password, host and port.\<close>

definition url_userinfo :: "url \<Rightarrow> str option" where
  "url_userinfo u =
     (let n = u_netloc u; h = last_part 64 n
      in if 64 \<in> set n then Some (take (length n - length h - 1) n) else None)"

definition url_username :: "url \<Rightarrow> str option" where
  "url_username u = map_option (before 58) (url_userinfo u)"

definition url_password :: "url \<Rightarrow> str option" where
  "url_password u = (case url_userinfo u of Some i \<Rightarrow> if 58 \<in> set i then Some (behind 58 i) else None | None \<Rightarrow> None)"

definition host_and_port :: "url \<Rightarrow> str \<times> str" where
  "host_and_port u =
     (let h = last_part 64 (u_netloc u)
      in if 91 \<in> set h
         then (let b = behind 91 h in (before 93 b, behind 58 (behind 93 b)))
         else (before 58 h, behind 58 h))"

definition url_hostname :: "url \<Rightarrow> str option" where
  "url_hostname u =
     (let h = fst (host_and_port u) in if h = [] then None else Some (py_lower (before 37 h) @ drop (length (before 37 h)) h))"

definition url_port :: "(nat \<Rightarrow> bool) \<Rightarrow> url \<Rightarrow> int option res" where
  "url_port pr u =
     (let p = snd (host_and_port u)
      in if p = [] then Inr None
         else if \<not> list_all is_digit p
         then Inl (ValueError (lit ''Port could not be cast to integer value as '' @ repr_text pr p))
         else if digits_value p > 65535 then Inl (ValueError (lit ''Port out of range 0-65535''))
         else Inr (Some (digits_value p)))"

subsection \<open>\<open>_normalize_base_url\<close>, \<open>_host_header\<close>\<close>

definition given :: "str option \<Rightarrow> bool" where
  "given x \<longleftrightarrow> x \<noteq> None \<and> x \<noteq> Some []"

definition authority :: "str \<Rightarrow> int option \<Rightarrow> str" where
  "authority h p = (case p of None \<Rightarrow> h | Some n \<Rightarrow> h @ 58 # show_int n)"

definition normalize_base_url :: "(nat \<Rightarrow> bool) \<Rightarrow> (str \<Rightarrow> str option) \<Rightarrow> str \<Rightarrow> str res" where
  "normalize_base_url pr bad_bracketed raw =
     bind_res (urlparse bad_bracketed (py_strip raw)) (\<lambda>u.
       if u_scheme u \<noteq> lit ''https'' then Inl (ValueError (lit ''server URL must be an HTTPS origin''))
       else if \<not> given (url_hostname u) \<or> given (url_username u) \<or> given (url_password u)
       then Inl (ValueError (lit ''server URL must include a host and no user info''))
       else if 58 \<in> set (the (url_hostname u))
       then Inl (ValueError (lit ''server URL must use an IPv4 address or DNS name, not an IPv6 literal''))
       else if u_path u \<notin> {[], [47]} \<or> u_query u \<noteq> [] \<or> u_fragment u \<noteq> []
       then Inl (ValueError (lit ''server URL must be an origin, not an endpoint URL''))
       else bind_res (url_port pr u) (\<lambda>p. Inr (lit ''https://'' @ authority (the (url_hostname u)) p)))"

definition host_header :: "str \<Rightarrow> int option \<Rightarrow> str" where
  "host_header host p =
     authority (if 58 \<in> set host \<and> \<not> py_startswith host [91] then 91 # host @ [93] else host) p"

subsection \<open>\<open>_normalize_server_pin\<close>\<close>

text \<open>\<open>b64decode\<close> with \<open>validate=True\<close>: the position in the group of four, the bits left over, the
  pad characters of the group, and whether padding has begun. Unused bits of the last
  character are not looked at.\<close>

definition b64_alpha :: "nat \<Rightarrow> bool" where
  "b64_alpha c \<longleftrightarrow> is_alpha c \<or> is_digit c \<or> c = 43 \<or> c = 47"

definition octet :: "int \<Rightarrow> byte" where
  "octet v = word_of_int v"

fun strict_b64 :: "nat \<Rightarrow> int \<Rightarrow> nat \<Rightarrow> bool \<Rightarrow> str \<Rightarrow> bytes option" where
  "strict_b64 quad left pads padding [] = (if quad = 0 then Some [] else None)"
| "strict_b64 quad left pads padding (c # cs) =
     (if c = 61
      then (if 2 \<le> quad \<and> 4 \<le> quad + (pads + 1) then (if cs = [] then Some [] else None)
            else strict_b64 quad left (if 2 \<le> quad then pads + 1 else pads) True cs)
      else if \<not> b64_alpha c \<or> padding then None
      else (let v = b64_value c
            in if quad = 0 then strict_b64 1 v 0 False cs
               else if quad = 1
               then map_option ((#) (octet (left * 4 + v div 16))) (strict_b64 2 (v mod 16) 0 False cs)
               else if quad = 2
               then map_option ((#) (octet (left * 16 + v div 4))) (strict_b64 3 (v mod 4) 0 False cs)
               else map_option ((#) (octet (left * 64 + v))) (strict_b64 0 0 0 False cs)))"

definition b64decode_validate :: "str \<Rightarrow> bytes option" where
  "b64decode_validate s = (if s \<noteq> [] \<and> hd s = 61 then None else strict_b64 0 0 0 False s)"

definition server_pin_prefix :: str where
  "server_pin_prefix = lit ''sha256/''"

definition normalize_server_pin :: "str \<Rightarrow> str res" where
  "normalize_server_pin raw =
     (let value = py_strip raw
      in if \<not> py_startswith value server_pin_prefix
         then Inl (ValueError (lit ''server pin must start with sha256/''))
         else (case b64decode_validate (drop (length server_pin_prefix) value) of
                 None \<Rightarrow> Inl (ValueError (lit ''server pin is not valid base64''))
               | Some decoded \<Rightarrow>
                   if length decoded \<noteq> 32 then Inl (ValueError (lit ''server pin must be a SHA-256 hash''))
                   else Inr (server_pin_prefix @ encode_audio_base64 decoded)))"

subsection \<open>The client and its pinned connection\<close>

text \<open>\<open>VibevoiceClient.__init__\<close> without the TLS context, the headers of a request, the address
  it connects to.\<close>

record client =
  cl_base_url :: str
  cl_url :: url
  cl_server_pin :: str

definition new_client :: "(nat \<Rightarrow> bool) \<Rightarrow> (str \<Rightarrow> str option) \<Rightarrow> str \<Rightarrow> str \<Rightarrow> client res" where
  "new_client pr bad_bracketed base_url server_pin =
     bind_res (normalize_base_url pr bad_bracketed base_url) (\<lambda>b.
     bind_res (urlparse bad_bracketed b) (\<lambda>u.
     bind_res (normalize_server_pin server_pin) (\<lambda>p.
       Inr \<lparr>cl_base_url = b, cl_url = u, cl_server_pin = p\<rparr>)))"

definition client_host :: "client \<Rightarrow> str" where
  "client_host c = (case url_hostname (cl_url c) of None \<Rightarrow> [] | Some h \<Rightarrow> h)"

definition client_headers :: "(nat \<Rightarrow> bool) \<Rightarrow> client \<Rightarrow> (str \<times> str) list res" where
  "client_headers pr c =
     bind_res (url_port pr (cl_url c)) (\<lambda>p.
       Inr [(lit ''Host'', host_header (client_host c) p), (lit ''Connection'', lit ''close'')])"

definition client_address :: "(nat \<Rightarrow> bool) \<Rightarrow> client \<Rightarrow> (str \<times> int) res" where
  "client_address pr c =
     bind_res (url_port pr (cl_url c)) (\<lambda>p.
       Inr (client_host c, case p of None \<Rightarrow> 443 | Some n \<Rightarrow> if n = 0 then 443 else n))"

text \<open>\<open>_build_ssl_context\<close>: TLS 1.3 only, and neither host name nor chain are checked, since the pin
  is. The arguments of \<open>load_cert_chain\<close> depend on the kind of the certificate argument; what it
  raises is a parameter.\<close>

datatype client_cert = OneFile str | TwoFiles str str | ThreeFiles str str str

record ssl_context =
  sx_minimum_version :: str
  sx_maximum_version :: str
  sx_check_hostname :: bool
  sx_verify_mode :: str
  sx_chain :: "str list"

definition build_ssl_context :: "(str list \<Rightarrow> exn option) \<Rightarrow> client_cert \<Rightarrow> ssl_context res" where
  "build_ssl_context load cert =
     (let chain = (case cert of OneFile a \<Rightarrow> [a] | TwoFiles a b \<Rightarrow> [a, b] | ThreeFiles a b c \<Rightarrow> [a, b, c])
      in case load chain of
           Some e \<Rightarrow> Inl e
         | None \<Rightarrow> Inr \<lparr>sx_minimum_version = lit ''TLSv1.3'', sx_maximum_version = lit ''TLSv1.3'', sx_check_hostname = False,
             sx_verify_mode = lit ''CERT_NONE'', sx_chain = chain\<rparr>)"

text \<open>\<open>_PinnedHTTPSConnection.connect\<close>: how the TLS handshake ended (an error, no socket, or the
  certificate the server sent), and whether the connection is then closed. The key of a
  certificate and SHA-256 are parameters.\<close>

datatype handshake = HandshakeError exn | NoSocket | PeerCert "bytes option"

definition spki_pin :: "(bytes \<Rightarrow> bytes res) \<Rightarrow> (bytes \<Rightarrow> bytes) \<Rightarrow> bytes \<Rightarrow> str res" where
  "spki_pin spki_of sha256 der =
     bind_res (spki_of der) (\<lambda>k. Inr (server_pin_prefix @ encode_audio_base64 (sha256 k)))"

definition pinned_connect ::
    "(bytes \<Rightarrow> bytes res) \<Rightarrow> (bytes \<Rightarrow> bytes) \<Rightarrow> str \<Rightarrow> handshake \<Rightarrow> unit res \<times> bool" where
  "pinned_connect spki_of sha256 expected h =
     (case h of
        HandshakeError e \<Rightarrow> (Inl e, False)
      | NoSocket \<Rightarrow> (Inl (RuntimeError (lit ''TLS connection did not produce a socket'')), False)
      | PeerCert c \<Rightarrow>
          (if c = None \<or> c = Some [] then (Inl (SSLError (lit ''server did not present a certificate'')), False)
           else case spki_pin spki_of sha256 (the c) of
             Inl e \<Rightarrow> (Inl e, False)
           | Inr actual \<Rightarrow>
               if actual \<noteq> expected then (Inl (SSLError (lit ''server public key pin mismatch'')), True)
               else (Inr (), False)))"

subsection \<open>Pins\<close>

lemma b64_char_alpha: "0 \<le> v \<Longrightarrow> v < 64 \<Longrightarrow> b64_alpha (b64_char v)"
proof -
  assume v: "0 \<le> v" "v < 64"
  then consider "v < 26" | "26 \<le> v" "v < 52" | "52 \<le> v" "v < 62" | "v = 62" | "v = 63" by linarith
  then show ?thesis using v by cases (auto simp: b64_alpha_def is_alpha_def is_digit_def b64_char_def)
qed

lemma sextet_alpha:
  fixes a b :: byte
  shows "b64_alpha (b64_char (uint a div 4))" "b64_alpha (b64_char (uint a mod 64))"
    "b64_alpha (b64_char (uint a mod 4 * 16))" "b64_alpha (b64_char (uint a mod 16 * 4))"
    "b64_alpha (b64_char (uint a mod 4 * 16 + uint b div 16))"
    "b64_alpha (b64_char (uint a mod 16 * 4 + uint b div 64))"
proof -
  have r: "b64_alpha (b64_char v)" if "0 \<le> v \<and> v < 64" for v using that b64_char_alpha by blast
  show "b64_alpha (b64_char (uint a div 4))" "b64_alpha (b64_char (uint a mod 64))"
    by (rule r, simp add: byte_parts)+
  show "b64_alpha (b64_char (uint a mod 4 * 16))" by (rule r, rule sextet_bounds(3); rule byte_parts)
  show "b64_alpha (b64_char (uint a mod 16 * 4))" by (rule r, rule sextet_bounds(4); rule byte_parts)
  show "b64_alpha (b64_char (uint a mod 4 * 16 + uint b div 16))" by (rule r, rule sextet_bounds(1); rule byte_parts)
  show "b64_alpha (b64_char (uint a mod 16 * 4 + uint b div 64))" by (rule r, rule sextet_bounds(2); rule byte_parts)
qed

lemma octet_uint [simp]: "octet (uint b) = b"
  by (simp add: octet_def)

lemma strict_b64_step:
  assumes "b64_alpha c" "c \<noteq> 61" "b64_value c = v"
  shows "strict_b64 0 l p False (c # cs) = strict_b64 1 v 0 False cs"
    "strict_b64 1 l p False (c # cs) = map_option ((#) (octet (l * 4 + v div 16))) (strict_b64 2 (v mod 16) 0 False cs)"
    "strict_b64 2 l p False (c # cs) = map_option ((#) (octet (l * 16 + v div 4))) (strict_b64 3 (v mod 4) 0 False cs)"
    "strict_b64 3 l p False (c # cs) = map_option ((#) (octet (l * 64 + v))) (strict_b64 0 0 0 False cs)"
  using assms by simp_all

lemma strict_b64_pad:
  "strict_b64 2 l 0 False [61, 61] = Some []" "strict_b64 3 l 0 False [61] = Some []"
  by simp_all

lemmas b64_steps = strict_b64_step [OF sextet_alpha(1) _ sextet_values(1)] strict_b64_step [OF sextet_alpha(2) _ sextet_values(6)]
  strict_b64_step [OF sextet_alpha(3) _ sextet_values(2)] strict_b64_step [OF sextet_alpha(4) _ sextet_values(4)]
  strict_b64_step [OF sextet_alpha(5) _ sextet_values(3)] strict_b64_step [OF sextet_alpha(6) _ sextet_values(5)]

lemma strict_b64_encode: "strict_b64 0 0 0 False (encode_audio_base64 bs) = Some bs"
proof (induction bs rule: encode_audio_base64.induct)
  case (2 a)
  show ?case
    by (simp only: encode_audio_base64.simps b64_steps sextet_chars strict_b64_pad sextet_joins octet_uint
        not_False_eq_True option.map)
next
  case (3 a b)
  show ?case
    by (simp only: encode_audio_base64.simps b64_steps sextet_chars strict_b64_pad sextet_joins octet_uint
        not_False_eq_True option.map)
next
  case (4 a b c rest)
  then show ?case
    by (simp only: encode_audio_base64.simps b64_steps sextet_chars sextet_joins octet_uint
        not_False_eq_True option.map)
qed simp

lemma encode_head: "encode_audio_base64 bs = [] \<or> hd (encode_audio_base64 bs) \<noteq> 61"
  by (cases bs rule: encode_audio_base64.cases) (simp_all add: sextet_chars)

lemma decode_validate_encode: "b64decode_validate (encode_audio_base64 bs) = Some bs"
  using encode_head [of bs] by (auto simp: b64decode_validate_def strict_b64_encode)

lemma pin_parts:
  assumes "normalize_server_pin raw = Inr pin"
  obtains d where "py_startswith (py_strip raw) server_pin_prefix"
    "b64decode_validate (drop (length server_pin_prefix) (py_strip raw)) = Some d" "length d = 32"
    "pin = server_pin_prefix @ encode_audio_base64 d"
  using assms by (auto simp: normalize_server_pin_def Let_def split: if_splits option.splits)

lemma encode_inject: "encode_audio_base64 x = encode_audio_base64 y \<longleftrightarrow> x = y"
  by (metis decode_encode)

lemma pin_strip: "length d = 32 \<Longrightarrow> py_strip (server_pin_prefix @ encode_audio_base64 d) = server_pin_prefix @ encode_audio_base64 d"
proof (rule py_strip_no_space)
  assume d: "length d = 32"
  let ?e = "encode_audio_base64 d"
  have "?e \<noteq> []" using length_encode [of d] d by auto
  moreover have "\<not> py_space c" if "c \<in> set ?e" for c
  proof -
    have "set (encode_audio_base64 bs) \<subseteq> {c. b64_alpha c \<or> c = 61}" for bs
      by (induction bs rule: encode_audio_base64.induct) (simp_all add: sextet_alpha)
    with that have "b64_alpha c \<or> c = 61" by blast
    then show ?thesis by (auto simp: b64_alpha_def is_alpha_def is_digit_def py_space_def)
  qed
  ultimately show "\<not> py_space (last (server_pin_prefix @ ?e))" by simp
qed (simp_all add: server_pin_prefix_def lit_def py_space_def)

lemma pin_normal_form: "length d = 32 \<Longrightarrow>
    normalize_server_pin (server_pin_prefix @ encode_audio_base64 d) = Inr (server_pin_prefix @ encode_audio_base64 d)"
  by (simp add: normalize_server_pin_def pin_strip decode_validate_encode)

subsection \<open>Addresses\<close>

lemma set_before: "set (before c s) \<subseteq> set s - {c}"
  unfolding before_def using set_takeWhileD by fastforce

lemma set_behind: "set (behind c s) \<subseteq> set s"
  by (simp add: behind_def set_drop_subset)

lemma set_last_part: "set (last_part c s) \<subseteq> set s - {c}"
  unfolding last_part_def using set_takeWhileD by fastforce

lemma before_split: "c \<notin> set a \<Longrightarrow> before c (a @ c # b) = a" "c \<notin> set a \<Longrightarrow> before c a = a"
  unfolding before_def by (induction a) auto

lemma behind_split: "c \<notin> set a \<Longrightarrow> behind c (a @ c # b) = b" "c \<notin> set a \<Longrightarrow> behind c a = []"
  by (simp_all add: behind_def before_split)

lemma last_part_whole: "c \<notin> set a \<Longrightarrow> last_part c a = a"
proof -
  assume "c \<notin> set a"
  then have "takeWhile (\<lambda>x. x \<noteq> c) (rev a) = rev a" by (auto simp: takeWhile_eq_all_conv)
  then show ?thesis by (simp only: last_part_def rev_rev_ident)
qed

lemma py_lower_set: "c \<in> set (py_lower s) \<Longrightarrow> c \<in> set s \<or> 97 \<le> c \<and> c \<le> 122 \<or> 224 \<le> c \<and> c \<le> 254"
  by (auto simp: py_lower_def lower_char_def split: if_splits)

lemma py_lower_ascii: "\<forall>x \<in> set s. x < 127 \<Longrightarrow> c \<in> set (py_lower s) \<Longrightarrow> c \<in> set s \<or> 97 \<le> c \<and> c \<le> 122"
  by (auto simp: py_lower_def lower_char_def split: if_splits)

text \<open>The characters of a host name.\<close>

definition host_chars :: "str \<Rightarrow> bool" where
  "host_chars h \<longleftrightarrow> (\<forall>c \<in> set h. 32 < c \<and> c < 127 \<and> c \<notin> {35, 47, 58, 63, 64, 91, 93})"

definition lower_host :: "str \<Rightarrow> bool" where
  "lower_host h \<longleftrightarrow> py_lower (before 37 h) = before 37 h"

lemma before_append: "c \<notin> set a \<Longrightarrow> before c (a @ b) = a @ before c b"
  unfolding before_def by (induction a) auto

lemma lower_host_lowered:
  "lower_host (py_lower (before 37 h) @ drop (length (before 37 h)) h)"
  "host_chars h \<Longrightarrow> host_chars (py_lower (before 37 h) @ drop (length (before 37 h)) h)"
proof -
  have p: "37 \<notin> set (py_lower (before 37 h))" using py_lower_set [of 37 "before 37 h"] set_before [of 37 h] by auto
  have "drop (length (before 37 h)) h = dropWhile (\<lambda>x. x \<noteq> 37) h"
    unfolding before_def by (rule dropWhile_eq_drop [symmetric])
  then have "before 37 (drop (length (before 37 h)) h) = []"
    by (metis (mono_tags, lifting) before_def hd_dropWhile takeWhile_eq_Nil_iff)
  then show "lower_host (py_lower (before 37 h) @ drop (length (before 37 h)) h)"
    using p by (simp add: lower_host_def before_append py_lower_idem)
  show "host_chars h \<Longrightarrow> host_chars (py_lower (before 37 h) @ drop (length (before 37 h)) h)"
    unfolding host_chars_def using py_lower_ascii [of "before 37 h"] set_before [of 37 h] set_drop_subset [of "length (before 37 h)" h]
    by fastforce
qed

lemma url_parts:
  assumes "urlparse bb s = Inr u"
  shows "set (u_netloc u) \<subseteq> set s - {9, 10, 13, 35, 47, 63}"
    "91 \<notin> set s \<Longrightarrow> 93 \<notin> set (u_netloc u)"
proof -
  obtain scheme r where a: "split_scheme (clean_url s) = (scheme, r)" by fastforce
  obtain n r1 where b: "split_netloc r = (n, r1)" by fastforce
  have n: "u_netloc u = n" "check_netloc bb n = Inr ()"
    using assms by (auto simp: urlparse_def a b bind_res_eq_Inr Let_def split: prod.splits)
  have "set r \<subseteq> set (clean_url s)"
    using a set_behind [of 58 "clean_url s"] by (auto simp: split_scheme_def Let_def split: if_splits)
  moreover have "set (clean_url s) \<subseteq> set s - {9, 10, 13}"
    unfolding clean_url_def using set_dropWhileD by fastforce
  moreover have "set n \<subseteq> set r - {35, 47, 63}"
    using b set_takeWhileD set_drop_subset [of 2 r] by (fastforce simp: split_netloc_def Let_def split: if_splits)
  ultimately show *: "set (u_netloc u) \<subseteq> set s - {9, 10, 13, 35, 47, 63}" using n by blast
  show "91 \<notin> set s \<Longrightarrow> 93 \<notin> set (u_netloc u)"
    using n * by (auto simp: check_netloc_def split: if_splits)
qed

text \<open>Reading back a normal form: the address is what was written.\<close>

definition port_ok :: "int option \<Rightarrow> bool" where
  "port_ok p \<longleftrightarrow> (case p of None \<Rightarrow> True | Some n \<Rightarrow> 0 \<le> n \<and> n \<le> 65535)"

definition origin :: "str \<Rightarrow> int option \<Rightarrow> url" where
  "origin h p = \<lparr>u_scheme = lit ''https'', u_netloc = authority h p, u_path = [], u_params = [], u_query = [], u_fragment = []\<rparr>"

lemma show_int_digits: "0 \<le> n \<Longrightarrow> list_all is_digit (show_int n)" "0 \<le> n \<Longrightarrow> digits_value (show_int n) = n" "show_int n \<noteq> []"
  by (simp_all add: show_int_def show_nat_is_digits digits_value_show_nat)

lemma authority_chars: "host_chars h \<Longrightarrow> port_ok p \<Longrightarrow> c \<in> set (authority h p) \<Longrightarrow> 32 < c \<and> c < 127 \<and> c \<notin> {35, 47, 63, 64, 91, 93}"
  using show_int_digits(1) by (fastforce simp: authority_def host_chars_def port_ok_def list_all_iff is_digit_def split: option.splits)

lemma parse_origin:
  assumes h: "host_chars h" and p: "port_ok p"
  shows "urlparse bb (lit ''https://'' @ authority h p) = Inr (origin h p)"
proof -
  let ?a = "authority h p"
  note c = authority_chars [OF h p]
  have l: "lit ''https://'' = lit ''https'' @ [58, 47, 47]" by (simp add: lit_def)
  have "filter (\<lambda>c. c \<noteq> 9 \<and> c \<noteq> 10 \<and> c \<noteq> 13) ?a = ?a" using c by (fastforce simp: filter_id_conv)
  then have 1: "clean_url (lit ''https://'' @ ?a) = lit ''https'' @ 58 # 47 # 47 # ?a"
    by (simp add: clean_url_def lit_def)
  have "(58::nat) \<notin> set (lit ''https'')" by (simp add: lit_def)
  then have 2: "split_scheme (lit ''https'' @ 58 # 47 # 47 # ?a) = (lit ''https'', 47 # 47 # ?a)"
    by (simp add: split_scheme_def before_split behind_split Let_def)
      (simp add: lit_def is_alpha_def scheme_char_def py_lower_def lower_char_def)
  have "takeWhile (\<lambda>c. c \<noteq> 47 \<and> c \<noteq> 63 \<and> c \<noteq> 35) ?a = ?a" using c by (fastforce simp: takeWhile_eq_all_conv)
  then have 3: "split_netloc (47 # 47 # ?a) = (?a, [])" by (simp add: split_netloc_def Let_def del: takeWhile_eq_all_conv)
  have 4: "check_netloc bb ?a = Inr ()" using c by (fastforce simp: check_netloc_def)
  show ?thesis
    by (simp add: urlparse_def 1 2 3 4 before_def behind_def split_params_def last_part_def origin_def uses_params_def)
qed

lemma origin_address:
  assumes h: "host_chars h" "lower_host h" "h \<noteq> []" and p: "port_ok p"
  shows "url_hostname (origin h p) = Some h" "url_port pr (origin h p) = Inr p"
    "url_username (origin h p) = None" "url_password (origin h p) = None"
proof -
  have at: "64 \<notin> set (authority h p)" "91 \<notin> set (authority h p)" using authority_chars [OF h(1) p] by blast+
  have colon: "58 \<notin> set h" using h(1) by (auto simp: host_chars_def)
  have hp: "host_and_port (origin h p) = (h, case p of None \<Rightarrow> [] | Some n \<Rightarrow> show_int n)"
    using at colon by (simp add: host_and_port_def origin_def last_part_whole Let_def)
      (simp add: authority_def before_split behind_split split: option.splits)
  have "before 37 h @ drop (length (before 37 h)) h = h" by (simp add: before_def dropWhile_eq_drop [symmetric])
  then show "url_hostname (origin h p) = Some h"
    using h by (simp add: url_hostname_def hp lower_host_def Let_def)
  show "url_port pr (origin h p) = Inr p"
    using p show_int_digits by (auto simp: url_port_def hp port_ok_def Let_def split: option.splits)
  show "url_username (origin h p) = None" "url_password (origin h p) = None"
    using at by (simp_all add: url_username_def url_password_def url_userinfo_def origin_def Let_def)
qed

lemma digits_value_nonneg: "list_all is_digit ds \<Longrightarrow> 0 \<le> digits_value ds"
proof -
  have "list_all is_digit ds \<Longrightarrow> 0 \<le> x \<Longrightarrow> 0 \<le> foldl (\<lambda>n d. 10 * n + (int d - 48)) x ds" for x
    by (induction ds arbitrary: x) (auto simp: is_digit_def)
  then show "list_all is_digit ds \<Longrightarrow> 0 \<le> digits_value ds" by (simp add: digits_value_def)
qed

lemma url_port_range: "url_port pr u = Inr (Some n) \<Longrightarrow> 0 \<le> n \<and> n \<le> 65535"
  using digits_value_nonneg by (auto simp: url_port_def Let_def split: if_splits)

lemma normalize_origin:
  assumes h: "h \<noteq> []" "host_chars h" "lower_host h" and p: "port_ok p"
  shows "normalize_base_url pr bb (lit ''https://'' @ authority h p) = Inr (lit ''https://'' @ authority h p)"
proof -
  let ?s = "lit ''https://'' @ authority h p"
  have "authority h p \<noteq> []" using h(1) by (simp add: authority_def split: option.splits)
  then have "last ?s \<in> set (authority h p)" by simp
  then have "py_strip ?s = ?s"
    using authority_chars [OF h(2) p, of "last ?s"]
    by (intro py_strip_no_space) (auto simp: lit_def py_space_def)
  moreover have "58 \<notin> set h" using h(2) by (auto simp: host_chars_def)
  ultimately show ?thesis
    using h by (simp add: normalize_base_url_def parse_origin [OF h(2) p] origin_address [OF h(2,3,1) p] given_def)
      (simp add: origin_def)
qed

subsection \<open>Properties\<close>

text \<open>The spellings of an origin with a host and the digits of a port: any case of the scheme, empty
  user information, no port or a colon before the digits (maybe none), the path empty or \<open>/\<close>, which
  may have parameters behind a semicolon, an empty query and an empty fragment.\<close>

definition spelled_origin :: "str \<Rightarrow> str \<Rightarrow> str \<Rightarrow> bool" where
  "spelled_origin s host ds \<longleftrightarrow> host \<noteq> [] \<and> host_chars host \<and> list_all is_digit ds \<and> digits_value ds \<le> 65535 \<and> (\<exists>scheme user port path query fragment.
     s = scheme @ lit ''://'' @ user @ host @ port @ path @ query @ fragment
     \<and> py_lower scheme = lit ''https'' \<and> user \<in> {[], lit ''@'', lit '':@''} \<and> (port = [] \<and> ds = [] \<or> port = 58 # ds)
     \<and> (path \<in> {[], [47]} \<or> (\<exists>x. path = 47 # 59 # x \<and> set x \<inter> {35, 47, 63} = {}))
     \<and> query \<in> {[], [63]} \<and> fragment \<in> {[], [35]})"

lemma spelled_originI:
  assumes "s = scheme @ lit ''://'' @ user @ host @ port @ path @ query @ fragment" "py_lower scheme = lit ''https''"
    and "user \<in> {[], lit ''@'', lit '':@''}" "port = [] \<and> ds = [] \<or> port = 58 # ds"
    and "path \<in> {[], [47]} \<or> (\<exists>x. path = 47 # 59 # x \<and> set x \<inter> {35, 47, 63} = {})" "query \<in> {[], [63]}" "fragment \<in> {[], [35]}"
    and "host \<noteq> []" "host_chars host" "list_all is_digit ds" "digits_value ds \<le> 65535"
  shows "spelled_origin s host ds"
  unfolding spelled_origin_def
  by (intro conjI; (rule assms)?) (rule exI [of _ scheme], rule exI [of _ user], rule exI [of _ port], rule exI [of _ path],
      rule exI [of _ query], rule exI [of _ fragment], intro conjI; rule assms)

definition port_given :: "str \<Rightarrow> int option" where
  "port_given ds = (if ds = [] then None else Some (digits_value ds))"

text \<open>The host of the normal form: lower case, up to a percent sign.\<close>

definition lowered :: "str \<Rightarrow> str" where
  "lowered host = py_lower (before 37 host) @ drop (length (before 37 host)) host"

lemma split_at: "c \<in> set s \<Longrightarrow> s = before c s @ c # behind c s"
  unfolding before_def behind_def by (induction s) auto

lemma behind_empty: "behind c s = [] \<Longrightarrow> s = before c s \<or> s = before c s @ [c]"
  using split_at [of c s] before_split(2) [of c s] by (cases "c \<in> set s") auto

lemma split_last:
  assumes "c \<in> set s"
  shows "s = take (length s - length (last_part c s) - 1) s @ c # last_part c s"
proof -
  have "rev s = before c (rev s) @ c # behind c (rev s)" using assms by (intro split_at) simp
  then have "s = rev (behind c (rev s)) @ c # rev (before c (rev s))" by (metis append.assoc append_Cons append_Nil rev.simps(2) rev_append rev_rev_ident)
  then have e: "s = rev (behind c (rev s)) @ c # last_part c s" by (simp only: last_part_def before_def)
  have "take (length s - length (last_part c s) - 1) s = rev (behind c (rev s))" by (subst (3) e, subst e) simp
  then show ?thesis using e by simp
qed

lemma last_part_split: "c \<notin> set b \<Longrightarrow> last_part c (a @ c # b) = b"
proof -
  assume "c \<notin> set b"
  then have "takeWhile (\<lambda>x. x \<noteq> c) (rev b @ [c] @ rev a) = rev b" by (subst takeWhile_append2) auto
  then show ?thesis by (simp add: last_part_def)
qed

lemma clean_printable: "\<forall>c \<in> set s. 32 < c \<Longrightarrow> clean_url s = s"
proof -
  assume c: "\<forall>c \<in> set s. 32 < c"
  then have "dropWhile (\<lambda>c. c \<le> 32) s = s" by (cases s) auto
  then show ?thesis using c by (force simp: clean_url_def filter_id_conv)
qed

lemma https_alpha: "py_lower sc = lit ''https'' \<Longrightarrow> c \<in> set sc \<Longrightarrow> is_alpha c"
proof -
  assume "py_lower sc = lit ''https''" "c \<in> set sc"
  then have "lower_char c \<in> set (lit ''https'')" by (metis image_eqI list.set_map py_lower_def)
  then show ?thesis by (auto simp: lit_def lower_char_def is_alpha_def split: if_splits)
qed

lemma params_of_path:
  assumes "split_params r = (path, ps)" "path \<in> {[], [47]}" "r = [] \<or> hd r = 47" "set r \<inter> {35, 63} = {}"
  shows "r \<in> {[], [47]} \<or> (\<exists>x. r = 47 # 59 # x \<and> set x \<inter> {35, 47, 63} = {})"
proof (cases "59 \<in> set (last_part 47 r)")
  case True
  then obtain y where r: "r = 47 # y" using assms(3) by (cases r) (auto simp: last_part_def)
  have "47 \<in> set r" by (simp add: r)
  then obtain h where s: "r = h @ 47 # last_part 47 r" using split_last by blast
  have "r = (h @ [47]) @ last_part 47 r" using s by simp
  then have "take (length r - length (last_part 47 r)) r = h @ [47]"
    by (metis (no_types, lifting) add_diff_cancel_right' append_eq_conv_conj length_append)
  then have p: "path = h @ 47 # before 59 (last_part 47 r)" using assms(1) True by (simp add: split_params_def Let_def)
  then have h: "h = []" "before 59 (last_part 47 r) = []" using assms(2) by (auto simp: append_eq_Cons_conv)
  then have "last_part 47 r = 59 # behind 59 (last_part 47 r)" using split_at [OF True] by simp
  then obtain x where x: "last_part 47 r = 59 # x" by blast
  have "r = 47 # 59 # x" using s x h(1) by simp
  moreover have "47 \<notin> set x" using set_last_part [of 47 r] x by auto
  ultimately show ?thesis using assms(4) by auto
next
  case False
  then show ?thesis using assms(1,2) by (simp add: split_params_def Let_def)
qed

lemma netloc_user:
  assumes "\<not> given (url_username u)" "\<not> given (url_password u)"
  shows "\<exists>user \<in> {[], lit ''@'', lit '':@''}. u_netloc u = user @ last_part 64 (u_netloc u)"
proof (cases "64 \<in> set (u_netloc u)")
  case True
  let ?n = "u_netloc u"
  define i where "i = take (length ?n - length (last_part 64 ?n) - 1) ?n"
  have n: "?n = i @ 64 # last_part 64 ?n" using True unfolding i_def by (rule split_last)
  have i: "url_userinfo u = Some i" using True by (simp add: url_userinfo_def Let_def i_def)
  then have b: "before 58 i = []" using assms(1) by (simp add: url_username_def given_def)
  have "i = [] \<or> i = [58]"
  proof (cases "58 \<in> set i")
    case True
    then have "behind 58 i = []" using assms(2) i by (simp add: url_password_def given_def)
    then show ?thesis using split_at [OF True] b by simp
  next
    case False
    then show ?thesis using b before_split(2) [of 58 i] by simp
  qed
  then show ?thesis
  proof
    assume "i = []"
    then have "?n = lit ''@'' @ last_part 64 ?n" using n by (simp add: lit_def)
    then show ?thesis by blast
  next
    assume "i = [58]"
    then have "?n = lit '':@'' @ last_part 64 ?n" using n by (simp add: lit_def)
    then show ?thesis by blast
  qed
next
  case False
  then show ?thesis by (simp add: last_part_whole)
qed

lemma spelled_parse:
  assumes s: "s = scheme @ 58 # 47 # 47 # net @ path @ query @ fragment" and sc: "py_lower scheme = lit ''https''"
    and net: "set net \<inter> {35, 47, 63, 91, 93} = {}"
    and path: "path \<in> {[], [47]} \<or> (\<exists>x. path = 47 # 59 # x \<and> set x \<inter> {35, 47, 63} = {})"
    and ends: "query \<in> {[], [63]}" "fragment \<in> {[], [35]}" and pr: "\<forall>c \<in> set s. 32 < c"
  shows "\<exists>u. urlparse bb s = Inr u \<and> u_scheme u = lit ''https'' \<and> u_netloc u = net \<and> u_path u \<in> {[], [47]}
    \<and> u_query u = [] \<and> u_fragment u = []"
proof -
  have alpha: "c \<in> set scheme \<Longrightarrow> is_alpha c" for c using https_alpha [OF sc] .
  have "scheme \<noteq> []" using sc by (auto simp: py_lower_def lit_def)
  moreover have "58 \<notin> set scheme" using alpha [of 58] by (auto simp: is_alpha_def)
  moreover have "list_all scheme_char scheme" using alpha by (auto simp: list_all_iff scheme_char_def)
  ultimately have 1: "split_scheme s = (lit ''https'', 47 # 47 # net @ path @ query @ fragment)"
    using alpha sc by (simp add: s split_scheme_def before_split behind_split Let_def)
  let ?t = "path @ query @ fragment"
  have t: "?t = [] \<or> hd ?t \<in> {35, 47, 63}" using path ends by auto
  have "takeWhile (\<lambda>c. c \<noteq> 47 \<and> c \<noteq> 63 \<and> c \<noteq> 35) (net @ ?t) = net"
    using net t by (cases ?t) (auto simp: takeWhile_append2 takeWhile_eq_all_conv takeWhile_tail)
  then have 2: "split_netloc (47 # 47 # net @ ?t) = (net, ?t)" by (simp add: split_netloc_def Let_def)
  have 3: "check_netloc bb net = Inr ()" using net by (auto simp: check_netloc_def)
  have p35: "35 \<notin> set (path @ query)" "63 \<notin> set path" using path ends(1) by auto
  then have f: "before 35 ?t = path @ query" "behind 35 ?t = []"
    using ends(2) before_split [OF p35(1)] behind_split [OF p35(1)] by auto
  have q: "before 63 (path @ query) = path" "behind 63 (path @ query) = []"
    using ends(1) before_split [OF p35(2)] behind_split [OF p35(2)] by auto
  have "fst (split_params path) \<in> {[], [47]}"
  proof -
    have "fst (split_params (47 # 59 # x)) = [47]" if "47 \<notin> set x" for x
    proof -
      have "last_part 47 (47 # 59 # x) = 59 # x" using last_part_split [of 47 "59 # x" "[]"] that by simp
      then show ?thesis by (simp add: split_params_def Let_def before_def)
    qed
    moreover have "fst (split_params y) = y" if "y \<in> {[], [47]}" for y :: str
      using that by (auto simp: split_params_def last_part_def)
    ultimately show ?thesis using path by auto
  qed
  then show ?thesis
    using clean_printable [OF pr] 1 2 3 f q
    by (auto simp: urlparse_def uses_params_def split: prod.splits)
qed

text \<open>Read as its host and its port.\<close>

lemma netloc_address:
  assumes n: "u_netloc u = user @ host @ port" and user: "user \<in> {[], lit ''@'', lit '':@''}"
    and host: "host_chars host" "host \<noteq> []" and port: "port = [] \<and> ds = [] \<or> port = 58 # ds" "list_all is_digit ds"
  shows "host_and_port u = (host, ds)" "\<not> given (url_username u)" "\<not> given (url_password u)"
proof -
  have free: "64 \<notin> set (host @ port)" "91 \<notin> set (host @ port)" "58 \<notin> set host"
  proof -
    have "set port \<subseteq> insert 58 (set ds)" using port(1) by auto
    moreover have "c \<in> set ds \<Longrightarrow> c \<le> 57" for c using port(2) by (simp add: list_all_iff is_digit_def)
    moreover have "c \<in> set host \<Longrightarrow> c \<notin> {58, 64, 91}" for c using host(1) unfolding host_chars_def by blast
    ultimately show "64 \<notin> set (host @ port)" "91 \<notin> set (host @ port)" "58 \<notin> set host" by fastforce+
  qed
  note last = last_part_whole [OF free(1)] last_part_split [OF free(1), of "[]", simplified] last_part_split [OF free(1), of "[58]", simplified]
  then have "last_part 64 (u_netloc u) = host @ port" using user by (auto simp: n lit_def)
  then show "host_and_port u = (host, ds)"
    using free port(1) by (auto simp: host_and_port_def Let_def before_split behind_split)
  have "url_userinfo u \<in> {None, Some [], Some [58]}"
    using user free(1) last by (auto simp: url_userinfo_def Let_def n lit_def)
  then show "\<not> given (url_username u)" "\<not> given (url_password u)"
    by (auto simp: url_username_def url_password_def given_def before_def behind_def)
qed

lemma spelled_accepted:
  assumes sp: "spelled_origin (py_strip raw) host ds" and c: "\<forall>c \<in> set (py_strip raw). 32 < c \<and> c < 127"
  shows "normalize_base_url pr bb raw = Inr (lit ''https://'' @ authority (lowered host) (port_given ds))"
proof -
  have host: "host \<noteq> []" "host_chars host" and ds: "list_all is_digit ds" "digits_value ds \<le> 65535"
    using sp by (simp_all add: spelled_origin_def)
  obtain scheme user port path query fragment where
    s: "py_strip raw = scheme @ lit ''://'' @ user @ host @ port @ path @ query @ fragment"
    and sc: "py_lower scheme = lit ''https''" and user: "user \<in> {[], lit ''@'', lit '':@''}"
    and port: "port = [] \<and> ds = [] \<or> port = 58 # ds"
    and path: "path \<in> {[], [47]} \<or> (\<exists>x. path = 47 # 59 # x \<and> set x \<inter> {35, 47, 63} = {})"
    and ends: "query \<in> {[], [63]}" "fragment \<in> {[], [35]}"
    using sp unfolding spelled_origin_def by (elim exE conjE) (rule that)
  have eq: "py_strip raw = scheme @ 58 # 47 # 47 # (user @ host @ port) @ path @ query @ fragment" using s by (simp add: lit_def)
  have net: "set (user @ host @ port) \<inter> {35, 47, 63, 91, 93} = {}"
  proof -
    have "set port \<subseteq> insert 58 (set ds)" "set user \<subseteq> {58, 64}" using port user by (auto simp: lit_def)
    moreover have "c \<in> set ds \<Longrightarrow> 48 \<le> c \<and> c \<le> 57" for c using ds(1) by (simp add: list_all_iff is_digit_def)
    moreover have "c \<in> set host \<Longrightarrow> c \<notin> {35, 47, 63, 91, 93}" for c using host(2) unfolding host_chars_def by blast
    ultimately show ?thesis by fastforce
  qed
  obtain u where u: "urlparse bb (py_strip raw) = Inr u" "u_scheme u = lit ''https''" "u_netloc u = user @ host @ port"
      "u_path u \<in> {[], [47]}" "u_query u = []" "u_fragment u = []"
    using spelled_parse [OF eq sc net path ends, of bb] c by blast
  note a = netloc_address [OF u(3) user host(2,1) port ds(1)]
  have h: "url_hostname u = Some (lowered host)" using a(1) host(1) by (simp add: url_hostname_def lowered_def Let_def)
  have "lowered host \<noteq> []" using host(1) by (auto simp: lowered_def py_lower_def before_def)
  moreover have "58 \<notin> set (lowered host)" using lower_host_lowered(2) [OF host(2)] by (auto simp: lowered_def host_chars_def)
  moreover have "url_port pr u = Inr (port_given ds)"
    using a(1) ds by (simp add: url_port_def port_given_def Let_def)
  ultimately show ?thesis using u a(2,3) h by (simp add: normalize_base_url_def given_def)
qed

text \<open>And every URL that is accepted is such a spelling.\<close>

lemma accepted_spelled:
  assumes n: "normalize_base_url pr bb raw = Inr b"
    and c: "91 \<notin> set (py_strip raw)" "\<forall>c \<in> set (py_strip raw). 32 < c \<and> c < 127"
  shows "\<exists>host ds. spelled_origin (py_strip raw) host ds \<and> b = lit ''https://'' @ authority (lowered host) (port_given ds)"
proof -
  let ?s = "py_strip raw"
  obtain u where u: "urlparse bb ?s = Inr u" "u_scheme u = lit ''https''" "given (url_hostname u)"
      "\<not> given (url_username u)" "\<not> given (url_password u)" "u_path u \<in> {[], [47]}" "u_query u = []" "u_fragment u = []"
    and p: "bind_res (url_port pr u) (\<lambda>p. Inr (lit ''https://'' @ authority (the (url_hostname u)) p)) = Inr b"
    using n by (auto simp: normalize_base_url_def bind_res_eq_Inr split: if_splits)
  have clean: "clean_url ?s = ?s" using c(2) by (intro clean_printable) blast
  obtain sc r where a: "split_scheme ?s = (sc, r)" by fastforce
  obtain net r1 where b: "split_netloc r = (net, r1)" by fastforce
  let ?r2 = "before 35 r1" let ?r3 = "before 63 ?r2"
  have parts: "u_scheme u = sc" "u_netloc u = net" "u_fragment u = behind 35 r1" "u_query u = behind 63 ?r2"
      "sc = lit ''https'' \<Longrightarrow> u_path u = fst (split_params ?r3)"
    using u(1) by (auto simp: urlparse_def clean a b bind_res_eq_Inr Let_def uses_params_def split: prod.splits)
  have "sc \<noteq> []" using parts(1) u(2) by (auto simp: lit_def)
  then have s: "?s = before 58 ?s @ 58 # r" "sc = py_lower (before 58 ?s)"
    using a split_at [of 58 ?s] by (auto simp: split_scheme_def Let_def split: if_splits)
  have "net \<noteq> []" using u(3) parts(2) by (auto simp: given_def url_hostname_def host_and_port_def last_part_def before_def Let_def split: if_splits)
  then have r: "r = 47 # 47 # net @ r1" "r1 = [] \<or> hd r1 \<in> {35, 47, 63}"
  proof -
    have two: "take 2 r = [47, 47]" using b \<open>net \<noteq> []\<close> by (auto simp: split_netloc_def split: if_splits)
    then have n: "net = takeWhile (\<lambda>c. c \<noteq> 47 \<and> c \<noteq> 63 \<and> c \<noteq> 35) (drop 2 r)"
        "r1 = dropWhile (\<lambda>c. c \<noteq> 47 \<and> c \<noteq> 63 \<and> c \<noteq> 35) (drop 2 r)"
      using b two by (auto simp: split_netloc_def Let_def dropWhile_eq_drop)
    have "r = take 2 r @ drop 2 r" by simp
    then show "r = 47 # 47 # net @ r1" using two n by simp
    show "r1 = [] \<or> hd r1 \<in> {35, 47, 63}"
      unfolding n(2) using hd_dropWhile [of "\<lambda>c. c \<noteq> 47 \<and> c \<noteq> 63 \<and> c \<noteq> 35" "drop 2 r"] by blast
  qed
  obtain fragment where f: "r1 = ?r2 @ fragment" "fragment \<in> {[], [35]}"
    using behind_empty [of 35 r1] parts(3) u(8) by (metis append_Nil2 insertCI)
  obtain query where q: "?r2 = ?r3 @ query" "query \<in> {[], [63]}"
    using behind_empty [of 63 ?r2] parts(4) u(7) by (metis append_Nil2 insertCI)
  have free: "set ?r3 \<inter> {35, 63} = {}" using set_before [of 63 ?r2] set_before [of 35 r1] by blast
  have "?r3 = [] \<or> hd ?r3 = 47"
    using r(2) f(1) q(1) free by (cases ?r3) auto
  then have path: "?r3 \<in> {[], [47]} \<or> (\<exists>x. ?r3 = 47 # 59 # x \<and> set x \<inter> {35, 47, 63} = {})"
    using params_of_path [of ?r3 "u_path u" "snd (split_params ?r3)"] parts(1,5) u(2,6) free by simp
  obtain user where user: "user \<in> {[], lit ''@'', lit '':@''}" "net = user @ last_part 64 net"
    using netloc_user [OF u(4,5)] parts(2) by blast
  let ?l = "last_part 64 net"
  define host where "host = before 58 ?l"
  define ds where "ds = behind 58 ?l"
  obtain port where port: "?l = host @ port" "port = [] \<and> ds = [] \<or> port = 58 # ds"
    using split_at [of 58 ?l] before_split(2) [of 58 ?l] behind_split(2) [of 58 ?l] by (cases "58 \<in> set ?l") (auto simp: host_def ds_def)
  note un = url_parts [OF u(1), unfolded parts(2)]
  have "91 \<notin> set ?l" using un(1) c(1) set_last_part [of 64 net] by blast
  then have hp: "host_and_port u = (host, ds)" by (simp add: host_and_port_def Let_def parts(2) host_def ds_def)
  have h: "host \<noteq> []" "url_hostname u = Some (lowered host)"
    using u(3) by (auto simp: given_def url_hostname_def hp Let_def lowered_def split: if_splits)
  have "set host \<subseteq> set net - {58, 64}" using set_before [of 58 ?l] set_last_part [of 64 net] by (auto simp: host_def)
  then have hc: "host_chars host" unfolding host_chars_def using un(1) un(2) [OF c(1)] c by auto
  obtain po where po: "url_port pr u = Inr po" "b = lit ''https://'' @ authority (lowered host) po"
    using p h(2) by (auto simp: bind_res_eq_Inr)
  then have d: "list_all is_digit ds" "digits_value ds \<le> 65535" "po = port_given ds"
    by (auto simp: url_port_def hp Let_def digits_value_def port_given_def split: if_splits)
  have "?s = before 58 ?s @ lit ''://'' @ user @ host @ port @ ?r3 @ query @ fragment"
  proof -
    have "?s = before 58 ?s @ 58 # 47 # 47 # net @ r1" using s(1) r(1) by simp
    also have "net @ r1 = user @ host @ port @ ?r3 @ query @ fragment"
      using user(2) port(1) f(1) q(1) by (metis append.assoc)
    finally show ?thesis by (simp add: lit_def)
  qed
  then have "spelled_origin ?s host ds"
    using spelled_originI [OF _ _ user(1) port(2) path q(2) f(2) h(1) hc d(1,2), of ?s "before 58 ?s"] s(2) parts(1) u(2) by simp
  then show ?thesis using d(3) po(2) by blast
qed

lemma spelled_parts:
  assumes "spelled_origin s host ds"
  shows "lowered host \<noteq> []" "host_chars (lowered host)" "lower_host (lowered host)" "port_ok (port_given ds)"
proof -
  have f: "host \<noteq> []" "host_chars host" "digits_value ds \<le> 65535" "list_all is_digit ds" using assms by (simp_all add: spelled_origin_def)
  show "lowered host \<noteq> []" using f(1) by (auto simp: lowered_def py_lower_def before_def)
  show "host_chars (lowered host)" "lower_host (lowered host)" using lower_host_lowered f(2) by (simp_all add: lowered_def)
  show "port_ok (port_given ds)" using f(3) digits_value_nonneg [OF f(4)] by (simp add: port_ok_def port_given_def)
qed

text \<open>C29. The server URL, for one of printable ASCII without \<open>[\<close> (once the white space around it is
  stripped): it is accepted exactly when it spells an origin, \<open>https\<close> in any case, a host of host
  name characters and no port or one from 0 to 65535; and its normal form is \<open>https://host[:port]\<close> with this
  host in lower case (up to a percent sign, where \<open>urlparse\<close> stops) and this port, in decimal without
  leading zeros. The normal form is kept by a second normalisation (which the bundle and the client
  both apply), and the client that is built from the URL and an accepted pin sends \<open>host[:port]\<close> as
  \<open>Host\<close> and connects to exactly that host and port, 443 standing in for no port and for port 0.\<close>

theorem url_normal_form:
  assumes "91 \<notin> set (py_strip raw)" "\<forall>c \<in> set (py_strip raw). 32 < c \<and> c < 127"
  shows "(normalize_base_url pr bb raw = Inr b \<longleftrightarrow>
      (\<exists>host ds. spelled_origin (py_strip raw) host ds \<and> b = lit ''https://'' @ authority (lowered host) (port_given ds)))
    \<and> (\<forall>host ds. spelled_origin (py_strip raw) host ds \<and> b = lit ''https://'' @ authority (lowered host) (port_given ds) \<longrightarrow>
      normalize_base_url pr bb b = Inr b
      \<and> (\<forall>pin p. normalize_server_pin pin = Inr p \<longrightarrow> (\<exists>c. new_client pr bb raw pin = Inr c \<and> cl_base_url c = b \<and> cl_server_pin c = p
          \<and> client_headers pr c = Inr [(lit ''Host'', authority (lowered host) (port_given ds)), (lit ''Connection'', lit ''close'')]
          \<and> client_address pr c = Inr (lowered host, if port_given ds \<in> {None, Some 0} then 443 else digits_value ds))))"
proof -
  have accepted: "normalize_base_url pr bb raw = Inr (lit ''https://'' @ authority (lowered host) (port_given ds))"
    if "spelled_origin (py_strip raw) host ds" for host ds
    using that assms(2) by (rule spelled_accepted)
  have client: "\<exists>c. new_client pr bb raw pin = Inr c \<and> cl_base_url c = b \<and> cl_server_pin c = p
      \<and> client_headers pr c = Inr [(lit ''Host'', authority (lowered host) (port_given ds)), (lit ''Connection'', lit ''close'')]
      \<and> client_address pr c = Inr (lowered host, if port_given ds \<in> {None, Some 0} then 443 else digits_value ds)"
    if "normalize_server_pin pin = Inr p" "spelled_origin (py_strip raw) host ds" "b = lit ''https://'' @ authority (lowered host) (port_given ds)"
    for pin p host ds
  proof -
    note f = spelled_parts [OF that(2)]
    let ?c = "\<lparr>cl_base_url = b, cl_url = origin (lowered host) (port_given ds), cl_server_pin = p\<rparr>"
    have "new_client pr bb raw pin = Inr ?c"
      using that(1,3) accepted [OF that(2)] parse_origin [OF f(2,4)] by (simp add: new_client_def)
    moreover have "58 \<notin> set (lowered host)" using f(2) by (auto simp: host_chars_def)
    then have "client_headers pr ?c = Inr [(lit ''Host'', authority (lowered host) (port_given ds)), (lit ''Connection'', lit ''close'')]"
      "client_address pr ?c = Inr (lowered host, if port_given ds \<in> {None, Some 0} then 443 else digits_value ds)"
      using origin_address [OF f(2,3,1,4)]
      by (auto simp: client_headers_def client_address_def client_host_def host_header_def port_given_def)
    ultimately show ?thesis by auto
  qed
  show ?thesis
  proof (intro conjI allI impI)
    show "normalize_base_url pr bb raw = Inr b \<longleftrightarrow>
        (\<exists>host ds. spelled_origin (py_strip raw) host ds \<and> b = lit ''https://'' @ authority (lowered host) (port_given ds))"
      using accepted accepted_spelled [OF _ assms] by blast
    fix host ds
    assume s: "spelled_origin (py_strip raw) host ds \<and> b = lit ''https://'' @ authority (lowered host) (port_given ds)"
    show "normalize_base_url pr bb b = Inr b"
      using s normalize_origin [OF spelled_parts [of "py_strip raw" host ds]] by simp
  qed (rule client; simp)
qed

text \<open>C28. The pin. Whatever spelling a user gives (white space around it, unused bits in the last
  character), an accepted pin is \<open>sha256/\<close> and the canonical base64 of the 32 bytes it denotes,
  and normalising again changes nothing. A connection to a server whose certificate has the key
  \<open>k\<close> goes on exactly when these bytes are the SHA-256 digest of \<open>k\<close>; otherwise it is closed
  with an SSL error.\<close>

theorem pin_accepts_exactly:
  assumes n: "normalize_server_pin raw = Inr pin"
    and k: "spki_of der = Inr k" "der \<noteq> []"
  shows "\<exists>d. length d = 32 \<and> b64decode_validate (drop (length server_pin_prefix) (py_strip raw)) = Some d
    \<and> pin = server_pin_prefix @ encode_audio_base64 d \<and> normalize_server_pin pin = Inr pin
    \<and> pinned_connect spki_of sha256 pin (PeerCert (Some der))
      = (if sha256 k = d then (Inr (), False) else (Inl (SSLError (lit ''server public key pin mismatch'')), True))"
proof -
  obtain d where d: "b64decode_validate (drop (length server_pin_prefix) (py_strip raw)) = Some d" "length d = 32"
    "pin = server_pin_prefix @ encode_audio_base64 d"
    using pin_parts [OF n] by blast
  have "pinned_connect spki_of sha256 pin (PeerCert (Some der))
      = (if sha256 k = d then (Inr (), False) else (Inl (SSLError (lit ''server public key pin mismatch'')), True))"
    using k by (simp add: pinned_connect_def spki_pin_def d(3) encode_inject)
  with d pin_normal_form [OF d(2)] show ?thesis by blast
qed

subsection \<open>Witnesses\<close>

definition demo_url :: str where
  "demo_url = lit '' HTTPS://Asr.Example:42862/ ''"

definition demo_pin :: str where
  "demo_pin = server_pin_prefix @ encode_audio_base64 (replicate 32 7)"

lemma demo_url_strip: "py_strip demo_url = lit ''HTTPS://Asr.Example:42862/''"
  by (simp add: demo_url_def py_strip_def lit_def py_space_def)

definition demo_parsed :: url where
  "demo_parsed = \<lparr>u_scheme = lit ''https'', u_netloc = lit ''Asr.Example:42862'', u_path = lit ''/'', u_params = [],
     u_query = [], u_fragment = []\<rparr>"

lemma demo_url_parse: "urlparse bb (lit ''HTTPS://Asr.Example:42862/'') = Inr demo_parsed"
proof -
  have c: "split_scheme (clean_url (lit ''HTTPS://Asr.Example:42862/'')) = (lit ''https'', lit ''//Asr.Example:42862/'')"
    by (simp add: clean_url_def split_scheme_def before_def behind_def lit_def is_alpha_def scheme_char_def py_lower_def lower_char_def)
  show ?thesis
    unfolding urlparse_def c
    by (simp add: split_netloc_def check_netloc_def before_def behind_def lit_def split_params_def last_part_def Let_def demo_parsed_def)
qed

lemma demo_url_parts:
  "url_hostname demo_parsed = Some (lit ''asr.example'')" "url_username demo_parsed = None" "url_password demo_parsed = None"
  "url_port pr demo_parsed = Inr (Some 42862)"
proof -
  have h: "host_and_port demo_parsed = (lit ''Asr.Example'', lit ''42862'')"
    by (simp add: host_and_port_def demo_parsed_def last_part_def before_def behind_def Let_def lit_def)
  show "url_hostname demo_parsed = Some (lit ''asr.example'')"
    unfolding url_hostname_def h by (simp add: before_def Let_def lit_def py_lower_def lower_char_def)
  show "url_port pr demo_parsed = Inr (Some 42862)"
    unfolding url_port_def h by (simp add: Let_def lit_def is_digit_def digits_value_def)
  have "url_userinfo demo_parsed = None"
    by (simp add: url_userinfo_def demo_parsed_def Let_def lit_def)
  then show "url_username demo_parsed = None" "url_password demo_parsed = None"
    by (simp_all add: url_username_def url_password_def)
qed

lemma demo_port_text: "show_int 42862 = lit ''42862''"
  by (simp add: show_int_def show_nat.simps lit_def)

lemma demo_url_normal: "normalize_base_url pr bb demo_url = Inr (lit ''https://'' @ authority (lit ''asr.example'') (Some 42862))"
proof -
  have "(58::nat) \<notin> set (lit ''asr.example'')" by (simp add: lit_def)
  then show ?thesis
    by (simp add: normalize_base_url_def demo_url_strip demo_url_parse demo_url_parts given_def)
      (simp add: demo_parsed_def lit_def)
qed

lemma demo_pin_normal: "normalize_server_pin demo_pin = Inr demo_pin"
  unfolding demo_pin_def by (rule pin_normal_form) simp

theorem url_normal_form_witness:
  "\<exists>c. new_client (\<lambda>_. True) (\<lambda>_. None) demo_url demo_pin = Inr c
     \<and> client_headers (\<lambda>_. True) c = Inr [(lit ''Host'', lit ''asr.example:42862''), (lit ''Connection'', lit ''close'')]
     \<and> client_address (\<lambda>_. True) c = Inr (lit ''asr.example'', 42862)"
proof -
  have plain: "91 \<notin> set (py_strip demo_url)" "\<forall>c \<in> set (py_strip demo_url). 32 < c \<and> c < 127"
    by (simp_all add: demo_url_strip) (simp_all add: lit_def)
  have low: "lowered (lit ''Asr.Example'') = lit ''asr.example''"
    by (simp add: lowered_def before_def lit_def py_lower_def lower_char_def)
  have port: "port_given (lit ''42862'') = Some 42862" "digits_value (lit ''42862'') = 42862"
    by (simp_all add: port_given_def digits_value_def lit_def)
  have "py_strip demo_url = lit ''HTTPS'' @ lit ''://'' @ [] @ lit ''Asr.Example'' @ (58 # lit ''42862'') @ [47] @ [] @ []"
    by (simp only: demo_url_strip) (simp add: lit_def)
  moreover have "py_lower (lit ''HTTPS'') = lit ''https''" by (simp add: py_lower_def lower_char_def lit_def)
  moreover have "host_chars (lit ''Asr.Example'')" "list_all is_digit (lit ''42862'')" "lit ''Asr.Example'' \<noteq> []"
    by (simp_all add: host_chars_def is_digit_def lit_def)
  ultimately have sp: "spelled_origin (py_strip demo_url) (lit ''Asr.Example'') (lit ''42862'')"
    using port(2) by (intro spelled_originI [of _ "lit ''HTTPS''" "[]" _ "58 # lit ''42862''" "[47]" "[]" "[]"]) simp_all
  have "authority (lit ''asr.example'') (Some 42862) = lit ''asr.example:42862''"
    by (simp add: authority_def demo_port_text) (simp add: lit_def)
  with url_normal_form [OF plain, of "\<lambda>_. True" "\<lambda>_. None" "lit ''https://'' @ authority (lit ''asr.example'') (Some 42862)",
      THEN conjunct2, rule_format, OF conjI, OF sp] demo_pin_normal
  show ?thesis by (simp add: low port) blast
qed

theorem pin_accepts_exactly_witness:
  "\<exists>d. length d = 32 \<and> demo_pin = server_pin_prefix @ encode_audio_base64 d
    \<and> pinned_connect Inr (\<lambda>k. replicate 32 8) demo_pin (PeerCert (Some [0]))
      = (if replicate 32 8 = d then (Inr (), False) else (Inl (SSLError (lit ''server public key pin mismatch'')), True))"
  using pin_accepts_exactly [OF demo_pin_normal, of Inr "[0]" "[0]" "\<lambda>k. replicate 32 8", OF refl list.simps(3)] by blast

end
