(* ===== verification/Client_Stream.thy ===== *)
theory Client_Stream
  imports Event_Stream Client_Setup
begin

section \<open>The client's requests and the events it reads (\<open>client/client.py\<close>)\<close>

text \<open>
  \<open>VibevoiceClient.transcribe\<close> and \<open>queue_status\<close>: the multipart body, the lines of the response
  and the events they give; and, for the two ends of the wire, the texts the server's event
  stream yields (\<open>server/routes/transcribe.py\<close>). The HTTP connection is a parameter: from a
  request it gives a response or raises. Lines are what \<open>readline\<close> returns up to the end of the
  response, \<open>None\<close> or an exception after them. The model classes of the client take the values
  they are given; pydantic's encoder on the server is a parameter.
\<close>

subsection \<open>The texts of the server's event stream\<close>

definition queue_event_json :: "(rat \<Rightarrow> str) \<Rightarrow> queue_position_event \<Rightarrow> json" where
  "queue_event_json wait_text e =
     JDict [(lit ''job_id'', JStr (qpe_job_id e)), (lit ''position'', JInt (qpe_position e)),
            (lit ''estimated_wait_seconds'', JFloat (wait_text (qpe_estimated_wait_seconds e)))]"

fun frame_text :: "(json \<Rightarrow> str) \<Rightarrow> (rat \<Rightarrow> str) \<Rightarrow> frame \<Rightarrow> str" where
  "frame_text dump wait_text (QueueFrame e) =
     lit ''event: queue'' @ 10 # lit ''data: '' @ dump (queue_event_json wait_text e) @ [10, 10]"
| "frame_text dump wait_text AcceptedFrame = lit '': accepted'' @ [10, 10]"
| "frame_text dump wait_text KeepaliveFrame = lit '': keepalive'' @ [10, 10]"
| "frame_text dump wait_text (DataFrame c) =
     lit ''data: '' @ dump (JDict [(lit ''text'', JStr (tce_text c))]) @ [10, 10]"
| "frame_text dump wait_text (ErrorFrame e) =
     lit ''event: error'' @ 10 # lit ''data: '' @ dump (JDict [(lit ''error'', JStr (ee_error e))]) @ [10, 10]"
| "frame_text dump wait_text (DoneFrame i) =
     lit ''event: done'' @ 10 # lit ''data: '' @ json_dumps (JDict [(lit ''job_id'', JStr i)]) @ [10, 10]"

definition response_body :: "(json \<Rightarrow> str) \<Rightarrow> (rat \<Rightarrow> str) \<Rightarrow> frame list \<Rightarrow> bytes" where
  "response_body dump wait_text fs = utf8_bytes (concat (map (frame_text dump wait_text) fs))"

subsection \<open>Events\<close>

datatype event_type = EVT_QUEUE | EVT_DATA | EVT_ERROR | EVT_DONE

primrec event_type_value :: "event_type \<Rightarrow> str" where
  "event_type_value EVT_QUEUE = lit ''queue''"
| "event_type_value EVT_DATA = lit ''data''"
| "event_type_value EVT_ERROR = lit ''error''"
| "event_type_value EVT_DONE = lit ''done''"

record transcription_event =
  te_event_type :: event_type
  te_text :: "str option"
  te_job_id :: "str option"
  te_position :: "int option"
  te_estimated_wait_seconds :: "pyfloat option"
  te_error :: "str option"

definition new_event :: "event_type \<Rightarrow> transcription_event" where
  "new_event t = \<lparr>te_event_type = t, te_text = None, te_job_id = None, te_position = None,
     te_estimated_wait_seconds = None, te_error = None\<rparr>"

definition json_or_none :: "str \<Rightarrow> (str \<times> json) list option" where
  "json_or_none raw = (case json_loads raw of Some (JDict ps) \<Rightarrow> Some ps | _ \<Rightarrow> None)"

definition item :: "(str \<times> json) list \<Rightarrow> string \<Rightarrow> json res" where
  "item ps k = (case map_of ps (lit k) of None \<Rightarrow> Inl (KeyError (lit k)) | Some v \<Rightarrow> Inr v)"

text \<open>What one payload gives under the current event name.\<close>

definition client_event :: "(nat \<Rightarrow> bool) \<Rightarrow> str \<Rightarrow> (str \<times> json) list \<Rightarrow> transcription_event option res" where
  "client_event pr current ps =
     (if current = lit ''queue''
      then bind_res (item ps ''job_id'') (\<lambda>i.
           bind_res (item ps ''position'') (\<lambda>p. bind_res (py_int pr p) (\<lambda>n.
           bind_res (item ps ''estimated_wait_seconds'') (\<lambda>w. bind_res (py_float pr w) (\<lambda>x.
             Inr (Some ((new_event EVT_QUEUE)
               \<lparr>te_job_id := Some (py_str pr i), te_position := Some n, te_estimated_wait_seconds := Some x\<rparr>)))))))
      else if current = lit ''data''
      then bind_res (item ps ''text'') (\<lambda>t. Inr (Some ((new_event EVT_DATA)\<lparr>te_text := Some (py_str pr t)\<rparr>)))
      else if current = lit ''error''
      then bind_res (item ps ''error'') (\<lambda>t. Inr (Some ((new_event EVT_ERROR)\<lparr>te_error := Some (py_str pr t)\<rparr>)))
      else if current = lit ''done''
      then bind_res (item ps ''job_id'') (\<lambda>t. Inr (Some ((new_event EVT_DONE)\<lparr>te_job_id := Some (py_str pr t)\<rparr>)))
      else Inr None)"

definition rstrip_eol :: "str \<Rightarrow> str" where
  "rstrip_eol s = rev (dropWhile (\<lambda>c. c = 13 \<or> c = 10) (rev s))"

text \<open>One line: the event name that holds behind it, and the event it gives.\<close>

definition client_line :: "(nat \<Rightarrow> bool) \<Rightarrow> str \<Rightarrow> bytes \<Rightarrow> (str \<times> transcription_event option) res" where
  "client_line pr current raw =
     (let line = rstrip_eol (decode_replace raw)
      in if py_startswith line (lit ''event: '') then Inr (drop 7 line, None)
         else if \<not> py_startswith line (lit ''data: '') then Inr (current, None)
         else case json_or_none (drop 6 line) of
           None \<Rightarrow> Inr (current, None)
         | Some ps \<Rightarrow> bind_res (client_event pr current ps) (\<lambda>ev. Inr (lit ''data'', ev)))"

fun client_lines :: "(nat \<Rightarrow> bool) \<Rightarrow> str \<Rightarrow> bytes list \<Rightarrow> exn option \<Rightarrow> transcription_event list \<times> exn option" where
  "client_lines pr current [] e = ([], e)"
| "client_lines pr current (l # ls) e =
     (case client_line pr current l of
        Inl x \<Rightarrow> ([], Some x)
      | Inr (current', None) \<Rightarrow> client_lines pr current' ls e
      | Inr (current', Some ev) \<Rightarrow> apfst ((#) ev) (client_lines pr current' ls e))"

text \<open>\<open>readline\<close> on a whole body.\<close>

fun byte_lines :: "bytes \<Rightarrow> bytes list" where
  "byte_lines [] = []"
| "byte_lines (b # r) =
     (if b = 10 then [10] # byte_lines r
      else (case byte_lines r of [] \<Rightarrow> [[b]] | l # ls \<Rightarrow> (b # l) # ls))"

subsection \<open>Requests\<close>

definition boundary :: str where
  "boundary = lit ''----VibeVoiceCliBoundary9f2e4d''"

definition audio_chunk_bytes :: nat where
  "audio_chunk_bytes = 1048576"

definition safe_filename :: "str \<Rightarrow> str" where
  "safe_filename name = map (\<lambda>c. if c \<in> {92, 34, 13, 10} then 95 else c) name"

definition validate_wav_path :: "str \<Rightarrow> unit res" where
  "validate_wav_path path =
     require (posix_suffix path = lit ''.wav'') (ValueError (lit ''audio file must use the canonical .wav extension''))"

function audio_chunks :: "bytes \<Rightarrow> bytes list" where
  "audio_chunks b = (if b = [] then [] else take audio_chunk_bytes b # audio_chunks (drop audio_chunk_bytes b))"
  by auto

termination
  by (relation "measure length") (auto simp: audio_chunk_bytes_def)

declare audio_chunks.simps [simp del]

definition dash_line :: bytes where
  "dash_line = ascii_bytes (lit ''--'' @ boundary @ [13, 10])"

definition audio_header :: "str \<Rightarrow> str" where
  "audio_header path = lit ''Content-Disposition: form-data; name=\"audio\"; filename=\"'' @ safe_filename (posix_name path) @ [34, 13, 10]"

definition hotwords_header :: bytes where
  "hotwords_header = ascii_bytes (lit ''Content-Disposition: form-data; name=\"hotwords\"'' @ [13, 10, 13, 10])"

definition close_line :: bytes where
  "close_line = ascii_bytes (lit ''--'' @ boundary @ lit ''--'' @ [13, 10])"

text \<open>\<open>_multipart_body\<close>: the chunks it yields and how it ends; \<open>content\<close> is what opening and reading
  the file gives.\<close>

definition multipart_body :: "bytes res \<Rightarrow> str \<Rightarrow> str option \<Rightarrow> bytes list \<times> exn option" where
  "multipart_body content path words =
     (case validate_wav_path path of
        Inl e \<Rightarrow> ([], Some e)
      | Inr _ \<Rightarrow>
          (case py_encode (audio_header path) of
             Inl e \<Rightarrow> ([dash_line], Some e)
           | Inr h \<Rightarrow>
               (let start = [dash_line, h, ascii_bytes (lit ''Content-Type: audio/wav'' @ [13, 10, 13, 10])]
                in case content of
                     Inl e \<Rightarrow> (start, Some e)
                   | Inr b \<Rightarrow>
                       (let first = start @ audio_chunks b @ [ascii_bytes [13, 10]]
                        in case words of
                             None \<Rightarrow> (first @ [close_line], None)
                           | Some w \<Rightarrow>
                               if w = [] then (first @ [close_line], None)
                               else (case py_encode w of
                                       Inl e \<Rightarrow> (first @ [dash_line, hotwords_header], Some e)
                                     | Inr t \<Rightarrow> (first @ [dash_line, hotwords_header, t, ascii_bytes [13, 10], close_line], None))))))"

record request =
  rq_method :: str
  rq_path :: str
  rq_headers :: "(str \<times> str) list"
  rq_body :: "bytes list \<times> exn option"

record http_response =
  hr_status :: int
  hr_read :: "bytes res"
  hr_lines :: "bytes list"
  hr_end :: "exn option"

definition http_failed :: "string \<Rightarrow> int \<Rightarrow> bytes \<Rightarrow> exn" where
  "http_failed what code body = RuntimeError (lit what @ show_int code @ lit '': '' @ decode_replace body)"

definition client_transcribe ::
    "(nat \<Rightarrow> bool) \<Rightarrow> (str \<times> int \<Rightarrow> request \<Rightarrow> http_response res) \<Rightarrow> bytes res \<Rightarrow> client \<Rightarrow> str \<Rightarrow> str option
     \<Rightarrow> transcription_event list \<times> exn option" where
  "client_transcribe pr http content c path words =
     (case bind_res (validate_wav_path path) (\<lambda>_. bind_res (client_address pr c) (\<lambda>address.
           bind_res (client_headers pr c) (\<lambda>headers.
           http address \<lparr>rq_method = lit ''POST'', rq_path = lit ''/v1/transcribe'',
             rq_headers = headers @ [(lit ''Accept'', lit ''text/event-stream''),
               (lit ''Content-Type'', lit ''multipart/form-data; boundary='' @ boundary)],
             rq_body = multipart_body content path words\<rparr>))) of
        Inl e \<Rightarrow> ([], Some e)
      | Inr r \<Rightarrow>
          if hr_status r \<noteq> 200
          then ([], Some (case hr_read r of Inl e \<Rightarrow> e
                          | Inr body \<Rightarrow> http_failed ''transcription failed with HTTP '' (hr_status r) body))
          else client_lines pr (lit ''data'') (hr_lines r) (hr_end r))"

text \<open>\<open>bytes.decode("utf-8")\<close>, which refuses what is not UTF-8.\<close>

definition py_decode :: "bytes \<Rightarrow> str res" where
  "py_decode b = (let s = decode_replace b in if utf8_bytes s = b then Inr s else Inl (ValueError (lit ''invalid UTF-8'')))"

definition client_queue_status ::
    "(nat \<Rightarrow> bool) \<Rightarrow> (str \<times> int \<Rightarrow> request \<Rightarrow> http_response res) \<Rightarrow> client \<Rightarrow> json res" where
  "client_queue_status pr http c =
     bind_res (client_address pr c) (\<lambda>address. bind_res (client_headers pr c) (\<lambda>headers.
     bind_res (http address \<lparr>rq_method = lit ''GET'', rq_path = lit ''/v1/queue/status'', rq_headers = headers, rq_body = ([], None)\<rparr>) (\<lambda>r.
     bind_res (hr_read r) (\<lambda>body.
       if hr_status r \<noteq> 200 then Inl (http_failed ''queue status failed with HTTP '' (hr_status r) body)
       else bind_res (py_decode body) (\<lambda>t.
         case json_loads t of None \<Rightarrow> Inl (ValueError (lit ''not JSON'')) | Some v \<Rightarrow> Inr v)))))"

subsection \<open>Lines of text on the wire\<close>

definition line_text :: "str \<Rightarrow> bool" where
  "line_text t \<longleftrightarrow> list_all scalar_char t \<and> 10 \<notin> set t \<and> 13 \<notin> set t"

lemma line_text_append [simp]: "line_text (s @ t) \<longleftrightarrow> line_text s \<and> line_text t"
  by (auto simp: line_text_def)

lemma utf8_bytes_append: "utf8_bytes (s @ t) = utf8_bytes s @ utf8_bytes t"
  by (simp add: utf8_bytes_def)

lemma utf8_bytes_Nil [simp]: "utf8_bytes [] = []"
  by (simp add: utf8_bytes_def)

lemma utf8_no_newline: "line_text t \<Longrightarrow> 10 \<notin> set (utf8_bytes t)"
proof -
  have "of_nat b \<noteq> (10 :: byte)" if "scalar_char c" "c \<noteq> 10" "b \<in> set (utf8_char c)" for b c
  proof -
    have "b < 256 \<and> b \<noteq> 10"
    proof (cases "c < 128")
      case True
      then show ?thesis using that by (simp add: utf8_char_def)
    next
      case False
      then have "b \<ge> 128" "b < 256" using that utf8_char_byte by (auto simp: utf8_char_def split: if_splits)
      then show ?thesis by simp
    qed
    then have "unat (of_nat b :: byte) = b" "b \<noteq> 10" by (simp_all add: unat_of_nat)
    then show ?thesis using arg_cong [of "of_nat b" "10 :: byte" unat] by auto
  qed
  moreover assume "line_text t"
  ultimately show ?thesis by (force simp: line_text_def utf8_bytes_def list_all_iff)
qed

lemma byte_lines_line: "10 \<notin> set a \<Longrightarrow> byte_lines (a @ 10 # r) = (a @ [10]) # byte_lines r"
  by (induction a) auto

lemma line_step:
  assumes "line_text t"
  shows "byte_lines (utf8_bytes (t @ 10 # u)) = utf8_bytes (t @ [10]) # byte_lines (utf8_bytes u)"
proof -
  have n: "utf8_bytes (10 # u) = 10 # utf8_bytes u" "utf8_bytes [10] = [10]" by (simp_all add: utf8_bytes_def utf8_char_def)
  show ?thesis by (simp only: utf8_bytes_append n byte_lines_line [OF utf8_no_newline [OF assms]])
qed

lemma line_read: "line_text t \<Longrightarrow> rstrip_eol (decode_replace (utf8_bytes (t @ [10]))) = t"
proof -
  assume t: "line_text t"
  then have "list_all scalar_char (t @ [10])" by (simp add: line_text_def scalar_char_def)
  then have "decode_replace (utf8_bytes (t @ [10])) = t @ [10]" by (rule utf8_round_trip)
  moreover have "dropWhile (\<lambda>c. c = 13 \<or> c = 10) (rev t) = rev t"
    using t by (cases t rule: rev_cases) (auto simp: line_text_def)
  ultimately show ?thesis by (simp add: rstrip_eol_def)
qed

text \<open>What \<open>json.dumps\<close> writes stays on one line of ASCII text.\<close>

definition plain_char :: "nat \<Rightarrow> bool" where
  "plain_char c \<longleftrightarrow> 32 \<le> c \<and> c \<le> 126"

lemma plain_line: "list_all plain_char t \<Longrightarrow> line_text t"
  by (auto simp: line_text_def plain_char_def scalar_char_def list_all_iff)

lemma plain_lit: "list_all (\<lambda>c. 32 \<le> (of_char c :: nat) \<and> (of_char c :: nat) \<le> 126) t \<Longrightarrow> list_all plain_char (lit t)"
  by (simp add: lit_def plain_char_def list_all_iff)

lemma hex_plain: "v < 16 \<Longrightarrow> plain_char (hex_char v)"
  by (auto simp: plain_char_def hex_char_def)

lemma u_escape_plain: "list_all plain_char (u_escape n)"
  by (simp add: u_escape_def hex_plain) (simp add: plain_char_def)

lemma escape_plain: "list_all plain_char (escape_char c)"
  by (auto simp: escape_char_def u_escape_plain) (simp_all add: plain_char_def)

lemma dump_string_plain: "list_all plain_char (dump_string s)"
  using escape_plain by (auto simp: dump_string_def list_all_iff) (simp_all add: plain_char_def)

lemma digits_plain: "list_all is_digit s \<Longrightarrow> list_all plain_char s"
  by (auto simp: is_digit_def plain_char_def list_all_iff)

lemma show_int_plain: "list_all plain_char (show_int n)"
  using digits_plain [OF show_nat_is_digits] by (auto simp: show_int_def) (simp add: plain_char_def)

lemma float_plain: "float_text t \<Longrightarrow> list_all plain_char t"
proof -
  assume "float_text t"
  then obtain sg k fr ex where t: "t = sg @ show_nat k @ fr @ ex" "sg = [] \<or> sg = [45]" "frac_text fr" "exp_text ex"
    unfolding float_text_def by blast
  have "list_all plain_char sg" using t(2) by (auto simp: plain_char_def)
  moreover have "list_all plain_char fr" using t(3) digits_plain by (auto simp: frac_text_def plain_char_def)
  moreover have "list_all plain_char ex" using t(4) digits_plain by (auto simp: exp_text_def plain_char_def)
  ultimately show ?thesis using digits_plain [OF show_nat_is_digits] t(1) by simp
qed

lemma plain_punctuation: "plain_char 32" "plain_char 44" "plain_char 58" "plain_char 91" "plain_char 93" "plain_char 123" "plain_char 125"
  by (simp_all add: plain_char_def)

lemma join_plain: "list_all plain_char sep \<Longrightarrow> list_all (list_all plain_char) ts \<Longrightarrow> list_all plain_char (join_with sep ts)"
  by (induction sep ts rule: join_with.induct) auto

lemma json_dumps_plain: "wf_json v \<Longrightarrow> list_all plain_char (json_dumps v)"
proof (induction v rule: json_dumps.induct)
  case (6 vs)
  then have "list_all (list_all plain_char) (map json_dumps vs)" by (auto simp: list_all_iff)
  then show ?case using join_plain [of "[44, 32]"] by (simp add: plain_punctuation)
next
  case (7 ps)
  then have "list_all (list_all plain_char) (map (\<lambda>(k, v). dump_string k @ [58, 32] @ json_dumps v) ps)"
    using dump_string_plain by (fastforce simp: list_all_iff plain_punctuation)
  then show ?case using join_plain [of "[44, 32]"] by (simp add: plain_punctuation)
qed (auto simp: dump_string_plain show_int_plain float_plain intro!: plain_lit)

subsection \<open>The stream arrives as it was sent\<close>

text \<open>What the model classes' encoder promises: JSON on one line, which reads back as the value.\<close>

definition encodes_lines :: "(json \<Rightarrow> str) \<Rightarrow> bool" where
  "encodes_lines dump \<longleftrightarrow> (\<forall>v. wf_json v \<longrightarrow> json_loads (dump v) = Some v \<and> line_text (dump v))"

fun frame_ok :: "(rat \<Rightarrow> str) \<Rightarrow> frame \<Rightarrow> bool" where
  "frame_ok wait_text (QueueFrame e) =
     (list_all scalar_char (qpe_job_id e) \<and> float_text (wait_text (qpe_estimated_wait_seconds e)))"
| "frame_ok wait_text (DataFrame c) = list_all scalar_char (tce_text c)"
| "frame_ok wait_text (ErrorFrame e) = list_all scalar_char (ee_error e)"
| "frame_ok wait_text (DoneFrame i) = list_all scalar_char i"
| "frame_ok wait_text _ = True"

fun event_of :: "(rat \<Rightarrow> str) \<Rightarrow> frame \<Rightarrow> transcription_event option" where
  "event_of wait_text (QueueFrame e) = Some ((new_event EVT_QUEUE)
     \<lparr>te_job_id := Some (qpe_job_id e), te_position := Some (qpe_position e),
      te_estimated_wait_seconds := Some (literal_float (wait_text (qpe_estimated_wait_seconds e)))\<rparr>)"
| "event_of wait_text (DataFrame c) = Some ((new_event EVT_DATA)\<lparr>te_text := Some (tce_text c)\<rparr>)"
| "event_of wait_text (ErrorFrame e) = Some ((new_event EVT_ERROR)\<lparr>te_error := Some (ee_error e)\<rparr>)"
| "event_of wait_text (DoneFrame i) = Some ((new_event EVT_DONE)\<lparr>te_job_id := Some i\<rparr>)"
| "event_of wait_text _ = None"

lemma name_line:
  assumes "line_text n"
  shows "client_lines pr cur (byte_lines (utf8_bytes (lit ''event: '' @ n @ 10 # u))) e = client_lines pr n (byte_lines (utf8_bytes u)) e"
proof -
  have t: "line_text (lit ''event: '' @ n)" using assms plain_line [OF plain_lit] by simp
  have "client_line pr cur (utf8_bytes ((lit ''event: '' @ n) @ [10])) = Inr (n, None)"
    unfolding client_line_def line_read [OF t] Let_def by simp
  with line_step [OF t, of u] show ?thesis by simp
qed

lemma payload_line:
  assumes "line_text p" "json_loads p = Some (JDict ps)" "client_event pr cur ps = Inr ev"
  shows "client_lines pr cur (byte_lines (utf8_bytes (lit ''data: '' @ p @ 10 # u))) e
     = (case ev of None \<Rightarrow> (\<lambda>r. r) | Some x \<Rightarrow> apfst ((#) x)) (client_lines pr (lit ''data'') (byte_lines (utf8_bytes u)) e)"
proof -
  have t: "line_text (lit ''data: '' @ p)" using assms plain_line [OF plain_lit] by simp
  have n: "\<not> py_startswith (lit ''data: '' @ p) (lit ''event: '')"
    by (simp add: py_startswith_def lit_def)
  have "client_line pr cur (utf8_bytes ((lit ''data: '' @ p) @ [10])) = Inr (lit ''data'', ev)"
    unfolding client_line_def line_read [OF t] Let_def using assms n by (simp add: json_or_none_def)
  with line_step [OF t, of u] show ?thesis by (cases ev) simp_all
qed

lemma other_line:
  assumes "line_text t" "\<not> py_startswith t (lit ''event: '')" "\<not> py_startswith t (lit ''data: '')"
  shows "client_lines pr cur (byte_lines (utf8_bytes (t @ 10 # u))) e = client_lines pr cur (byte_lines (utf8_bytes u)) e"
proof -
  have "client_line pr cur (utf8_bytes (t @ [10])) = Inr (cur, None)"
    unfolding client_line_def line_read [OF assms(1)] Let_def using assms by simp
  with line_step [OF assms(1), of u] show ?thesis by simp
qed

lemma blank_line: "client_lines pr cur (byte_lines (utf8_bytes (10 # u))) e = client_lines pr cur (byte_lines (utf8_bytes u)) e"
  using other_line [of "[]" pr cur u e] by (simp add: line_text_def py_startswith_def lit_def)

lemma frame_read:
  assumes d: "encodes_lines dump" and ok: "frame_ok wait_text f"
  shows "client_lines pr (lit ''data'') (byte_lines (utf8_bytes (frame_text dump wait_text f @ u))) e
    = (case event_of wait_text f of None \<Rightarrow> (\<lambda>r. r) | Some x \<Rightarrow> apfst ((#) x))
        (client_lines pr (lit ''data'') (byte_lines (utf8_bytes u)) e)"
proof -
  have enc: "json_loads (dump v) = Some v" "line_text (dump v)" if "wf_json v" for v
    using d that by (simp_all add: encodes_lines_def)
  have lines: "line_text (lit ''queue'')" "line_text (lit ''error'')" "line_text (lit ''done'')"
    "line_text (lit '': accepted'')" "line_text (lit '': keepalive'')"
    by (rule plain_line [OF plain_lit], simp)+
  have name: "lit ''event: queue'' = lit ''event: '' @ lit ''queue''" "lit ''event: error'' = lit ''event: '' @ lit ''error''"
    "lit ''event: done'' = lit ''event: '' @ lit ''done''"
    by (simp_all add: lit_def)
  have other: "\<not> py_startswith (lit '': accepted'') (lit ''event: '')" "\<not> py_startswith (lit '': accepted'') (lit ''data: '')"
    "\<not> py_startswith (lit '': keepalive'') (lit ''event: '')" "\<not> py_startswith (lit '': keepalive'') (lit ''data: '')"
    by (simp_all add: py_startswith_def lit_def)
  have scalar: "list_all scalar_char (lit ''job_id'')" "list_all scalar_char (lit ''position'')"
    "list_all scalar_char (lit ''estimated_wait_seconds'')" "list_all scalar_char (lit ''text'')" "list_all scalar_char (lit ''error'')"
    by (simp_all add: lit_def scalar_char_def)
  show ?thesis
  proof (cases f)
    case (QueueFrame q)
    let ?v = "queue_event_json wait_text q"
    have "wf_json ?v" using ok scalar QueueFrame by (simp add: queue_event_json_def)
    note v = enc [OF this]
    have "client_event pr (lit ''queue'') (case ?v of JDict ps \<Rightarrow> ps) = Inr (event_of wait_text f)"
      by (simp add: QueueFrame queue_event_json_def client_event_def item_def py_str_def)
    then show ?thesis
      using payload_line [OF v(2), of "case ?v of JDict ps \<Rightarrow> ps" pr "lit ''queue''" "event_of wait_text f" "10 # u" e] v(1)
      by (simp add: QueueFrame name name_line [OF lines(1)] blank_line queue_event_json_def)
  next
    case AcceptedFrame
    then show ?thesis by (simp add: other_line [OF lines(4) other(1,2)] blank_line)
  next
    case KeepaliveFrame
    then show ?thesis by (simp add: other_line [OF lines(5) other(3,4)] blank_line)
  next
    case (DataFrame c)
    have v: "wf_json (JDict [(lit ''text'', JStr (tce_text c))])" using ok scalar DataFrame by simp
    have "client_event pr (lit ''data'') [(lit ''text'', JStr (tce_text c))] = Inr (event_of wait_text f)"
      by (simp add: DataFrame client_event_def item_def py_str_def)
    then show ?thesis
      using payload_line [OF enc(2) [OF v] enc(1) [OF v], of pr "lit ''data''" "event_of wait_text f" "10 # u" e]
      by (simp add: DataFrame blank_line)
  next
    case (ErrorFrame c)
    have v: "wf_json (JDict [(lit ''error'', JStr (ee_error c))])" using ok scalar ErrorFrame by simp
    have "client_event pr (lit ''error'') [(lit ''error'', JStr (ee_error c))] = Inr (event_of wait_text f)"
      by (simp add: ErrorFrame client_event_def item_def py_str_def)
    then show ?thesis
      using payload_line [OF enc(2) [OF v] enc(1) [OF v], of pr "lit ''error''" "event_of wait_text f" "10 # u" e]
      by (simp add: ErrorFrame name name_line [OF lines(2)] blank_line)
  next
    case (DoneFrame i)
    have v: "wf_json (JDict [(lit ''job_id'', JStr i)])" using ok scalar DoneFrame by simp
    have "client_event pr (lit ''done'') [(lit ''job_id'', JStr i)] = Inr (event_of wait_text f)"
      by (simp add: DoneFrame client_event_def item_def py_str_def)
    then show ?thesis
      using payload_line [OF plain_line [OF json_dumps_plain [OF v]] json_roundtrip_raw [OF v], of pr "lit ''done''" "event_of wait_text f" "10 # u" e]
      by (simp add: DoneFrame name name_line [OF lines(3)] blank_line del: json_dumps.simps)
  qed
qed

lemma frames_read:
  assumes "encodes_lines dump" and "list_all (frame_ok wait_text) fs"
  shows "client_lines pr (lit ''data'') (byte_lines (response_body dump wait_text fs)) e = (List.map_filter (event_of wait_text) fs, e)"
  using assms(2)
proof (induction fs)
  case Nil
  then show ?case by (simp add: response_body_def)
next
  case (Cons f fs)
  then show ?case
    using frame_read [OF assms(1), of wait_text f pr "concat (map (frame_text dump wait_text) fs)" e]
    by (simp add: response_body_def split: option.splits)
qed

lemma texts_of_events: "List.map_filter te_text (List.map_filter (event_of wait_text) fs) = texts_of fs"
proof (induction fs)
  case (Cons f fs)
  then show ?case by (cases f) (simp_all add: texts_of_def new_event_def)
qed (simp add: texts_of_def)

lemma client_transcribe_frames:
  assumes "encodes_lines dump" and "list_all (frame_ok wait_text) fs"
    and "posix_suffix path = lit ''.wav''" and "client_address pr c = Inr address"
    and "\<And>rq. http address rq = Inr \<lparr>hr_status = 200, hr_read = b, hr_lines = byte_lines (response_body dump wait_text fs), hr_end = e\<rparr>"
  shows "client_transcribe pr http content c path words = (List.map_filter (event_of wait_text) fs, e)"
proof -
  obtain hs where "client_headers pr c = Inr hs"
    using assms(4) by (auto simp: client_address_def client_headers_def bind_res_eq_Inr)
  then show ?thesis
    using assms(3-5) frames_read [OF assms(1,2)] by (simp add: client_transcribe_def validate_wav_path_def require_def)
qed

subsection \<open>Properties\<close>

text \<open>C10. From end to end: when the server answers 200 and its event stream yielded the frames
  \<open>fs\<close>, the client's generator yields exactly one event for each frame that is no comment, in
  order, with the fields that were sent, and ends as the connection ended. In particular the
  text it hands on is the text the stream sent, nothing lost, split or repeated.\<close>

theorem client_reads_stream:
  assumes "encodes_lines dump" and "list_all (frame_ok wait_text) fs"
    and "posix_suffix path = lit ''.wav''" and "client_address pr c = Inr address"
    and "\<And>rq. http address rq = Inr \<lparr>hr_status = 200, hr_read = b, hr_lines = byte_lines (response_body dump wait_text fs), hr_end = e\<rparr>"
  shows "client_transcribe pr http content c path words = (List.map_filter (event_of wait_text) fs, e)
    \<and> List.map_filter te_text (fst (client_transcribe pr http content c path words)) = texts_of fs"
  using client_transcribe_frames [where http = http, OF assms] by (simp add: texts_of_events)

lemma json_dumps_encodes: "encodes_lines json_dumps"
  by (simp add: encodes_lines_def json_roundtrip_raw plain_line json_dumps_plain)

definition demo_frames :: "frame list" where
  "demo_frames = [QueueFrame \<lparr>qpe_job_id = lit ''j1'', qpe_position = 1, qpe_estimated_wait_seconds = 5 / 2\<rparr>,
     DataFrame \<lparr>tce_text = [91, 10, 8364]\<rparr>, KeepaliveFrame, DataFrame \<lparr>tce_text = [93]\<rparr>, DoneFrame (lit ''j1'')]"

definition demo_client :: client where
  "demo_client = \<lparr>cl_base_url = lit ''https://'' @ authority (lit ''asr.example'') (Some 42862),
     cl_url = origin (lit ''asr.example'') (Some 42862), cl_server_pin = demo_pin\<rparr>"

definition demo_server :: "str \<times> int \<Rightarrow> request \<Rightarrow> http_response res" where
  "demo_server address rq = Inr \<lparr>hr_status = 200, hr_read = Inr [],
     hr_lines = byte_lines (response_body json_dumps float_repr demo_frames), hr_end = Some TimeoutError\<rparr>"

lemma demo_client_address: "client_address pr demo_client = Inr (lit ''asr.example'', 42862)"
proof -
  have "host_chars (lit ''asr.example'')" "lower_host (lit ''asr.example'')"
    by (simp_all add: host_chars_def lower_host_def lit_def before_def py_lower_def lower_char_def)
  from origin_address [OF this, of "Some 42862"] show ?thesis
    by (simp add: client_address_def demo_client_def client_host_def port_ok_def)
qed

lemma demo_frames_ok: "list_all (frame_ok float_repr) demo_frames"
  by (simp add: demo_frames_def float_text_repr scalar_char_def lit_def)

theorem client_reads_stream_witness:
  "client_transcribe (\<lambda>_. True) demo_server (Inr [1, 2]) demo_client (lit ''a.wav'') None
     = (List.map_filter (event_of float_repr) demo_frames, Some TimeoutError)
   \<and> List.map_filter te_text (fst (client_transcribe (\<lambda>_. True) demo_server (Inr [1, 2]) demo_client (lit ''a.wav'') None))
     = [[91, 10, 8364], [93]]"
proof -
  have p: "posix_suffix (lit ''a.wav'') = lit ''.wav''" by code_simp
  have h: "demo_server address rq = Inr \<lparr>hr_status = 200, hr_read = Inr [],
     hr_lines = byte_lines (response_body json_dumps float_repr demo_frames), hr_end = Some TimeoutError\<rparr>" for address rq
    by (simp add: demo_server_def)
  have "texts_of demo_frames = [[91, 10, 8364], [93]]" by (simp add: texts_of_def demo_frames_def)
  with client_reads_stream [where http = demo_server, OF json_dumps_encodes demo_frames_ok p demo_client_address [of "\<lambda>_. True"] h]
  show ?thesis by (simp add: texts_of_events)
qed

end
