(* ===== verification/Client_Upload.thy ===== *)
theory Client_Upload
  imports Client_Stream "HOL-Library.Sublist"
begin

section \<open>The multipart body of the client, read back\<close>

text \<open>
  What \<open>_multipart_body\<close> (\<open>client/client.py\<close>) sends, against a reader of multipart bodies after
  RFC 2046: a part ends at the first line break that is followed by two dashes and the boundary.
  The reader is a specification: the server's parser is not in the repository. The loop that
  reads the file is \<open>audio_loop\<close>, a partial function of any source of chunks.
\<close>

subsection \<open>The reading loop\<close>

text \<open>\<open>while chunk := audio.read(_AUDIO_CHUNK_BYTES): yield chunk\<close>, where \<open>read_at pos\<close> is what \<open>read\<close>
  returns at the offset \<open>pos\<close>; \<open>None\<close> means that the loop does not end.\<close>

partial_function (option) audio_loop :: "(nat \<Rightarrow> bytes) \<Rightarrow> nat \<Rightarrow> bytes list option" where
  "audio_loop read_at pos =
     (let chunk = read_at pos
      in if chunk = [] then Some []
         else Option.bind (audio_loop read_at (pos + length chunk)) (\<lambda>cs. Some (chunk # cs)))"

text \<open>\<open>read\<close> of a file with the given content.\<close>

definition read_chunk :: "bytes \<Rightarrow> nat \<Rightarrow> bytes" where
  "read_chunk b pos = take audio_chunk_bytes (drop pos b)"

lemma audio_loop_chunks: "audio_loop (read_chunk b) pos = Some (audio_chunks (drop pos b))"
proof (induction "length b - pos" arbitrary: pos rule: less_induct)
  case less
  show ?case
  proof (cases "drop pos b = []")
    case True
    then show ?thesis by (subst audio_loop.simps) (simp add: read_chunk_def audio_chunks.simps)
  next
    case False
    let ?c = "take audio_chunk_bytes (drop pos b)"
    have n: "?c \<noteq> []" "length ?c = min audio_chunk_bytes (length b - pos)" using False by (auto simp: audio_chunk_bytes_def)
    have "audio_loop (read_chunk b) (pos + length ?c) = Some (audio_chunks (drop (pos + length ?c) b))"
      using False n by (intro less.hyps) (auto simp: audio_chunk_bytes_def)
    moreover have "drop (pos + length ?c) b = drop audio_chunk_bytes (drop pos b)"
      using n(2) by (cases "audio_chunk_bytes \<le> length b - pos") (auto simp: add.commute)
    ultimately show ?thesis
      using n(1) False by (subst audio_loop.simps) (simp add: read_chunk_def audio_chunks.simps [of "drop pos b"] Let_def)
  qed
qed

lemma audio_chunks_concat: "concat (audio_chunks b) = b"
proof (induction b rule: audio_chunks.induct)
  case (1 b)
  then show ?case by (cases "b = []") (subst audio_chunks.simps; simp)+
qed

lemma audio_chunks_count: "length (audio_chunks b) = (length b + audio_chunk_bytes - 1) div audio_chunk_bytes"
proof (induction b rule: audio_chunks.induct)
  case (1 b)
  show ?case
  proof (cases "b = []")
    case True
    then show ?thesis by (subst audio_chunks.simps) (simp add: audio_chunk_bytes_def)
  next
    case False
    let ?n = audio_chunk_bytes
    have p: "0 < ?n" by (simp add: audio_chunk_bytes_def)
    have "length (audio_chunks b) = Suc ((length b - ?n + ?n - 1) div ?n)"
      using 1 False by (subst audio_chunks.simps) simp
    also have "\<dots> = (length b + ?n - 1) div ?n"
    proof (cases "?n \<le> length b")
      case True
      then have "length b + ?n - 1 = (length b - ?n + ?n - 1) + ?n" by simp
      then show ?thesis using p by (metis div_add_self2 Suc_eq_plus1 neq0_conv)
    next
      case f: False
      have "length b + ?n - 1 = (length b - 1) + ?n" "length b - 1 < ?n" using False f by (cases b, simp_all)+
      then have "(length b + ?n - 1) div ?n = 1" using p by (metis div_add_self2 div_less neq0_conv plus_1_eq_Suc One_nat_def add_0)
      then show ?thesis using f p by simp
    qed
    finally show ?thesis .
  qed
qed

lemma audio_chunks_sizes: "c \<in> set (audio_chunks b) \<Longrightarrow> 0 < length c \<and> length c \<le> audio_chunk_bytes"
proof (induction b rule: audio_chunks.induct)
  case (1 b)
  have p: "0 < audio_chunk_bytes" by (simp add: audio_chunk_bytes_def)
  show ?case
  proof (cases "b = []")
    case True
    then show ?thesis using 1(2) by (subst (asm) audio_chunks.simps) simp
  next
    case False
    then have "c = take audio_chunk_bytes b \<or> c \<in> set (audio_chunks (drop audio_chunk_bytes b))"
      using 1(2) by (subst (asm) audio_chunks.simps) simp
    then show ?thesis using 1(1) False p by auto
  qed
qed

subsection \<open>The first occurrence of a mark\<close>

fun cut :: "'a list \<Rightarrow> 'a list \<Rightarrow> ('a list \<times> 'a list) option" where
  "cut k [] = (if k = [] then Some ([], []) else None)"
| "cut k (c # cs) =
     (if take (length k) (c # cs) = k then Some ([], drop (length k) (c # cs))
      else map_option (apfst ((#) c)) (cut k cs))"

lemma cut_hit: "cut k (k @ r) = Some ([], r)"
proof (cases "k @ r")
  case (Cons c cs)
  then have "take (length k) (c # cs) = k" "drop (length k) (c # cs) = r" by (metis append_eq_conv_conj)+
  then show ?thesis using Cons by simp
qed auto

text \<open>A mark whose first element does not come again in it is found where it was put, behind a text
  that does not contain it; and only there.\<close>

lemma cut_mark:
  assumes k: "k \<noteq> []" "hd k \<notin> set (tl k)" and a: "\<not> sublist k a"
  shows "cut k (a @ k @ r) = Some (a, r)"
  using a
proof (induction a)
  case Nil
  then show ?case by (simp add: cut_hit)
next
  case (Cons c a)
  have "take (length k) (c # a @ k @ r) \<noteq> k"
  proof
    assume m: "take (length k) (c # a @ k @ r) = k"
    show False
    proof (cases "length k \<le> length (c # a)")
      case True
      then have "take (length k) (c # a) = k" using m by (metis append_Cons take_append diff_is_0_eq take_0 append_Nil2)
      then have "sublist k (c # a)" by (metis append_take_drop_id sublist_append_rightI)
      then show False using Cons.prems by blast
    next
      case False
      let ?n = "length (c # a)"
      have "k ! ?n = (c # a @ k @ r) ! ?n" using m False by (metis linorder_not_le nth_take)
      also have "\<dots> = hd k" using k(1) by (simp add: nth_append hd_conv_nth)
      finally have "tl k ! length a = hd k" using False by (cases k) auto
      moreover have "length a < length (tl k)" using False by simp
      ultimately show False using k(2) nth_mem by metis
    qed
  qed
  moreover have "cut k (a @ k @ r) = Some (a, r)" using Cons by (simp add: sublist_Cons_right)
  ultimately show ?case by simp
qed

lemma cut_free: "cut k b = Some (a, r) \<Longrightarrow> k \<noteq> [] \<Longrightarrow> \<not> sublist k a"
proof (induction b arbitrary: a)
  case (Cons c cs)
  show ?case
  proof (cases "take (length k) (c # cs) = k")
    case True
    then show ?thesis using Cons.prems by (cases k) auto
  next
    case False
    then obtain a' where a': "a = c # a'" "cut k cs = Some (a', r)" using Cons.prems(1) by auto
    have "cs = a' @ k @ r" using a'(2)
    proof (induction cs arbitrary: a')
      case (Cons x xs)
      then show ?case by (auto split: if_splits) (metis append_take_drop_id)
    qed (auto split: if_splits)
    then have "c # cs = (c # a') @ k @ r" by simp
    then have "\<not> prefix k (c # a')" using False by (metis prefix_def append_assoc append_eq_conv_conj)
    then show ?thesis using Cons.IH [OF a'(2) Cons.prems(2)] a'(1) by (simp add: sublist_Cons_right)
  qed
qed auto

lemma cut_shorter: "cut k b = Some (a, r) \<Longrightarrow> k \<noteq> [] \<Longrightarrow> length r < length b"
proof (induction b arbitrary: a)
  case (Cons c cs)
  then show ?case by (cases k) (auto split: if_splits simp: less_Suc_eq)
qed auto

subsection \<open>A reader of multipart bodies\<close>

definition crlf :: bytes where
  "crlf = [13, 10]"

definition part_mark :: bytes where
  "part_mark = crlf @ ascii_bytes (lit ''--'' @ boundary)"

text \<open>Header lines up to an empty one, and the rest.\<close>

function read_headers :: "bytes \<Rightarrow> (bytes list \<times> bytes) option" where
  "read_headers b =
     (case cut crlf b of
        None \<Rightarrow> None
      | Some (l, r) \<Rightarrow> if l = [] then Some ([], r) else map_option (apfst ((#) l)) (read_headers r))"
  by auto

termination
  by (relation "measure length") (auto simp: crlf_def dest: cut_shorter)

declare read_headers.simps [simp del]

lemma read_headers_shorter: "read_headers b = Some (hs, r) \<Longrightarrow> length r < length b"
proof (induction b arbitrary: hs rule: read_headers.induct)
  case (1 b)
  then obtain l r' where c: "cut crlf b = Some (l, r')" by (subst (asm) (2) read_headers.simps) (auto split: option.splits)
  then have "length r' < length b" by (auto simp: crlf_def dest: cut_shorter)
  then show ?case
    using 1 c by (subst (asm) (2) read_headers.simps) (fastforce split: if_splits)
qed

text \<open>The parts: headers, content, and what follows the mark.\<close>

function read_parts :: "bytes \<Rightarrow> (bytes list \<times> bytes) list option" where
  "read_parts b =
     (case read_headers b of
        None \<Rightarrow> None
      | Some (hs, r) \<Rightarrow>
          (case cut part_mark r of
             None \<Rightarrow> None
           | Some (content, r2) \<Rightarrow>
               if take 2 r2 = crlf then map_option ((#) (hs, content)) (read_parts (drop 2 r2))
               else if r2 = ascii_bytes (lit ''--'') @ crlf then Some [(hs, content)]
               else None))"
  by auto

termination
proof (relation "measure length")
  fix b x hs r y c r2
  assume "read_headers b = Some x" "(hs, r) = x" "cut part_mark r = Some y" "(c, r2) = y"
  then have "length r < length b" "length r2 < length r"
    using cut_shorter [of part_mark r c r2] by (auto simp: part_mark_def crlf_def dest: read_headers_shorter)
  then show "(drop 2 r2, b) \<in> measure length" by simp
qed simp

declare read_parts.simps [simp del]

definition read_multipart :: "bytes \<Rightarrow> (bytes list \<times> bytes) list option" where
  "read_multipart b =
     (if take (length part_mark) (crlf @ b) = part_mark \<and> take 2 (drop (length part_mark) (crlf @ b)) = crlf
      then read_parts (drop (length part_mark) b) else None)"

subsection \<open>What the reader makes of a body\<close>

lemma part_mark_shape: "part_mark \<noteq> []" "hd part_mark \<notin> set (tl part_mark)" "hd crlf \<notin> set (tl crlf)" "crlf \<noteq> []"
  by (simp_all add: part_mark_def crlf_def boundary_def lit_def ascii_bytes_def)

lemma cut_line: "13 \<notin> set l \<Longrightarrow> cut crlf (l @ crlf @ r) = Some (l, r)"
  by (rule cut_mark [OF part_mark_shape(4,3)]) (auto simp: sublist_def crlf_def)

lemma read_headers_blank: "read_headers (crlf @ r) = Some ([], r)"
  by (subst read_headers.simps) (simp add: cut_hit)

lemma read_headers_line: "13 \<notin> set l \<Longrightarrow> l \<noteq> [] \<Longrightarrow> read_headers (l @ crlf @ r) = map_option (apfst ((#) l)) (read_headers r)"
  by (subst read_headers.simps) (simp add: cut_line)

lemma part_read:
  assumes "read_headers x = Some (hs, c @ part_mark @ crlf @ rest)" "\<not> sublist part_mark c"
  shows "read_parts x = map_option ((#) (hs, c)) (read_parts rest)"
  by (subst read_parts.simps) (simp add: assms cut_mark [OF part_mark_shape(1,2) assms(2)], simp add: crlf_def)

lemma part_last:
  assumes "read_headers x = Some (hs, c @ part_mark @ ascii_bytes (lit ''--'') @ crlf)" "\<not> sublist part_mark c"
  shows "read_parts x = Some [(hs, c)]"
  by (subst read_parts.simps) (simp add: assms cut_mark [OF part_mark_shape(1,2) assms(2)], simp add: crlf_def lit_def ascii_bytes_def)

lemma part_free: "read_parts x = Some ((hs, c) # ps) \<Longrightarrow> \<not> sublist part_mark c"
  by (subst (asm) read_parts.simps) (auto split: option.splits if_splits dest!: cut_free [OF _ part_mark_shape(1)])

lemma utf8_without: "list_all scalar_char t \<Longrightarrow> v < 128 \<Longrightarrow> v \<notin> set t \<Longrightarrow> (of_nat v :: byte) \<notin> set (utf8_bytes t)"
proof
  assume t: "list_all scalar_char t" "v < 128" "v \<notin> set t" and "(of_nat v :: byte) \<in> set (utf8_bytes t)"
  then obtain c b where c: "c \<in> set t" "b \<in> set (utf8_char c)" "(of_nat v :: byte) = of_nat b"
    by (auto simp: utf8_bytes_def)
  have s: "scalar_char c" using t(1) c(1) by (simp add: list_all_iff)
  have "b < 256" using utf8_char_byte [OF s c(2)] .
  moreover have "unat (of_nat v :: byte) = unat (of_nat b :: byte)" using c(3) by simp
  ultimately have "v = b" using t(2) by (simp add: unat_of_nat)
  then have "c = v" using c(2) t(2) by (auto simp: utf8_char_def split: if_splits)
  then show False using c(1) t(3) by simp
qed

definition audio_disposition :: "str \<Rightarrow> bytes" where
  "audio_disposition path =
     utf8_bytes (lit ''Content-Disposition: form-data; name=\"audio\"; filename=\"'' @ safe_filename (posix_name path) @ [34])"

definition audio_type :: bytes where
  "audio_type = ascii_bytes (lit ''Content-Type: audio/wav'')"

definition hotwords_disposition :: bytes where
  "hotwords_disposition = ascii_bytes (lit ''Content-Disposition: form-data; name=\"hotwords\"'')"

lemma header_lines:
  assumes "list_all scalar_char (posix_name path)"
  shows "py_encode (audio_header path) = Inr (audio_disposition path @ crlf)" "13 \<notin> set (audio_disposition path)" "audio_disposition path \<noteq> []"
    "13 \<notin> set audio_type" "audio_type \<noteq> []" "13 \<notin> set hotwords_disposition" "hotwords_disposition \<noteq> []"
proof -
  have n: "list_all scalar_char (safe_filename (posix_name path))" "13 \<notin> set (safe_filename (posix_name path))"
    using assms by (auto simp: safe_filename_def list_all_iff scalar_char_def)
  have l: "list_all scalar_char (lit ''Content-Disposition: form-data; name=\"audio\"; filename=\"'')"
      "(13::nat) \<notin> set (lit ''Content-Disposition: form-data; name=\"audio\"; filename=\"'')"
    by (simp_all add: lit_def scalar_char_def)
  have "utf8_bytes [34, 13, 10] = utf8_bytes [34] @ crlf" by (simp add: utf8_bytes_def utf8_char_def crlf_def)
  then show "py_encode (audio_header path) = Inr (audio_disposition path @ crlf)"
    using n(1) l(1) by (simp add: py_encode_def audio_header_def audio_disposition_def utf8_bytes_append scalar_char_def)
  show "13 \<notin> set (audio_disposition path)"
    using utf8_without [of _ 13] n l unfolding audio_disposition_def by (force simp: scalar_char_def)
  show "audio_disposition path \<noteq> []" by (simp add: audio_disposition_def utf8_bytes_def lit_def utf8_char_def)
  show "13 \<notin> set audio_type" "audio_type \<noteq> []" "13 \<notin> set hotwords_disposition" "hotwords_disposition \<noteq> []"
    by (simp_all add: audio_type_def hotwords_disposition_def lit_def ascii_bytes_def)
qed

text \<open>The body as text between marks.\<close>

lemma body_text:
  assumes "posix_suffix path = lit ''.wav''" "list_all scalar_char (posix_name path)" "list_all scalar_char w"
    and w: "w = (case words of None \<Rightarrow> [] | Some t \<Rightarrow> t)"
  shows "snd (multipart_body (Inr b) path words) = None"
    and "crlf @ concat (fst (multipart_body (Inr b) path words)) =
      part_mark @ crlf @ audio_disposition path @ crlf @ audio_type @ crlf @ crlf @ b @ part_mark
      @ (if w = [] then [] else crlf @ hotwords_disposition @ crlf @ crlf @ utf8_bytes w @ part_mark)
      @ ascii_bytes (lit ''--'') @ crlf"
proof -
  have lines: "dash_line = drop 2 part_mark @ crlf" "close_line = drop 2 part_mark @ ascii_bytes (lit ''--'') @ crlf"
      "hotwords_header = hotwords_disposition @ crlf @ crlf" "ascii_bytes (lit ''Content-Type: audio/wav'' @ [13, 10, 13, 10]) = audio_type @ crlf @ crlf"
      "ascii_bytes [13, 10] = crlf" "crlf @ drop 2 part_mark = part_mark"
    by (simp_all add: dash_line_def close_line_def hotwords_header_def hotwords_disposition_def part_mark_def crlf_def audio_type_def ascii_bytes_def)
  have enc: "py_encode w = Inr (utf8_bytes w)" using assms(3) by (simp add: py_encode_def)
  have m: "multipart_body (Inr b) path words =
     (let first = [dash_line, audio_disposition path @ crlf, audio_type @ crlf @ crlf] @ audio_chunks b @ [crlf]
      in if w = [] then (first @ [close_line], None)
         else (first @ [dash_line, hotwords_header, utf8_bytes w, crlf, close_line], None))"
    using assms(1) w enc by (auto simp: multipart_body_def validate_wav_path_def require_def header_lines(1) [OF assms(2)] Let_def lines(4,5) split: option.splits)
  show "snd (multipart_body (Inr b) path words) = None" by (simp add: m Let_def)
  have a: "crlf @ drop 2 part_mark @ x = part_mark @ x" for x using lines(6) by (metis append_assoc)
  show "crlf @ concat (fst (multipart_body (Inr b) path words)) =
      part_mark @ crlf @ audio_disposition path @ crlf @ audio_type @ crlf @ crlf @ b @ part_mark
      @ (if w = [] then [] else crlf @ hotwords_disposition @ crlf @ crlf @ utf8_bytes w @ part_mark)
      @ ascii_bytes (lit ''--'') @ crlf"
    by (simp add: m Let_def audio_chunks_concat lines(1-3) a)
qed

text \<open>Reading that text.\<close>

lemma body_read:
  assumes "posix_suffix path = lit ''.wav''" "list_all scalar_char (posix_name path)" "list_all scalar_char w"
    and "w = (case words of None \<Rightarrow> [] | Some t \<Rightarrow> t)"
  defines "tail \<equiv> (if w = [] then [] else crlf @ hotwords_disposition @ crlf @ crlf @ utf8_bytes w @ part_mark) @ ascii_bytes (lit ''--'') @ crlf"
  shows "read_multipart (concat (fst (multipart_body (Inr b) path words)))
      = read_parts (audio_disposition path @ crlf @ audio_type @ crlf @ crlf @ b @ part_mark @ tail)"
    and "read_headers (audio_disposition path @ crlf @ audio_type @ crlf @ crlf @ x) = Some ([audio_disposition path, audio_type], x)"
    and "read_headers (hotwords_disposition @ crlf @ crlf @ x) = Some ([hotwords_disposition], x)"
proof -
  let ?c = "concat (fst (multipart_body (Inr b) path words))"
  note t = body_text(2) [OF assms(1-4), of b, folded tail_def]
  have "take (length part_mark) (crlf @ ?c) = part_mark" "take 2 (drop (length part_mark) (crlf @ ?c)) = crlf"
    unfolding t by (simp_all add: crlf_def)
  moreover have "drop (length part_mark) ?c = drop (length part_mark + 2) (crlf @ ?c)" by (simp add: crlf_def)
  ultimately show "read_multipart ?c
      = read_parts (audio_disposition path @ crlf @ audio_type @ crlf @ crlf @ b @ part_mark @ tail)"
    unfolding read_multipart_def by (simp only: t) (simp add: crlf_def)
  note h = header_lines [OF assms(2)]
  show "read_headers (audio_disposition path @ crlf @ audio_type @ crlf @ crlf @ x) = Some ([audio_disposition path, audio_type], x)"
    by (simp add: read_headers_line h(2-5) read_headers_blank)
  show "read_headers (hotwords_disposition @ crlf @ crlf @ x) = Some ([hotwords_disposition], x)"
    by (simp add: read_headers_line h(6,7) read_headers_blank)
qed

lemma multipart_exact_raw:
  assumes "posix_suffix path = lit ''.wav''" "list_all scalar_char (posix_name path)" "list_all scalar_char w"
    and w: "w = (case words of None \<Rightarrow> [] | Some t \<Rightarrow> t)"
  shows "read_multipart (concat (fst (multipart_body (Inr b) path words)))
      = Some (([audio_disposition path, audio_type], b) # (if w = [] then [] else [([hotwords_disposition], utf8_bytes w)]))
    \<longleftrightarrow> \<not> sublist part_mark b \<and> \<not> sublist part_mark (utf8_bytes w)" (is "?read = Some (?audio # ?words) \<longleftrightarrow> _")
proof -
  note r = body_read [OF assms]
  show ?thesis
  proof (cases "sublist part_mark b")
    case True
    then show ?thesis using part_free [of _ "[audio_disposition path, audio_type]" b] unfolding r(1) by auto
  next
    case b: False
    show ?thesis
    proof (cases "w = []")
      case True
      then show ?thesis using b part_last [OF r(2) b] part_mark_shape(1) unfolding r(1) by simp
    next
      case False
      let ?more = "hotwords_disposition @ crlf @ crlf @ utf8_bytes w @ part_mark @ ascii_bytes (lit ''--'') @ crlf"
      have rd: "?read = map_option ((#) ?audio) (read_parts ?more)"
        unfolding r(1) using part_read [OF _ b, of _ "[audio_disposition path, audio_type]" ?more] r(2) False by simp
      show ?thesis
      proof (cases "sublist part_mark (utf8_bytes w)")
        case True
        then have "read_parts ?more \<noteq> Some ?words" using part_free False by auto
        then show ?thesis using True rd by (cases "read_parts ?more") auto
      next
        case w: False
        then show ?thesis using rd b part_last [OF r(3) w] False by simp
      qed
    qed
  qed
qed

subsection \<open>Properties\<close>

text \<open>C32. What the client uploads is read back as it was: for a recording and hotwords (empty ones
  are not sent), the body of the request is read as exactly the two parts, with the headers the
  client gives them, if and only if neither contains a line break followed by the two dashes and
  the client's fixed boundary. No other byte, line break or quote in the file, its name or the
  hotwords does harm.\<close>

theorem multipart_exact:
  assumes "posix_suffix path = lit ''.wav''" "list_all scalar_char (posix_name path)" "list_all scalar_char w"
    and "w = (case words of None \<Rightarrow> [] | Some t \<Rightarrow> t)"
  shows "snd (multipart_body (Inr b) path words) = None
    \<and> (read_multipart (concat (fst (multipart_body (Inr b) path words)))
        = Some (([audio_disposition path, audio_type], b) # (if w = [] then [] else [([hotwords_disposition], utf8_bytes w)]))
      \<longleftrightarrow> \<not> sublist part_mark b \<and> \<not> sublist part_mark (utf8_bytes w))"
  using body_text(1) [OF assms] multipart_exact_raw [OF assms] by blast

text \<open>C23. The loop that reads the recording ends on every file: it yields the file in order, in chunks
  that are not empty and have at most a mebibyte, one for each mebibyte begun; these are the
  chunks of the body. (A source that never reports its end is read for ever:
  \<open>audio_loop_endless\<close>.)\<close>

theorem audio_loop_ends:
  "\<exists>cs. audio_loop (read_chunk b) 0 = Some cs \<and> concat cs = b
     \<and> length cs = (length b + audio_chunk_bytes - 1) div audio_chunk_bytes
     \<and> list_all (\<lambda>c. 0 < length c \<and> length c \<le> audio_chunk_bytes) cs
     \<and> (snd (multipart_body (Inr b) path None) = None \<longrightarrow>
          (\<exists>start. length start = 3 \<and> fst (multipart_body (Inr b) path None) = start @ cs @ [crlf, close_line]))"
proof (rule exI [of _ "audio_chunks b"], intro conjI impI)
  show "audio_loop (read_chunk b) 0 = Some (audio_chunks b)" using audio_loop_chunks [of b 0] by simp
  show "list_all (\<lambda>c. 0 < length c \<and> length c \<le> audio_chunk_bytes) (audio_chunks b)"
    using audio_chunks_sizes by (auto simp: list_all_iff)
  show "\<exists>start. length start = 3 \<and> fst (multipart_body (Inr b) path None) = start @ audio_chunks b @ [crlf, close_line]"
    if ok: "snd (multipart_body (Inr b) path None) = None"
  proof -
    obtain h where "validate_wav_path path = Inr ()" "py_encode (audio_header path) = Inr h"
      using ok by (cases "validate_wav_path path"; cases "py_encode (audio_header path)") (auto simp: multipart_body_def)
    then show ?thesis
      by (intro exI [of _ "[dash_line, h, ascii_bytes (lit ''Content-Type: audio/wav'' @ [13, 10, 13, 10])]"])
        (simp add: multipart_body_def Let_def crlf_def ascii_bytes_def)
  qed
qed (simp_all add: audio_chunks_concat audio_chunks_count)

lemma audio_loop_Some: "audio_loop read_at pos = Some cs \<Longrightarrow> \<exists>n. read_at n = []"
proof (rule audio_loop.raw_induct [where P = "\<lambda>r p y. \<exists>n. r n = []"])
  fix loop :: "(nat \<Rightarrow> bytes) \<Rightarrow> nat \<Rightarrow> bytes list option" and r p y
  assume "\<And>r p y. loop r p = Some y \<Longrightarrow> \<exists>n. r n = []"
    and "(let chunk = r p in if chunk = [] then Some [] else Option.bind (loop r (p + length chunk)) (\<lambda>cs. Some (chunk # cs))) = Some y"
  then show "\<exists>n. r n = []" by (auto simp: Let_def split: if_splits Option.bind_splits)
qed

lemma audio_loop_endless: "(\<And>n. read_at n \<noteq> []) \<Longrightarrow> audio_loop read_at pos = None"
  using audio_loop_Some [of read_at pos] by (cases "audio_loop read_at pos") auto

text \<open>C20. Every client that was made is well-formed, whatever its arguments were: its base URL is an
  \<open>https\<close> URL, its pin is \<open>sha256/\<close> and 44 characters, and if a connection has an address at all,
  its port is from 1 to 65535.\<close>

theorem client_well_formed:
  assumes "new_client pr bb url pin = Inr c"
  shows "py_startswith (cl_base_url c) (lit ''https://'') \<and> py_startswith (cl_server_pin c) (lit ''sha256/'')
    \<and> length (cl_server_pin c) = 51
    \<and> (\<forall>h p. client_address pr c = Inr (h, p) \<longrightarrow> 1 \<le> p \<and> p \<le> 65535)"
proof -
  obtain u where u: "normalize_base_url pr bb url = Inr (cl_base_url c)" "cl_url c = u"
    and p: "normalize_server_pin pin = Inr (cl_server_pin c)"
    using assms by (auto simp: new_client_def bind_res_eq_Inr)
  have "py_startswith (cl_base_url c) (lit ''https://'')"
    using u(1) by (auto simp: normalize_base_url_def bind_res_eq_Inr py_startswith_iff eq_commute [of _ "cl_base_url c"] split: if_splits)
  moreover obtain d where d: "length d = 32" "cl_server_pin c = server_pin_prefix @ encode_audio_base64 d"
    using p by (auto simp: normalize_server_pin_def Let_def split: if_splits option.splits)
  then have "length (cl_server_pin c) = 51" by (simp add: length_encode server_pin_prefix_def)
  moreover have "py_startswith (cl_server_pin c) (lit ''sha256/'')" using d(2) by (simp add: server_pin_prefix_def)
  moreover have "1 \<le> p \<and> p \<le> 65535" if a: "client_address pr c = Inr (h, p)" for h p
  proof -
    obtain po where po: "url_port pr u = Inr po" "p = (case po of None \<Rightarrow> 443 | Some n \<Rightarrow> if n = 0 then 443 else n)"
      using a u(2) by (auto simp: client_address_def bind_res_eq_Inr)
    show ?thesis
    proof (cases po)
      case (Some n)
      have "0 \<le> n \<and> n \<le> 65535" using url_port_range [OF po(1) [unfolded Some]] .
      then show ?thesis using po(2) Some by auto
    qed (use po(2) in simp)
  qed
  ultimately show ?thesis by blast
qed

subsection \<open>Witnesses\<close>

theorem multipart_exact_witness:
  "read_multipart (concat (fst (multipart_body (Inr [13, 10, 45]) (lit ''a.wav'') (Some (lit ''x'')))))
     = Some [([audio_disposition (lit ''a.wav''), audio_type], [13, 10, 45]), ([hotwords_disposition], [120])]"
proof -
  have p: "posix_suffix (lit ''a.wav'') = lit ''.wav''" by code_simp
  have s: "list_all scalar_char (posix_name (lit ''a.wav''))"
  proof -
    have "posix_name (lit ''a.wav'') = lit ''a.wav''" by code_simp
    then show ?thesis by (simp add: lit_def scalar_char_def)
  qed
  have w: "list_all scalar_char (lit ''x'')" "lit ''x'' = (case Some (lit ''x'') of None \<Rightarrow> [] | Some t \<Rightarrow> t)"
    by (simp_all add: lit_def scalar_char_def)
  have u: "utf8_bytes (lit ''x'') = [120]" by (simp add: lit_def utf8_bytes_def utf8_char_def)
  have "\<not> sublist part_mark b" if "length b < 4" for b
  proof
    assume "sublist part_mark b"
    then have "length part_mark \<le> length b" by (auto simp: sublist_def)
    then show False using that by (simp add: part_mark_def crlf_def ascii_bytes_def)
  qed
  then show ?thesis using multipart_exact [OF p s w, of "[13, 10, 45]"] u by simp
qed

theorem audio_loop_ends_witness:
  "\<exists>cs start. audio_loop (read_chunk [1, 2]) 0 = Some cs \<and> concat cs = [1, 2]
    \<and> fst (multipart_body (Inr [1, 2]) (lit ''a.wav'') None) = start @ cs @ [crlf, close_line]"
proof -
  have p: "posix_suffix (lit ''a.wav'') = lit ''.wav''" by code_simp
  have "posix_name (lit ''a.wav'') = lit ''a.wav''" by code_simp
  then have "list_all scalar_char (posix_name (lit ''a.wav''))" by (simp add: lit_def scalar_char_def)
  from body_text(1) [OF p this, of "[]" None "[1, 2]"] have "snd (multipart_body (Inr [1, 2]) (lit ''a.wav'') None) = None" by simp
  then show ?thesis using audio_loop_ends [of "[1, 2]" "lit ''a.wav''"] by blast
qed

theorem client_well_formed_witness:
  "\<exists>c. new_client (\<lambda>_. True) (\<lambda>_. None) demo_url demo_pin = Inr c \<and> length (cl_server_pin c) = 51"
proof -
  have "host_chars (lit ''asr.example'')" "port_ok (Some 42862)"
    by (simp_all add: host_chars_def lit_def before_def port_ok_def)
  from parse_origin [OF this] have "\<exists>c. new_client (\<lambda>_. True) (\<lambda>_. None) demo_url demo_pin = Inr c"
    by (simp add: new_client_def demo_url_normal demo_pin_normal)
  then show ?thesis using client_well_formed by blast
qed

end
