(* ===== verification/Upload_Path.thy ===== *)
theory Upload_Path
  imports Transcribe_Route Client_Upload
begin

section \<open>From the recording to the queue\<close>

text \<open>
  The body the client sends, received by the server's handler: what the job gets of the recording
  and the hotwords, and why an upload can be refused. Starlette's form parser lies between
  the two; its documented behaviour is \<open>form_parser\<close>.
\<close>

subsection \<open>The limits given to the parser\<close>

definition max_multipart_files :: nat where "max_multipart_files = 1"
definition max_multipart_fields :: nat where "max_multipart_fields = 1"
definition max_form_field_bytes :: nat where "max_form_field_bytes = 16 * 1024"

subsection \<open>What the parser promises\<close>

text \<open>A part of a body by what it says: a file with its name, its media type and its content, or a
  text. The quoted names hold no control characters, quotes or backslashes.\<close>

datatype sent_part = SentFile str str str bytes | SentText str str

definition quotable :: "str \<Rightarrow> bool" where
  "quotable s \<longleftrightarrow> list_all (\<lambda>c. scalar_char c \<and> 32 \<le> c \<and> c \<noteq> 127 \<and> c \<noteq> 34 \<and> c \<noteq> 92) s"

definition disposition :: "str \<Rightarrow> str" where
  "disposition name = lit ''Content-Disposition: form-data; name=\"'' @ name @ [34]"

fun part_bytes :: "sent_part \<Rightarrow> bytes list \<times> bytes" where
  "part_bytes (SentFile name filename mime data) =
     ([utf8_bytes (disposition name @ lit ''; filename=\"'' @ filename @ [34]), utf8_bytes (lit ''Content-Type: '' @ mime)], data)"
| "part_bytes (SentText name t) = ([utf8_bytes (disposition name)], utf8_bytes t)"

fun sendable :: "sent_part \<Rightarrow> bool" where
  "sendable (SentFile name filename mime data) \<longleftrightarrow> quotable name \<and> quotable filename \<and> quotable mime"
| "sendable (SentText name t) \<longleftrightarrow> quotable name \<and> list_all scalar_char t"

fun is_file :: "sent_part \<Rightarrow> bool" where
  "is_file (SentFile _ _ _ _) = True"
| "is_file (SentText _ _) = False"

fun small_part :: "sent_part \<Rightarrow> bool" where
  "small_part (SentFile _ _ _ _) = True"
| "small_part (SentText _ t) \<longleftrightarrow> length (utf8_bytes t) \<le> max_form_field_bytes"

text \<open>The item of the form for a part; a file is read back in chunks that are not empty.\<close>

fun form_item :: "sent_part \<Rightarrow> str \<times> form_value \<Rightarrow> bool" where
  "form_item (SentFile name filename mime data) (n, FileField u) \<longleftrightarrow>
     n = name \<and> up_filename u = Some filename \<and> up_content_type u = Some mime
   \<and> (\<exists>chunks. up_reads u = map Inr chunks \<and> [] \<notin> set chunks \<and> concat chunks = data)"
| "form_item (SentText name t) (n, FieldText t') \<longleftrightarrow> n = name \<and> t' = t"
| "form_item _ _ \<longleftrightarrow> False"

text \<open>A complete body within the limits on files and fields: the parser gives its items in order,
  unless a text is too long for it or its temporary file cannot be written.\<close>

definition form_parser :: "(bytes list \<times> exn option \<Rightarrow> form res) \<Rightarrow> bool" where
  "form_parser parser \<longleftrightarrow>
     (\<forall>cs ps. read_multipart (concat cs) = Some (map part_bytes ps) \<and> list_all sendable ps
        \<and> length (filter is_file ps) \<le> max_multipart_files \<and> length (filter (\<lambda>p. \<not> is_file p) ps) \<le> max_multipart_fields \<longrightarrow>
        (\<exists>e. is_os_error e \<and> parser (cs, None) = Inl e)
      \<or> (if list_all small_part ps then \<exists>f. parser (cs, None) = Inr f \<and> list_all2 form_item ps f
         else parser (cs, None) = Inl (MultiPartException (lit ''Part exceeded maximum size of 16KB.''))))"

subsection \<open>The client's parts\<close>

definition client_parts :: "str \<Rightarrow> bytes \<Rightarrow> str \<Rightarrow> sent_part list" where
  "client_parts path b w = SentFile (lit ''audio'') (safe_filename (posix_name path)) (lit ''audio/wav'') b
     # (if w = [] then [] else [SentText (lit ''hotwords'') w])"

lemma client_part_bytes:
  "map part_bytes (client_parts path b w) =
     ([audio_disposition path, audio_type], b) # (if w = [] then [] else [([hotwords_disposition], utf8_bytes w)])"
proof -
  have d: "disposition (lit ''audio'') @ lit ''; filename=\"'' = lit ''Content-Disposition: form-data; name=\"audio\"; filename=\"''"
    by (simp add: disposition_def lit_def)
  have "utf8_bytes (disposition (lit ''audio'') @ lit ''; filename=\"'' @ safe_filename (posix_name path) @ [34]) = audio_disposition path"
    unfolding audio_disposition_def d [symmetric] append_assoc by (rule refl)
  moreover have "utf8_bytes (lit ''Content-Type: '' @ lit ''audio/wav'') = audio_type"
    by (subst ascii_utf8) (simp_all add: audio_type_def lit_def)
  moreover have "utf8_bytes (disposition (lit ''hotwords'')) = hotwords_disposition"
    by (subst ascii_utf8) (simp_all add: hotwords_disposition_def disposition_def lit_def)
  ultimately show ?thesis by (simp add: client_parts_def)
qed

lemma split_on_free: "x \<in> set (split_on c s) \<Longrightarrow> c \<notin> set x"
  by (induction c s arbitrary: x rule: split_on.induct) (auto split: if_splits list.splits)

lemma posix_name_free: "47 \<notin> set (posix_name p)"
proof (cases "rev (posix_parts p)")
  case (Cons n ns)
  then have "n \<in> set (posix_parts p)" by (metis list.set_intros(1) set_rev)
  then show ?thesis using Cons split_on_free by (auto simp: posix_name_def posix_parts_def)
qed (simp add: posix_name_def)

text \<open>The name the client sends still ends in \<open>.wav\<close>, so the server's check of it succeeds.\<close>

lemma client_metadata:
  assumes "posix_suffix path = lit ''.wav''"
  shows "validate_heliboard_wav_metadata (Some (safe_filename (posix_name path))) (Some (lit ''audio/wav'')) = Inr (lit ''audio/wav'')"
proof -
  have "name_suffix (posix_name path) = lit ''.wav''" using assms by (simp add: posix_suffix_def)
  then obtain stem where s: "stem \<noteq> []" "posix_name path = stem @ lit ''.wav''"
    using name_suffix_split [of "posix_name path" "lit ''.wav''"] by auto
  have sf: "safe_filename (posix_name path) = safe_filename stem @ lit ''.wav''" "safe_filename stem \<noteq> []"
    using s by (simp_all add: safe_filename_def) (simp add: lit_def)
  have "47 \<notin> set (safe_filename (posix_name path))" using posix_name_free [of path] by (auto simp: safe_filename_def)
  then have "posix_suffix (safe_filename (posix_name path)) = lit ''.wav''"
    using metadata_accepts [where n = "safe_filename (posix_name path)"] sf by blast
  then show ?thesis using sf by (simp add: validate_heliboard_wav_metadata_def heliboard_wav_suffix_def heliboard_wav_mime_type_def)
qed

subsection \<open>The form the handler gets\<close>

text \<open>A request with the client's body and header, in whatever chunks it arrives.\<close>

definition client_post :: "str \<Rightarrow> bytes \<Rightarrow> str option \<Rightarrow> bytes list \<Rightarrow> post \<Rightarrow> bool" where
  "client_post path b words cs po \<longleftrightarrow>
     post_content_type po = Some (lit ''multipart/form-data; boundary='' @ boundary) \<and> post_body po = map Chunk cs
   \<and> concat cs = concat (fst (multipart_body (Inr b) path words))"

text \<open>What the user may send: a \<open>.wav\<close> path whose name has no control characters, text that is Unicode,
  and the client's boundary in neither of the two.\<close>

definition sendable_recording :: "str \<Rightarrow> bytes \<Rightarrow> str \<Rightarrow> bool" where
  "sendable_recording path b w \<longleftrightarrow>
     posix_suffix path = lit ''.wav'' \<and> list_all (\<lambda>c. scalar_char c \<and> 32 \<le> c \<and> c \<noteq> 127) (posix_name path) \<and> list_all scalar_char w
   \<and> \<not> sublist part_mark b \<and> \<not> sublist part_mark (utf8_bytes w)"

lemma client_parts_sendable: "sendable_recording path b w \<Longrightarrow> list_all sendable (client_parts path b w)"
proof -
  assume "sendable_recording path b w"
  then have "quotable (safe_filename (posix_name path))" "list_all scalar_char w"
    by (auto simp: sendable_recording_def quotable_def safe_filename_def list_all_iff scalar_char_def)
  moreover have "quotable (lit ''audio'')" "quotable (lit ''audio/wav'')" "quotable (lit ''hotwords'')"
    by (simp_all add: quotable_def lit_def scalar_char_def)
  ultimately show ?thesis by (simp add: client_parts_def)
qed

lemma client_media_type: "media_type_of (lit ''multipart/form-data; boundary='' @ boundary) = lit ''multipart/form-data''"
  by (simp add: media_type_of_def split_first_def py_strip_def py_lower_def lower_char_def py_space_def lit_def)

lemma upload_data_chunks: "[] \<notin> set chunks \<Longrightarrow> upload_data (map Inr chunks) = concat chunks"
  by (induction chunks) auto

lemma client_form:
  assumes rec: "sendable_recording path b w" and w: "w = (case words of None \<Rightarrow> [] | Some t \<Rightarrow> t)"
    and po: "client_post path b words cs po" "int (length (concat cs)) \<le> m + max_multipart_overhead_bytes"
    and parser: "form_parser (post_parser po)"
  obtains (storage) "parsed_form m po = Inl (HTTPException 507 (lit ''Temporary upload storage exhausted''))"
  | (long_words) "max_form_field_bytes < length (utf8_bytes w)"
      "parsed_form m po = Inl (HTTPException 400 (lit ''Part exceeded maximum size of 16KB.''))"
  | (form) u where "parsed_form m po = Inr ((lit ''audio'', FileField u) # (if w = [] then [] else [(lit ''hotwords'', FieldText w)]))"
      "up_filename u = Some (safe_filename (posix_name path))" "up_content_type u = Some (lit ''audio/wav'')"
      "upload_data (up_reads u) = b" "\<And>x. Inl x \<notin> set (up_reads u)"
proof -
  have names: "posix_suffix path = lit ''.wav''" "list_all scalar_char (posix_name path)" "list_all scalar_char w"
    "\<not> sublist part_mark b \<and> \<not> sublist part_mark (utf8_bytes w)"
    using rec by (auto simp: sendable_recording_def list_all_iff)
  have read: "read_multipart (concat cs) = Some (map part_bytes (client_parts path b w))"
    using multipart_exact_raw [OF names(1-3) w, of b] names(4) po(1) by (simp add: client_post_def client_part_bytes)
  have counts: "length (filter is_file (client_parts path b w)) \<le> max_multipart_files"
    "length (filter (\<lambda>p. \<not> is_file p) (client_parts path b w)) \<le> max_multipart_fields"
    by (simp_all add: client_parts_def max_multipart_files_def max_multipart_fields_def)
  have small: "list_all small_part (client_parts path b w) \<longleftrightarrow> length (utf8_bytes w) \<le> max_form_field_bytes"
    by (simp add: client_parts_def utf8_bytes_def)
  have parsed: "parsed_form m po = (case post_parser po (cs, None) of Inr f \<Rightarrow> Inr f | Inl e \<Rightarrow> Inl (fst (map_parse_error e)))"
    using po client_media_type limited_stream_fits [of 0 cs "m + max_multipart_overhead_bytes"]
    by (simp add: client_post_def parsed_form_def parse_transcribe_form_def split_def Let_def split: sum.splits)
  have "(\<exists>e. is_os_error e \<and> post_parser po (cs, None) = Inl e)
      \<or> (if list_all small_part (client_parts path b w)
         then \<exists>f. post_parser po (cs, None) = Inr f \<and> list_all2 form_item (client_parts path b w) f
         else post_parser po (cs, None) = Inl (MultiPartException (lit ''Part exceeded maximum size of 16KB.'')))"
    using parser read client_parts_sendable [OF rec] counts unfolding form_parser_def by blast
  then consider (os) e where "is_os_error e" "post_parser po (cs, None) = Inl e"
    | (long) "\<not> length (utf8_bytes w) \<le> max_form_field_bytes"
        "post_parser po (cs, None) = Inl (MultiPartException (lit ''Part exceeded maximum size of 16KB.''))"
    | (items) f where "post_parser po (cs, None) = Inr f" "list_all2 form_item (client_parts path b w) f"
    unfolding small by (auto split: if_splits)
  then show thesis
  proof cases
    case os
    then have "fst (map_parse_error e) = HTTPException 507 (lit ''Temporary upload storage exhausted'')"
      by (cases e) (simp_all add: map_parse_error_def)
    then show ?thesis using storage parsed os by simp
  next
    case long
    have "lit ''Part exceeded maximum size of 16KB.'' \<noteq> lit ''Request body too large''" "lit ''Part exceeded maximum size of 16KB.'' \<noteq> lit ''Request body stalled''"
      by (simp_all add: lit_def)
    then show ?thesis using long_words parsed long by (simp add: map_parse_error_def multipart_status_def)
  next
    case items
    obtain x f' where f: "f = x # f'" "form_item (SentFile (lit ''audio'') (safe_filename (posix_name path)) (lit ''audio/wav'') b) x"
      "list_all2 form_item (if w = [] then [] else [SentText (lit ''hotwords'') w]) f'"
      using items(2) by (auto simp: client_parts_def list_all2_Cons1)
    obtain u where u: "x = (lit ''audio'', FileField u)" "up_filename u = Some (safe_filename (posix_name path))"
      "up_content_type u = Some (lit ''audio/wav'')" "\<exists>chunks. up_reads u = map Inr chunks \<and> [] \<notin> set chunks \<and> concat chunks = b"
      using f(2) by (cases x; cases "snd x") auto
    have f': "f' = (if w = [] then [] else [(lit ''hotwords'', FieldText w)])"
    proof (cases "w = []")
      case False
      then obtain y where "f' = [y]" "form_item (SentText (lit ''hotwords'') w) y" using f(3) by (auto simp: list_all2_Cons1)
      then show ?thesis using False by (cases y; cases "snd y") auto
    qed (use f(3) in simp)
    show ?thesis
      using parsed items(1) f(1) u f' upload_data_chunks by (intro form [of u]) auto
  qed
qed

lemma client_extract:
  assumes "items = (lit ''audio'', FileField u) # (if w = [] then [] else [(lit ''hotwords'', FieldText w)])"
  shows "extract_transcribe_form items
    = (if control_token_search w then Inl (HTTPException 400 (lit ''hotwords contain reserved control tokens''))
       else Inr (u, if w = [] then None else Some w))"
proof -
  have "lit ''hotwords'' \<noteq> lit ''audio''" by (simp add: lit_def)
  moreover have "\<not> control_token_search []" by simp
  ultimately show ?thesis by (simp add: assms extract_transcribe_form_def validate_hotwords_value_def)
qed

subsection \<open>The property\<close>

text \<open>C4. The recording from the client to the queue, for a path that ends in \<open>.wav\<close> with a file name
  without control characters, hotwords of Unicode characters, and a recording and hotwords that do not
  contain the client's fixed boundary mark (line break, two dashes and the boundary). With the mark
  inside, the body does not read back as it was sent: the recording may arrive cut short, or its
  rest be taken for another field; this is the client's defect that \<open>multipart_exact\<close> shows, and the property does not
  cover it. The body the client makes of the others arrives, in chunks of any size
  and within the server's bound, at a parser that keeps its documented promise; the job's identifier
  is fresh, the other tasks leave the job to its handler, closing the form does not raise, and the
  disk refuses no removal. If the handler accepts it, the job was queued with exactly this recording
  in a private file, a HeliBoard WAV, and with exactly these hotwords (none for empty ones). If not,
  it is for one of the stated reasons and with its status: the queue was full (503) or the disk (507),
  the recording is over the limit (413), empty (400) or no HeliBoard WAV (422), or the hotwords are
  longer than 16 KiB or contain control tokens (400); so for these requests no field is
  reported missing or double, and neither file name nor media type is refused.\<close>

theorem upload_arrives:
  assumes queue: "reach usual_init usual_step q" "store q i = None" "calm_env i en" "wf_fs (disk q)" "0 \<le> m" "post_close po = None"
    and rec: "sendable_recording path b w" and w: "w = (case words of None \<Rightarrow> [] | Some t \<Rightarrow> t)"
    and po: "client_post path b words cs po" "int (length (concat cs)) \<le> m + max_multipart_overhead_bytes"
    and parser: "form_parser (post_parser po)"
    and run: "transcribe m ident i now po en q = (res, q')"
  shows "case res of
      Inr x \<Rightarrow> x = i \<and> (\<exists>q2 j p. usual_step\<^sup>*\<^sup>* q q2 \<and> usual_step\<^sup>*\<^sup>* q2 q' \<and> get_job q2 i = Some j \<and> status j = QUEUED
        \<and> i \<in> set (pending q2) \<and> audio_path j = Some p \<and> node_at (disk q2) p = Some (RegFile 384 b) \<and> (\<exists>samples. b = heliboard_wav samples)
        \<and> hotwords j = (if w = [] then None else Some w))
    | Inl e \<Rightarrow> e = HTTPException 503 (lit ''Queue is full'')
        \<or> e = HTTPException 507 (lit ''Temporary upload storage exhausted'')
        \<or> e = HTTPException 413 (lit ''Audio file too large'') \<and> m < int (length b)
        \<or> e = HTTPException 400 (lit ''Empty audio file'') \<and> b = []
        \<or> (\<exists>msg. e = HTTPException 422 msg) \<and> \<not> heliboard_file b
        \<or> e = HTTPException 400 (lit ''Part exceeded maximum size of 16KB.'') \<and> max_form_field_bytes < length (utf8_bytes w)
        \<or> e = HTTPException 400 (lit ''hotwords contain reserved control tokens'') \<and> control_token_search w"
proof -
  note eff = transcribe_effect [OF queue run]
  from rec w po parser show ?thesis
  proof (cases rule: client_form)
    case storage
    then show ?thesis using eff by (auto simp: request_refused_def split: sum.splits)
  next
    case long_words
    then show ?thesis using eff by (auto simp: request_refused_def split: sum.splits)
  next
    case (form u)
    have suffix: "posix_suffix path = lit ''.wav''" using rec by (simp add: sendable_recording_def)
    note ext = client_extract [OF refl, of u w]
    have meta: "\<not> isl (validate_heliboard_wav_metadata (up_filename u) (up_content_type u))"
      using client_metadata [OF suffix] form(2,3) by simp
    show ?thesis
    proof (cases res)
      case (Inl e)
      then have "e = HTTPException 503 (lit ''Queue is full'') \<or> request_refused m po e" using eff by auto
      moreover have "e = HTTPException 400 (lit ''hotwords contain reserved control tokens'') \<and> control_token_search w \<or> upload_refused m u e"
        if "request_refused m po e"
        using that form(1) ext by (auto simp: request_refused_def split: if_splits)
      moreover note upload_refused_def [of m u e] meta form(4,5)
      ultimately show ?thesis using Inl by auto
    next
      case (Inr x)
      then obtain f u' hw q2 where x: "x = i" "parsed_form m po = Inr f" "extract_transcribe_form f = Inr (u', hw)"
        and a: "accepted_upload q2 i m u' hw" and steps: "usual_step\<^sup>*\<^sup>* q q2" "usual_step\<^sup>*\<^sup>* q2 q'"
        using eff by auto
      have "u' = u" "hw = (if w = [] then None else Some w)" using x(2,3) form(1) ext by (auto split: if_splits)
      with a form(4) obtain j p where "get_job q2 i = Some j" "status j = QUEUED" "i \<in> set (pending q2)"
          "audio_path j = Some p" "node_at (disk q2) p = Some (RegFile 384 b)" "\<exists>samples. b = heliboard_wav samples"
          "hotwords j = (if w = [] then None else Some w)"
        unfolding accepted_upload_def by metis
      then show ?thesis using Inr x(1) steps by auto
    qed
  qed
qed

subsection \<open>Witness\<close>

text \<open>A parser that keeps the promise: it reads the body as \<open>read_multipart\<close> does and takes names from
  between the quotes.\<close>

definition read_item :: "bytes list \<times> bytes \<Rightarrow> str \<times> form_value" where
  "read_item = (\<lambda>(hs, b).
     (let d = drop (length (lit ''Content-Disposition: form-data; name=\"'')) (decode_replace (hs ! 0));
          name = takeWhile (\<lambda>c. c \<noteq> 34) d;
          rest = drop (length name + 1 + length (lit ''; filename=\"'')) d
      in if length hs = 1 then (name, FieldText (decode_replace b))
         else (name, FileField \<lparr>up_filename = Some (takeWhile (\<lambda>c. c \<noteq> 34) rest),
                up_content_type = Some (drop (length (lit ''Content-Type: '')) (decode_replace (hs ! 1))),
                up_reads = (if b = [] then [] else [Inr b])\<rparr>)))"

definition plain_parser :: "bytes list \<times> exn option \<Rightarrow> form res" where
  "plain_parser = (\<lambda>(cs, e).
     (case e of Some x \<Rightarrow> Inl x
      | None \<Rightarrow> (case read_multipart (concat cs) of
            None \<Rightarrow> Inl (MultiPartException (lit ''Invalid body''))
          | Some parts \<Rightarrow>
              if list_all (\<lambda>(hs, b). length hs = 1 \<longrightarrow> length b \<le> max_form_field_bytes) parts then Inr (map read_item parts)
              else Inl (MultiPartException (lit ''Part exceeded maximum size of 16KB.'')))))"

lemma quotable_scalar: "quotable s \<Longrightarrow> list_all scalar_char s" "quotable s \<Longrightarrow> 34 \<notin> set s"
  by (auto simp: quotable_def list_all_iff)

lemma lit_scalar: "list_all (\<lambda>c. of_char c < (128 :: nat)) s \<Longrightarrow> list_all scalar_char (lit s)"
  by (auto simp: lit_def list_all_iff scalar_char_def)

lemma disposition_scalar: "quotable n \<Longrightarrow> list_all scalar_char (disposition n)"
  using quotable_scalar(1) [of n] by (simp add: disposition_def scalar_char_def lit_scalar)

lemma before_quote: "34 \<notin> set n \<Longrightarrow> takeWhile (\<lambda>c. c \<noteq> 34) (n @ 34 # r) = n"
  by (induction n) auto

lemma read_item_file:
  assumes "quotable n" "quotable f" "quotable t"
  shows "read_item (part_bytes (SentFile n f t b)) = (n, FileField \<lparr>up_filename = Some f, up_content_type = Some t,
    up_reads = (if b = [] then [] else [Inr b])\<rparr>)"
proof -
  note s = assms [THEN quotable_scalar(1)]
  have "list_all scalar_char (disposition n @ lit ''; filename=\"'' @ f @ [34])" "list_all scalar_char (lit ''Content-Type: '' @ t)"
    using disposition_scalar [OF assms(1)] s by (simp_all add: lit_scalar scalar_char_def)
  then show ?thesis
    using assms [THEN quotable_scalar(2)]
    by (simp add: read_item_def utf8_round_trip disposition_def before_quote)
qed

lemma read_item_text:
  assumes "quotable n" "list_all scalar_char t"
  shows "read_item (part_bytes (SentText n t)) = (n, FieldText t)"
  using assms disposition_scalar [OF assms(1)] quotable_scalar(2) [OF assms(1)]
  by (simp add: read_item_def utf8_round_trip disposition_def before_quote)

lemma plain_parser_ok: "form_parser plain_parser"
proof -
  have "form_item p (read_item (part_bytes p))" if "sendable p" for p
  proof (cases p)
    case (SentFile n f t b)
    have "\<exists>chunks. (if b = [] then [] else [Inr b]) = map Inr chunks \<and> [] \<notin> set chunks \<and> concat chunks = b"
      by (rule exI [of _ "if b = [] then [] else [b]"]) simp
    moreover have "quotable n" "quotable f" "quotable t" using that SentFile by simp_all
    ultimately show ?thesis unfolding SentFile read_item_file [OF \<open>quotable n\<close> \<open>quotable f\<close> \<open>quotable t\<close>] by simp
  next
    case (SentText n t)
    then have "quotable n" "list_all scalar_char t" using that by simp_all
    then show ?thesis unfolding SentText by (simp only: read_item_text form_item.simps simp_thms)
  qed
  then have items: "list_all2 form_item ps (map read_item (map part_bytes ps))" if "list_all sendable ps" for ps
    using that by (simp add: list_all2_conv_all_nth list_all_length)
  have small: "list_all (\<lambda>(hs, b). length hs = 1 \<longrightarrow> length b \<le> max_form_field_bytes) (map part_bytes ps) = list_all small_part ps" for ps
  proof (induction ps)
    case (Cons p ps)
    then show ?case by (cases p) simp_all
  qed simp
  show ?thesis
    unfolding form_parser_def using items small by (simp add: plain_parser_def)
qed

definition sent_post :: post where
  "sent_post = \<lparr>post_content_type = Some (lit ''multipart/form-data; boundary='' @ boundary),
     post_body = map Chunk (fst (multipart_body (Inr sample_wav) (lit ''a.wav'') (Some (lit ''Bo'')))),
     post_parser = plain_parser, post_close = None, post_dir = [lit ''tmp'', lit ''vvv-upload-n'']\<rparr>"

lemma sent_post_client:
  "client_post (lit ''a.wav'') sample_wav (Some (lit ''Bo'')) (fst (multipart_body (Inr sample_wav) (lit ''a.wav'') (Some (lit ''Bo'')))) sent_post"
  by (simp add: client_post_def sent_post_def)

lemma a_wav: "posix_suffix (lit ''a.wav'') = lit ''.wav''" "posix_name (lit ''a.wav'') = lit ''a.wav''" "safe_filename (lit ''a.wav'') = lit ''a.wav''"
  by code_simp+

lemma sample_sendable: "sendable_recording (lit ''a.wav'') sample_wav (lit ''Bo'')"
proof -
  have "\<not> sublist part_mark s" if "13 \<notin> set s" for s
    using that set_mono_sublist [of part_mark s] by (auto simp: part_mark_def crlf_def)
  moreover have "13 \<notin> set sample_wav" by code_simp
  moreover have "13 \<notin> set (utf8_bytes (lit ''Bo''))" by code_simp
  ultimately show ?thesis by (simp add: sendable_recording_def a_wav) (simp add: lit_def scalar_char_def)
qed

lemma sample_body_size:
  "int (length (concat (fst (multipart_body (Inr sample_wav) (lit ''a.wav'') (Some (lit ''Bo'')))))) \<le> 1000 + max_multipart_overhead_bytes"
proof -
  let ?body = "concat (fst (multipart_body (Inr sample_wav) (lit ''a.wav'') (Some (lit ''Bo''))))"
  have n: "list_all scalar_char (posix_name (lit ''a.wav''))" "list_all scalar_char (lit ''Bo'')" "lit ''Bo'' = (case Some (lit ''Bo'') of None \<Rightarrow> [] | Some t \<Rightarrow> t)"
    by (simp_all add: a_wav lit_scalar)
  have "length (audio_disposition (lit ''a.wav'')) \<le> 100" "length audio_type \<le> 100" "length hotwords_disposition \<le> 100"
    "length part_mark \<le> 100" "length (utf8_bytes (lit ''Bo'')) \<le> 100" "length crlf \<le> 100" "length sample_wav \<le> 100"
    "length (ascii_bytes (lit ''--'')) \<le> 100"
    by code_simp+
  then have "length (crlf @ ?body) \<le> 2000"
    unfolding body_text(2) [OF a_wav(1) n] by simp
  then show ?thesis by (simp add: max_multipart_overhead_bytes_def)
qed

lemma sent_form: "parsed_form 1000 sent_post = Inr [(lit ''audio'', FileField sample_upload), (lit ''hotwords'', FieldText (lit ''Bo''))]"
proof -
  let ?cs = "fst (multipart_body (Inr sample_wav) (lit ''a.wav'') (Some (lit ''Bo'')))"
  let ?ps = "client_parts (lit ''a.wav'') sample_wav (lit ''Bo'')"
  have n: "list_all scalar_char (posix_name (lit ''a.wav''))" "list_all scalar_char (lit ''Bo'')" "lit ''Bo'' = (case Some (lit ''Bo'') of None \<Rightarrow> [] | Some t \<Rightarrow> t)"
    by (simp_all add: a_wav lit_scalar)
  have "read_multipart (concat ?cs) = Some (map part_bytes ?ps)"
    using multipart_exact_raw [OF a_wav(1) n, of sample_wav] sample_sendable by (simp add: client_part_bytes sendable_recording_def)
  moreover have "list_all (\<lambda>(hs, b). length hs = 1 \<longrightarrow> length b \<le> max_form_field_bytes) (map part_bytes ?ps)"
  proof -
    have "length (utf8_bytes (lit ''Bo'')) \<le> max_form_field_bytes" by code_simp
    then show ?thesis by (simp add: client_parts_def)
  qed
  moreover have "map read_item (map part_bytes ?ps) = [(lit ''audio'', FileField sample_upload), (lit ''hotwords'', FieldText (lit ''Bo''))]"
  proof -
    have q: "quotable (lit ''audio'')" "quotable (lit ''a.wav'')" "quotable (lit ''audio/wav'')" "quotable (lit ''hotwords'')"
      by (simp_all add: quotable_def lit_def scalar_char_def)
    have "sample_wav \<noteq> []" by (simp add: sample_wav_def heliboard_wav_def heliboard_header_def)
    then show ?thesis
      using read_item_file [OF q(1-3), of sample_wav] read_item_text [OF q(4) n(2)]
      by (simp add: client_parts_def a_wav sample_upload_def del: part_bytes.simps)
  qed
  ultimately have "plain_parser (?cs, None) = Inr [(lit ''audio'', FileField sample_upload), (lit ''hotwords'', FieldText (lit ''Bo''))]"
    by (simp add: plain_parser_def del: list.map)
  then show ?thesis
    using client_media_type limited_stream_fits [of 0 ?cs "1000 + max_multipart_overhead_bytes"] sample_body_size
    by (simp add: parsed_form_def parse_transcribe_form_def sent_post_def)
qed

text \<open>The handler looks at a request through its form, its directory and the closing of the form.\<close>

lemma transcribe_same_form:
  assumes "parsed_form m po = Inr f" "parsed_form m po2 = Inr f2" "extract_transcribe_form f = extract_transcribe_form f2"
    and "post_dir po = post_dir po2" "post_close po = post_close po2"
  shows "transcribe m ident i now po en q = transcribe m ident i now po2 en q"
proof -
  have "transcribe_body m po en i q1 = transcribe_body m po2 en i q1" for q1
    using assms unfolding parsed_form_def by (simp add: transcribe_body_def Let_def split: sum.split)
  moreover have "transcribe_finally po en i = transcribe_finally po2 en i"
    unfolding transcribe_finally_def assms(5) by (rule refl)
  ultimately show ?thesis by (simp add: transcribe_def split: prod.split option.split)
qed

lemma sent_accepted:
  "transcribe 1000 ident_y id_n 5 sent_post quiet demo_start = transcribe 1000 ident_y id_n 5 (sample_post good_form None) quiet demo_start"
proof -
  have e: "extract_transcribe_form [(lit ''audio'', FileField sample_upload), (lit ''hotwords'', FieldText (lit ''Bo''))] = Inr (sample_upload, Some (lit ''Bo''))"
    using client_extract [OF refl, of sample_upload "lit ''Bo''"] by (simp) (simp add: lit_def)
  have "parsed_form 1000 (sample_post good_form None) = Inr good_form" by (simp add: parsed_form_def sample_parse)
  then show ?thesis
    using transcribe_same_form [OF sent_form, of "sample_post good_form None" good_form] good_form_parts(1) e
    by (simp add: sent_post_def sample_post_def)
qed

theorem upload_arrives_witness:
  "\<exists>q' q2 p. transcribe 1000 ident_y id_n 5 sent_post quiet demo_start = (Inr id_n, q')
     \<and> usual_step\<^sup>*\<^sup>* q2 q' \<and> node_at (disk q2) p = Some (RegFile 384 sample_wav)"
proof -
  obtain q' where run: "transcribe 1000 ident_y id_n 5 sent_post quiet demo_start = (Inr id_n, q')"
    unfolding sent_accepted using sample_accepted by blast
  have c: "post_close sent_post = None" "form_parser (post_parser sent_post)" "0 \<le> (1000 :: int)"
    "lit ''Bo'' = (case Some (lit ''Bo'') of None \<Rightarrow> [] | Some t \<Rightarrow> t)"
    by (simp_all add: sent_post_def plain_parser_ok)
  note a = upload_arrives [OF demo_one_usual(2) id_n_fresh(3) quiet_calm demo_wf(2) c(3) c(1) sample_sendable c(4) sent_post_client
      sample_body_size c(2) run]
  then show ?thesis using run by auto
qed

end
