(* ===== verification/Upload_Journey.thy ===== *)
theory Upload_Journey
  imports Upload_Path Process_Job
begin

section \<open>From the recording to the model server\<close>

text \<open>
  What the handler stored is what the worker hands to the model server, whatever happens in
  between: once a job is submitted, no step of any component changes its file or what was noted
  with it, until the job has ended.
\<close>

subsection \<open>What a submitted job keeps\<close>

definition upload_of :: "job \<Rightarrow> path option \<times> str \<times> str option \<times> rat" where
  "upload_of j = (audio_path j, audio_mime j, hotwords j, audio_duration_seconds j)"

text \<open>The job has ended, or its upload is \<open>u\<close> and its file holds \<open>b\<close>.\<close>

definition holds_upload :: "str \<Rightarrow> path \<Rightarrow> str \<times> str option \<times> rat \<Rightarrow> bytes \<Rightarrow> tqueue \<Rightarrow> bool" where
  "holds_upload i p u b q \<longleftrightarrow> ended q i
   \<or> (\<exists>j m. store q i = Some j \<and> status j \<noteq> UPLOADING \<and> upload_of j = (Some p, u) \<and> node_at (disk q) p = Some (RegFile m b))"

lemma tidy_discard_other:
  assumes "tidy q" and "store q i = Some j" and "audio_path j = Some p" and "k \<noteq> i"
  shows "node_at (disk (snd (discard_audio k q))) p = Some (RegFile m b) \<longleftrightarrow> node_at (disk q) p = Some (RegFile m b)"
  using assms unfolding tidy_def by (intro discard_audio_keeps_files) blast

lemma settle_terminal: "terminal_status (status (settle_job r j)) \<or> \<not> (in_service (status j) \<or> status j = CANCELLED)"
  by (auto simp: settle_job_def in_service_def split: task_result.splits)

lemma cancelled_terminal: "terminal_status (status (mark_cleanup (mark_notified (forget_audio (mark_cancelled j)))))"
  "terminal_status (status (forget_audio (mark_cancelled j)))"
  by (simp_all add: job_marks)

text \<open>A job that is settled by the worker has ended; the others keep their files.\<close>

lemma settle_keeps_upload:
  assumes inv: "qinv q" and t: "tidy q" and aw: "awaits q k" and j: "store q k = Some j"
    and a: "store q i = Some a" "audio_path a = Some p" "node_at (disk q) p = Some (RegFile m b)"
    and a': "store (worker_settle k st now r q) i = Some a'" "\<not> terminal_status (status a')"
  shows "a' = a \<and> node_at (disk (worker_settle k st now r q)) p = Some (RegFile m b)"
proof -
  define q1 where "q1 = upd_job k (settle_job r) q"
  define q' where "q' = worker_settle k st now r q"
  obtain w where run: "q' = worker_finally k st now w q1"
    using j by (simp add: worker_settle_def q1_def q'_def)
  have j1: "store q1 k = Some (settle_job r j)" using j by (simp add: q1_def)
  have base: "(store q1)(k \<mapsto> x) = (store q)(k \<mapsto> x)" for x by (simp add: q1_def)
  have ap: "audio_path (settle_job r j) = audio_path j"
    by (auto simp: settle_job_def split: task_result.splits)
  have dd: "disk (snd (discard_audio k q1)) = disk (snd (discard_audio k q))"
    using j ap by (auto simp: q1_def discard_audio_def Let_def split: option.splits prod.splits)
  have ended: "terminal_status (status (settle_job r j))"
    using settle_terminal [of r j] qinvD [OF inv j] aw by (auto simp: job_ok_def)
  from j1 run obtain j' where s: "store q' = (store q)(k \<mapsto> j')" "status j' = status (settle_job r j)"
      "disk q' = disk (snd (discard_audio k q))"
    by (cases rule: worker_finally_effect) (use dd in \<open>auto simp: base job_marks end_task_def\<close>)
  then have "k \<noteq> i" using a' ended by (auto simp: q'_def)
  then show ?thesis
    using s a a' tidy_discard_other [OF t a(1,2), of k m b] by (auto simp: q'_def)
qed

lemma step_keeps_upload:
  assumes inv: "qinv q" and t: "tidy q" and step: "qstep q q'"
    and a: "store q i = Some a" "status a \<noteq> UPLOADING" "audio_path a = Some p" "node_at (disk q) p = Some (RegFile m b)"
    and a': "store q' i = Some a'" "\<not> terminal_status (status a')"
  shows "upload_of a' = upload_of a \<and> node_at (disk q') p = Some (RegFile m b)"
  using step
proof cases
  case (s_reserve k ident now)
  then show ?thesis using a a' by (auto simp: reserve_def new_job_def split: if_splits)
next
  case (s_attach k)
  then show ?thesis using a a' by (auto simp: attach_upload_def get_job_def split: if_splits)
next
  case (s_describe k)
  then show ?thesis using a a' by (auto simp: describe_upload_def get_job_def split: if_splits)
next
  case (s_submit k)
  then show ?thesis using a a' by (auto simp: submit_def upload_of_def split: option.splits if_splits)
next
  case (s_cancel k r)
  from s_cancel(1) show ?thesis
  proof (cases rule: cancel_effect)
    case idle
    then show ?thesis using a a' by simp
  next
    case (escaped j e)
    then have "k \<noteq> i" using a' cancelled_terminal [of j] by auto
    then show ?thesis using a a' escaped tidy_discard_other [OF t a(1,3), of k m b] by simp
  next
    case (cancelled j)
    then have "k \<noteq> i" using a' cancelled_terminal [of j] by auto
    then show ?thesis using a a' cancelled tidy_discard_other [OF t a(1,3), of k m b] by simp
  qed
next
  case (s_pick now)
  have "has_process_fn q" using inv by (simp add: qinv_def queue_ok_def)
  then show ?thesis
    using s_pick a a' by (auto simp: worker_pick_def get_job_def upload_of_def Let_def split: list.splits option.splits if_splits)
next
  case (s_resume now)
  show ?thesis
  proof (cases "worker_resume now q = q")
    case True
    then show ?thesis using s_resume a a' by simp
  next
    case False
    then obtain k st mc j r where k: "worker_task q = Some (Awaiting k st mc)" "store q k = Some j"
        "worker_resume now q = worker_settle k st now r q"
      by (auto simp: worker_resume_def split: option.splits worker.splits task.splits)
    have "awaits q k" using k(1) by (simp add: awaits_def)
    from settle_keeps_upload [OF inv t this k(2) a(1,3,4), of st now r a'] show ?thesis
      using s_resume a' k(3) by simp
  qed
next
  case (s_cleanup k)
  obtain j where j: "store q k = Some j" "cleanup_scheduled j"
    using inv s_cleanup(2) by (auto simp: qinv_def queue_ok_def)
  then have "terminal_status (status j)" using qinvD [OF inv j(1)] by (simp add: job_ok_def)
  then have "audio_path j = None" using tidyD [OF t j(1)] by (simp add: tidy_job_def)
  then have "snd (cleanup_job k q) = q\<lparr>cleanup_tasks := remove1 k (cleanup_tasks q), jobs := remove1 k (jobs q)\<rparr>"
    using j(1) by (simp add: cleanup_job_def discard_audio_def Let_def)
  then show ?thesis using s_cleanup(1) a a' by simp
next
  case s_stop_request
  then show ?thesis
    using a a' by (auto simp: stop_request_def upload_of_def split: option.splits worker.splits task.splits if_splits)
next
  case s_stop_finish
  then show ?thesis using a a' by (auto simp: stop_finish_def split: option.splits worker.splits)
next
  case (s_disk d)
  then show ?thesis using a a' by auto
qed (use a a' in \<open>auto simp: segment_defs upload_of_def split: if_splits\<close>)

subsection \<open>Until it has ended\<close>

text \<open>A submitted job of a queue in any reachable state; every step of any component keeps its upload.\<close>

interpretation submitted: invariant_system "\<lambda>q. reach usual_init usual_step q \<and> holds_upload i p u b q" usual_step
  "\<lambda>q. reach usual_init usual_step q \<and> holds_upload i p u b q" for i p u b
proof unfold_locales
  show "reach usual_init usual_step q' \<and> holds_upload i p u b q'"
    if h: "reach usual_init usual_step q \<and> holds_upload i p u b q" and s: "usual_step q q'" for q q'
  proof
    show "reach usual_init usual_step q'" using h s by (blast intro: reach_step)
    have inv: "qinv q" "tidy q" and step: "qstep q q'"
      using reach_service h s by (auto simp: service_ok_def usual_step_def)
    show "holds_upload i p u b q'"
    proof (cases "ended q i")
      case True
      then show ?thesis using usual_step_keeps_ended h s by (auto simp: holds_upload_def)
    next
      case False
      then obtain j m where j: "store q i = Some j" "status j \<noteq> UPLOADING" "upload_of j = (Some p, u)"
          "node_at (disk q) p = Some (RegFile m b)"
        using h by (auto simp: holds_upload_def)
      obtain j' where j': "store q' i = Some j'" using store_persists [OF step, of i] j(1) by auto
      have "status j' \<noteq> UPLOADING"
        using life_cycle_step [OF inv(1) step j(1) j'] j(2) by (cases "status j"; cases "status j'") (auto simp: status_order)
      then show ?thesis
        using step_keeps_upload [OF inv step j(1,2) _ j(4) j'] j(3) j' by (auto simp: holds_upload_def upload_of_def ended_def)
    qed
  qed
qed simp

subsection \<open>What the model server reads\<close>

text \<open>The two parts of the user's message, as a reader of the chat-completion protocol takes them: the
  recording from its data URL, and the prompt.\<close>

definition message_parts :: "json \<Rightarrow> json list" where
  "message_parts v =
     (case v of JDict ps \<Rightarrow>
        (case map_of ps (lit ''messages'') of
           Some (JList [_, JDict qs]) \<Rightarrow> (case map_of qs (lit ''content'') of Some (JList vs) \<Rightarrow> vs | _ \<Rightarrow> [])
         | _ \<Rightarrow> [])
      | _ \<Rightarrow> [])"

definition part_value :: "str \<Rightarrow> json \<Rightarrow> json option" where
  "part_value key v = (case v of JDict ps \<Rightarrow> map_of ps key | _ \<Rightarrow> None)"

definition received_recording :: "json \<Rightarrow> bytes option" where
  "received_recording v =
     (case message_parts v of
        [audio, _] \<Rightarrow>
          (case Option.bind (part_value (lit ''audio_url'') audio) (part_value (lit ''url'')) of
             Some (JStr url) \<Rightarrow>
               if py_startswith url (lit ''data:audio/wav;base64,'') then Some (b64_decode (drop 22 url)) else None
           | _ \<Rightarrow> None)
      | _ \<Rightarrow> None)"

definition received_prompt :: "json \<Rightarrow> json option" where
  "received_prompt v = (case message_parts v of [_, t] \<Rightarrow> part_value (lit ''text'') t | _ \<Rightarrow> None)"

lemma payload_received:
  assumes "va_audio_base64 a = encode_audio_base64 b" "va_audio_mime a = lit ''audio/wav''"
  shows "received_recording (chat_payload a) = Some b" "received_prompt (chat_payload a) = Some (JStr (text_prompt a))"
proof -
  have u: "lit ''data:'' @ lit ''audio/wav'' @ lit '';base64,'' @ s = lit ''data:audio/wav;base64,'' @ s" for s
    by (simp add: lit_def)
  have l: "length (lit ''data:audio/wav;base64,'') = 22" by (simp add: lit_def)
  have p: "message_parts (chat_payload a) =
      [JDict [(lit ''type'', JStr (lit ''audio_url'')),
          (lit ''audio_url'', JDict [(lit ''url'', JStr (lit ''data:audio/wav;base64,'' @ encode_audio_base64 b))])],
       JDict [(lit ''type'', JStr (lit ''text'')), (lit ''text'', JStr (text_prompt a))]]"
    using assms u by (simp add: message_parts_def chat_payload_def Let_def)
  show "received_recording (chat_payload a) = Some b" "received_prompt (chat_payload a) = Some (JStr (text_prompt a))"
    using l by (simp_all add: received_recording_def received_prompt_def p part_value_def decode_encode py_startswith_def)
qed

lemma running_in_service:
  assumes "reach usual_init usual_step q" "task_running q i"
  obtains j where "store q i = Some j" "process_task j = Some Running" "\<not> ended q i"
proof -
  obtain j where j: "store q i = Some j" "process_task j = Some Running" using assms(2) by (rule task_runningD)
  have "qinv q" using reach_service [OF assms(1)] by (simp add: service_ok_def)
  then have "in_service (status j)" using qinvD j by (simp add: job_ok_def)
  then show ?thesis using j that by (auto simp: ended_def in_service_def)
qed

text \<open>An accepted body is one whose form was read: the recording and the hotwords as they were sent.\<close>

lemma accepted_form:
  assumes rec: "sendable_recording path b w" and w: "w = (case words of None \<Rightarrow> [] | Some t \<Rightarrow> t)"
    and po: "client_post path b words cs po" "int (length (concat cs)) \<le> m + max_multipart_overhead_bytes"
    and parser: "form_parser (post_parser po)"
    and x: "parsed_form m po = Inr f" "extract_transcribe_form f = Inr (u, hw)"
  shows "upload_data (up_reads u) = b \<and> hw = (if w = [] then None else Some w)"
  using rec w po parser
proof (cases rule: client_form)
  case (form u')
  then show ?thesis using x client_extract [OF refl, of u' w] by (auto split: if_splits)
qed (use x in simp_all)

subsection \<open>The property\<close>

text \<open>C6. The recording from the client to the model, for what \<open>upload_arrives\<close> covers: a path that ends in
  \<open>.wav\<close> with a file name without control characters, hotwords of Unicode characters, the client's boundary
  mark in neither the recording nor the hotwords (a recording with the mark in it can be accepted cut
  short, and is not covered), a fresh identifier, tasks that leave the job to its handler, and a disk that refuses no
  removal. The body the client makes of recording and hotwords was accepted by the handler.
  Whenever its job is processed later, whatever requests, streams, cancellations and other jobs came
  in between, the processing makes exactly one request to the model server: its message holds the
  recording, byte for byte, and its prompt the recording's length in seconds and the user's
  hotwords; the outcome is that of the server's answer.\<close>

theorem recording_reaches_model:
  assumes queue: "reach usual_init usual_step q" "store q i = None" "calm_env i en" "wf_fs (disk q)" "0 \<le> m" "post_close po = None"
    and rec: "sendable_recording path b w" and w: "w = (case words of None \<Rightarrow> [] | Some t \<Rightarrow> t)"
    and po: "client_post path b words cs po" "int (length (concat cs)) \<le> m + max_multipart_overhead_bytes"
    and parser: "form_parser (post_parser po)"
    and run: "transcribe m ident i now po en q = (Inr x, q')"
    and later: "usual_step\<^sup>*\<^sup>* q' q3" "task_running q3 i"
  shows "\<exists>samples a. b = heliboard_wav samples
    \<and> process_vibevoice_job dg config http others i q3 =
        (case stream_transcription http a of
           (cs, Some e) \<Rightarrow> (Some e, deliver i others 0 cs q3)
         | (cs, None) \<Rightarrow> finish_vibevoice dg i cs (deliver i others 0 cs q3))
    \<and> va_base_url a = vllm_base_url config \<and> received_recording (chat_payload a) = Some b
    \<and> received_prompt (chat_payload a) = Some (JStr (lit ''This is a '' @ fixed2 (of_nat (length samples) / 32000) @ lit '' seconds audio, ''
        @ (if w = [] then [] else lit ''with extra info: '' @ w @ [10, 10])
        @ lit ''please transcribe it with these keys: Start time, End time, Speaker ID, Content''))"
proof -
  obtain f u hw q2 where x: "parsed_form m po = Inr f" "extract_transcribe_form f = Inr (u, hw)"
    and acc: "accepted_upload q2 i m u hw" and steps: "usual_step\<^sup>*\<^sup>* q q2" "usual_step\<^sup>*\<^sup>* q2 q'"
    using transcribe_effect [OF queue run] by auto
  have sent: "upload_data (up_reads u) = b" "hw = (if w = [] then None else Some w)"
    using accepted_form [OF rec w po parser x] by simp_all
  define dur :: rat where "dur = of_nat (length b - 44) / 32000"
  obtain j p samples where j: "get_job q2 i = Some j" "status j = QUEUED" "upload_of j = (Some p, lit ''audio/wav'', hw, dur)"
      "node_at (disk q2) p = Some (RegFile 384 b)" and b: "b = heliboard_wav samples"
    using acc sent by (auto simp: accepted_upload_def upload_of_def dur_def heliboard_wav_def)
  have r2: "reach usual_init usual_step q2" using slots.steps_ok steps(1) queue(1) by blast
  have "holds_upload i p (lit ''audio/wav'', hw, dur) b q2"
    using j get_job_store [OF j(1)] by (auto simp: holds_upload_def)
  then have h3: "reach usual_init usual_step q3 \<and> holds_upload i p (lit ''audio/wav'', hw, dur) b q3"
    using submitted.steps_inv rtranclp_trans [OF steps(2) later(1)] r2 by blast
  from running_in_service [OF _ later(2)] h3 obtain j3 where j3: "store q3 i = Some j3" "\<not> ended q3 i" by blast
  obtain k where u3: "audio_path j3 = Some p" "audio_mime j3 = lit ''audio/wav''" "hotwords j3 = hw" "audio_duration_seconds j3 = dur"
      "node_at (disk q3) p = Some (RegFile k b)"
    using h3 j3 by (auto simp: holds_upload_def upload_of_def)
  let ?a = "vllm_args_of config (encode_audio_base64 b) j3"
  have "length samples = length b - 44" by (simp add: b heliboard_wav_def)
  then have t: "text_prompt ?a = lit ''This is a '' @ fixed2 (of_nat (length samples) / 32000) @ lit '' seconds audio, ''
        @ (if w = [] then [] else lit ''with extra info: '' @ w @ [10, 10])
        @ lit ''please transcribe it with these keys: Start time, End time, Speaker ID, Content''"
    by (simp add: text_prompt_def vllm_args_of_def u3 sent(2) dur_def)
  have "process_vibevoice_job dg config http others i q3 =
        (case stream_transcription http ?a of
           (cs, Some e) \<Rightarrow> (Some e, deliver i others 0 cs q3)
         | (cs, None) \<Rightarrow> finish_vibevoice dg i cs (deliver i others 0 cs q3))"
    using j3(1) u3
    by (simp add: process_vibevoice_job_def require_audio_path_def encode_audio_file_base64_def read_file_def split: prod.split option.split)
  moreover note payload_received [of ?a b] t
  ultimately show ?thesis using b by (intro exI [of _ samples] exI [of _ ?a]) (simp add: vllm_args_of_def u3)
qed

subsection \<open>Witness\<close>

text \<open>The job of the sample request when the worker has picked it up; the model server cannot be reached.\<close>

theorem recording_reaches_model_witness:
  "\<exists>q' a. usual_step\<^sup>*\<^sup>* (snd (transcribe 1000 ident_y id_n 5 sent_post quiet demo_start)) q' \<and> task_running q' id_n
     \<and> received_recording (chat_payload a) = Some sample_wav
     \<and> fst (process_vibevoice_job demo_diag demo_settings (\<lambda>_ _. Inl TimeoutError) (\<lambda>_ q. q) id_n q') = Some TimeoutError"
proof -
  obtain q' j where run: "transcribe 1000 ident_y id_n 5 sent_post quiet demo_start = (Inr id_n, q')"
    and q': "worker_task q' = Some WaitPending" "has_process_fn q'" "pending q' = [id_n]" "get_job q' id_n = Some j" "status j = QUEUED"
    unfolding sent_accepted using sample_queued by blast
  have c: "post_close sent_post = None" "form_parser (post_parser sent_post)" "0 \<le> (1000 :: int)"
    "lit ''Bo'' = (case Some (lit ''Bo'') of None \<Rightarrow> [] | Some t \<Rightarrow> t)"
    by (simp_all add: sent_post_def plain_parser_ok)
  have "usual_step\<^sup>*\<^sup>* demo_start q'" using transcribe_effect [OF demo_one_usual(2) id_n_fresh(3) quiet_calm demo_wf(2) c(3,1) run] by blast
  then have "tidy q'" using slots.steps_ok [OF _ demo_one_usual(2)] reach_service by (auto simp: service_ok_def)
  then have lk: "locked (disk q') = []" by (simp add: tidy_def)
  define q3 where "q3 = worker_pick 6 q'"
  have q3: "q3 = (upd_job id_n (\<lambda>j. j\<lparr>status := PROCESSING, process_task := Some Running\<rparr>) (q'\<lparr>pending := []\<rparr>))
      \<lparr>worker_task := Some (Awaiting id_n 6 False)\<rparr>"
    using q' by (simp add: q3_def worker_pick_def get_job_def split: if_splits)
  have "usual_step q' q3" using s_pick [OF q'(1), of 6] lk by (simp add: usual_step_def q3) (simp add: q3_def [symmetric] q3)
  then have later: "usual_step\<^sup>*\<^sup>* q' q3" "task_running q3 id_n"
    using get_job_store [OF q'(4)] by (auto simp: q3 task_running_def)
  from recording_reaches_model [OF demo_one_usual(2) id_n_fresh(3) quiet_calm demo_wf(2) c(3,1) sample_sendable c(4) sent_post_client
      sample_body_size c(2) run later, of demo_diag demo_settings "\<lambda>_ _. Inl TimeoutError" "\<lambda>_ q. q"]
  obtain a where "received_recording (chat_payload a) = Some sample_wav"
      "process_vibevoice_job demo_diag demo_settings (\<lambda>_ _. Inl TimeoutError) (\<lambda>_ q. q) id_n q3 = (Some TimeoutError, q3)"
    by (auto simp: stream_transcription_def)
  then show ?thesis using run later by auto
qed

end
