(* ===== verification/Transcript_Journey.thy ===== *)
theory Transcript_Journey
  imports Event_Stream Upload_Journey
begin

section \<open>From the model server to the client's stream\<close>

text \<open>
  The processing of a job and the event stream of its request, at the same time: the texts the
  model server sends are put into the job's chunk queue while the stream takes them out. What
  the stream has sent when it reads the end marker is exactly what the model sent.
\<close>

subsection \<open>The stream and the others while the processing waits\<close>

text \<open>A step of the stream or of anybody else in which no text is put into the job's queue; by
  \<open>stream_in_order\<close> every other step of the stream is one.\<close>

definition relays :: "str \<Rightarrow> stream \<times> tqueue \<Rightarrow> stream \<times> tqueue \<Rightarrow> bool" where
  "relays i x y \<longleftrightarrow> stream_step i x y \<and> job_text i y = job_text i x"

lemma relays_run:
  assumes "(relays i)\<^sup>*\<^sup>* x y"
  shows "(stream_step i)\<^sup>*\<^sup>* x y" "job_text i y = job_text i x"
  using assms by (induction rule: rtranclp_induct) (auto simp: relays_def intro: rtranclp.rtrancl_into_rtrancl)

text \<open>The state after one chunk (the body of the loop in \<open>deliver\<close>).\<close>

definition after_chunk :: "str \<Rightarrow> (nat \<Rightarrow> tqueue \<Rightarrow> tqueue) \<Rightarrow> nat \<Rightarrow> json \<Rightarrow> tqueue \<Rightarrow> tqueue" where
  "after_chunk i others k c q = deliver i (\<lambda>n q'. if n = k then others k q' else q') k [c] q"

text \<open>The stream's states at the waits of the processing, from its state before the first.\<close>

fun relayed :: "str \<Rightarrow> (nat \<Rightarrow> tqueue \<Rightarrow> tqueue) \<Rightarrow> nat \<Rightarrow> json list \<Rightarrow> tqueue \<Rightarrow> stream \<Rightarrow> stream list \<Rightarrow> bool" where
  "relayed i others k [] q s ss \<longleftrightarrow> (\<exists>s'. ss = [s'] \<and> (relays i)\<^sup>*\<^sup>* (s, q) (s', others k q))"
| "relayed i others k (c # cs) q s ss \<longleftrightarrow>
     (\<exists>s' ss'. ss = s' # ss' \<and> (relays i)\<^sup>*\<^sup>* (s, q) (s', others k q)
        \<and> relayed i others (k + 1) cs (after_chunk i others k c q) s' ss')"

lemma after_chunk_text:
  "after_chunk i others k (JStr t) q = proc_put i t (if k = 0 then proc_streaming i (others k q) else others k q)"
  by (simp add: after_chunk_def Let_def)

lemma deliver_Cons: "deliver i others k (c # cs) q = deliver i others (k + 1) cs (after_chunk i others k c q)"
  by (simp add: after_chunk_def Let_def)

text \<open>What the processing does to its job is a step of the others, and the text it puts is the only one.\<close>

lemma job_step:
  assumes "usual_step q q'" "store q i = Some j" "store q' i = Some j'" "chunk_queue j' = chunk_queue j @ ys"
  shows "stream_step i (s, q) (s, q')" "job_text i (s, q') = job_text i (s, q) @ List.map_filter id ys"
proof -
  show "stream_step i (s, q) (s, q')" using assms by (intro e_others) (auto simp: only_appends_def)
  show "job_text i (s, q') = job_text i (s, q) @ List.map_filter id ys"
    using assms(2-4) by (simp add: job_text_def queued_texts_def)
qed

lemma chunk_text_step:
  assumes "store q i = Some j" "process_task j = Some Running" "locked (disk q) = []"
  shows "(stream_step i)\<^sup>*\<^sup>* (s, q) (s, proc_put i t (if b then proc_streaming i q else q))"
    "job_text i (s, proc_put i t (if b then proc_streaming i q else q)) = job_text i (s, q) @ [t]"
proof -
  let ?q = "if b then proc_streaming i q else q"
  let ?j = "if b then j\<lparr>status := STREAMING\<rparr> else j"
  have r: "task_running q i" using assms(1,2) by (rule running_store)
  have q: "store ?q i = Some ?j" "process_task ?j = Some Running" "locked (disk ?q) = []" "chunk_queue ?j = chunk_queue j"
    using assms by (simp_all add: proc_streaming_def)
  have 1: "(stream_step i)\<^sup>*\<^sup>* (s, q) (s, ?q)" "job_text i (s, ?q) = job_text i (s, q)"
    using job_step [OF usual_running(1) [OF r assms(3)] assms(1), of "j\<lparr>status := STREAMING\<rparr>" "[]" s] assms(1)
    by (auto simp: proc_streaming_def)
  have "task_running ?q i" using q(1,2) by (rule running_store)
  from usual_running(2) [OF this q(3), of t] have u: "usual_step ?q (proc_put i t ?q)" .
  have "store (proc_put i t ?q) i = Some (?j\<lparr>chunk_queue := chunk_queue ?j @ [Some t]\<rparr>)" using q(1) by (simp add: proc_put_def)
  from job_step [OF u q(1) this, of "[Some t]" s]
  show "(stream_step i)\<^sup>*\<^sup>* (s, q) (s, proc_put i t ?q)" "job_text i (s, proc_put i t ?q) = job_text i (s, q) @ [t]"
    using 1 by (auto intro: rtranclp.rtrancl_into_rtrancl)
qed

lemma deliver_relayed:
  assumes "listening i others" "store q i = Some j" "process_task j = Some Running" "locked (disk q) = []"
    and "relayed i others k (map JStr ts) q s ss"
  shows "(stream_step i)\<^sup>*\<^sup>* (s, q) (last ss, deliver i others k (map JStr ts) q)
    \<and> job_text i (last ss, deliver i others k (map JStr ts) q) = job_text i (s, q) @ ts"
  using assms(2-)
proof (induction ts arbitrary: k q j s ss)
  case Nil
  then show ?case using relays_run by auto
next
  case (Cons t ts)
  obtain s' ss' where r: "ss = s' # ss'" "(relays i)\<^sup>*\<^sup>* (s, q) (s', others k q)"
      "relayed i others (k + 1) (map JStr ts) (after_chunk i others k (JStr t) q) s' ss'"
    using Cons.prems(4) by auto
  obtain ys where o: "locked (disk (others k q)) = []" "store (others k q) i = Some (j\<lparr>chunk_queue := ys\<rparr>)"
    using assms(1) Cons.prems(1-3) by (force simp: listening_def)
  define q' where "q' = after_chunk i others k (JStr t) q"
  note step = chunk_text_step [OF o(2) _ o(1), of s' t "k = 0", folded after_chunk_text [of i others k t q], folded q'_def]
  have run: "(stream_step i)\<^sup>*\<^sup>* (s, q) (s', q')" "job_text i (s', q') = job_text i (s, q) @ [t]"
    using relays_run [OF r(2)] step Cons.prems(2) by (auto intro: rtranclp_trans)
  obtain j' where j': "store q' i = Some j'" "process_task j' = Some Running" "locked (disk q') = []"
    using o Cons.prems(2) by (cases "k = 0") (simp_all add: q'_def after_chunk_text proc_put_def proc_streaming_def)
  have ne: "ss' \<noteq> []" using r(3) by (cases ts) auto
  show ?case
    using Cons.IH [OF j' r(3) [folded q'_def]] run ne
    by (auto simp: r(1) deliver_Cons q'_def [symmetric] simp del: deliver.simps intro: rtranclp_trans)
qed

subsection \<open>A job that was settled\<close>

text \<open>When the worker is done with a job that ended, its outcome does not change any more.\<close>

definition settled :: "str \<Rightarrow> job_status \<Rightarrow> str option \<Rightarrow> tqueue \<Rightarrow> bool" where
  "settled i st m q \<longleftrightarrow> (\<exists>j. store q i = Some j \<and> terminal_status (status j) \<and> status j = st \<and> error_message j = m \<and> process_task j = None)"

lemma settle_other: "store q k = Some j \<Longrightarrow> i \<noteq> k \<Longrightarrow> store (worker_settle k st now r q) i = store q i"
proof -
  assume j: "store q k = Some j" and ne: "i \<noteq> k"
  define q1 where "q1 = upd_job k (settle_job r) q"
  obtain w where run: "worker_settle k st now r q = worker_finally k st now w q1"
    using j by (simp add: worker_settle_def q1_def)
  have j1: "store q1 k = Some (settle_job r j)" using j by (simp add: q1_def)
  from j1 run show ?thesis by (cases rule: worker_finally_effect) (use ne in \<open>simp_all add: q1_def\<close>)
qed

lemma settled_step:
  assumes inv: "qinv q" and step: "qstep q q'" and j: "settled i st m q"
  shows "settled i st m q'"
proof -
  obtain a where a: "store q i = Some a" "terminal_status (status a)" "status a = st" "error_message a = m" "process_task a = None"
    using j by (auto simp: settled_def)
  note a' = a(1,2,5)
  have aw: "\<not> awaits q i" using qinvD [OF inv a(1)] a(5) by (auto simp: job_ok_def)
  have nr: "\<not> task_running q i" using a(1,5) by (simp add: task_running_def)
  have same: "settled i st m q'" if "store q' i = Some b" "status b = status a" "error_message b = error_message a" "process_task b = None" for b
    using that a by (auto simp: settled_def)
  have keep: "store (upd_job k f q) i = Some a" if "task_running q k" for k f
    using that nr a(1) by (cases "k = i") (auto simp: upd_job_def split: option.split)
  show ?thesis
    using step
  proof cases
    case (s_reserve k ident now)
    then show ?thesis using a' by (intro same [of a]) (auto simp: reserve_def new_job_def split: if_splits)
  next
    case (s_attach k)
    then show ?thesis using a' by (intro same [of a]) (auto simp: attach_upload_def get_job_def split: if_splits)
  next
    case (s_describe k)
    then show ?thesis using a' by (intro same [of a]) (auto simp: describe_upload_def get_job_def split: if_splits)
  next
    case (s_submit k)
    then show ?thesis using a' by (intro same [of a]) (auto simp: submit_def get_job_def split: option.splits if_splits)
  next
    case (s_cancel k r)
    from s_cancel(1) show ?thesis
    proof (cases rule: cancel_effect)
      case idle
      then show ?thesis using j by simp
    qed (use a' in \<open>auto intro!: same [of a] dest!: get_job_store\<close>)
  next
    case (s_pick now)
    have hp: "has_process_fn q" using inv by (simp add: qinv_def queue_ok_def)
    show ?thesis
    proof (cases "pending q")
      case (Cons k rest)
      have "status a = CANCELLED" if "k = i"
        using qinvD [OF inv a(1)] that Cons a(2) by (auto simp: job_ok_def)
      then show ?thesis
        using s_pick a' Cons hp
        by (intro same [of a]) (auto simp: worker_pick_def get_job_def Let_def split: option.splits if_splits)
    qed (use s_pick j in \<open>simp add: worker_pick_def\<close>)
  next
    case (s_resume now)
    show ?thesis
    proof (cases "worker_resume now q = q")
      case False
      then obtain k s0 mc j r where k: "worker_task q = Some (Awaiting k s0 mc)" "store q k = Some j"
          "worker_resume now q = worker_settle k s0 now r q"
        by (auto simp: worker_resume_def split: option.splits worker.splits task.splits)
      have "k \<noteq> i" using k(1) aw by (auto simp: awaits_def)
      then have "store (worker_settle k s0 now r q) i = store q i" using settle_other [OF k(2)] by simp
      then show ?thesis using a' s_resume k(3) by (intro same [of a]) simp_all
    qed (use s_resume j in simp)
  next
    case (s_cleanup k)
    show ?thesis
    proof (cases "k = i \<and> i \<in> set (jobs q)")
      case True
      then show ?thesis using s_cleanup a'
        by (intro same [of "forget_audio a"]) (auto simp: cleanup_job_def Let_def forget_audio_def)
    next
      case False
      then show ?thesis using s_cleanup a' by (intro same [of a]) (auto simp: cleanup_job_def Let_def)
    qed
  next
    case s_stop_request
    then show ?thesis using a' aw
      by (intro same [of a]) (auto simp: stop_request_def awaits_def split: option.splits worker.splits task.splits)
  next
    case s_stop_finish
    then show ?thesis using a' by (intro same [of a]) (auto simp: stop_finish_def split: option.splits worker.splits)
  next
    case (s_take k)
    show ?thesis
    proof (cases "k = i")
      case True
      then show ?thesis using s_take a'
        by (intro same [of "a\<lparr>chunk_queue := tl (chunk_queue a)\<rparr>"]) (auto simp: take_chunk_def)
    next
      case False
      then show ?thesis using s_take a' by (intro same [of a]) (auto simp: take_chunk_def)
    qed
  next
    case (s_finish_cancelled k)
    then show ?thesis using a' by (intro same [of a]) (auto simp: proc_finish_def)
  qed (use keep same [of a] a' in \<open>auto simp: segment_defs\<close>)
qed

lemma settled_run: "usual_step\<^sup>*\<^sup>* q q' \<Longrightarrow> reach usual_init usual_step q \<Longrightarrow> settled i st m q \<Longrightarrow> settled i st m q'"
proof (induction rule: rtranclp_induct)
  case (step y z)
  have "qinv y" using reach_service [OF slots.steps_ok [OF step.hyps(1) step.prems(1)]] by (simp add: service_ok_def)
  then show ?case using step settled_step by (simp add: usual_step_def)
qed

text \<open>Every step of a stream is a run of the queue.\<close>

lemma stream_step_usual:
  assumes ok: "stream_ok i (s, q)" and step: "stream_step i (s, q) (s', q')"
  shows "usual_step\<^sup>*\<^sup>* q q'"
proof -
  have r: "reach usual_init usual_step q" using ok by (simp add: stream_ok_def)
  have c: "usual_step\<^sup>*\<^sup>* q (snd (cancel i q))" using cancel_usual_step [OF r] by blast
  have r2: "reach usual_init usual_step (snd (cancel i q))" using r cancel_usual_step [OF r] by (rule reach_step)
  have "usual_step\<^sup>*\<^sup>* q (snd (cancel i (snd (cancel i q))))" using c cancel_usual_step [OF r2] by (rule rtranclp.rtrancl_into_rtrancl)
  with c have fin: "usual_step\<^sup>*\<^sup>* q (snd (stream_finally i (x, q)))" "usual_step\<^sup>*\<^sup>* q (snd (stream_finally i (x, snd (cancel i q))))" for x
    by (simp_all add: stream_finally_def)
  from step show ?thesis
  proof cases
    case (e_begin now)
    then have "q' = snd (stream_begin i now (s, q))" by (metis snd_conv)
    then show ?thesis using fin by (auto simp: stream_begin_def Let_def split: option.splits prod.splits)
  next
    case (e_poll gone)
    then have "q' = snd (stream_poll i gone (s, q))" by (metis snd_conv)
    then show ?thesis using fin by (auto simp: stream_poll_def split: sum.splits prod.splits)
  next
    case (e_take j)
    then have "q' = snd (stream_take i (s, q))" by (metis snd_conv)
    then show ?thesis using e_take take_usual_step [OF r] by (auto simp: stream_take_def split: list.splits option.splits)
  next
    case e_close
    then have "q' = snd (stream_close i (s, q))" by (metis snd_conv)
    then show ?thesis using fin by (auto simp: stream_close_def split: es_pc.splits)
  qed auto
qed

interpretation settled_runs: invariant_system "\<lambda>x. stream_ok i x \<and> settled i st m (snd x)" "stream_step i"
  "\<lambda>x. stream_ok i x \<and> settled i st m (snd x)" for i st m
proof unfold_locales
  show "stream_ok i y \<and> settled i st m (snd y)" if x: "stream_ok i x \<and> settled i st m (snd x)" and step: "stream_step i x y" for x y
  proof
    show "stream_ok i y" using x step by (rule_tac stream_runs.inv_step) auto
    obtain s q s' q' where xy: "x = (s, q)" "y = (s', q')" by (cases x; cases y) auto
    have "reach usual_init usual_step q" using x by (simp add: xy stream_ok_def)
    then show "settled i st m (snd y)"
      using stream_step_usual [of i s q s' q'] x step settled_run by (simp add: xy)
  qed
qed simp

subsection \<open>The property\<close>

lemma stream_steps_ok: "(stream_step i)\<^sup>*\<^sup>* x y \<Longrightarrow> stream_ok i x \<Longrightarrow> stream_ok i y"
  by (rule stream_runs.steps_inv)

text \<open>The validation at the end of the processing only records its verdict.\<close>

lemma finish_text:
  assumes "(e, q1) = finish_vibevoice dg i (map JStr ts) q" "store q i = Some j" "process_task j = Some Running" "locked (disk q) = []"
  shows "(stream_step i)\<^sup>*\<^sup>* (s, q) (s, q1)" "job_text i (s, q1) = job_text i (s, q)"
proof -
  have r: "task_running q i" using assms(2,3) by (rule running_store)
  have m: "stream_step i (s, q) (s, proc_error i m q)" "job_text i (s, proc_error i m q) = job_text i (s, q)" for m
    using job_step [OF usual_running(3) [OF r assms(4)] assms(2), of m "j\<lparr>error_message := Some m\<rparr>" "[]" s] assms(2)
    by (simp_all add: proc_error_def)
  consider "q1 = q" | m where "q1 = proc_error i m q"
    using assms(1,2) by (auto simp: finish_vibevoice_def split: if_splits option.splits)
  then show "(stream_step i)\<^sup>*\<^sup>* (s, q) (s, q1)" "job_text i (s, q1) = job_text i (s, q)"
    using m by (cases; auto)+
qed

text \<open>The task is done, and later the worker goes on: the outcome is settled and the text is unchanged.\<close>

lemma finished_text:
  assumes ok: "stream_ok i (s, q)" and j: "store q i = Some j" "process_task j = Some Running" and r: "r \<noteq> TaskCancelled"
  shows "(stream_step i)\<^sup>*\<^sup>* (s, q) (s, proc_finish i r q)" "job_text i (s, proc_finish i r q) = job_text i (s, q)"
    "store (proc_finish i r q) i = Some (j\<lparr>process_task := Some (Done r)\<rparr>)" "worker_task (proc_finish i r q) = worker_task q"
proof -
  have lk: "locked (disk q) = []" using ok reach_service by (auto simp: stream_ok_def service_ok_def tidy_def)
  show s: "store (proc_finish i r q) i = Some (j\<lparr>process_task := Some (Done r)\<rparr>)" "worker_task (proc_finish i r q) = worker_task q"
    using j(1) by (simp_all add: proc_finish_def)
  from job_step [OF usual_running(4) [OF running_store [OF j] lk r] j(1) s(1), of "[]" s]
  show "(stream_step i)\<^sup>*\<^sup>* (s, q) (s, proc_finish i r q)" "job_text i (s, proc_finish i r q) = job_text i (s, q)" by auto
qed

lemma settle_text:
  assumes ok: "stream_ok i (s, q)" and w: "worker_task q = Some (Awaiting i st False)"
    and j: "store q i = Some j" "process_task j = Some (Done r)"
  shows "(stream_step i)\<^sup>*\<^sup>* (s, q) (s, worker_resume now q)" "job_text i (s, worker_resume now q) = job_text i (s, q)"
    "settled i (status (settle_job r j)) (error_message (settle_job r j)) (worker_resume now q)"
proof -
  have t: "tidy q" "qinv q" using ok reach_service by (auto simp: stream_ok_def service_ok_def)
  have u: "usual_step q (worker_resume now q)"
    using s_resume [of q now] tidy_resume [OF t] by (simp add: usual_step_def tidy_def)
  have s: "store (worker_resume now q) i = Some (final_job q i (settle_job r j))"
    using resume_usual(1) [OF t(1) w j refl, where now = now] by simp
  have cq: "chunk_queue (settle_job r j) = chunk_queue j" by (auto simp: settle_job_def split: task_result.splits)
  obtain ys where ys: "chunk_queue (final_job q i (settle_job r j)) = chunk_queue j @ ys" "List.map_filter id ys = []"
    using cq by (cases "terminal_notified (settle_job r j)") (auto simp: final_job_def job_marks end_task_def)
  from job_step [OF u j(1) s ys(1), of s] ys(2)
  show "(stream_step i)\<^sup>*\<^sup>* (s, q) (s, worker_resume now q)" "job_text i (s, worker_resume now q) = job_text i (s, q)" by auto
  have "terminal_status (status (settle_job r j))"
    using settle_terminal [of r j] qinvD [OF t(2) j(1)] w by (auto simp: job_ok_def awaits_def)
  then show "settled i (status (settle_job r j)) (error_message (settle_job r j)) (worker_resume now q)"
    using s by (simp add: settled_def)
qed

text \<open>From the first wait to the return of the processing function.\<close>

lemma processed_text:
  assumes ok: "stream_ok i (s, q)" "job_text i (s, q) = []"
    and job: "store q i = Some j" "process_task j = Some Running" "error_message j = None"
      "audio_path j = Some p" "node_at (disk q) p = Some (RegFile m bs)"
    and model: "stream_transcription http (vllm_args_of config (encode_audio_base64 bs) j) = (map JStr ts, None)"
    and others: "listening i others" "relayed i others 0 (map JStr ts) q s ss"
    and run: "process_vibevoice_job dg config http others i q = (e, q1)"
  obtains ys st where "(stream_step i)\<^sup>*\<^sup>* (s, q) (last ss, q1)" "job_text i (last ss, q1) = ts"
    "store q1 i = Some (j\<lparr>chunk_queue := ys, status := st, error_message := validate_vibevoice_output dg (concat ts) j\<rparr>)"
    "worker_task q1 = worker_task q" "e = map_option RuntimeError (validate_vibevoice_output dg (concat ts) j)"
proof -
  have lk: "locked (disk q) = []" using ok(1) reach_service by (auto simp: stream_ok_def service_ok_def tidy_def)
  define qd where "qd = deliver i others 0 (map JStr ts) q"
  have d: "(stream_step i)\<^sup>*\<^sup>* (s, q) (last ss, qd)" "job_text i (last ss, qd) = ts"
    using deliver_relayed [OF others(1) job(1,2) lk others(2)] ok(2) by (simp_all add: qd_def)
  obtain ys st' where qd: "locked (disk qd) = []" "worker_task qd = worker_task q" "store qd i = Some (j\<lparr>chunk_queue := ys, status := st'\<rparr>)"
    using deliver_run [OF others(1) job(1,2) lk, of 0 ts] by (auto simp: qd_def)
  have fe: "(e, q1) = finish_vibevoice dg i (map JStr ts) qd"
    using job(1,4,5) model run
    by (simp add: process_vibevoice_job_def require_audio_path_def encode_audio_file_base64_def read_file_def qd_def)
  note f = finish_vibevoice_run [OF fe qd(3) job(2,3) qd(1) refl]
  have "(stream_step i)\<^sup>*\<^sup>* (last ss, qd) (last ss, q1)" "job_text i (last ss, q1) = ts"
    using finish_text [OF fe qd(3) _ qd(1)] job(2) d(2) by simp_all
  then show thesis using that f d(1) qd(2) by (metis rtranclp_trans)
qed

text \<open>C5. The transcript from the model server to the client's stream. A job is processed while its
  event stream runs, with any other steps of the server at every wait (of the processing, and of
  the worker for the finished task) that leave the job to the worker, on a disk that refuses no
  removal; the model server's stream ended and gave the texts \<open>ts\<close>. Whenever the event stream then reads the end marker, it has sent
  exactly the texts \<open>ts\<close>, each once and in order, and it ends with \<open>done\<close> if together they are a
  JSON list of objects with \<open>Content\<close>, and with an error event carrying the diagnosis otherwise.\<close>

theorem model_text_streamed:
  assumes start: "reach (stream_init i) (stream_step i) (s, q)" "job_text i (s, q) = []"
    and job: "worker_task q = Some (Awaiting i st False)" "store q i = Some j" "process_task j = Some Running" "error_message j = None"
      "audio_path j = Some p" "node_at (disk q) p = Some (RegFile m bs)"
    and model: "stream_transcription http (vllm_args_of config (encode_audio_base64 bs) j) = (map JStr ts, None)"
    and others: "listening i others" "relayed i others 0 (map JStr ts) q s ss"
    and run: "process_vibevoice_job dg config http others i q = (e, q1)"
    and pause: "(relays i)\<^sup>*\<^sup>* (last ss, proc_finish i (task_end text e) q1) (s2, q2)"
      "left_to_worker i (proc_finish i (task_end text e) q1) q2"
    and later: "(relays i)\<^sup>*\<^sup>* (s2, worker_resume now q2) (s3, q3)" "es_pc s3 = EsWait" "store q3 i = Some j3" "chunk_queue j3 = None # rest"
  shows "texts_of (es_sent s3) = ts \<and> es_sent (fst (stream_take i (s3, q3))) = es_sent s3 @
    [if segments_ok (concat ts) then DoneFrame i
     else ErrorFrame \<lparr>ee_error = the (validate_vibevoice_output dg (concat ts) j)\<rparr>]"
proof -
  let ?v = "validate_vibevoice_output dg (concat ts) j"
  have ok: "stream_ok i (s, q)" using start(1) by (rule reach_stream)
  obtain ys st' where f: "(stream_step i)\<^sup>*\<^sup>* (s, q) (last ss, q1)" "job_text i (last ss, q1) = ts"
      "store q1 i = Some (j\<lparr>chunk_queue := ys, status := st', error_message := ?v\<rparr>)"
      "worker_task q1 = worker_task q" "e = map_option RuntimeError ?v"
    using processed_text [OF ok start(2) job(2-6) model others run] .
  let ?j = "j\<lparr>chunk_queue := ys, status := st', error_message := ?v\<rparr>"
  have ok1: "stream_ok i (last ss, q1)" using stream_steps_ok [OF f(1) ok] .
  define r where "r = task_end text e"
  have r: "r = (case ?v of None \<Rightarrow> Returned | Some msg \<Rightarrow> Raised msg (lit ''RuntimeError''))"
    by (simp add: r_def f(5) task_end_def split: option.split)
  have "r \<noteq> TaskCancelled" by (simp add: r split: option.split)
  then have rc: "task_end text e \<noteq> TaskCancelled" by (simp add: r_def)
  note fin1 = finished_text [OF ok1 f(3) _ rc, folded r_def]
  have 2: "(stream_step i)\<^sup>*\<^sup>* (last ss, q1) (s2, q2)" "job_text i (s2, q2) = ts"
    using fin1 f(2) job(3) relays_run [OF pause(1), folded r_def] by auto
  have ok2: "stream_ok i (s2, q2)" using stream_steps_ok [OF 2(1) ok1] .
  obtain ys2 where j2: "store q2 i = Some (?j\<lparr>process_task := Some (Done r), chunk_queue := ys2\<rparr>)"
      "worker_task q2 = Some (Awaiting i st False)"
    using pause(2) [folded r_def] fin1(3,4) f(4) job(1,3) by (auto simp: left_to_worker_def)
  let ?j2 = "?j\<lparr>process_task := Some (Done r), chunk_queue := ys2\<rparr>"
  note s = settle_text [OF ok2 j2(2,1), of r now, simplified]
  have 3: "(stream_step i)\<^sup>*\<^sup>* (s2, q2) (s3, q3)" "job_text i (s3, q3) = ts"
    using relays_run [OF later(1)] 2(2) s(1,2) by (auto intro: rtranclp_trans)
  have "settled i (status (settle_job r ?j2)) (error_message (settle_job r ?j2)) q3"
    using settled_runs.steps_inv [OF relays_run(1) [OF later(1)]] stream_steps_ok [OF s(1) ok2]
      settle_text(3) [OF ok2 j2(2,1), of r now] by simp
  then have j3: "status j3 = status (settle_job r ?j2)" "error_message j3 = error_message (settle_job r ?j2)"
    using later(3) by (auto simp: settled_def)
  have "reach (stream_init i) (stream_step i) (s3, q3)"
    using start(1) f(1) 2(1) 3(1) by (meson reach_rtranclp rtranclp_trans)
  note fin = stream_end_raw [OF this later(2-4)]
  have "texts_of (es_sent s3) = ts"
    using 3(2) later(3,4) fin by (simp add: job_text_def queued_texts_def)
  moreover have "segments_ok (concat ts) \<longleftrightarrow> ?v = None" by (simp add: validate_None)
  ultimately show ?thesis
    using fin j3 validate_message [of dg "concat ts" j]
    by (cases ?v) (auto simp: r settle_job_def error_text_def)
qed

text \<open>A stream that is left alone reaches its wait, and takes what is queued up to the end marker.\<close>

lemma begin_waits:
  assumes "es_pc s = EsBegin"
  shows "\<exists>s'. (stream_step i)\<^sup>*\<^sup>* (s, q) (s', q) \<and> es_pc s' = EsWait \<and> texts_of (es_sent s') = texts_of (es_sent s)"
proof -
  obtain s1 where s1: "stream_begin i 0 (s, q) = (s1, q)" "es_pc s1 = EsYielded" "texts_of (es_sent s1) = texts_of (es_sent s)"
    by (cases "get_position q i") (auto simp: stream_begin_def get_position_and_eta_def Let_def yield_frame_def texts_of_def)
  have "stream_step i (s, q) (s1, q)" using e_begin [OF assms, of i q 0] s1(1) by simp
  moreover have "stream_step i (s1, q) (stream_resume 0 s1, q)" using s1(2) by (rule e_resume)
  moreover have "stream_step i (stream_resume 0 s1, q) ((stream_resume 0 s1)\<lparr>es_pc := EsWait\<rparr>, q)"
    using e_poll [of "stream_resume 0 s1" i q False] by (simp add: stream_resume_def stream_poll_def)
  ultimately show ?thesis
    using s1(3) by (intro exI [of _ "(stream_resume 0 s1)\<lparr>es_pc := EsWait\<rparr>"]) (auto simp: stream_resume_def)
qed

lemma stream_drains:
  assumes "es_pc s = EsWait" "store q i = Some j" "chunk_queue j = map Some ts @ [None]"
  shows "\<exists>s' q' j'. (relays i)\<^sup>*\<^sup>* (s, q) (s', q') \<and> es_pc s' = EsWait \<and> store q' i = Some j' \<and> chunk_queue j' = [None]"
  using assms
proof (induction ts arbitrary: s q j)
  case Nil
  then show ?case by auto
next
  case (Cons t ts)
  let ?s = "yield_frame (DataFrame \<lparr>tce_text = t\<rparr>) EsYielded s" and ?q = "take_chunk i q"
  let ?s1 = "stream_resume 0 ?s"
  let ?s2 = "?s1\<lparr>es_pc := EsWait\<rparr>"
  have take: "stream_take i (s, q) = (?s, ?q)" using Cons.prems by (simp add: stream_take_def)
  have j: "store ?q i = Some (j\<lparr>chunk_queue := map Some ts @ [None]\<rparr>)" using Cons.prems by (simp add: take_chunk_def)
  have "stream_step i (s, q) (?s, ?q)" using e_take [OF Cons.prems(1,2)] Cons.prems(3) take by simp
  then have 1: "relays i (s, q) (?s, ?q)" using Cons.prems j by (simp add: relays_def job_text_def queued_texts_def)
  have 2: "relays i (?s, ?q) (?s1, ?q)"
    using e_resume [of ?s i ?q 0] by (simp add: relays_def job_text_def stream_resume_def yield_frame_def)
  have "stream_step i (?s1, ?q) (?s2, ?q)"
    using e_poll [of ?s1 i ?q False] by (simp add: stream_resume_def stream_poll_def)
  then have 3: "relays i (?s1, ?q) (?s2, ?q)" by (simp add: relays_def job_text_def)
  have "(relays i)\<^sup>*\<^sup>* (s, q) (?s2, ?q)" using 1 2 3 by (meson rtranclp.rtrancl_into_rtrancl rtranclp.rtrancl_refl)
  with Cons.IH [of ?s2 ?q, OF _ j] show ?case by (auto intro: rtranclp_trans)
qed

lemma relayed_quiet: "relayed i (\<lambda>k q. q) k cs q s (replicate (length cs + 1) s)"
  by (induction cs arbitrary: k q) auto

lemma demo_ended:
  "\<exists>jf j. store (proc_finish id_a Returned demo_streamed) id_a = Some jf
     \<and> store (worker_resume 9 (proc_finish id_a Returned demo_streamed)) id_a = Some j
     \<and> chunk_queue j = [Some (lit ''[''), Some (lit '']''), None]"
proof -
  let ?qf = "proc_finish id_a Returned demo_streamed"
  let ?jf = "job_a\<lparr>status := STREAMING, process_task := Some (Done Returned), chunk_queue := [Some (lit ''[''), Some (lit '']'')]\<rparr>"
  have qf: "store ?qf id_a = Some ?jf" "worker_task ?qf = Some (Awaiting id_a 2 False)"
    using demo_streamed_store(1,2) by (simp_all add: proc_finish_def)
  have "usual_step demo_streamed ?qf"
    using usual_running(4) [OF running_store [OF demo_streamed_store(1)] demo_streamed_store(4)] by simp
  then have "tidy ?qf" using demo_streamed_store(3) reach_step reach_service by (metis service_ok_def)
  from resume_usual(1) [OF this qf(2,1) _ refl, of Returned 9]
  have q2: "store (worker_resume 9 ?qf) id_a = Some (final_job ?qf id_a (settle_job Returned ?jf))" by simp
  have "chunk_queue (final_job ?qf id_a (settle_job Returned ?jf)) = [Some (lit ''[''), Some (lit '']''), None]"
    by (simp add: final_job_def job_marks end_task_def settle_job_def job_a_def new_job_def)
  with qf(1) q2 show ?thesis by blast
qed

theorem model_text_streamed_witness:
  "\<exists>s0 s q. (relays id_a)\<^sup>*\<^sup>* (s0, worker_resume 9 (proc_finish id_a Returned demo_streamed)) (s, q)
     \<and> texts_of (es_sent s) = [lit ''['', lit '']''] \<and> es_sent (fst (stream_take id_a (s, q))) = es_sent s @ [DoneFrame id_a]"
proof -
  let ?ts = "[lit ''['', lit '']'']" and ?idle = "\<lambda>k q. q"
  let ?j = "job_a\<lparr>status := PROCESSING, process_task := Some Running\<rparr>"
  have st: "stream_transcription demo_http (vllm_args_of demo_settings (encode_audio_base64 [1, 2, 3]) ?j) = (map JStr ?ts, None)"
    using demo_stream_any by simp
  have cat: "concat ?ts = lit ''[]''" by (simp add: lit_def)
  have "\<exists>ys. j = j\<lparr>chunk_queue := ys\<rparr>" for j :: job by (rule exI [of _ "chunk_queue j"]) simp
  then have l: "listening id_a ?idle" by (simp add: listening_def)
  have n: "store demo_mine id_a = Some ?j" "node_at (disk demo_mine) demo_file = Some (RegFile 384 [1, 2, 3])"
    "worker_task demo_mine = Some (Awaiting id_a 2 False)"
    by (simp_all add: demo_mine_eq demo_start_def demo_fs_def node_at_def)
  have start: "reach (stream_init id_a) (stream_step id_a) (new_stream, demo_mine)"
    by (rule reach_init) (simp add: stream_init_def demo_mine_reach n(1))
  obtain s where s: "(stream_step id_a)\<^sup>*\<^sup>* (new_stream, demo_mine) (s, demo_mine)" "es_pc s = EsWait"
      "texts_of (es_sent s) = texts_of (es_sent new_stream)"
    using begin_waits [of new_stream id_a demo_mine] by (auto simp: new_stream_def)
  have rs: "reach (stream_init id_a) (stream_step id_a) (s, demo_mine)" using start s(1) by (rule reach_rtranclp)
  have empty: "job_text id_a (s, demo_mine) = []"
    using s(3) n(1) by (simp add: job_text_def queued_texts_def new_stream_def texts_of_def job_a_def new_job_def)
  let ?qf = "proc_finish id_a Returned demo_streamed"
  obtain jf q2j where q2: "store ?qf id_a = Some jf" "store (worker_resume 9 ?qf) id_a = Some q2j" "chunk_queue q2j = map Some ?ts @ [None]"
    using demo_ended by auto
  from stream_drains [OF s(2) q2(2,3)] obtain s' q' j'
    where d: "(relays id_a)\<^sup>*\<^sup>* (s, worker_resume 9 ?qf) (s', q')" "es_pc s' = EsWait" "store q' id_a = Some j'" "chunk_queue j' = None # []"
    by blast
  have "\<exists>ys. j = j\<lparr>chunk_queue := ys\<rparr>" for j :: job by (rule exI [of _ "chunk_queue j"]) simp
  then have left: "left_to_worker id_a ?qf ?qf" using q2(1) by (auto simp: left_to_worker_def)
  have te: "task_end (\<lambda>x. []) None = Returned" by (simp add: task_end_def)
  have ss: "relayed id_a ?idle 0 (map JStr ?ts) demo_mine s (replicate 3 s)"
    using relayed_quiet [of id_a 0 "map JStr ?ts" demo_mine s] by (simp add: numeral_3_eq_3)
  show ?thesis
    using model_text_streamed [OF rs empty n(3,1) _ _ _ n(2) st l ss demo_run, of "\<lambda>x. []" s ?qf 9 s' q' j' "[]"] d left demo_segments cat te
    by auto
qed

end
