(* ===== verification/Client_Cli.thy ===== *)
theory Client_Cli
  imports Client_Stream Vllm_Client File_Ops
begin

section \<open>The command line (\<open>client/cli.py\<close>)\<close>

text \<open>
  \<open>_transcribe\<close>, \<open>_status\<close> and \<open>main\<close> behind the argument parser: what is printed, what is
  written to the output file, and how the process ends. What a print to standard output raises,
  the encoding of the output file, the resolution of a file name to a path, the mode of new
  files and the loading of the client certificate are parameters; standard error takes every line. The recording is
  read while the request is sent, that is after the output file was opened.
\<close>

subsection \<open>State and files\<close>

record cli_env =
  io_print :: "str \<Rightarrow> exn option"
  io_encode :: "str \<Rightarrow> bytes res"
  io_resolve :: "str \<Rightarrow> path"
  io_mode :: int
  io_load :: "str list \<Rightarrow> exn option"
  io_printable :: "nat \<Rightarrow> bool"

record cli =
  co_stdout :: str
  co_stderr :: str
  co_disk :: fs

datatype cli_end = CliReturned | CliExit int | CliRaised exn

text \<open>\<open>open(path, "w")\<close>: a file that is there is emptied; the file behind the handle.\<close>

definition open_write :: "int \<Rightarrow> path \<Rightarrow> fs \<Rightarrow> path res \<times> fs" where
  "open_write mode p d =
     (case follow 40 d p of
        None \<Rightarrow> (Inl OSErrorOther, d)
      | Some q \<Rightarrow>
          (case node_at d q of
             Some (RegFile m b) \<Rightarrow>
               if q \<in> set (locked d) then (Inl OSErrorOther, d)
               else (Inr q, d\<lparr>nodes := AList.update q (RegFile m []) (nodes d), space := space d + length b\<rparr>)
           | Some _ \<Rightarrow> (Inl OSErrorOther, d)
           | None \<Rightarrow>
               if q = [] \<or> path_parent q \<in> set (locked d) then (Inl OSErrorOther, d)
               else if \<not> is_dir d (path_parent q) then (Inl FileNotFoundError, d)
               else (Inr q, d\<lparr>nodes := AList.update q (RegFile mode []) (nodes d)\<rparr>)))"

definition print_out :: "cli_env \<Rightarrow> str \<Rightarrow> cli \<Rightarrow> exn option \<times> cli" where
  "print_out env t st =
     (case io_print env t of Some e \<Rightarrow> (Some e, st) | None \<Rightarrow> (None, st\<lparr>co_stdout := co_stdout st @ t\<rparr>))"

definition print_err :: "str \<Rightarrow> cli \<Rightarrow> cli" where
  "print_err t st = st\<lparr>co_stderr := co_stderr st @ t\<rparr>"

definition write_text :: "cli_env \<Rightarrow> path \<Rightarrow> str \<Rightarrow> cli \<Rightarrow> exn option \<times> cli" where
  "write_text env q t st =
     (case io_encode env t of
        Inl e \<Rightarrow> (Some e, st)
      | Inr b \<Rightarrow> (case append_file q b (co_disk st) of (e, d) \<Rightarrow> (e, st\<lparr>co_disk := d\<rparr>)))"

text \<open>\<open>f"{x:.0f}"\<close> of a float and of a decoded value that is not \<open>None\<close>.\<close>

fun fixed0 :: "pyfloat \<Rightarrow> str" where
  "fixed0 (Fin q) = (if q < 0 then [45] else []) @ show_nat (nat (round_even \<bar>q\<bar>))"
| "fixed0 PosInf = lit ''inf''"
| "fixed0 NegInf = lit ''-inf''"
| "fixed0 NaN = lit ''nan''"

fun format0 :: "json \<Rightarrow> str res" where
  "format0 (JInt n) =
     (case float_of_rat (of_int n) of
        Fin q \<Rightarrow> Inr (fixed0 (Fin q)) | _ \<Rightarrow> Inl (overflow_error ''int too large to convert to float''))"
| "format0 (JBool b) = Inr (if b then lit ''1'' else lit ''0'')"
| "format0 (JFloat t) =
     Inr ((if literal_float t = Fin 0 \<and> py_startswith t (lit ''-'') then [45] else []) @ fixed0 (literal_float t))"
| "format0 (JStr _) = Inl (ValueError (lit (''Unknown format code '' @ [CHR 39] @ ''f'' @ [CHR 39] @ '' for object of type '' @ [CHR 39] @ ''str'' @ [CHR 39])))"
| "format0 v = Inl (TypeError (lit (''unsupported format string passed to '' @ type_name v @ ''.__format__'')))"

subsection \<open>\<open>_transcribe\<close>\<close>

text \<open>\<open>f"{x}"\<close> of an optional text or number.\<close>

definition or_none :: "str option \<Rightarrow> str" where
  "or_none x = (case x of None \<Rightarrow> lit ''None'' | Some t \<Rightarrow> t)"

definition queue_line :: "int option \<Rightarrow> pyfloat \<Rightarrow> str" where
  "queue_line position wait =
     lit ''[Queue] Position: '' @ or_none (map_option show_int position) @ lit '', ETA: '' @ fixed0 wait @ lit ''s'' @ [10]"

definition error_line :: "str option \<Rightarrow> str" where
  "error_line e = 10 # lit ''[Error] '' @ or_none e @ [10]"

text \<open>The body of the loop for one event: how it leaves the loop, if it does.\<close>

definition cli_event :: "cli_env \<Rightarrow> path option \<Rightarrow> transcription_event \<Rightarrow> cli \<Rightarrow> cli_end option \<times> cli" where
  "cli_event env out ev st =
     (case te_event_type ev of
        EVT_QUEUE \<Rightarrow>
          (case te_estimated_wait_seconds ev of
             None \<Rightarrow> (Some (CliRaised (TypeError (lit ''unsupported format string passed to NoneType.__format__''))), st)
           | Some w \<Rightarrow> (None, print_err (queue_line (te_position ev) w) st))
      | EVT_DATA \<Rightarrow>
          (case te_text ev of
             None \<Rightarrow> (None, st)
           | Some t \<Rightarrow>
               (case print_out env t st of
                  (Some e, st1) \<Rightarrow> (Some (CliRaised e), st1)
                | (None, st1) \<Rightarrow>
                    (case out of
                       None \<Rightarrow> (None, st1)
                     | Some q \<Rightarrow> apfst (map_option CliRaised) (write_text env q t st1))))
      | EVT_ERROR \<Rightarrow> (Some (CliExit 1), print_err (error_line (te_error ev)) st)
      | EVT_DONE \<Rightarrow> apfst (map_option CliRaised) (print_out env [10] st))"

fun cli_events :: "cli_env \<Rightarrow> path option \<Rightarrow> transcription_event list \<Rightarrow> exn option \<Rightarrow> cli \<Rightarrow> cli_end \<times> cli" where
  "cli_events env out [] e st = ((case e of None \<Rightarrow> CliReturned | Some x \<Rightarrow> CliRaised x), st)"
| "cli_events env out (ev # evs) e st =
     (case cli_event env out ev st of
        (Some r, st1) \<Rightarrow> (r, st1)
      | (None, st1) \<Rightarrow> cli_events env out evs e st1)"

text \<open>\<open>events\<close> is the generator of the client: what it yields and how it ends, on the disk as it is
  when its first event is asked for.\<close>

definition cli_transcribe ::
    "cli_env \<Rightarrow> (fs \<Rightarrow> transcription_event list \<times> exn option) \<Rightarrow> str option \<Rightarrow> cli \<Rightarrow> cli_end \<times> cli" where
  "cli_transcribe env events output st =
     (case (case output of
              None \<Rightarrow> (Inr None, co_disk st)
            | Some o' \<Rightarrow>
                if o' = [] then (Inr None, co_disk st)
                else (case open_write (io_mode env) (io_resolve env o') (co_disk st) of
                        (Inl e, d) \<Rightarrow> (Inl e, d) | (Inr q, d) \<Rightarrow> (Inr (Some q), d))) of
        (Inl e, d) \<Rightarrow> (CliRaised e, st\<lparr>co_disk := d\<rparr>)
      | (Inr out, d) \<Rightarrow> (case events d of (evs, e) \<Rightarrow> cli_events env out evs e (st\<lparr>co_disk := d\<rparr>)))"

subsection \<open>\<open>_status\<close>\<close>

text \<open>\<open>x[:8]\<close> and the values a loop runs over, of a decoded value.\<close>

fun first8 :: "json \<Rightarrow> json res" where
  "first8 (JStr s) = Inr (JStr (take 8 s))"
| "first8 (JList vs) = Inr (JList (take 8 vs))"
| "first8 (JDict _) = Inl (TypeError (lit (''unhashable type: '' @ [CHR 39] @ ''slice'' @ [CHR 39])))"
| "first8 v = Inl (TypeError (lit ([CHR 39] @ type_name v @ [CHR 39] @ '' object is not subscriptable'')))"

fun py_iter :: "json \<Rightarrow> json list res" where
  "py_iter (JList vs) = Inr vs"
| "py_iter (JDict ps) = Inr (map (\<lambda>(k, _). JStr k) ps)"
| "py_iter (JStr s) = Inr (map (\<lambda>c. JStr [c]) s)"
| "py_iter v = Inl (TypeError (lit ([CHR 39] @ type_name v @ [CHR 39] @ '' object is not iterable'')))"

definition job_line :: "(nat \<Rightarrow> bool) \<Rightarrow> json \<Rightarrow> str res" where
  "job_line pr v =
     bind_res (py_get v (lit ''status'')) (\<lambda>s.
     bind_res (py_get v (lit ''position'')) (\<lambda>pos.
     bind_res (py_get v (lit ''estimated_wait_seconds'')) (\<lambda>eta.
     bind_res (py_get v (lit ''job_id'')) (\<lambda>i.
     bind_res (first8 i) (\<lambda>i8.
     bind_res (if eta = JNull then Inr [] else bind_res (format0 eta) (\<lambda>t. Inr [lit ''eta='' @ t @ lit ''s''])) (\<lambda>eta_part.
       Inr (join_with [32]
         ([lit ''  '' @ py_str pr i8 @ lit ''... status='' @ py_str pr s]
          @ (if pos = JNull then [] else [lit ''position='' @ py_str pr pos])
          @ eta_part))))))))"

fun print_jobs :: "cli_env \<Rightarrow> json list \<Rightarrow> cli \<Rightarrow> exn option \<times> cli" where
  "print_jobs env [] st = (None, st)"
| "print_jobs env (v # vs) st =
     (case job_line (io_printable env) v of
        Inl e \<Rightarrow> (Some e, st)
      | Inr t \<Rightarrow>
          (case print_out env (t @ [10]) st of
             (Some e, st1) \<Rightarrow> (Some e, st1)
           | (None, st1) \<Rightarrow> print_jobs env vs st1))"

text \<open>From the answer of \<open>queue_status\<close> on.\<close>

definition print_status :: "cli_env \<Rightarrow> json \<Rightarrow> json \<Rightarrow> cli \<Rightarrow> exn option \<times> cli" where
  "print_status env mine queued st =
     (case print_out env (lit ''Total queued: '' @ py_str (io_printable env) queued @ [10]) st of
        (Some e, st1) \<Rightarrow> (Some e, st1)
      | (None, st1) \<Rightarrow>
          if truthy mine
          then (case print_out env (lit ''Your jobs:'' @ [10]) st1 of
                  (Some e, st2) \<Rightarrow> (Some e, st2)
                | (None, st2) \<Rightarrow>
                    (case py_iter mine of Inl e \<Rightarrow> (Some e, st2) | Inr vs \<Rightarrow> print_jobs env vs st2))
          else print_out env (lit ''No active jobs.'' @ [10]) st1)"

definition cli_status :: "cli_env \<Rightarrow> json res \<Rightarrow> cli \<Rightarrow> cli_end \<times> cli" where
  "cli_status env info st =
     (case bind_res info (\<lambda>v. bind_res (py_get v (lit ''your_jobs'')) (\<lambda>mine.
             bind_res (py_get v (lit ''total_queued'')) (\<lambda>queued. Inr (mine, queued)))) of
        Inl e \<Rightarrow> (CliRaised e, st)
      | Inr (mine, queued) \<Rightarrow>
          (case print_status env mine queued st of
             (None, st1) \<Rightarrow> (CliReturned, st1) | (Some e, st1) \<Rightarrow> (CliRaised e, st1)))"

subsection \<open>\<open>main\<close>\<close>

datatype command = TranscribeCmd str "str option" "str option" | StatusCmd

record cli_args =
  ca_server :: str
  ca_server_pin :: str
  ca_client_cert :: str
  ca_client_key :: str
  ca_command :: command

definition cli_main ::
    "cli_env \<Rightarrow> (str \<Rightarrow> str option) \<Rightarrow> (client \<Rightarrow> str \<times> int \<Rightarrow> request \<Rightarrow> http_response res) \<Rightarrow> cli_args \<Rightarrow> cli \<Rightarrow> cli_end \<times> cli" where
  "cli_main env bad_bracketed http a st =
     (if \<not> path_exists (co_disk st) (io_resolve env (ca_client_cert a))
      then (CliExit 1, print_err (lit ''Client cert file not found: '' @ ca_client_cert a @ [10]) st)
      else if \<not> path_exists (co_disk st) (io_resolve env (ca_client_key a))
      then (CliExit 1, print_err (lit ''Client key file not found: '' @ ca_client_key a @ [10]) st)
      else case bind_res (new_client (io_printable env) bad_bracketed (ca_server a) (ca_server_pin a))
                  (\<lambda>c. bind_res (build_ssl_context (io_load env) (TwoFiles (ca_client_cert a) (ca_client_key a))) (\<lambda>_. Inr c)) of
        Inl e \<Rightarrow> (CliRaised e, st)
      | Inr c \<Rightarrow>
          (case ca_command a of
             TranscribeCmd file words output \<Rightarrow>
               if \<not> path_exists (co_disk st) (io_resolve env file)
               then (CliExit 1, print_err (lit ''File not found: '' @ file @ [10]) st)
               else cli_transcribe env
                 (\<lambda>d. client_transcribe (io_printable env) (http c) (read_bytes d (io_resolve env file)) c file words) output st
           | StatusCmd \<Rightarrow> cli_status env (client_queue_status (io_printable env) (http c) c) st))"

subsection \<open>Facts\<close>

lemma node_at_put: "nodes d' = AList.update q x (nodes d) \<Longrightarrow> node_at d' = (node_at d)(q \<mapsto> x)"
  by (rule ext) (simp add: node_at_def AList.update_conv')

lemma open_write_facts:
  assumes "open_write m p d = (Inr q, d')"
  shows "follow 40 d p = Some q" "\<exists>k. node_at d' = (node_at d)(q \<mapsto> RegFile k [])" "space d \<le> space d'"
  using assms by (auto simp: open_write_def node_at_put split: option.splits node.splits if_splits)

lemma open_write_error: "open_write m p d = (Inl e, d') \<Longrightarrow> d' = d"
  by (auto simp: open_write_def split: option.splits node.splits if_splits)

lemma append_file_node: "append_file q b d = (e, d') \<Longrightarrow> r \<noteq> q \<Longrightarrow> node_at d' r = node_at d r"
  by (auto simp: append_file_def node_at_def AList.update_conv' split: option.splits node.splits if_splits)

lemma append_file_room:
  assumes "node_at d q = Some (RegFile m old)" "length b \<le> space d"
  obtains d' where "append_file q b d = (None, d')" "node_at d' = (node_at d)(q \<mapsto> RegFile m (old @ b))" "space d' = space d - length b"
proof
  show "append_file q b d = (None, d\<lparr>nodes := AList.update q (RegFile m (old @ b)) (nodes d), space := space d - length b\<rparr>)"
    using assms by (simp add: append_file_def)
qed (simp_all add: node_at_put)

text \<open>Only the output file changes.\<close>

lemma cli_event_disk: "cli_event env out ev st = (r, st') \<Longrightarrow> out \<noteq> Some p \<Longrightarrow> node_at (co_disk st') p = node_at (co_disk st) p"
  using append_file_node
  by (auto simp: cli_event_def print_out_def print_err_def write_text_def
      split: event_type.splits option.splits sum.splits prod.splits)

lemma cli_events_disk: "cli_events env out evs e st = (r, st') \<Longrightarrow> out \<noteq> Some p \<Longrightarrow> node_at (co_disk st') p = node_at (co_disk st) p"
  by (induction evs arbitrary: st) (auto dest: cli_event_disk split: prod.splits option.splits)

lemma cli_status_disk: "cli_status env info st = (r, st') \<Longrightarrow> co_disk st' = co_disk st"
proof -
  have out: "print_out env t s = (e, s') \<Longrightarrow> co_disk s' = co_disk s" for t s e s'
    by (auto simp: print_out_def split: option.splits)
  have loop: "print_jobs env vs s = (e, s') \<Longrightarrow> co_disk s' = co_disk s" for vs s e s'
    by (induction vs arbitrary: s) (auto dest: out split: sum.splits prod.splits option.splits)
  have "print_status env x y s = (e, s') \<Longrightarrow> co_disk s' = co_disk s" for x y s e s'
    by (auto simp: print_status_def dest!: out loop split: prod.splits option.splits if_splits sum.splits)
  then show "cli_status env info st = (r, st') \<Longrightarrow> co_disk st' = co_disk st"
    by (auto simp: cli_status_def split: sum.splits prod.splits option.splits)
qed

lemma cli_event_no_file: "cli_event env None ev st = (r, st') \<Longrightarrow> co_disk st' = co_disk st"
  by (auto simp: cli_event_def print_out_def print_err_def split: event_type.splits option.splits prod.splits)

lemma cli_events_no_file: "cli_events env None evs e st = (r, st') \<Longrightarrow> co_disk st' = co_disk st"
  by (induction evs arbitrary: st) (auto dest: cli_event_no_file split: prod.splits option.splits)

subsection \<open>Runs without trouble\<close>

definition cli_ready :: "cli_env \<Rightarrow> (str \<Rightarrow> bytes) \<Rightarrow> bool" where
  "cli_ready env enc \<longleftrightarrow> (\<forall>t. io_print env t = None \<and> io_encode env t = Inr (enc t))"

text \<open>The output file, if there is one, holds \<open>b\<close>, and there is room for \<open>n\<close> bytes.\<close>

definition room :: "path option \<Rightarrow> bytes \<Rightarrow> nat \<Rightarrow> cli \<Rightarrow> bool" where
  "room out b n st \<longleftrightarrow> (case out of None \<Rightarrow> True
     | Some q \<Rightarrow> (\<exists>m. node_at (co_disk st) q = Some (RegFile m b)) \<and> n \<le> space (co_disk st))"

text \<open>Events after which the loop goes on, and what they put on standard error.\<close>

definition calm :: "transcription_event \<Rightarrow> bool" where
  "calm ev = (case te_event_type ev of
     EVT_QUEUE \<Rightarrow> te_estimated_wait_seconds ev \<noteq> None \<and> te_text ev = None | EVT_DATA \<Rightarrow> True | _ \<Rightarrow> False)"

definition stderr_text :: "transcription_event \<Rightarrow> str" where
  "stderr_text ev = (case te_event_type ev of
     EVT_QUEUE \<Rightarrow> queue_line (te_position ev) (the (te_estimated_wait_seconds ev)) | _ \<Rightarrow> [])"

abbreviation event_texts :: "transcription_event list \<Rightarrow> str list" where
  "event_texts evs \<equiv> List.map_filter te_text evs"

lemma write_text_room:
  assumes "cli_ready env enc" "room (Some q) b (length (enc t) + n) st"
  obtains d where "write_text env q t st = (None, st\<lparr>co_disk := d\<rparr>)" "room (Some q) (b @ enc t) n (st\<lparr>co_disk := d\<rparr>)"
proof -
  obtain m where m: "node_at (co_disk st) q = Some (RegFile m b)" "length (enc t) + n \<le> space (co_disk st)"
    using assms(2) by (auto simp: room_def)
  then obtain d where "append_file q (enc t) (co_disk st) = (None, d)"
      "node_at d = (node_at (co_disk st))(q \<mapsto> RegFile m (b @ enc t))" "space d = space (co_disk st) - length (enc t)"
    using append_file_room [OF m(1), of "enc t"] by auto
  then show thesis using assms(1) m(2) by (intro that [of d]) (auto simp: write_text_def cli_ready_def room_def)
qed

lemma calm_event:
  assumes ready: "cli_ready env enc" and calm: "calm ev"
    and room: "room out b (length (concat (map enc (event_texts [ev]))) + n) st"
  obtains st' where "cli_event env out ev st = (None, st')"
    "co_stdout st' = co_stdout st @ concat (event_texts [ev])" "co_stderr st' = co_stderr st @ stderr_text ev"
    "room out (b @ concat (map enc (event_texts [ev]))) n st'"
proof (cases "te_event_type ev")
  case EVT_QUEUE
  then obtain w where w: "te_estimated_wait_seconds ev = Some w" "te_text ev = None" using calm by (auto simp: calm_def)
  show ?thesis
    by (rule that [of "print_err (queue_line (te_position ev) w) st"])
      (use room in \<open>simp_all add: cli_event_def EVT_QUEUE w stderr_text_def print_err_def room_def split: option.splits\<close>)
next
  case EVT_DATA
  show ?thesis
  proof (cases "te_text ev")
    case None
    show ?thesis by (rule that [of st]) (use room in \<open>simp_all add: cli_event_def EVT_DATA None stderr_text_def\<close>)
  next
    case (Some t)
    let ?st1 = "st\<lparr>co_stdout := co_stdout st @ t\<rparr>"
    have p: "print_out env t st = (None, ?st1)" using ready by (simp add: print_out_def cli_ready_def)
    show ?thesis
    proof (cases out)
      case None
      show ?thesis
        by (rule that [of ?st1]) (simp_all add: cli_event_def EVT_DATA Some None p stderr_text_def room_def)
    next
      case (Some q)
      have "room (Some q) b (length (enc t) + n) ?st1" using room \<open>te_text ev = Some t\<close> Some by (simp add: room_def)
      then obtain d where d: "write_text env q t ?st1 = (None, ?st1\<lparr>co_disk := d\<rparr>)" "room (Some q) (b @ enc t) n (?st1\<lparr>co_disk := d\<rparr>)"
        using write_text_room [OF ready] by blast
      show ?thesis
        by (rule that [of "?st1\<lparr>co_disk := d\<rparr>"])
          (use d \<open>te_text ev = Some t\<close> in \<open>simp_all add: cli_event_def EVT_DATA Some p stderr_text_def\<close>)
    qed
  qed
qed (use calm in \<open>simp_all add: calm_def\<close>)

lemma calm_events:
  assumes ready: "cli_ready env enc" and "list_all calm evs"
    and "room out b (length (concat (map enc (event_texts evs)))) st"
  obtains st' where "\<And>rest. cli_events env out (evs @ rest) e st = cli_events env out rest e st'"
    "co_stdout st' = co_stdout st @ concat (event_texts evs)" "co_stderr st' = co_stderr st @ concat (map stderr_text evs)"
    "room out (b @ concat (map enc (event_texts evs))) 0 st'"
  using assms(2,3)
proof (induction evs arbitrary: b st thesis)
  case Nil
  then show ?case by simp
next
  case (Cons ev evs)
  let ?E = "concat (map enc (event_texts [ev]))" and ?n = "length (concat (map enc (event_texts evs)))"
  have room: "room out b (length ?E + ?n) st" using Cons.prems(3) by (cases "te_text ev") simp_all
  obtain st1 where st1: "cli_event env out ev st = (None, st1)"
      "co_stdout st1 = co_stdout st @ concat (event_texts [ev])" "co_stderr st1 = co_stderr st @ stderr_text ev"
      "room out (b @ ?E) ?n st1"
    using calm_event [OF ready _ room] Cons.prems(2) by auto
  obtain st2 where st2: "\<And>rest. cli_events env out (evs @ rest) e st1 = cli_events env out rest e st2"
      "co_stdout st2 = co_stdout st1 @ concat (event_texts evs)" "co_stderr st2 = co_stderr st1 @ concat (map stderr_text evs)"
      "room out ((b @ ?E) @ concat (map enc (event_texts evs))) 0 st2"
    using Cons.IH [OF _ _ st1(4)] Cons.prems(2) by auto
  show ?case
    using st1 st2 by (intro Cons.prems(1) [of st2]) (cases "te_text ev"; simp)+
qed

subsection \<open>Transcriptions that reach their last event\<close>

text \<open>Frames before the last one; the end a last frame makes of a run.\<close>

fun middle_frame :: "frame \<Rightarrow> bool" where
  "middle_frame (ErrorFrame _) = False"
| "middle_frame (DoneFrame _) = False"
| "middle_frame _ = True"

lemma middle_events:
  assumes "list_all middle_frame fs"
  shows "list_all calm (List.map_filter (event_of wait_text) fs)"
    and "event_texts (List.map_filter (event_of wait_text) fs) = texts_of fs"
proof -
  show "list_all calm (List.map_filter (event_of wait_text) fs)"
    using assms
  proof (induction fs)
    case (Cons f fs)
    then show ?case by (cases f) (simp_all add: calm_def new_event_def)
  qed simp
qed (rule texts_of_events)

text \<open>The file a run writes to, made before the client's generator starts.\<close>

lemma cli_transcribe_file:
  assumes "open_write (io_mode env) (io_resolve env o') (co_disk st) = (Inr q, d)" "o' \<noteq> []"
  shows "cli_transcribe env events (Some o') st = (case events d of (evs, e) \<Rightarrow> cli_events env (Some q) evs e (st\<lparr>co_disk := d\<rparr>))"
  using assms by (simp add: cli_transcribe_def)

lemma cli_run:
  assumes ready: "cli_ready env enc" and pre: "list_all middle_frame pre" and final: "fin = [] \<or> fin = [DoneFrame i] \<or> fin = [ErrorFrame x]"
    and room: "room out [] (length (concat (map enc (texts_of pre)))) (st\<lparr>co_disk := d\<rparr>)"
    and run: "cli_events env out (List.map_filter (event_of wait_text) (pre @ fin)) e (st\<lparr>co_disk := d\<rparr>) = (r, st')"
  shows "co_stdout st' = co_stdout st @ concat (texts_of pre) @ (if fin = [DoneFrame i] then [10] else [])
    \<and> r = (if fin = [ErrorFrame x] then CliExit 1 else case e of None \<Rightarrow> CliReturned | Some y \<Rightarrow> CliRaised y)
    \<and> (fin = [ErrorFrame x] \<longrightarrow> (\<exists>l. co_stderr st' = co_stderr st @ l @ error_line (Some (ee_error x))))
    \<and> room out (concat (map enc (texts_of pre))) 0 st'"
proof -
  note m = middle_events [OF pre, of wait_text]
  have room': "room out [] (length (concat (map enc (event_texts (List.map_filter (event_of wait_text) pre))))) (st\<lparr>co_disk := d\<rparr>)"
    using room by (simp add: m(2))
  obtain st1 where s: "\<And>rest. cli_events env out (List.map_filter (event_of wait_text) pre @ rest) e (st\<lparr>co_disk := d\<rparr>) = cli_events env out rest e st1"
      "co_stdout st1 = co_stdout (st\<lparr>co_disk := d\<rparr>) @ concat (event_texts (List.map_filter (event_of wait_text) pre))"
      "co_stderr st1 = co_stderr (st\<lparr>co_disk := d\<rparr>) @ concat (map stderr_text (List.map_filter (event_of wait_text) pre))"
      "room out ([] @ concat (map enc (event_texts (List.map_filter (event_of wait_text) pre)))) 0 st1"
    using calm_events [OF ready m(1) room'] by blast
  have st1: "co_stdout st1 = co_stdout st @ concat (texts_of pre)" "room out (concat (map enc (texts_of pre))) 0 st1"
    "\<exists>l. co_stderr st1 = co_stderr st @ l"
    using s(2-4) by (simp_all add: m(2))
  have last: "cli_events env out (List.map_filter (event_of wait_text) fin) e st1 = (r, st')"
    using run by (simp add: s(1))
  from final show ?thesis
  proof (elim disjE)
    assume "fin = []"
    then show ?thesis using last st1 by auto
  next
    assume "fin = [DoneFrame i]"
    then show ?thesis
      using last st1 ready by (auto simp: cli_event_def new_event_def print_out_def cli_ready_def room_def split: option.splits)
  next
    assume "fin = [ErrorFrame x]"
    then show ?thesis
      using last st1 by (auto simp: cli_event_def new_event_def print_err_def room_def split: option.splits)
  qed
qed

subsection \<open>The answer of the status route on the terminal\<close>

text \<open>The body of the status route, whose encoder is a parameter, and the line of one job.\<close>

definition info_json :: "(rat \<Rightarrow> str) \<Rightarrow> job_info \<Rightarrow> json" where
  "info_json wait_text j =
     JDict [(lit ''job_id'', JStr (ji_job_id j)), (lit ''status'', JStr (status_value (ji_status j))),
            (lit ''position'', case ji_position j of None \<Rightarrow> JNull | Some p \<Rightarrow> JInt p),
            (lit ''estimated_wait_seconds'', case ji_estimated_wait_seconds j of None \<Rightarrow> JNull | Some w \<Rightarrow> JFloat (wait_text w))]"

definition status_json :: "(rat \<Rightarrow> str) \<Rightarrow> queue_status_response \<Rightarrow> json" where
  "status_json wait_text r =
     JDict [(lit ''your_jobs'', JList (map (info_json wait_text) (your_jobs r))), (lit ''total_queued'', JInt (total_queued r))]"

definition status_line :: "(rat \<Rightarrow> str) \<Rightarrow> job_info \<Rightarrow> str" where
  "status_line wait_text j =
     lit ''  '' @ take 8 (ji_job_id j) @ lit ''... status='' @ status_value (ji_status j)
     @ (case ji_position j of None \<Rightarrow> [] | Some p \<Rightarrow> lit '' position='' @ show_int p)
     @ (case ji_estimated_wait_seconds j of None \<Rightarrow> [] | Some w \<Rightarrow> lit '' eta='' @ fixed0 (literal_float (wait_text w)) @ lit ''s'')"

definition info_ok :: "(rat \<Rightarrow> str) \<Rightarrow> job_info \<Rightarrow> bool" where
  "info_ok wait_text j \<longleftrightarrow> list_all scalar_char (ji_job_id j)
     \<and> (case ji_estimated_wait_seconds j of None \<Rightarrow> True
        | Some w \<Rightarrow> float_text (wait_text w) \<and> \<not> py_startswith (wait_text w) (lit ''-''))"

lemma scalar_lit: "list_all (\<lambda>c. (of_char c :: nat) < 128) t \<Longrightarrow> list_all scalar_char (lit t)"
  by (auto simp: lit_def scalar_char_def list_all_iff)

lemma status_json_wf: "list_all (info_ok wait_text) (your_jobs r) \<Longrightarrow> wf_json (status_json wait_text r)"
proof -
  have "info_ok wait_text j \<Longrightarrow> wf_json (info_json wait_text j)" for j
    by (cases "ji_status j") (auto simp: info_ok_def info_json_def scalar_lit split: option.splits)
  then show "list_all (info_ok wait_text) (your_jobs r) \<Longrightarrow> wf_json (status_json wait_text r)"
    by (simp add: status_json_def scalar_lit) (simp add: list_all_iff)
qed

lemma job_line_info: "info_ok wait_text j \<Longrightarrow> job_line pr (info_json wait_text j) = Inr (status_line wait_text j)"
  by (auto simp: info_ok_def job_line_def info_json_def status_line_def py_str_def lit_append [symmetric] lit_def split: option.splits)

lemma print_jobs_infos:
  assumes "cli_ready env enc" "list_all (info_ok wait_text) js"
  shows "print_jobs env (map (info_json wait_text) js) st
    = (None, st\<lparr>co_stdout := co_stdout st @ concat (map (\<lambda>j. status_line wait_text j @ [10]) js)\<rparr>)"
  using assms(2)
proof (induction js arbitrary: st)
  case (Cons j js)
  then show ?case using assms(1) by (simp add: job_line_info print_out_def cli_ready_def)
qed simp

lemma queue_status_read:
  assumes "client_address pr c = Inr address" "encodes_lines dump" "wf_json v"
    and "\<And>rq. http address rq = Inr \<lparr>hr_status = 200, hr_read = Inr (utf8_bytes (dump v)), hr_lines = ls, hr_end = e\<rparr>"
  shows "client_queue_status pr http c = Inr v"
proof -
  obtain hs where "client_headers pr c = Inr hs"
    using assms(1) by (auto simp: client_address_def client_headers_def bind_res_eq_Inr)
  moreover have "json_loads (dump v) = Some v" "list_all scalar_char (dump v)"
    using assms(2,3) by (auto simp: encodes_lines_def line_text_def)
  then have "py_decode (utf8_bytes (dump v)) = Inr (dump v)" by (simp add: py_decode_def utf8_round_trip)
  ultimately show ?thesis using assms(1,4) \<open>json_loads (dump v) = Some v\<close> by (simp add: client_queue_status_def)
qed

subsection \<open>A whole transcription\<close>

lemma cli_main_frames:
  assumes files: "path_exists (co_disk st) (io_resolve env (ca_client_cert a))" "path_exists (co_disk st) (io_resolve env (ca_client_key a))"
      "path_exists (co_disk st) (io_resolve env wav)"
    and cmd: "ca_command a = TranscribeCmd wav words dest" "posix_suffix wav = lit ''.wav''"
    and client: "new_client (io_printable env) bad (ca_server a) (ca_server_pin a) = Inr c" "io_load env [ca_client_cert a, ca_client_key a] = None"
      "client_address (io_printable env) c = Inr address"
    and server: "encodes_lines dump" "list_all (frame_ok wait_text) (pre @ fin)" "list_all middle_frame pre" "fin = [] \<or> fin = [DoneFrame i] \<or> fin = [ErrorFrame x]"
      "\<And>rq. http c address rq = Inr \<lparr>hr_status = 200, hr_read = b, hr_lines = byte_lines (response_body dump wait_text (pre @ fin)), hr_end = e\<rparr>"
    and ready: "cli_ready env enc"
    and outfile: "dest = None \<or> (\<exists>n d. dest = Some n \<and> n \<noteq> [] \<and> open_write (io_mode env) (io_resolve env n) (co_disk st) = (Inr q, d)
        \<and> length (concat (map enc (texts_of pre))) \<le> space d)"
    and run: "cli_main env bad http a st = (r, st')"
  shows "co_stdout st' = co_stdout st @ concat (texts_of pre) @ (if fin = [DoneFrame i] then [10] else [])
    \<and> r = (if fin = [ErrorFrame x] then CliExit 1 else case e of None \<Rightarrow> CliReturned | Some y \<Rightarrow> CliRaised y)
    \<and> (fin = [ErrorFrame x] \<longrightarrow> (\<exists>l. co_stderr st' = co_stderr st @ l @ error_line (Some (ee_error x))))
    \<and> (if dest = None then co_disk st' = co_disk st
        else \<exists>m. node_at (co_disk st') q = Some (RegFile m (concat (map enc (texts_of pre)))))"
proof -
  let ?events = "\<lambda>d. client_transcribe (io_printable env) (http c) (read_bytes d (io_resolve env wav)) c wav words"
  have ev: "?events d = (List.map_filter (event_of wait_text) (pre @ fin), e)" for d
    by (rule client_transcribe_frames [where http = "http c", OF server(1,2) cmd(2) client(3) server(5)])
  have main: "cli_transcribe env ?events dest st = (r, st')"
    using run files cmd(1) client by (simp add: cli_main_def build_ssl_context_def)
  obtain out d where od: "out = (if dest = None then None else Some q)" "room out [] (length (concat (map enc (texts_of pre)))) (st\<lparr>co_disk := d\<rparr>)"
      "cli_events env out (List.map_filter (event_of wait_text) (pre @ fin)) e (st\<lparr>co_disk := d\<rparr>) = (r, st')" "dest = None \<Longrightarrow> d = co_disk st"
  proof (cases dest)
    case None
    show ?thesis by (rule that [of None "co_disk st"]) (use main None in \<open>simp_all add: cli_transcribe_def room_def ev\<close>)
  next
    case (Some n)
    then obtain d where d: "n \<noteq> []" "open_write (io_mode env) (io_resolve env n) (co_disk st) = (Inr q, d)"
        "length (concat (map enc (texts_of pre))) \<le> space d"
      using outfile by auto
    show ?thesis
      by (rule that [of "Some q" d])
        (use main Some d open_write_facts(2) [OF d(2)] cli_transcribe_file [OF d(2,1), of ?events] in \<open>auto simp: room_def ev\<close>)
  qed
  note run' = cli_run [OF ready server(3,4) od(2,3)]
  moreover have "if dest = None then co_disk st' = co_disk st
      else \<exists>m. node_at (co_disk st') q = Some (RegFile m (concat (map enc (texts_of pre))))"
    using run' od(1,4) cli_events_no_file [of env] od(3) by (cases dest) (auto simp: room_def)
  ultimately show ?thesis by blast
qed

subsection \<open>Properties\<close>

text \<open>From the server's stream to the terminal: when the stream sent texts and then the final
  event, \<open>vvv transcribe\<close> prints exactly these texts, in order, and a newline after a
  transcription that succeeded; it returns as the connection ended. After one that failed it
  prints the server's message to standard error and exits with status 1. In both cases the
  output file, if one is asked for, holds exactly the texts.\<close>

theorem cli_prints_transcript:
  assumes files: "path_exists (co_disk st) (io_resolve env (ca_client_cert a))" "path_exists (co_disk st) (io_resolve env (ca_client_key a))"
      "path_exists (co_disk st) (io_resolve env wav)"
    and cmd: "ca_command a = TranscribeCmd wav words dest" "posix_suffix wav = lit ''.wav''"
    and client: "new_client (io_printable env) bad (ca_server a) (ca_server_pin a) = Inr c" "io_load env [ca_client_cert a, ca_client_key a] = None"
      "client_address (io_printable env) c = Inr address"
    and server: "encodes_lines dump" "list_all (frame_ok wait_text) (pre @ [f])" "list_all middle_frame pre" "f = DoneFrame i \<or> f = ErrorFrame x"
      "\<And>rq. http c address rq = Inr \<lparr>hr_status = 200, hr_read = b, hr_lines = byte_lines (response_body dump wait_text (pre @ [f])), hr_end = e\<rparr>"
    and ready: "cli_ready env enc"
    and outfile: "dest = None \<or> (\<exists>n d. dest = Some n \<and> n \<noteq> [] \<and> open_write (io_mode env) (io_resolve env n) (co_disk st) = (Inr q, d)
        \<and> length (concat (map enc (texts_of pre))) \<le> space d)"
    and run: "cli_main env bad http a st = (r, st')"
  shows "co_stdout st' = co_stdout st @ concat (texts_of pre) @ (if f = DoneFrame i then [10] else [])
    \<and> r = (if f = DoneFrame i then (case e of None \<Rightarrow> CliReturned | Some y \<Rightarrow> CliRaised y) else CliExit 1)
    \<and> (f = ErrorFrame x \<longrightarrow> (\<exists>l. co_stderr st' = co_stderr st @ l @ error_line (Some (ee_error x))))
    \<and> (if dest = None then co_disk st' = co_disk st
        else \<exists>m. node_at (co_disk st') q = Some (RegFile m (concat (map enc (texts_of pre)))))"
proof -
  have "[f] = [] \<or> [f] = [DoneFrame i] \<or> [f] = [ErrorFrame x]" using server(4) by simp
  from cli_main_frames [where http = http, OF files cmd client server(1-3) this server(5) ready outfile run]
  show ?thesis using server(4) by auto
qed

text \<open>C22. Whatever the server sends and wherever the run ends, the command line changes no file but
  the one named by \<open>--output\<close>, and that one only for \<open>transcribe\<close> (the file it names after
  symbolic links).\<close>

theorem cli_touches_only_output:
  assumes "cli_main env bad http a st = (r, st')" and "node_at (co_disk st') p \<noteq> node_at (co_disk st) p"
  shows "\<exists>wav words out. ca_command a = TranscribeCmd wav words (Some out)
    \<and> follow 40 (co_disk st) (io_resolve env out) = Some p"
proof (rule ccontr)
  assume no: "\<not> ?thesis"
  have "node_at (co_disk st') p = node_at (co_disk st) p"
  proof (cases "ca_command a")
    case StatusCmd
    then show ?thesis
      using assms(1) cli_status_disk by (auto simp: cli_main_def print_err_def split: if_splits sum.splits)
  next
    case (TranscribeCmd wav words dest)
    have t: "cli_transcribe env events dest st = (r, st') \<Longrightarrow> node_at (co_disk st') p = node_at (co_disk st) p" for events
    proof -
      assume run: "cli_transcribe env events dest st = (r, st')"
      obtain z d where z: "(case dest of None \<Rightarrow> (Inr None, co_disk st)
          | Some o' \<Rightarrow> if o' = [] then (Inr None, co_disk st)
              else (case open_write (io_mode env) (io_resolve env o') (co_disk st) of
                      (Inl e, d) \<Rightarrow> (Inl e, d) | (Inr q, d) \<Rightarrow> (Inr (Some q), d))) = (z, d)" by fastforce
      have "node_at d p = node_at (co_disk st) p \<and> (\<forall>q. z = Inr (Some q) \<longrightarrow> q \<noteq> p)"
        using z no TranscribeCmd open_write_facts open_write_error
        by (fastforce split: option.splits if_splits prod.splits sum.splits)
      then show ?thesis
        using run cli_events_disk [of env _ _ _ "st\<lparr>co_disk := d\<rparr>" r st' p]
        by (auto simp: cli_transcribe_def z split: sum.splits prod.splits)
    qed
    show ?thesis
      using assms(1) TranscribeCmd t by (auto simp: cli_main_def print_err_def split: if_splits sum.splits)
  qed
  with assms(2) show False by blast
qed

text \<open>A file that was emptied is found under the same names.\<close>

lemma follow_put:
  assumes "node_at d' = (node_at d)(q \<mapsto> RegFile k b)" "node_at d q = Some (RegFile m c)"
  shows "follow n d' p = follow n d p"
proof (induction n arbitrary: p)
  case (Suc n)
  then show ?case using assms by (cases "p = q") (auto simp: follow.simps split: option.splits node.splits)
qed (simp add: follow.simps)

text \<open>The recording can be lost: when \<open>--output\<close> names the recording (under any name, through
  links or not), the file is emptied before it is read, so that what is uploaded is an empty
  recording, and what is left of the file is what the run appends to it.\<close>

theorem cli_output_erases_recording:
  assumes files: "path_exists (co_disk st) (io_resolve env (ca_client_cert a))" "path_exists (co_disk st) (io_resolve env (ca_client_key a))"
    and cmd: "ca_command a = TranscribeCmd wav words (Some dest)" "dest \<noteq> []"
    and client: "new_client (io_printable env) bad (ca_server a) (ca_server_pin a) = Inr c" "io_load env [ca_client_cert a, ca_client_key a] = None"
    and same: "follow 40 (co_disk st) (io_resolve env wav) = Some q" "follow 40 (co_disk st) (io_resolve env dest) = Some q"
      "node_at (co_disk st) q = Some (RegFile m recording)" "q \<notin> set (locked (co_disk st))"
  shows "\<exists>d. node_at d = (node_at (co_disk st))(q \<mapsto> RegFile m [])
    \<and> cli_main env bad http a st =
        (case client_transcribe (io_printable env) (http c) (Inr []) c wav words of
           (evs, e) \<Rightarrow> cli_events env (Some q) evs e (st\<lparr>co_disk := d\<rparr>))"
proof -
  let ?d = "(co_disk st)\<lparr>nodes := AList.update q (RegFile m []) (nodes (co_disk st)), space := space (co_disk st) + length recording\<rparr>"
  have o: "open_write (io_mode env) (io_resolve env dest) (co_disk st) = (Inr q, ?d)"
    using same by (simp add: open_write_def)
  have n: "node_at ?d = (node_at (co_disk st))(q \<mapsto> RegFile m [])" by (rule node_at_put) simp
  have "read_bytes ?d (io_resolve env wav) = Inr []"
    using follow_put [OF n same(3)] same(1) n by (simp add: read_bytes_def)
  moreover have "path_exists (co_disk st) (io_resolve env wav)" using same by (simp add: path_exists_def)
  ultimately have "cli_main env bad http a st =
        (case client_transcribe (io_printable env) (http c) (Inr []) c wav words of
           (evs, e) \<Rightarrow> cli_events env (Some q) evs e (st\<lparr>co_disk := ?d\<rparr>))"
    using files cmd(1) client cli_transcribe_file [OF o cmd(2)] by (simp add: cli_main_def build_ssl_context_def)
  with n show ?thesis by blast
qed

text \<open>C21. From the queue to the terminal: \<open>vvv status\<close> prints the number of queued jobs and one line
  for each job of the caller's identity, in the order of the dictionary, with the start of its
  id, its status, and its position and waiting time when it waits; with no job it says so. It
  never fails on an answer of the server.\<close>

theorem cli_lists_jobs:
  assumes files: "path_exists (co_disk st) (io_resolve env (ca_client_cert a))" "path_exists (co_disk st) (io_resolve env (ca_client_key a))"
    and cmd: "ca_command a = StatusCmd"
    and client: "new_client (io_printable env) bad (ca_server a) (ca_server_pin a) = Inr c" "io_load env [ca_client_cert a, ca_client_key a] = None"
      "client_address (io_printable env) c = Inr address"
    and info: "r = get_queue_info q i" "list_all (info_ok wait_text) (your_jobs r)"
    and server: "encodes_lines dump"
      "\<And>rq. http c address rq = Inr \<lparr>hr_status = 200, hr_read = Inr (utf8_bytes (dump (status_json wait_text r))), hr_lines = ls, hr_end = e\<rparr>"
    and ready: "cli_ready env enc"
  shows "cli_main env bad http a st = (CliReturned, st\<lparr>co_stdout := co_stdout st @ lit ''Total queued: '' @ show_int (total_queued r) @ 10
      # (if your_jobs r = [] then lit ''No active jobs.'' @ [10]
         else lit ''Your jobs:'' @ 10 # concat (map (\<lambda>j. status_line wait_text j @ [10]) (your_jobs r)))\<rparr>)"
proof -
  have read: "client_queue_status (io_printable env) (http c) c = Inr (status_json wait_text r)"
    by (rule queue_status_read [where http = "http c", OF client(3) server(1) status_json_wf [OF info(2)] server(2)])
  have out: "print_out env t x = (None, x\<lparr>co_stdout := co_stdout x @ t\<rparr>)" for t x
    using ready by (simp add: print_out_def cli_ready_def)
  have "print_status env (JList (map (info_json wait_text) (your_jobs r))) (JInt (total_queued r)) st
      = (None, st\<lparr>co_stdout := co_stdout st @ lit ''Total queued: '' @ show_int (total_queued r) @ 10
      # (if your_jobs r = [] then lit ''No active jobs.'' @ [10]
         else lit ''Your jobs:'' @ 10 # concat (map (\<lambda>j. status_line wait_text j @ [10]) (your_jobs r)))\<rparr>)"
    by (simp add: print_status_def out print_jobs_infos [OF ready info(2)] py_str_def)
  then show ?thesis
    using files cmd client(1,2) read by (simp add: cli_main_def cli_status_def status_json_def build_ssl_context_def)
qed

subsection \<open>Witnesses\<close>

definition demo_cli_env :: cli_env where
  "demo_cli_env = \<lparr>io_print = (\<lambda>_. None), io_encode = (\<lambda>t. Inr (utf8_bytes t)), io_resolve = (\<lambda>s. [s]),
     io_mode = 420, io_load = (\<lambda>_. None), io_printable = (\<lambda>_. True)\<rparr>"

definition demo_cli :: cli where
  "demo_cli = \<lparr>co_stdout = [], co_stderr = [], co_disk = \<lparr>nodes = [([lit ''c.pem''], RegFile 420 []), ([lit ''k.pem''], RegFile 384 []),
     ([lit ''a.wav''], RegFile 420 [1, 2])], locked = [], space = 100\<rparr>\<rparr>"

definition demo_args :: "command \<Rightarrow> cli_args" where
  "demo_args cmd = \<lparr>ca_server = demo_url, ca_server_pin = demo_pin, ca_client_cert = lit ''c.pem'', ca_client_key = lit ''k.pem'', ca_command = cmd\<rparr>"

lemma demo_new_client: "new_client pr bb demo_url demo_pin = Inr demo_client"
proof -
  have "host_chars (lit ''asr.example'')" "port_ok (Some 42862)"
    by (simp_all add: host_chars_def lit_def before_def port_ok_def)
  from parse_origin [OF this] show ?thesis
    by (simp add: new_client_def demo_url_normal demo_pin_normal demo_client_def)
qed

lemma demo_cli_paths:
  "path_exists (co_disk demo_cli) [lit ''c.pem'']" "path_exists (co_disk demo_cli) [lit ''k.pem'']" "path_exists (co_disk demo_cli) [lit ''a.wav'']"
  "follow 40 (co_disk demo_cli) [lit ''a.wav''] = Some [lit ''a.wav'']" "follow 40 (co_disk demo_cli) [lit ''out''] = Some [lit ''out'']"
  by (simp_all add: path_exists_def follow_plain is_symlink_def demo_cli_def node_at_def)

lemma demo_cli_ready: "cli_ready demo_cli_env utf8_bytes"
  by (simp add: cli_ready_def demo_cli_env_def)

lemma demo_open:
  "\<exists>d. open_write 420 [lit ''out''] (co_disk demo_cli) = (Inr [lit ''out''], d) \<and> space d = 100"
  by (simp add: open_write_def demo_cli_paths(5)) (simp add: demo_cli_def node_at_def path_parent_def is_dir_def)

theorem cli_prints_transcript_witness:
  "\<exists>r st'. cli_main demo_cli_env (\<lambda>_. None) (\<lambda>_. demo_server) (demo_args (TranscribeCmd (lit ''a.wav'') None (Some (lit ''out'')))) demo_cli = (r, st')
    \<and> co_stdout st' = [91, 10, 8364, 93, 10] \<and> r = CliRaised TimeoutError
    \<and> (\<exists>m. node_at (co_disk st') [lit ''out''] = Some (RegFile m (utf8_bytes [91, 10, 8364] @ utf8_bytes [93])))"
proof -
  let ?a = "demo_args (TranscribeCmd (lit ''a.wav'') None (Some (lit ''out'')))"
  obtain r st' where run: "cli_main demo_cli_env (\<lambda>_. None) (\<lambda>_. demo_server) ?a demo_cli = (r, st')" by fastforce
  define pre where "pre = butlast demo_frames"
  have fr: "pre @ [DoneFrame (lit ''j1'')] = demo_frames" "texts_of pre = [[91, 10, 8364], [93]]" "list_all middle_frame pre"
    by (simp_all add: pre_def demo_frames_def texts_of_def)
  have files: "path_exists (co_disk demo_cli) (io_resolve demo_cli_env (ca_client_cert ?a))" "path_exists (co_disk demo_cli) (io_resolve demo_cli_env (ca_client_key ?a))"
      "path_exists (co_disk demo_cli) (io_resolve demo_cli_env (lit ''a.wav''))"
    using demo_cli_paths by (simp_all add: demo_cli_env_def demo_args_def)
  have cmd: "ca_command ?a = TranscribeCmd (lit ''a.wav'') None (Some (lit ''out''))" "posix_suffix (lit ''a.wav'') = lit ''.wav''"
    by (simp add: demo_args_def) code_simp
  have client: "new_client (io_printable demo_cli_env) (\<lambda>_. None) (ca_server ?a) (ca_server_pin ?a) = Inr demo_client" "io_load demo_cli_env [ca_client_cert ?a, ca_client_key ?a] = None"
      "client_address (io_printable demo_cli_env) demo_client = Inr (lit ''asr.example'', 42862)"
    by (simp_all add: demo_args_def demo_new_client demo_client_address) (simp add: demo_cli_env_def)
  have srv: "list_all (frame_ok float_repr) (pre @ [DoneFrame (lit ''j1'')])"
    "DoneFrame (lit ''j1'') = DoneFrame (lit ''j1'') \<or> DoneFrame (lit ''j1'') = ErrorFrame \<lparr>ee_error = []\<rparr>"
    using demo_frames_ok by (simp_all add: fr(1))
  have http: "demo_server (lit ''asr.example'', 42862) rq = Inr \<lparr>hr_status = 200, hr_read = Inr [],
      hr_lines = byte_lines (response_body json_dumps float_repr (pre @ [DoneFrame (lit ''j1'')])), hr_end = Some TimeoutError\<rparr>" for rq
    by (simp add: demo_server_def fr(1))
  have out: "Some (lit ''out'') = None \<or> (\<exists>n d. Some (lit ''out'') = Some n \<and> n \<noteq> []
      \<and> open_write (io_mode demo_cli_env) (io_resolve demo_cli_env n) (co_disk demo_cli) = (Inr [lit ''out''], d)
      \<and> length (concat (map utf8_bytes (texts_of pre))) \<le> space d)"
    using demo_open by (auto simp: fr(2) demo_cli_env_def utf8_bytes_def utf8_char_def)
  have "co_stdout st' = co_stdout demo_cli @ concat (texts_of pre) @ [10] \<and> r = CliRaised TimeoutError
      \<and> (\<exists>m. node_at (co_disk st') [lit ''out''] = Some (RegFile m (concat (map utf8_bytes (texts_of pre)))))"
    using cli_prints_transcript [where http = "\<lambda>_. demo_server", OF files cmd client json_dumps_encodes srv(1) fr(3) srv(2) http demo_cli_ready out run]
    by simp
  then have "co_stdout st' = [91, 10, 8364, 93, 10]" "r = CliRaised TimeoutError"
    "\<exists>m. node_at (co_disk st') [lit ''out''] = Some (RegFile m (utf8_bytes [91, 10, 8364] @ utf8_bytes [93]))"
    by (simp_all add: fr(2)) (simp add: demo_cli_def)
  then show ?thesis using run by blast
qed

lemma demo_offline:
  "client_transcribe pr (\<lambda>_ _. Inl TimeoutError) b demo_client (lit ''a.wav'') None = ([], Some TimeoutError)"
proof -
  have "posix_suffix (lit ''a.wav'') = lit ''.wav''" by code_simp
  moreover obtain hs where "client_headers pr demo_client = Inr hs"
    using demo_client_address [of pr] by (auto simp: client_address_def client_headers_def bind_res_eq_Inr)
  ultimately show ?thesis by (simp add: client_transcribe_def validate_wav_path_def require_def demo_client_address)
qed

theorem cli_touches_only_output_witness:
  "\<exists>st'. cli_main demo_cli_env (\<lambda>_. None) (\<lambda>_ _ _. Inl TimeoutError) (demo_args (TranscribeCmd (lit ''a.wav'') None (Some (lit ''out'')))) demo_cli
      = (CliRaised TimeoutError, st') \<and> node_at (co_disk st') [lit ''out''] = Some (RegFile 420 [])
    \<and> (\<exists>wav words out. TranscribeCmd (lit ''a.wav'') None (Some (lit ''out'')) = TranscribeCmd wav words (Some out)
        \<and> follow 40 (co_disk demo_cli) (io_resolve demo_cli_env out) = Some [lit ''out''])"
proof -
  let ?a = "demo_args (TranscribeCmd (lit ''a.wav'') None (Some (lit ''out'')))"
  have new: "node_at (co_disk demo_cli) [lit ''out''] = None" by (simp add: demo_cli_def node_at_def)
  define d where "d = (co_disk demo_cli)\<lparr>nodes := AList.update [lit ''out''] (RegFile 420 []) (nodes (co_disk demo_cli))\<rparr>"
  have o: "open_write 420 [lit ''out''] (co_disk demo_cli) = (Inr [lit ''out''], d)"
    unfolding open_write_def demo_cli_paths(5) d_def by (simp add: new) (simp add: demo_cli_def path_parent_def is_dir_def)
  have n: "node_at d [lit ''out''] = Some (RegFile 420 [])" by (simp add: d_def node_at_def AList.update_conv')
  have run: "cli_main demo_cli_env (\<lambda>_. None) (\<lambda>_ _ _. Inl TimeoutError) ?a demo_cli = (CliRaised TimeoutError, demo_cli\<lparr>co_disk := d\<rparr>)"
    using demo_cli_paths o
    by (simp add: cli_main_def build_ssl_context_def demo_cli_env_def demo_args_def demo_new_client cli_transcribe_def demo_offline)
  have "ca_command ?a = TranscribeCmd (lit ''a.wav'') None (Some (lit ''out''))" by (simp add: demo_args_def)
  then show ?thesis
    using cli_touches_only_output [OF run, of "[lit ''out'']"] run n new by simp
qed

theorem cli_output_erases_recording_witness:
  "\<exists>d. node_at d [lit ''a.wav''] = Some (RegFile 420 [])
    \<and> cli_main demo_cli_env (\<lambda>_. None) (\<lambda>_ _ _. Inl TimeoutError) (demo_args (TranscribeCmd (lit ''a.wav'') None (Some (lit ''a.wav'')))) demo_cli
      = (CliRaised TimeoutError, demo_cli\<lparr>co_disk := d\<rparr>)"
proof -
  let ?a = "demo_args (TranscribeCmd (lit ''a.wav'') None (Some (lit ''a.wav'')))"
  have files: "path_exists (co_disk demo_cli) (io_resolve demo_cli_env (ca_client_cert ?a))" "path_exists (co_disk demo_cli) (io_resolve demo_cli_env (ca_client_key ?a))"
    and same: "follow 40 (co_disk demo_cli) (io_resolve demo_cli_env (lit ''a.wav'')) = Some [lit ''a.wav'']"
    using demo_cli_paths by (simp_all add: demo_cli_env_def demo_args_def)
  have cmd: "ca_command ?a = TranscribeCmd (lit ''a.wav'') None (Some (lit ''a.wav''))" "lit ''a.wav'' \<noteq> []"
    by (simp_all add: demo_args_def)
  have client: "new_client (io_printable demo_cli_env) (\<lambda>_. None) (ca_server ?a) (ca_server_pin ?a) = Inr demo_client" "io_load demo_cli_env [ca_client_cert ?a, ca_client_key ?a] = None"
    by (simp_all add: demo_args_def demo_new_client) (simp add: demo_cli_env_def)
  have node: "node_at (co_disk demo_cli) [lit ''a.wav''] = Some (RegFile 420 [1, 2])" "[lit ''a.wav''] \<notin> set (locked (co_disk demo_cli))"
    by (simp_all add: demo_cli_def node_at_def)
  obtain d where "node_at d = (node_at (co_disk demo_cli))([lit ''a.wav''] \<mapsto> RegFile 420 [])"
      "cli_main demo_cli_env (\<lambda>_. None) (\<lambda>_ _ _. Inl TimeoutError) ?a demo_cli
        = (case client_transcribe (io_printable demo_cli_env) (\<lambda>_ _. Inl TimeoutError) (Inr []) demo_client (lit ''a.wav'') None of
             (evs, e) \<Rightarrow> cli_events demo_cli_env (Some [lit ''a.wav'']) evs e (demo_cli\<lparr>co_disk := d\<rparr>))"
    using cli_output_erases_recording [where http = "\<lambda>_ _ _. Inl TimeoutError", OF files cmd client same same node] by blast
  then show ?thesis by (intro exI [of _ d]) (simp add: demo_offline)
qed

definition demo_status_queue :: tqueue where
  "demo_status_queue = \<lparr>max_size = 2, pending = [], store = [lit ''j1'' \<mapsto> (new_job (lit ''j1'') (lit ''me'') 0)\<lparr>status := QUEUED\<rparr>], jobs = [lit ''j1''],
     processing_times = [], worker_task = None, has_process_fn = True, cleanup_tasks = [], disk = co_disk demo_cli\<rparr>"

theorem cli_lists_jobs_witness:
  "\<exists>w. cli_main demo_cli_env (\<lambda>_. None) (\<lambda>_ _ _. Inr \<lparr>hr_status = 200,
       hr_read = Inr (utf8_bytes (json_dumps (status_json (\<lambda>_. lit ''30.0'') (get_queue_info demo_status_queue (lit ''me''))))), hr_lines = [], hr_end = None\<rparr>)
     (demo_args StatusCmd) demo_cli
   = (CliReturned, demo_cli\<lparr>co_stdout := lit ''Total queued: 1'' @ 10 # lit ''Your jobs:'' @ 10 # lit ''  j1... status=queued position=1 eta='' @ w @ [10]\<rparr>)"
proof -
  let ?r = "get_queue_info demo_status_queue (lit ''me'')" and ?t = "\<lambda>_. lit ''30.0''"
  have r: "your_jobs ?r = [\<lparr>ji_job_id = lit ''j1'', ji_status = QUEUED, ji_position = Some 1, ji_estimated_wait_seconds = Some 30\<rparr>]" "total_queued ?r = 1"
    by (simp_all add: demo_status_queue_def job_values_def new_job_def get_queue_info_def
        job_info_of_def get_position_def estimate_wait_def)
  have "float_text (lit ''30.0'')"
    using float_textI [of "[]" "[46, 48]" "[]" 30] by (simp add: frac_text_def exp_text_def is_digit_def show_nat.simps lit_def)
  then have ok: "list_all (info_ok ?t) (your_jobs ?r)"
    by (simp add: r info_ok_def) (simp add: lit_def scalar_char_def py_startswith_def)
  have files: "path_exists (co_disk demo_cli) (io_resolve demo_cli_env (ca_client_cert (demo_args StatusCmd)))" "path_exists (co_disk demo_cli) (io_resolve demo_cli_env (ca_client_key (demo_args StatusCmd)))"
    using demo_cli_paths by (simp_all add: demo_cli_env_def demo_args_def)
  have cmd: "ca_command (demo_args StatusCmd) = StatusCmd" by (simp add: demo_args_def)
  have client: "new_client (io_printable demo_cli_env) (\<lambda>_. None) (ca_server (demo_args StatusCmd)) (ca_server_pin (demo_args StatusCmd)) = Inr demo_client"
      "io_load demo_cli_env [ca_client_cert (demo_args StatusCmd), ca_client_key (demo_args StatusCmd)] = None" "client_address (io_printable demo_cli_env) demo_client = Inr (lit ''asr.example'', 42862)"
    by (simp_all add: demo_args_def demo_new_client demo_client_address) (simp add: demo_cli_env_def)
  have l: "status_line ?t \<lparr>ji_job_id = lit ''j1'', ji_status = QUEUED, ji_position = Some 1, ji_estimated_wait_seconds = Some 30\<rparr>
      = lit ''  j1... status=queued position=1 eta='' @ fixed0 (literal_float (lit ''30.0'')) @ lit ''s''"
    by (simp add: status_line_def show_int_def show_nat.simps) (simp add: lit_def)
  have "show_int 1 = lit ''1''" by (simp add: show_int_def show_nat.simps lit_def)
  then have "lit ''Total queued: '' @ show_int (total_queued ?r) = lit ''Total queued: 1''" by (simp add: r lit_append [symmetric])
  moreover note cli_lists_jobs [where http = "\<lambda>_ _ _. Inr \<lparr>hr_status = 200,
       hr_read = Inr (utf8_bytes (json_dumps (status_json (\<lambda>_. lit ''30.0'') (get_queue_info demo_status_queue (lit ''me''))))), hr_lines = [], hr_end = None\<rparr>",
     OF files cmd client refl ok json_dumps_encodes refl demo_cli_ready]
  ultimately show ?thesis
    by (intro exI [of _ "fixed0 (literal_float (lit ''30.0'')) @ lit ''s''"]) (simp add: r l append_assoc [symmetric] del: append_assoc, simp add: demo_cli_def)
qed

end
