(* ===== verification/End_To_End.thy ===== *)
theory End_To_End
  imports Client_Cli
begin

section \<open>From the worker to the terminal\<close>

text \<open>
  The event stream of the server, the HTTP client and the command line together: what
  \<open>vvv transcribe\<close> shows of a job whose stream reached the end marker.
\<close>

subsection \<open>The frames of a stream\<close>

text \<open>Until the stream has ended, no final event was sent.\<close>

definition middle_sent :: "stream \<times> tqueue \<Rightarrow> bool" where
  "middle_sent = (\<lambda>(s, q). es_pc s \<noteq> EsEnd \<and> es_pc s \<noteq> EsDone \<longrightarrow> list_all middle_frame (es_sent s))"

lemma middle_yield: "middle_sent (s, q) \<Longrightarrow> es_pc s \<noteq> EsEnd \<Longrightarrow> es_pc s \<noteq> EsDone \<Longrightarrow> middle_frame f \<Longrightarrow> middle_sent (yield_frame f pc s, q')"
  by (simp add: middle_sent_def yield_frame_def)

lemma middle_done: "es_pc (fst x) = EsDone \<or> es_pc (fst x) = EsEnd \<Longrightarrow> middle_sent x"
  by (cases x) (auto simp: middle_sent_def)

interpretation frame_runs: invariant_system "stream_init i" "stream_step i" middle_sent for i
proof unfold_locales
  show "stream_init i x \<Longrightarrow> middle_sent x" for x
    by (auto simp: stream_init_def middle_sent_def new_stream_def)
  show "middle_sent x \<Longrightarrow> stream_step i x y \<Longrightarrow> middle_sent y" for x y
  proof -
    assume m: "middle_sent x" and "stream_step i x y"
    from this(2) show "middle_sent y"
    proof cases
      case (e_begin s q now)
      then show ?thesis
        using m by (auto simp: stream_begin_def middle_sent_def yield_frame_def stream_finally_def Let_def split: option.splits prod.splits)
    next
      case (e_resume s q now)
      then show ?thesis using m by (auto simp: middle_sent_def stream_resume_def)
    next
      case (e_poll s q gone)
      then show ?thesis using m by (auto simp: stream_poll_def middle_sent_def stream_finally_def split: sum.splits prod.splits)
    next
      case (e_timeout s q now)
      then show ?thesis using m by (auto simp: stream_timeout_def middle_sent_def yield_frame_def)
    next
      case (e_take s q j)
      then show ?thesis
        using m by (auto simp: stream_take_def stream_end_def middle_sent_def yield_frame_def Let_def split: list.splits option.splits)
    next
      case (e_finish s q)
      then show ?thesis by (simp add: middle_sent_def)
    next
      case (e_close s q)
      then show ?thesis using m by (auto simp: stream_close_def middle_sent_def stream_finally_def split: es_pc.splits)
    next
      case (e_others q q' s)
      then show ?thesis using m by (simp add: middle_sent_def)
    qed
  qed
qed

subsection \<open>The property\<close>

text \<open>C7. A transcription from end to end. A job of the queue has ended and its stream reads the end
  marker; the client received the frames the stream yielded, up to the end of the connection.
  Then \<open>vvv transcribe\<close> has printed exactly the texts the job's processing put into its queue,
  in order, and the output file holds them: with a newline and status 0 for a completed job, with
  the job's error message and status 1 for a failed one. For a cancelled job it ends with status
  0, too: nothing but the missing newline tells a transcript that was cut off from a whole one.\<close>

theorem terminal_shows_job:
  assumes stream: "reach (stream_init i) (stream_step i) (s, q)" "es_pc s = EsWait" "store q i = Some j" "chunk_queue j = None # rest"
    and files: "path_exists (co_disk st) (io_resolve env (ca_client_cert a))" "path_exists (co_disk st) (io_resolve env (ca_client_key a))"
      "path_exists (co_disk st) (io_resolve env wav)"
    and cmd: "ca_command a = TranscribeCmd wav words dest" "posix_suffix wav = lit ''.wav''"
    and client: "new_client (io_printable env) bad (ca_server a) (ca_server_pin a) = Inr c"
      "io_load env [ca_client_cert a, ca_client_key a] = None" "client_address (io_printable env) c = Inr address"
    and server: "encodes_lines dump" "list_all (frame_ok wait_text) (es_sent (fst (stream_take i (s, q))))"
      "\<And>rq. http c address rq = Inr \<lparr>hr_status = 200, hr_read = b,
         hr_lines = byte_lines (response_body dump wait_text (es_sent (fst (stream_take i (s, q))))), hr_end = None\<rparr>"
    and ready: "cli_ready env enc"
    and outfile: "dest = None \<or> (\<exists>n d. dest = Some n \<and> n \<noteq> [] \<and> open_write (io_mode env) (io_resolve env n) (co_disk st) = (Inr p, d)
        \<and> length (concat (map enc (job_text i (s, q)))) \<le> space d)"
    and run: "cli_main env bad http a st = (r, st')"
  shows "co_stdout st' = co_stdout st @ concat (job_text i (s, q)) @ (if status j = COMPLETED then [10] else [])
    \<and> r = (if status j = FAILED then CliExit 1 else CliReturned)
    \<and> (status j = FAILED \<longrightarrow> (\<exists>l. co_stderr st' = co_stderr st @ l @ error_line (Some (error_text (error_message j)))))
    \<and> (if dest = None then co_disk st' = co_disk st
        else \<exists>m. node_at (co_disk st') p = Some (RegFile m (concat (map enc (job_text i (s, q))))))"
proof -
  define fin where "fin = (if status j = COMPLETED then [DoneFrame i]
         else if status j = FAILED then [ErrorFrame \<lparr>ee_error = error_text (error_message j)\<rparr>] else [])"
  have e: "rest = []" "es_sent (fst (stream_take i (s, q))) = es_sent s @ fin"
    using stream_end_raw [OF stream] by (simp_all add: fin_def)
  have jt: "job_text i (s, q) = texts_of (es_sent s)"
    using stream(3,4) e(1) by (simp add: job_text_def queued_texts_def)
  have middle: "list_all middle_frame (es_sent s)"
    using frame_runs.reach_inv [OF stream(1)] stream(2) by (simp add: middle_sent_def)
  have fin: "fin = [] \<or> fin = [DoneFrame i] \<or> fin = [ErrorFrame \<lparr>ee_error = error_text (error_message j)\<rparr>]"
    by (simp add: fin_def)
  have out: "dest = None \<or> (\<exists>n d. dest = Some n \<and> n \<noteq> [] \<and> open_write (io_mode env) (io_resolve env n) (co_disk st) = (Inr p, d)
        \<and> length (concat (map enc (texts_of (es_sent s)))) \<le> space d)"
    using outfile by (simp add: jt)
  have eqs: "fin = [DoneFrame i] \<longleftrightarrow> status j = COMPLETED"
    "fin = [ErrorFrame \<lparr>ee_error = error_text (error_message j)\<rparr>] \<longleftrightarrow> status j = FAILED"
    by (simp_all add: fin_def)
  show ?thesis
    using cli_main_frames [where http = http, OF files cmd client server(1) server(2) [unfolded e(2)] middle fin server(3) [unfolded e(2)] ready out run]
    unfolding jt eqs by simp
qed

subsection \<open>Witness\<close>

text \<open>A job that was cancelled while its client waited for it.\<close>

definition cancelled_server :: "client \<Rightarrow> str \<times> int \<Rightarrow> request \<Rightarrow> http_response res" where
  "cancelled_server c address rq = Inr \<lparr>hr_status = 200, hr_read = Inr [],
     hr_lines = byte_lines (response_body json_dumps float_repr (es_sent (fst (stream_take id_a (demo_waiting, demo_gone))))), hr_end = None\<rparr>"

theorem terminal_shows_job_witness:
  "\<exists>st'. cli_main demo_cli_env (\<lambda>_. None) cancelled_server (demo_args (TranscribeCmd (lit ''a.wav'') None None)) demo_cli
      = (CliReturned, st') \<and> co_stdout st' = [] \<and> co_disk st' = co_disk demo_cli"
proof -
  let ?a = "demo_args (TranscribeCmd (lit ''a.wav'') None None)"
  obtain r st' where run: "cli_main demo_cli_env (\<lambda>_. None) cancelled_server ?a demo_cli = (r, st')" by fastforce
  obtain j where j: "store demo_gone id_a = Some j" "chunk_queue j = None # []" "status j = CANCELLED"
    using demo_gone_a by blast
  have pc: "es_pc demo_waiting = EsWait" by (simp add: demo_waiting_def)
  have sent: "es_sent demo_waiting = [QueueFrame \<lparr>qpe_job_id = id_a, qpe_position = 1, qpe_estimated_wait_seconds = 30\<rparr>]"
    by (simp add: demo_waiting_def demo_stream_eq)
  have "es_sent (fst (stream_take id_a (demo_waiting, demo_gone))) = es_sent demo_waiting"
    using stream_end_raw [OF demo_gone_reach pc j(1,2)] j(3) by simp
  then have ok: "list_all (frame_ok float_repr) (es_sent (fst (stream_take id_a (demo_waiting, demo_gone))))"
    by (simp add: sent float_text_repr) (simp add: scalar_char_def lit_def id_a_def)
  have files: "path_exists (co_disk demo_cli) (io_resolve demo_cli_env (ca_client_cert ?a))" "path_exists (co_disk demo_cli) (io_resolve demo_cli_env (ca_client_key ?a))"
      "path_exists (co_disk demo_cli) (io_resolve demo_cli_env (lit ''a.wav''))"
    using demo_cli_paths by (simp_all add: demo_cli_env_def demo_args_def)
  have cmd: "ca_command ?a = TranscribeCmd (lit ''a.wav'') None None" "posix_suffix (lit ''a.wav'') = lit ''.wav''"
    by (simp add: demo_args_def) code_simp
  have client: "new_client (io_printable demo_cli_env) (\<lambda>_. None) (ca_server ?a) (ca_server_pin ?a) = Inr demo_client"
      "io_load demo_cli_env [ca_client_cert ?a, ca_client_key ?a] = None"
      "client_address (io_printable demo_cli_env) demo_client = Inr (lit ''asr.example'', 42862)"
    by (simp_all add: demo_args_def demo_new_client demo_client_address) (simp add: demo_cli_env_def)
  have none: "(None :: str option) = None \<or> (\<exists>n d. None = Some n \<and> n \<noteq> [] \<and> open_write (io_mode demo_cli_env) (io_resolve demo_cli_env n) (co_disk demo_cli) = (Inr [], d)
      \<and> length (concat (map utf8_bytes (job_text id_a (demo_waiting, demo_gone)))) \<le> space d)"
    by simp
  have "job_text id_a (demo_waiting, demo_gone) = []"
    using j by (simp add: job_text_def queued_texts_def sent texts_of_def)
  moreover note terminal_shows_job [where http = cancelled_server, OF demo_gone_reach pc j(1,2) files cmd client
      json_dumps_encodes ok cancelled_server_def demo_cli_ready none run]
  ultimately have "co_stdout st' = [] \<and> r = CliReturned \<and> co_disk st' = co_disk demo_cli"
    using j(3) by (simp add: demo_cli_def)
  then show ?thesis using run by blast
qed

end
