(* ===== verification/Client_Auth.thy ===== *)
theory Client_Auth
  imports File_Ops Utf8_Text
begin

section \<open>Client certificates (\<open>scripts/generate_client_cert.py\<close>, \<open>scripts/validate_client_cert.py\<close>)\<close>

text \<open>
  The generation of a client certificate authority, a client certificate and its key, and their
  validation, over the file system. The \<open>cryptography\<close> package is a record of functions: parsing
  and writing PEM, building and signing a certificate, verifying a signature. A parsed
  certificate is what the scripts read of it. \<open>mode0\<close> is \<open>0o777 & ~umask\<close>; the fresh keys and
  the clock are arguments.
\<close>

subsection \<open>Certificates and keys\<close>

datatype public_key = EcPublic str "int \<times> int" | OtherPublic str

datatype private_key = EcPrivate str int | OtherPrivate str

record key_usage =
  digital_signature :: bool
  content_commitment :: bool
  key_encipherment :: bool
  data_encipherment :: bool
  key_agreement :: bool
  key_cert_sign :: bool
  crl_sign :: bool
  encipher_only :: bool
  decipher_only :: bool

record basic_constraints =
  bc_ca :: bool
  bc_path_length :: "int option"

record template =
  t_subject :: str
  t_issuer :: str
  t_public_key :: public_key
  t_not_before :: rat
  t_not_after :: rat
  t_basic :: basic_constraints
  t_usage :: key_usage
  t_eku :: "str list option"

record certificate =
  c_subject :: str
  c_issuer :: str
  c_public_key :: public_key
  c_not_before :: rat
  c_not_after :: rat
  c_basic :: "basic_constraints option"
  c_usage :: "key_usage option"
  c_eku :: "str list option"
  c_hash :: "str option"
  c_signature :: bytes
  c_tbs :: bytes

record crypto =
  make_name :: "str \<Rightarrow> str res"
  load_pem_cert :: "bytes \<Rightarrow> certificate res"
  load_pem_key :: "bytes \<Rightarrow> private_key res"
  public_of :: "private_key \<Rightarrow> public_key"
  ec_verify :: "public_key \<Rightarrow> bytes \<Rightarrow> bytes \<Rightarrow> str \<Rightarrow> exn option"
  sign_cert :: "private_key \<Rightarrow> template \<Rightarrow> certificate"
  cert_pem :: "certificate \<Rightarrow> bytes"
  key_pem :: "private_key \<Rightarrow> bytes"

definition p256 :: str where
  "p256 = lit ''secp256r1''"

definition client_auth_eku :: str where
  "client_auth_eku = lit ''clientAuth''"

definition invalid_signature :: exn where
  "invalid_signature = OtherError (lit ''InvalidSignature'') []"

subsection \<open>Modes and limits\<close>

definition cert_mode :: int where "cert_mode = 420"
definition dir_mode :: int where "dir_mode = 448"
definition key_mode :: int where "key_mode = 384"
definition max_subject_bytes :: int where "max_subject_bytes = 256"
definition max_validity_days :: int where "max_validity_days = 3650"

definition validate_directory :: "fs \<Rightarrow> path \<Rightarrow> unit res" where
  "validate_directory d p =
     (if is_symlink d p then Inl (ValueError (path_text p @ lit '' is a symlink''))
      else if \<not> path_is_dir d p then Inl (ValueError (path_text p @ lit '' is not a directory''))
      else bind_res (file_mode d p) (\<lambda>mode.
        if mode \<noteq> dir_mode
        then Inl (ValueError (path_text p @ lit '' mode is '' @ mode_text mode @ lit '', expected 700''))
        else Inr ()))"

definition validate_file :: "fs \<Rightarrow> path \<Rightarrow> int \<Rightarrow> unit res" where
  "validate_file d p expected =
     (if is_symlink d p then Inl (ValueError (path_text p @ lit '' is a symlink''))
      else if \<not> path_is_file d p then Inl (ValueError (path_text p @ lit '' is not a regular file''))
      else bind_res (file_mode d p) (\<lambda>mode.
        if mode \<noteq> expected
        then Inl (ValueError (path_text p @ lit '' mode is '' @ mode_text mode @ lit '', expected '' @ mode_text expected))
        else Inr ()))"

definition create_or_validate_directory :: "int \<Rightarrow> path \<Rightarrow> fs \<Rightarrow> unit res \<times> fs" where
  "create_or_validate_directory mode0 p d =
     (if path_exists d p then (validate_directory d p, d)
      else case mkdir_parents mode0 False p d of
        (Some e, d1) \<Rightarrow> (Inl e, d1)
      | (None, d1) \<Rightarrow>
          (case chmod dir_mode p d1 of
             (Some e, d2) \<Rightarrow> (Inl e, d2)
           | (None, d2) \<Rightarrow> (validate_directory d2 p, d2)))"

definition validate_subject :: "str \<Rightarrow> unit res" where
  "validate_subject subject =
     (if subject = [] then Inl (ValueError (lit ''subject must not be empty''))
      else bind_res (py_encode subject) (\<lambda>b.
        if int (length b) > max_subject_bytes
        then Inl (ValueError (lit ''subject exceeds '' @ show_int max_subject_bytes @ lit '' bytes''))
        else if list_ex (\<lambda>c. c < 32 \<or> c = 127) subject
        then Inl (ValueError (lit ''subject must not contain control characters''))
        else Inr ()))"

definition validate_days :: "int \<Rightarrow> unit res" where
  "validate_days days =
     (if \<not> (1 \<le> days \<and> days \<le> max_validity_days)
      then Inl (ValueError (lit ''--days must be between 1 and '' @ show_int max_validity_days))
      else Inr ())"

subsection \<open>Loading keys and certificates\<close>

definition check_ec_public :: "public_key \<Rightarrow> str \<Rightarrow> unit res" where
  "check_ec_public k p =
     (case k of
        OtherPublic _ \<Rightarrow> Inl (ValueError (p @ lit '' does not contain an EC public key''))
      | EcPublic curve _ \<Rightarrow>
          if curve \<noteq> p256 then Inl (ValueError (p @ lit '' is '' @ curve @ lit '', expected secp256r1'')) else Inr ())"

definition load_ec_private_key :: "crypto \<Rightarrow> fs \<Rightarrow> path \<Rightarrow> private_key res" where
  "load_ec_private_key lib d p =
     bind_res (read_bytes d p) (\<lambda>b. bind_res (load_pem_key lib b) (\<lambda>k.
       case k of
         OtherPrivate _ \<Rightarrow> Inl (ValueError (path_text p @ lit '' is not an EC private key''))
       | EcPrivate curve _ \<Rightarrow>
           if curve \<noteq> p256 then Inl (ValueError (path_text p @ lit '' is '' @ curve @ lit '', expected secp256r1''))
           else Inr k))"

definition load_ec_public_key_from_cert :: "crypto \<Rightarrow> fs \<Rightarrow> path \<Rightarrow> certificate res" where
  "load_ec_public_key_from_cert lib d p =
     bind_res (read_bytes d p) (\<lambda>b. bind_res (load_pem_cert lib b) (\<lambda>c.
       bind_res (check_ec_public (c_public_key c) (path_text p)) (\<lambda>_. Inr c)))"

definition verify_cert_signature :: "crypto \<Rightarrow> certificate \<Rightarrow> public_key \<Rightarrow> str \<Rightarrow> unit res" where
  "verify_cert_signature lib c issuer_key label =
     (case c_hash c of
        None \<Rightarrow> Inl (ValueError (label @ lit '' signature hash algorithm is unavailable''))
      | Some h \<Rightarrow>
          (case ec_verify lib issuer_key (c_signature c) (c_tbs c) h of
             None \<Rightarrow> Inr ()
           | Some e \<Rightarrow> Inl (if e = invalid_signature then ValueError (label @ lit '' signature is invalid'') else e)))"

definition get_extension :: "'a option \<Rightarrow> 'a res" where
  "get_extension x = (case x of None \<Rightarrow> Inl (OtherError (lit ''ExtensionNotFound'') []) | Some v \<Rightarrow> Inr v)"

subsection \<open>Validation\<close>

definition check_period :: "rat \<Rightarrow> certificate \<Rightarrow> str \<Rightarrow> unit res" where
  "check_period now c label =
     (if c_not_before c - 60 > now then Inl (ValueError (label @ lit '' is not valid yet''))
      else if c_not_after c \<le> now then Inl (ValueError (label @ lit '' is expired'')) else Inr ())"

definition check_ca :: "crypto \<Rightarrow> certificate \<Rightarrow> unit res" where
  "check_ca lib ca =
     bind_res (get_extension (c_basic ca)) (\<lambda>basic.
     bind_res (require (bc_ca basic \<and> bc_path_length basic = Some 0)
       (ValueError (lit ''client-ca.pem is not a path_length=0 CA certificate''))) (\<lambda>_.
     bind_res (get_extension (c_usage ca)) (\<lambda>usage.
     bind_res (require (key_cert_sign usage \<and> crl_sign usage) (ValueError (lit ''client-ca.pem lacks CA key usage''))) (\<lambda>_.
     verify_cert_signature lib ca (c_public_key ca) (lit ''client-ca.pem'')))))"

definition check_client :: "crypto \<Rightarrow> certificate \<Rightarrow> certificate \<Rightarrow> unit res" where
  "check_client lib ca client =
     bind_res (require (c_issuer client = c_subject ca)
       (ValueError (lit ''client-cert.pem issuer does not match client-ca.pem subject''))) (\<lambda>_.
     bind_res (verify_cert_signature lib client (c_public_key ca) (lit ''client-cert.pem'')) (\<lambda>_.
     bind_res (get_extension (c_basic client)) (\<lambda>basic.
     bind_res (require (\<not> bc_ca basic) (ValueError (lit ''client-cert.pem must not be a CA certificate''))) (\<lambda>_.
     bind_res (get_extension (c_usage client)) (\<lambda>usage.
     bind_res (require (digital_signature usage \<and> \<not> key_cert_sign usage \<and> \<not> crl_sign usage)
       (ValueError (lit ''client-cert.pem has invalid key usage''))) (\<lambda>_.
     bind_res (get_extension (c_eku client)) (\<lambda>eku.
     require (client_auth_eku \<in> set eku) (ValueError (lit ''client-cert.pem lacks clientAuth EKU'')))))))))"

definition ca_path :: "path \<Rightarrow> path" where "ca_path certs = certs @ [lit ''client-ca.pem'']"
definition cert_path :: "path \<Rightarrow> path" where "cert_path keys = keys @ [lit ''client-cert.pem'']"
definition key_path :: "path \<Rightarrow> path" where "key_path keys = keys @ [lit ''client-key.pem'']"

definition validate_client_auth_artifacts :: "crypto \<Rightarrow> path \<Rightarrow> path \<Rightarrow> rat \<Rightarrow> fs \<Rightarrow> unit res" where
  "validate_client_auth_artifacts lib certs keys now d =
     bind_res (validate_directory d certs) (\<lambda>_.
     bind_res (validate_directory d keys) (\<lambda>_.
     bind_res (validate_file d (ca_path certs) cert_mode) (\<lambda>_.
     bind_res (validate_file d (cert_path keys) cert_mode) (\<lambda>_.
     bind_res (validate_file d (key_path keys) key_mode) (\<lambda>_.
     bind_res (load_ec_public_key_from_cert lib d (ca_path certs)) (\<lambda>ca.
     bind_res (load_ec_public_key_from_cert lib d (cert_path keys)) (\<lambda>client.
     bind_res (load_ec_private_key lib d (key_path keys)) (\<lambda>key.
     bind_res (require (public_of lib key = c_public_key client)
       (ValueError (lit ''client-key.pem does not match client-cert.pem''))) (\<lambda>_.
     bind_res (check_period now ca (lit ''client CA certificate'')) (\<lambda>_.
     bind_res (check_period now client (lit ''client certificate'')) (\<lambda>_.
     bind_res (check_ca lib ca) (\<lambda>_.
     check_client lib ca client))))))))))))"

subsection \<open>Generation\<close>

definition ca_subject :: str where
  "ca_subject = lit ''VVV Client Auth CA''"

definition ca_usage :: key_usage where
  "ca_usage = \<lparr>digital_signature = False, content_commitment = False, key_encipherment = False,
     data_encipherment = False, key_agreement = False, key_cert_sign = True, crl_sign = True,
     encipher_only = False, decipher_only = False\<rparr>"

definition client_usage :: key_usage where
  "client_usage = \<lparr>digital_signature = True, content_commitment = False, key_encipherment = False,
     data_encipherment = False, key_agreement = False, key_cert_sign = False, crl_sign = False,
     encipher_only = False, decipher_only = False\<rparr>"

definition ca_template :: "public_key \<Rightarrow> rat \<Rightarrow> int \<Rightarrow> template" where
  "ca_template pk now days =
     \<lparr>t_subject = ca_subject, t_issuer = ca_subject, t_public_key = pk, t_not_before = now,
      t_not_after = now + of_int days * 86400, t_basic = \<lparr>bc_ca = True, bc_path_length = Some 0\<rparr>,
      t_usage = ca_usage, t_eku = None\<rparr>"

definition client_template :: "str \<Rightarrow> public_key \<Rightarrow> rat \<Rightarrow> int \<Rightarrow> template" where
  "client_template subject pk now days =
     \<lparr>t_subject = subject, t_issuer = ca_subject, t_public_key = pk, t_not_before = now,
      t_not_after = now + of_int days * 86400, t_basic = \<lparr>bc_ca = False, bc_path_length = None\<rparr>,
      t_usage = client_usage, t_eku = Some [client_auth_eku]\<rparr>"

text \<open>The dictionary the function returns: an error, or the paths of what was generated.\<close>

datatype gen_result = GenError str | Generated path path path

fun join_text :: "str \<Rightarrow> str list \<Rightarrow> str" where
  "join_text sep [] = []"
| "join_text sep [x] = x"
| "join_text sep (x # y # xs) = x @ sep @ join_text sep (y # xs)"

text \<open>The first \<open>try\<close> block: the arguments and the two directories.\<close>

definition prepare_generation :: "int \<Rightarrow> path \<Rightarrow> path \<Rightarrow> str \<Rightarrow> int \<Rightarrow> fs \<Rightarrow> unit res \<times> fs" where
  "prepare_generation mode0 certs keys subject days d =
     (case bind_res (validate_subject subject) (\<lambda>_. validate_days days) of
        Inl e \<Rightarrow> (Inl e, d)
      | Inr _ \<Rightarrow>
          (case create_or_validate_directory mode0 certs d of
             (Inl e, d1) \<Rightarrow> (Inl e, d1)
           | (Inr _, d1) \<Rightarrow> create_or_validate_directory mode0 keys d1))"

definition write_artifacts :: "(path \<times> bytes \<times> int) list \<Rightarrow> fs \<Rightarrow> exn option \<times> fs" where
  "write_artifacts files d =
     fold (\<lambda>(p, b, m) (e, d). if e = None then write_exclusive p b m d else (e, d)) files (None, d)"

text \<open>\<open>str(exc)\<close>: of a \<open>ValueError\<close> its message, of an \<open>OSError\<close> what the system says.\<close>

definition str_of_exc :: "(exn \<Rightarrow> str) \<Rightarrow> exn \<Rightarrow> str" where
  "str_of_exc os_text e = (case e of ValueError m \<Rightarrow> m | _ \<Rightarrow> os_text e)"

text \<open>Both certificates. \<open>NameAttribute\<close> checks a common name before the certificate is built.\<close>

definition build_certificates ::
    "crypto \<Rightarrow> str \<Rightarrow> int \<Rightarrow> private_key \<Rightarrow> private_key \<Rightarrow> rat \<Rightarrow> (certificate \<times> certificate) res" where
  "build_certificates lib subject days ca_key client_key now =
     bind_res (make_name lib ca_subject) (\<lambda>_.
     bind_res (make_name lib subject) (\<lambda>_.
       Inr (sign_cert lib ca_key (ca_template (public_of lib ca_key) now days),
            sign_cert lib ca_key (client_template subject (public_of lib client_key) now days))))"

text \<open>The three files, then the validation of what was written.\<close>

definition write_and_validate ::
    "crypto \<Rightarrow> (exn \<Rightarrow> str) \<Rightarrow> path \<Rightarrow> path \<Rightarrow> certificate \<Rightarrow> certificate \<Rightarrow> private_key \<Rightarrow> rat \<Rightarrow> fs
     \<Rightarrow> gen_result res \<times> fs" where
  "write_and_validate lib os_text certs keys ca client client_key now2 d1 =
     (let (e, d2) = write_artifacts
        [(ca_path certs, cert_pem lib ca, cert_mode), (cert_path keys, cert_pem lib client, cert_mode),
         (key_path keys, key_pem lib client_key, key_mode)] d1
      in case e of
           Some x \<Rightarrow> (Inl x, d2)
         | None \<Rightarrow>
             (case validate_client_auth_artifacts lib certs keys now2 d2 of
                Inl x \<Rightarrow>
                  (if is_os_error x \<or> is_value_error x
                   then Inr (GenError (lit ''Generated client-auth artifacts failed validation: '' @ str_of_exc os_text x))
                   else Inl x, d2)
              | Inr _ \<Rightarrow> (Inr (Generated (ca_path certs) (cert_path keys) (key_path keys)), d2)))"

definition generate_client_auth_artifacts ::
    "crypto \<Rightarrow> (exn \<Rightarrow> str) \<Rightarrow> int \<Rightarrow> path \<Rightarrow> path \<Rightarrow> str \<Rightarrow> int \<Rightarrow> private_key \<Rightarrow> private_key \<Rightarrow> rat \<Rightarrow> rat \<Rightarrow> fs
     \<Rightarrow> gen_result res \<times> fs" where
  "generate_client_auth_artifacts lib os_text mode0 certs keys subject days ca_key client_key now now2 d =
     (let existing = filter (path_exists d) [ca_path certs, cert_path keys, key_path keys]
      in if existing \<noteq> []
         then (Inr (GenError (lit ''Client-auth artifacts already exist: '' @ join_text (lit '', '') (map path_text existing))), d)
         else case prepare_generation mode0 certs keys subject days d of
           (Inl e, d1) \<Rightarrow> (if is_value_error e then Inr (GenError (str_of_exc os_text e)) else Inl e, d1)
         | (Inr _, d1) \<Rightarrow>
             (case build_certificates lib subject days ca_key client_key now of
                Inl e \<Rightarrow> (Inl e, d1)
              | Inr (ca, client) \<Rightarrow>
                  write_and_validate lib os_text certs keys ca client client_key now2 d1))"

text \<open>The exit status of the two scripts: \<open>SystemExit\<close> with a message, or their output.\<close>

datatype exit = Printed "str list" | ExitError str | Traceback exn

definition label_line :: "string \<Rightarrow> str \<Rightarrow> str" where
  "label_line l v = lit l @ v"

definition generate_client_cert_main :: "gen_result res \<Rightarrow> exit" where
  "generate_client_cert_main r =
     (case r of
        Inl e \<Rightarrow> Traceback e
      | Inr (GenError m) \<Rightarrow> ExitError (lit ''ERROR: '' @ m)
      | Inr (Generated a b c) \<Rightarrow> Printed
          [label_line ''Status:          '' (lit ''generated''), label_line ''Client CA cert:  '' (path_text a),
           label_line ''Client cert:     '' (path_text b), label_line ''Client key:      '' (path_text c)])"

definition validate_client_cert_main ::
    "crypto \<Rightarrow> (exn \<Rightarrow> str) \<Rightarrow> path \<Rightarrow> path \<Rightarrow> rat \<Rightarrow> fs \<Rightarrow> exit" where
  "validate_client_cert_main lib os_text certs keys now d =
     (case validate_client_auth_artifacts lib certs keys now d of
        Inl e \<Rightarrow> if is_os_error e \<or> is_value_error e then ExitError (lit ''ERROR: '' @ str_of_exc os_text e) else Traceback e
      | Inr _ \<Rightarrow> Printed
          [label_line ''Status:          '' (lit ''valid''), label_line ''Client CA cert:  '' (path_text (ca_path certs)),
           label_line ''Client cert:     '' (path_text (cert_path keys)), label_line ''Client key:      '' (path_text (key_path keys))])"

subsection \<open>What the package promises\<close>

text \<open>A certificate that was built can be written, read and verified; it has the fields of the
  builder, with times cut to whole seconds; a key can be written and read. A common name has
  1 to 64 bytes.\<close>

definition crypto_ok :: "crypto \<Rightarrow> bool" where
  "crypto_ok lib \<longleftrightarrow>
     (\<forall>s. make_name lib s =
        (if s \<noteq> [] \<and> length (utf8_bytes s) \<le> 64 then Inr s else Inl (ValueError (lit ''common name length''))))
   \<and> (\<forall>k t. load_pem_cert lib (cert_pem lib (sign_cert lib k t)) = Inr (sign_cert lib k t))
   \<and> (\<forall>k. load_pem_key lib (key_pem lib k) = Inr k)
   \<and> (\<forall>c s. \<exists>pt. public_of lib (EcPrivate c s) = EcPublic c pt)
   \<and> (\<forall>k t. c_subject (sign_cert lib k t) = t_subject t \<and> c_issuer (sign_cert lib k t) = t_issuer t
        \<and> c_public_key (sign_cert lib k t) = t_public_key t
        \<and> c_not_before (sign_cert lib k t) = of_int \<lfloor>t_not_before t\<rfloor>
        \<and> c_not_after (sign_cert lib k t) = of_int \<lfloor>t_not_after t\<rfloor>
        \<and> c_basic (sign_cert lib k t) = Some (t_basic t) \<and> c_usage (sign_cert lib k t) = Some (t_usage t)
        \<and> c_eku (sign_cert lib k t) = t_eku t)
   \<and> (\<forall>s t. \<exists>h. c_hash (sign_cert lib (EcPrivate p256 s) t) = Some h
        \<and> ec_verify lib (public_of lib (EcPrivate p256 s)) (c_signature (sign_cert lib (EcPrivate p256 s) t))
            (c_tbs (sign_cert lib (EcPrivate p256 s) t)) h = None)"

subsection \<open>What the file checks accept\<close>

lemma validate_directory_iff:
  "validate_directory d p = Inr u \<longleftrightarrow> p \<noteq> [] \<and> node_at d p = Some (Directory dir_mode)"
proof -
  have "follow 40 d p = Some p" if "\<not> is_symlink d p" using that by (rule follow_plain)
  then show ?thesis
    by (auto simp: validate_directory_def bind_res_eq_Inr file_mode_def dir_mode_def path_is_dir_def is_dir_def
        is_symlink_def split: if_splits option.splits node.splits)
qed

lemma validate_file_iff:
  assumes "m \<noteq> 493"
  shows "validate_file d p m = Inr u \<longleftrightarrow> p \<noteq> [] \<and> (\<exists>b. node_at d p = Some (RegFile m b))"
proof -
  have "follow 40 d p = Some p" if "\<not> is_symlink d p" using that by (rule follow_plain)
  then show ?thesis using assms
    by (auto simp: validate_file_def bind_res_eq_Inr file_mode_def path_is_file_def
        is_symlink_def split: if_splits option.splits node.splits)
qed

lemma read_regular: "node_at d p = Some (RegFile m b) \<Longrightarrow> read_bytes d p = Inr b"
  by (simp add: read_bytes_def follow_plain is_symlink_def)

lemma value_or_os:
  "validate_directory d p = Inl e \<Longrightarrow> is_value_error e \<or> is_os_error e"
  by (auto simp: validate_directory_def bind_res_eq_Inl dest: file_mode_os_error split: if_splits)

lemma create_facts:
  assumes "create_or_validate_directory m p d = (r, d')"
  shows "r = Inr u \<Longrightarrow> validate_directory d' p = Inr ()"
    and "r = Inl e \<Longrightarrow> is_value_error e \<or> is_os_error e"
    and "node_at d' q = Some (RegFile k b) \<longleftrightarrow> node_at d q = Some (RegFile k b)"
    and "validate_directory d q = Inr () \<Longrightarrow> validate_directory d' q = Inr ()"
proof -
  show "r = Inr u \<Longrightarrow> validate_directory d' p = Inr ()"
    using assms by (auto simp: create_or_validate_directory_def split: if_splits prod.splits option.splits)
  have mk: "only_dirs_added d d1 \<and> (\<forall>x. e1 = Some x \<longrightarrow> is_os_error x)
      \<and> (e1 = None \<longrightarrow> p \<noteq> [] \<and> node_at d p = None \<and> node_at d1 p = Some (Directory m))"
    if "mkdir_parents m False p d = (e1, d1)" for e1 d1
    using mkdir_parents_facts [OF that] by blast
  obtain e1 d1 where k: "mkdir_parents m False p d = (e1, d1)" by fastforce
  obtain e2 d2 where c: "chmod dir_mode p d1 = (e2, d2)" by fastforce
  have run0: "create_or_validate_directory m p d = (if path_exists d p then (validate_directory d p, d)
      else case e1 of Some x \<Rightarrow> (Inl x, d1)
      | None \<Rightarrow> (case e2 of Some x \<Rightarrow> (Inl x, d2) | None \<Rightarrow> (validate_directory d2 p, d2)))"
    by (cases e1; cases e2; simp add: create_or_validate_directory_def k c)
  note run = assms [symmetric, unfolded run0]
  have os: "e1 = Some x \<Longrightarrow> is_os_error x" "e2 = Some x \<Longrightarrow> is_os_error x" for x
    using mk [OF k] chmod_os_error c by auto
  show "r = Inl e \<Longrightarrow> is_value_error e \<or> is_os_error e"
    using run os value_or_os [of d p e] value_or_os [of d2 p e]
    by (cases "path_exists d p"; cases e1; cases e2) auto
  have "d' = d \<or> only_dirs_added d d'
      \<or> (\<exists>d1. only_dirs_added d d1 \<and> node_at d p = None \<and> node_at d1 p = Some (Directory m)
           \<and> node_at d' = (node_at d1)(p \<mapsto> Directory dir_mode))"
  proof (cases "path_exists d p")
    case True
    then show ?thesis using assms by (simp add: create_or_validate_directory_def)
  next
    case False
    show ?thesis
    proof (cases e1)
      case (Some x)
      then show ?thesis using run False mk [OF k] by simp
    next
      case None
      then have d': "d' = d2" using run False by (cases e2) auto
      have n: "node_at d1 p = Some (Directory m)" using mk [OF k] None by simp
      show ?thesis
      proof (cases e2)
        case (Some x)
        then have "d2 = d1" using chmod_os_error [of dir_mode p d1 x d2] c by simp
        then show ?thesis using d' mk [OF k] by simp
      next
        case e2: None
        then show ?thesis
          using node_at_chmod [of dir_mode p d1 d2] c d' n mk [OF k] None by (auto simp: is_symlink_def)
      qed
    qed
  qed
  then consider (same) "d' = d" | (dirs) "only_dirs_added d d'"
    | (made) d1 where "only_dirs_added d d1" "node_at d p = None" "node_at d1 p = Some (Directory m)"
        "node_at d' = (node_at d1)(p \<mapsto> Directory dir_mode)" by blast
  note c3 = this
  from c3 show "node_at d' q = Some (RegFile k b) \<longleftrightarrow> node_at d q = Some (RegFile k b)"
  proof cases
    case dirs
    then show ?thesis by (rule only_dirs_added_file)
  next
    case made
    then show ?thesis using only_dirs_added_file [OF made(1), of q k b] by (cases "q = p") simp_all
  qed simp
  assume v: "validate_directory d q = Inr ()"
  then have q: "q \<noteq> []" "node_at d q = Some (Directory dir_mode)" by (simp_all add: validate_directory_iff)
  from c3 show "validate_directory d' q = Inr ()"
  proof cases
    case dirs
    then show ?thesis using q only_dirs_added_keeps by (simp add: validate_directory_iff)
  next
    case made
    then show ?thesis using q only_dirs_added_keeps [OF made(1) q(2)] by (simp add: validate_directory_iff)
  qed (use v in simp)
qed

lemma py_encode_value_error: "py_encode t = Inl e \<Longrightarrow> is_value_error e"
  by (auto simp: py_encode_def split: if_splits)

lemma prepare_facts:
  assumes "prepare_generation m certs keys subject days d = (r, d')"
  shows "r = Inr u \<Longrightarrow> validate_directory d' certs = Inr () \<and> validate_directory d' keys = Inr ()"
    and "r = Inl e \<Longrightarrow> is_value_error e \<or> is_os_error e"
    and "node_at d' q = Some (RegFile k b) \<longleftrightarrow> node_at d q = Some (RegFile k b)"
proof -
  let ?v = "bind_res (validate_subject subject) (\<lambda>_. validate_days days)"
  have v: "?v = Inl x \<Longrightarrow> is_value_error x" for x
    by (auto simp: bind_res_eq_Inl validate_subject_def validate_days_def py_encode_value_error split: if_splits)
  obtain r1 d1 where c: "create_or_validate_directory m certs d = (r1, d1)" by fastforce
  obtain r2 d2 where k: "create_or_validate_directory m keys d1 = (r2, d2)" by fastforce
  have run0: "prepare_generation m certs keys subject days d = (case ?v of Inl x \<Rightarrow> (Inl x, d) | Inr _ \<Rightarrow> (case r1 of Inl x \<Rightarrow> (Inl x, d1) | Inr _ \<Rightarrow> (r2, d2)))"
    by (cases ?v; cases r1; simp add: prepare_generation_def c k)
  note run = assms [symmetric, unfolded run0]
  show "r = Inr u \<Longrightarrow> validate_directory d' certs = Inr () \<and> validate_directory d' keys = Inr ()"
    using run create_facts(1) [OF c] create_facts(1) [OF k] create_facts(4) [OF k] by (cases ?v; cases r1; auto)
  show "r = Inl e \<Longrightarrow> is_value_error e \<or> is_os_error e"
    using run v create_facts(2) [OF c] create_facts(2) [OF k] by (cases ?v; cases r1; auto)
  show "node_at d' q = Some (RegFile k b) \<longleftrightarrow> node_at d q = Some (RegFile k b)"
    using run create_facts(3) [OF c] create_facts(3) [OF k] by (cases ?v; cases r1; auto)
qed

lemma write_three:
  assumes "write_artifacts [(p, a, 420), (q, b, 420), (r, c, 384)] d = (None, d')"
  shows "node_at d' = (node_at d)(p \<mapsto> RegFile 420 a, q \<mapsto> RegFile 420 b, r \<mapsto> RegFile 384 c)"
    and "node_at d p = None" "node_at d q = None" "node_at d r = None" "p \<noteq> q" "p \<noteq> r" "q \<noteq> r"
proof -
  obtain d1 where 1: "write_exclusive p a 420 d = (None, d1)"
    using assms by (auto simp: write_artifacts_def split: if_splits prod.splits)
  obtain d2 where 2: "write_exclusive q b 420 d1 = (None, d2)"
    using assms 1 by (auto simp: write_artifacts_def split: if_splits prod.splits)
  have 3: "write_exclusive r c 384 d2 = (None, d')"
    using assms 1 2 by (simp add: write_artifacts_def)
  note o = write_exclusive_ok [OF 1] write_exclusive_ok [OF 2] write_exclusive_ok [OF 3]
  show "node_at d' = (node_at d)(p \<mapsto> RegFile 420 a, q \<mapsto> RegFile 420 b, r \<mapsto> RegFile 384 c)"
    using o by simp
  show "p \<noteq> q" "p \<noteq> r" "q \<noteq> r" "node_at d p = None" "node_at d q = None" "node_at d r = None"
    using o by (auto split: if_splits)
qed

lemma write_artifacts_error:
  "write_artifacts files d = (Some e, d') \<Longrightarrow> is_os_error e"
proof -
  let ?step = "\<lambda>(p, b, m) (e, d). if e = None then write_exclusive p b m d else (e, d)"
  have "fold ?step files (x, d) = (Some e, d') \<Longrightarrow> (\<forall>y. x = Some y \<longrightarrow> is_os_error y) \<Longrightarrow> is_os_error e" for x d
  proof (induction files arbitrary: x d)
    case (Cons f files)
    obtain p b m where f: "f = (p, b, m)" by (cases f)
    obtain x1 d1 where w: "write_exclusive p b m d = (x1, d1)" by fastforce
    show ?case using Cons w write_exclusive_os_error [of p b m d _ d1] by (auto simp: f split: if_splits)
  qed simp
  then show "write_artifacts files d = (Some e, d') \<Longrightarrow> is_os_error e" by (simp add: write_artifacts_def)
qed

lemma crypto_okD:
  assumes "crypto_ok lib"
  shows "load_pem_cert lib (cert_pem lib (sign_cert lib k t)) = Inr (sign_cert lib k t)"
    and "make_name lib n = (if n \<noteq> [] \<and> length (utf8_bytes n) \<le> 64 then Inr n else Inl (ValueError (lit ''common name length'')))"
    and "load_pem_key lib (key_pem lib k) = Inr k"
    and "\<exists>pt. public_of lib (EcPrivate c s) = EcPublic c pt"
    and "c_subject (sign_cert lib k t) = t_subject t" "c_issuer (sign_cert lib k t) = t_issuer t"
      "c_public_key (sign_cert lib k t) = t_public_key t"
      "c_not_before (sign_cert lib k t) = of_int \<lfloor>t_not_before t\<rfloor>"
      "c_not_after (sign_cert lib k t) = of_int \<lfloor>t_not_after t\<rfloor>"
      "c_basic (sign_cert lib k t) = Some (t_basic t)" "c_usage (sign_cert lib k t) = Some (t_usage t)"
      "c_eku (sign_cert lib k t) = t_eku t"
    and "\<exists>h. c_hash (sign_cert lib (EcPrivate p256 s) t) = Some h
        \<and> ec_verify lib (public_of lib (EcPrivate p256 s)) (c_signature (sign_cert lib (EcPrivate p256 s) t))
            (c_tbs (sign_cert lib (EcPrivate p256 s) t)) h = None"
  using assms unfolding crypto_ok_def by blast+

text \<open>What was just written passes the validation.\<close>

lemma generated_validates:
  assumes lib: "crypto_ok lib" and t: "now \<le> now2" "now2 < now + of_int days * 86400 - 1"
    and dirs: "validate_directory d certs = Inr ()" "validate_directory d keys = Inr ()"
    and ca: "ca = sign_cert lib (EcPrivate p256 s) (ca_template (public_of lib (EcPrivate p256 s)) now days)"
    and client: "client = sign_cert lib (EcPrivate p256 s)
      (client_template subject (public_of lib (EcPrivate p256 s2)) now days)"
    and w: "write_artifacts [(ca_path certs, cert_pem lib ca, cert_mode), (cert_path keys, cert_pem lib client, cert_mode),
        (key_path keys, key_pem lib (EcPrivate p256 s2), key_mode)] d = (None, d')"
  shows "validate_client_auth_artifacts lib certs keys now2 d' = Inr ()"
    and "node_at d' (key_path keys) = Some (RegFile 384 (key_pem lib (EcPrivate p256 s2)))"
proof -
  note w3 = write_three [OF w [unfolded cert_mode_def key_mode_def]]
  have n: "node_at d' (ca_path certs) = Some (RegFile 420 (cert_pem lib ca))"
    "node_at d' (cert_path keys) = Some (RegFile 420 (cert_pem lib client))"
    "node_at d' (key_path keys) = Some (RegFile 384 (key_pem lib (EcPrivate p256 s2)))"
    using w3 by (simp_all add: fun_upd_apply)
  have keep: "node_at d' x = node_at d x" if "node_at d x \<noteq> None" for x
    using w3(1-4) that by (auto simp: fun_upd_apply)
  have dirs': "validate_directory d' certs = Inr ()" "validate_directory d' keys = Inr ()"
    using dirs keep by (simp_all add: validate_directory_iff)
  have p: "ca_path certs \<noteq> []" "cert_path keys \<noteq> []" "key_path keys \<noteq> []"
    by (simp_all add: ca_path_def cert_path_def key_path_def)
  have files: "validate_file d' (ca_path certs) cert_mode = Inr ()" "validate_file d' (cert_path keys) cert_mode = Inr ()"
    "validate_file d' (key_path keys) key_mode = Inr ()"
    using n p by (simp_all add: validate_file_iff cert_mode_def key_mode_def)
  obtain pt pt2 where pk: "public_of lib (EcPrivate p256 s) = EcPublic p256 pt"
    "public_of lib (EcPrivate p256 s2) = EcPublic p256 pt2"
    using crypto_okD(4) [OF lib] by meson
  have f: "c_subject ca = ca_subject" "c_public_key ca = EcPublic p256 pt" "c_not_before ca = of_int \<lfloor>now\<rfloor>"
    "c_not_after ca = of_int \<lfloor>now + of_int days * 86400\<rfloor>" "c_basic ca = Some \<lparr>bc_ca = True, bc_path_length = Some 0\<rparr>"
    "c_usage ca = Some ca_usage"
    "c_issuer client = ca_subject" "c_public_key client = EcPublic p256 pt2" "c_not_before client = of_int \<lfloor>now\<rfloor>"
    "c_not_after client = of_int \<lfloor>now + of_int days * 86400\<rfloor>"
    "c_basic client = Some \<lparr>bc_ca = False, bc_path_length = None\<rparr>"
    "c_usage client = Some client_usage" "c_eku client = Some [client_auth_eku]"
    by (simp_all add: ca client crypto_okD [OF lib] pk ca_template_def client_template_def)
  have load: "load_pem_cert lib (cert_pem lib ca) = Inr ca" "load_pem_cert lib (cert_pem lib client) = Inr client"
    "load_pem_key lib (key_pem lib (EcPrivate p256 s2)) = Inr (EcPrivate p256 s2)"
    by (simp_all add: ca client crypto_okD [OF lib])
  have sig: "verify_cert_signature lib ca (EcPublic p256 pt) l = Inr ()"
    "verify_cert_signature lib client (EcPublic p256 pt) l = Inr ()" for l
  proof -
    have "\<exists>h. c_hash (sign_cert lib (EcPrivate p256 s) t) = Some h
        \<and> ec_verify lib (EcPublic p256 pt) (c_signature (sign_cert lib (EcPrivate p256 s) t))
            (c_tbs (sign_cert lib (EcPrivate p256 s) t)) h = None" for t
      using crypto_okD(13) [OF lib, of s t] by (simp add: pk(1))
    then show "verify_cert_signature lib ca (EcPublic p256 pt) l = Inr ()"
      "verify_cert_signature lib client (EcPublic p256 pt) l = Inr ()"
      unfolding verify_cert_signature_def ca client by (metis option.simps(4,5))+
  qed
  have after: "now2 < of_int \<lfloor>now + of_int days * 86400\<rfloor>" using t(2) by linarith
  have before: "\<not> of_int \<lfloor>now\<rfloor> - 60 > now2" using t(1) by linarith
  have periods: "check_period now2 ca l = Inr ()" "check_period now2 client l = Inr ()" for l
    using after before f by (simp_all add: check_period_def)
  have chks: "check_ca lib ca = Inr ()" "check_client lib ca client = Inr ()"
    using f sig by (simp_all add: check_ca_def check_client_def get_extension_def require_def ca_usage_def client_usage_def)
  have loads: "load_ec_public_key_from_cert lib d' (ca_path certs) = Inr ca"
    "load_ec_public_key_from_cert lib d' (cert_path keys) = Inr client"
    "load_ec_private_key lib d' (key_path keys) = Inr (EcPrivate p256 s2)"
    using n [THEN read_regular] load f
    by (simp_all add: load_ec_public_key_from_cert_def load_ec_private_key_def check_ec_public_def)
  show "validate_client_auth_artifacts lib certs keys now2 d' = Inr ()"
    using dirs' files loads periods chks pk f(8)
    by (simp add: validate_client_auth_artifacts_def require_def)
  show "node_at d' (key_path keys) = Some (RegFile 384 (key_pem lib (EcPrivate p256 s2)))" by (fact n(3))
qed

lemma ca_subject_short: "ca_subject \<noteq> []" "length (utf8_bytes ca_subject) \<le> 64"
  by (simp_all add: ca_subject_def) code_simp

lemma write_and_validate_facts:
  assumes lib: "crypto_ok lib" and t: "now \<le> now2" "now2 < now + of_int days * 86400 - 1"
    and dirs: "validate_directory d certs = Inr ()" "validate_directory d keys = Inr ()"
    and b: "build_certificates lib subject days (EcPrivate p256 s) (EcPrivate p256 s2) now = Inr (ca, client)"
    and run: "write_and_validate lib os_text certs keys ca client (EcPrivate p256 s2) now2 d = (r, d')"
  shows "(\<exists>e. r = Inl e \<and> is_os_error e)
    \<or> r = Inr (Generated (ca_path certs) (cert_path keys) (key_path keys))
      \<and> validate_client_auth_artifacts lib certs keys now2 d' = Inr ()
      \<and> node_at d' (key_path keys) = Some (RegFile 384 (key_pem lib (EcPrivate p256 s2)))"
proof -
  have certs: "ca = sign_cert lib (EcPrivate p256 s) (ca_template (public_of lib (EcPrivate p256 s)) now days)"
    "client = sign_cert lib (EcPrivate p256 s) (client_template subject (public_of lib (EcPrivate p256 s2)) now days)"
    using b by (auto simp: build_certificates_def bind_res_eq_Inr)
  obtain e d2 where w: "write_artifacts
      [(ca_path certs, cert_pem lib ca, cert_mode), (cert_path keys, cert_pem lib client, cert_mode),
       (key_path keys, key_pem lib (EcPrivate p256 s2), key_mode)] d = (e, d2)" by fastforce
  show ?thesis
  proof (cases e)
    case None
    note ok = generated_validates [OF lib t dirs certs w [unfolded None]]
    have "(r, d') = (Inr (Generated (ca_path certs) (cert_path keys) (key_path keys)), d2)"
      using run by (simp add: write_and_validate_def w None ok(1))
    then show ?thesis using ok by simp
  next
    case (Some x)
    then show ?thesis using run w write_artifacts_error [OF w [unfolded Some]] by (auto simp: write_and_validate_def)
  qed
qed

subsection \<open>Properties\<close>

text \<open>C11. With keys on P-256, a subject of at most 64 bytes and a validity that covers the run,
  \<open>_generate_client_auth_artifacts\<close> has one of three outcomes: the operating system refused
  something (an \<open>OSError\<close>); or it returns an error message and has created or changed no file;
  or it reports the three paths, and the set on disk passes \<open>validate_client_auth_artifacts\<close>, with
  the client key stored under mode 0600. Its message "failed validation" never occurs.\<close>

theorem client_artifacts_validate:
  assumes lib: "crypto_ok lib" and t: "now \<le> now2" "now2 < now + of_int days * 86400 - 1"
    and sub: "length (utf8_bytes subject) \<le> 64"
    and run: "generate_client_auth_artifacts lib os_text m certs keys subject days
      (EcPrivate p256 s) (EcPrivate p256 s2) now now2 d = (r, d')"
  shows "(\<exists>e. r = Inl e \<and> is_os_error e)
    \<or> (\<exists>msg. r = Inr (GenError msg) \<and>
        (\<forall>q k b. node_at d' q = Some (RegFile k b) \<longleftrightarrow> node_at d q = Some (RegFile k b)))
    \<or> r = Inr (Generated (ca_path certs) (cert_path keys) (key_path keys))
      \<and> validate_client_auth_artifacts lib certs keys now2 d' = Inr ()
      \<and> node_at d' (key_path keys) = Some (RegFile 384 (key_pem lib (EcPrivate p256 s2)))"
proof (cases "filter (path_exists d) [ca_path certs, cert_path keys, key_path keys] = []")
  case False
  then show ?thesis using run by (auto simp: generate_client_auth_artifacts_def Let_def)
next
  case True
  obtain r1 d1 where p: "prepare_generation m certs keys subject days d = (r1, d1)" by fastforce
  note pf = prepare_facts [OF p]
  show ?thesis
  proof (cases r1)
    case (Inl e)
    then have "(r, d') = (if is_value_error e then Inr (GenError (str_of_exc os_text e)) else Inl e, d1)"
      using run True p by (simp only: generate_client_auth_artifacts_def Let_def) simp
    then show ?thesis using pf Inl by (auto split: if_splits)
  next
    case (Inr u)
    have "subject \<noteq> []"
      using p Inr by (auto simp: prepare_generation_def validate_subject_def)
    then obtain ca client where
      b: "build_certificates lib subject days (EcPrivate p256 s) (EcPrivate p256 s2) now = Inr (ca, client)"
      using sub by (simp add: build_certificates_def crypto_okD(2) [OF lib] ca_subject_short)
    have "write_and_validate lib os_text certs keys ca client (EcPrivate p256 s2) now2 d1 = (r, d')"
      using run True p Inr b by (simp only: generate_client_auth_artifacts_def Let_def) simp
    with pf(1) [OF Inr] write_and_validate_facts [OF lib t _ _ b] show ?thesis by blast
  qed
qed

text \<open>A subject of 65 to 256 bytes is accepted by \<open>_validate_subject\<close>, but \<open>NameAttribute\<close>
  refuses it, and nothing catches that \<open>ValueError\<close>: after both directories were made, the script
  ends with a traceback instead of its \<open>ERROR:\<close> line, and writes no file.\<close>

theorem long_subject_traceback:
  assumes lib: "crypto_ok lib" and sub: "64 < length (utf8_bytes subject)"
    and new: "filter (path_exists d) [ca_path certs, cert_path keys, key_path keys] = []"
    and p: "prepare_generation m certs keys subject days d = (Inr (), d1)"
  shows "generate_client_auth_artifacts lib os_text m certs keys subject days ca_key client_key now now2 d
      = (Inl (ValueError (lit ''common name length'')), d1)"
    and "generate_client_cert_main (fst (generate_client_auth_artifacts lib os_text m certs keys subject days ca_key client_key now now2 d))
      = Traceback (ValueError (lit ''common name length''))"
proof -
  have "build_certificates lib subject days ca_key client_key now = Inl (ValueError (lit ''common name length''))"
    using sub by (simp add: build_certificates_def crypto_okD(2) [OF lib] ca_subject_short)
  then show 1: "generate_client_auth_artifacts lib os_text m certs keys subject days ca_key client_key now now2 d
      = (Inl (ValueError (lit ''common name length'')), d1)"
    using new p by (simp only: generate_client_auth_artifacts_def Let_def) simp
  show "generate_client_cert_main (fst (generate_client_auth_artifacts lib os_text m certs keys subject days ca_key client_key now now2 d))
      = Traceback (ValueError (lit ''common name length''))"
    by (simp add: 1 generate_client_cert_main_def)
qed

subsection \<open>Witnesses\<close>

text \<open>A toy package: a certificate is written as its fields, a number as its binary digits; every
  signature verifies.\<close>

fun toy_bits :: "nat \<Rightarrow> bytes" where
  "toy_bits n = (if n = 0 then [] else (if n mod 2 = 0 then 0 else 1) # toy_bits (n div 2))"

declare toy_bits.simps [simp del]

definition toy_put :: "nat list list \<Rightarrow> bytes" where
  "toy_put fs = concat (map (\<lambda>f. concat (map (\<lambda>n. toy_bits n @ [2]) f) @ [3]) fs)"

fun toy_get :: "bytes \<Rightarrow> nat list \<Rightarrow> bytes \<Rightarrow> nat list list" where
  "toy_get bs f [] = []"
| "toy_get bs f (b # r) =
     (if b = 3 then rev f # toy_get [] [] r
      else if b = 2 then toy_get [] (foldl (\<lambda>n b. 2 * n + unat b) 0 bs # f) r
      else toy_get (b # bs) f r)"

fun toy_digits :: "int \<Rightarrow> nat list" where
  "toy_digits i = (if i \<le> 0 then [] else (if i mod 2 = 0 then 0 else 1) # toy_digits (i div 2))"

declare toy_digits.simps [simp del]

definition toy_int :: "int \<Rightarrow> nat list" where
  "toy_int i = (if i < 0 then 1 else 0) # toy_digits \<bar>i\<bar>"

definition toy_the_int :: "nat list \<Rightarrow> int" where
  "toy_the_int f = (case f of [] \<Rightarrow> 0
     | s # ds \<Rightarrow> (if s = 0 then 1 else -1) * foldr (\<lambda>d n. 2 * n + (if d = 0 then 0 else 1)) ds 0)"

lemma toy_digits_value: "0 \<le> i \<Longrightarrow> foldr (\<lambda>d n. 2 * n + (if d = 0 then 0 else 1)) (toy_digits i) 0 = i"
proof (induction i rule: toy_digits.induct)
  case (1 i)
  then show ?case by (subst toy_digits.simps) (auto; presburger)
qed

lemma toy_the_int [simp]: "toy_the_int (toy_int i) = i"
  by (simp add: toy_int_def toy_the_int_def toy_digits_value)

lemma toy_get_bits:
  "toy_get bs f (toy_bits n @ 2 # r) = toy_get [] (foldl (\<lambda>n b. 2 * n + unat b) 0 (rev (toy_bits n) @ bs) # f) r"
proof (induction n arbitrary: bs rule: toy_bits.induct)
  case (1 n)
  then show ?case by (subst (1 2) toy_bits.simps) auto
qed

lemma toy_bits_value: "foldl (\<lambda>n b. 2 * n + unat b) 0 (rev (toy_bits n)) = n"
proof (induction n rule: toy_bits.induct)
  case (1 n)
  then show ?case by (subst toy_bits.simps) (auto split: if_splits; presburger)
qed

lemma toy_round_trip: "toy_get [] [] (toy_put fs) = fs"
proof -
  have f: "toy_get [] g (concat (map (\<lambda>n. toy_bits n @ [2]) f) @ 3 # r) = (rev g @ f) # toy_get [] [] r" for f g r
    by (induction f arbitrary: g) (simp_all add: toy_get_bits toy_bits_value)
  show ?thesis using f [of "[]"] by (induction fs) (simp_all add: toy_put_def)
qed

definition toy_public :: "private_key \<Rightarrow> public_key" where
  "toy_public k = (case k of EcPrivate c s \<Rightarrow> EcPublic c (s, 0) | OtherPrivate c \<Rightarrow> OtherPublic c)"

definition toy_signature :: "private_key \<Rightarrow> bytes" where
  "toy_signature k = (case k of EcPrivate c s \<Rightarrow> toy_put [toy_int s] | OtherPrivate c \<Rightarrow> [])"

definition toy_sign :: "private_key \<Rightarrow> template \<Rightarrow> certificate" where
  "toy_sign k t =
     \<lparr>c_subject = t_subject t, c_issuer = t_issuer t, c_public_key = t_public_key t,
      c_not_before = of_int \<lfloor>t_not_before t\<rfloor>, c_not_after = of_int \<lfloor>t_not_after t\<rfloor>,
      c_basic = Some (t_basic t), c_usage = Some (t_usage t), c_eku = t_eku t,
      c_hash = Some (lit ''sha256''), c_signature = toy_signature k, c_tbs = []\<rparr>"

definition toy_key_fields :: "public_key \<Rightarrow> nat list list" where
  "toy_key_fields k = (case k of EcPublic c (x, y) \<Rightarrow> [[0], c, toy_int x, toy_int y] | OtherPublic c \<Rightarrow> [[1], c, [], []])"

definition toy_usage_field :: "key_usage \<Rightarrow> nat list" where
  "toy_usage_field u = map of_bool [digital_signature u, content_commitment u, key_encipherment u, data_encipherment u,
     key_agreement u, key_cert_sign u, crl_sign u, encipher_only u, decipher_only u]"

definition toy_usage :: "nat list \<Rightarrow> key_usage" where
  "toy_usage f = \<lparr>digital_signature = f ! 0 = 1, content_commitment = f ! 1 = 1, key_encipherment = f ! 2 = 1,
     data_encipherment = f ! 3 = 1, key_agreement = f ! 4 = 1, key_cert_sign = f ! 5 = 1, crl_sign = f ! 6 = 1,
     encipher_only = f ! 7 = 1, decipher_only = f ! 8 = 1\<rparr>"

lemma toy_usage_field [simp]: "toy_usage (toy_usage_field u) = u"
  by (simp add: toy_usage_def toy_usage_field_def)

definition toy_pem :: "certificate \<Rightarrow> bytes" where
  "toy_pem c = toy_put (toy_key_fields (c_public_key c) @
     [c_subject c, c_issuer c, toy_int \<lfloor>c_not_before c\<rfloor>, toy_int \<lfloor>c_not_after c\<rfloor>,
      [of_bool (bc_ca (the (c_basic c)))], (case bc_path_length (the (c_basic c)) of None \<Rightarrow> [] | Some i \<Rightarrow> toy_int i),
      toy_usage_field (the (c_usage c)), map unat (c_signature c)]
      @ (case c_eku c of None \<Rightarrow> [[0]] | Some e \<Rightarrow> [1] # e))"

definition toy_load :: "bytes \<Rightarrow> certificate res" where
  "toy_load b =
     (let f = toy_get [] [] b
      in if length f < 13 then Inl (ValueError (lit ''not a certificate''))
         else Inr \<lparr>c_subject = f ! 4, c_issuer = f ! 5,
           c_public_key = (if f ! 0 = [0] then EcPublic (f ! 1) (toy_the_int (f ! 2), toy_the_int (f ! 3)) else OtherPublic (f ! 1)),
           c_not_before = of_int (toy_the_int (f ! 6)), c_not_after = of_int (toy_the_int (f ! 7)),
           c_basic = Some \<lparr>bc_ca = f ! 8 = [1], bc_path_length = if f ! 9 = [] then None else Some (toy_the_int (f ! 9))\<rparr>,
           c_usage = Some (toy_usage (f ! 10)),
           c_eku = (if f ! 12 = [0] then None else Some (drop 13 f)),
           c_hash = Some (lit ''sha256''), c_signature = map of_nat (f ! 11), c_tbs = []\<rparr>)"

definition toy_load_key :: "bytes \<Rightarrow> private_key res" where
  "toy_load_key b =
     (let f = toy_get [] [] b
      in if length f < 3 then Inl (ValueError (lit ''not a key''))
         else Inr (if f ! 0 = [0] then EcPrivate (f ! 1) (toy_the_int (f ! 2)) else OtherPrivate (f ! 1)))"

definition toy :: crypto where
  "toy = \<lparr>
     make_name = (\<lambda>s. if s \<noteq> [] \<and> length (utf8_bytes s) \<le> 64 then Inr s else Inl (ValueError (lit ''common name length''))),
     load_pem_cert = toy_load, load_pem_key = toy_load_key, public_of = toy_public,
     ec_verify = (\<lambda>k sig tbs h. case k of
       EcPublic c (x, y) \<Rightarrow> if sig = toy_put [toy_int x] then None else Some invalid_signature
     | OtherPublic c \<Rightarrow> Some invalid_signature),
     sign_cert = toy_sign, cert_pem = toy_pem,
     key_pem = (\<lambda>k. case k of EcPrivate c s \<Rightarrow> toy_put [[0], c, toy_int s] | OtherPrivate c \<Rightarrow> toy_put [[1], c, []])\<rparr>"

lemma toy_the_eku: "(case e of None \<Rightarrow> [[0]] | Some e \<Rightarrow> [1::nat] # e) ! 0 = [0] \<longleftrightarrow> e = None"
  by (cases e) simp_all

lemma toy_loads: "toy_load (toy_pem (toy_sign k t)) = Inr (toy_sign k t)"
proof -
  have i: "toy_int i \<noteq> []" for i by (simp add: toy_int_def)
  show ?thesis
    by (cases "t_public_key t"; cases "bc_path_length (t_basic t)"; cases "t_eku t")
      (simp_all add: toy_load_def toy_pem_def toy_round_trip toy_sign_def toy_key_fields_def Let_def i
        comp_def nth_append split: prod.splits)
qed

lemma toy_sign_fields:
  "c_subject (toy_sign k t) = t_subject t" "c_issuer (toy_sign k t) = t_issuer t" "c_public_key (toy_sign k t) = t_public_key t"
  "c_not_before (toy_sign k t) = of_int \<lfloor>t_not_before t\<rfloor>" "c_not_after (toy_sign k t) = of_int \<lfloor>t_not_after t\<rfloor>"
  "c_basic (toy_sign k t) = Some (t_basic t)" "c_usage (toy_sign k t) = Some (t_usage t)" "c_eku (toy_sign k t) = t_eku t"
  "c_hash (toy_sign k t) = Some (lit ''sha256'')" "c_signature (toy_sign k t) = toy_signature k"
  by (simp_all add: toy_sign_def)

lemma toy_ok: "crypto_ok toy"
  unfolding crypto_ok_def
  by (auto simp: toy_def toy_loads toy_load_key_def toy_round_trip toy_sign_fields toy_public_def toy_signature_def
      split: private_key.splits)

definition toy_disk :: fs where
  "toy_disk = \<lparr>nodes = [], locked = [], space = 100000\<rparr>"

abbreviation toy_run :: "str \<Rightarrow> gen_result res \<times> fs" where
  "toy_run subject \<equiv> generate_client_auth_artifacts toy (\<lambda>_. []) 493 [lit ''certs''] [lit ''keys''] subject 1
     (EcPrivate p256 5) (EcPrivate p256 7) 0 1 toy_disk"

lemma validate_directory_ok: "p \<noteq> [] \<Longrightarrow> node_at d p = Some (Directory 448) \<Longrightarrow> validate_directory d p = Inr ()"
  by (simp add: validate_directory_iff dir_mode_def)

definition toy_disk1 :: fs where
  "toy_disk1 = toy_disk\<lparr>nodes := [([lit ''certs''], Directory 448), ([lit ''keys''], Directory 448)]\<rparr>"

lemma toy_prepare:
  "validate_subject s = Inr () \<Longrightarrow> prepare_generation 493 [lit ''certs''] [lit ''keys''] s 1 toy_disk = (Inr (), toy_disk1)"
  by (simp add: prepare_generation_def validate_days_def max_validity_days_def create_or_validate_directory_def
    path_exists_def follow_plain is_symlink_def toy_disk_def toy_disk1_def node_at_def mkdir_parents.simps mkdir_def
    is_dir_def path_parent_def chmod_def dir_mode_def validate_directory_ok)

lemma toy_subject: "validate_subject (lit ''client'') = Inr ()" "validate_subject (lit ''aaaaaaaaaaaaaaaaaaaaaaaaaaaaaaaaaaaaaaaaaaaaaaaaaaaaaaaaaaaaaaaaa'') = Inr ()"
  by (simp_all add: validate_subject_def max_subject_bytes_def py_encode_def utf8_bytes_def utf8_char_def lit_def scalar_char_def)

lemma toy_new: "filter (path_exists toy_disk) [ca_path [lit ''certs''], cert_path [lit ''keys''], key_path [lit ''keys'']] = []"
  by (simp add: ca_path_def cert_path_def key_path_def path_exists_def follow_plain is_symlink_def node_at_def toy_disk_def)

lemma toy_name: "make_name toy (lit ''client'') = Inr (lit ''client'')" "make_name toy ca_subject = Inr ca_subject"
  "length (utf8_bytes (lit ''client'')) = 6"
  using ca_subject_short by (simp_all add: toy_def lit_def utf8_bytes_def utf8_char_def)

definition toy_ca :: certificate where
  "toy_ca = toy_sign (EcPrivate p256 5) (ca_template (toy_public (EcPrivate p256 5)) 0 1)"

definition toy_client :: certificate where
  "toy_client = toy_sign (EcPrivate p256 5) (client_template (lit ''client'') (toy_public (EcPrivate p256 7)) 0 1)"

lemma toy_build: "build_certificates toy (lit ''client'') 1 (EcPrivate p256 5) (EcPrivate p256 7) 0 = Inr (toy_ca, toy_client)"
  by (simp add: build_certificates_def toy_name toy_ca_def toy_client_def) (simp add: toy_def)

lemma toy_lengths:
  "length (cert_pem toy toy_ca) \<le> 500" "length (cert_pem toy toy_client) \<le> 500" "length (key_pem toy (EcPrivate p256 7)) \<le> 500"
  by code_simp+

lemma toy_writes:
  "\<exists>d'. write_artifacts [(ca_path [lit ''certs''], cert_pem toy toy_ca, cert_mode),
     (cert_path [lit ''keys''], cert_pem toy toy_client, cert_mode),
     (key_path [lit ''keys''], key_pem toy (EcPrivate p256 7), key_mode)] toy_disk1 = (None, d')"
proof -
  have n: "node_at toy_disk1 = [[lit ''certs''] \<mapsto> Directory 448, [lit ''keys''] \<mapsto> Directory 448]" "locked toy_disk1 = []"
    "space toy_disk1 = 100000"
    by (auto simp: toy_disk1_def toy_disk_def node_at_def)
  obtain d1 where 1: "write_exclusive (ca_path [lit ''certs'']) (cert_pem toy toy_ca) cert_mode toy_disk1 = (None, d1)"
    "node_at d1 = (node_at toy_disk1)(ca_path [lit ''certs''] \<mapsto> RegFile cert_mode (cert_pem toy toy_ca))" "locked d1 = []"
    "99500 \<le> space d1"
    using write_exclusive_free [of "ca_path [lit ''certs'']" toy_disk1 "cert_pem toy toy_ca" cert_mode] n toy_lengths
    by (auto simp: ca_path_def path_parent_def is_dir_def)
  obtain d2 where 2: "write_exclusive (cert_path [lit ''keys'']) (cert_pem toy toy_client) cert_mode d1 = (None, d2)"
    "node_at d2 = (node_at d1)(cert_path [lit ''keys''] \<mapsto> RegFile cert_mode (cert_pem toy toy_client))" "locked d2 = []"
    "99000 \<le> space d2"
    using write_exclusive_free [of "cert_path [lit ''keys'']" d1 "cert_pem toy toy_client" cert_mode] 1 n toy_lengths le_trans [OF toy_lengths(2), of "space d1"]
    by (auto simp: ca_path_def cert_path_def path_parent_def is_dir_def)
  obtain d3 where "write_exclusive (key_path [lit ''keys'']) (key_pem toy (EcPrivate p256 7)) key_mode d2 = (None, d3)"
    using write_exclusive_free [of "key_path [lit ''keys'']" d2 "key_pem toy (EcPrivate p256 7)" key_mode] 1 2 n toy_lengths le_trans [OF toy_lengths(3), of "space d2"]
    by (auto simp: ca_path_def cert_path_def key_path_def path_parent_def is_dir_def)
  then show ?thesis using 1 2 by (simp add: write_artifacts_def)
qed

lemma toy_run_writes:
  "fst (toy_run (lit ''client'')) \<noteq> Inr (GenError msg) \<and> (\<forall>e. is_os_error e \<longrightarrow> fst (toy_run (lit ''client'')) \<noteq> Inl e)"
proof -
  have b: "toy_run (lit ''client'') = write_and_validate toy (\<lambda>_. []) [lit ''certs''] [lit ''keys''] toy_ca toy_client (EcPrivate p256 7) 1 toy_disk1"
    using toy_new by (simp only: generate_client_auth_artifacts_def Let_def) (simp add: toy_prepare toy_subject toy_build)
  obtain d' where w: "write_artifacts [(ca_path [lit ''certs''], cert_pem toy toy_ca, cert_mode),
     (cert_path [lit ''keys''], cert_pem toy toy_client, cert_mode),
     (key_path [lit ''keys''], key_pem toy (EcPrivate p256 7), key_mode)] toy_disk1 = (None, d')" using toy_writes by blast
  have v: "validate_directory toy_disk1 [lit ''certs''] = Inr ()" "validate_directory toy_disk1 [lit ''keys''] = Inr ()"
    by (simp_all add: validate_directory_iff toy_disk1_def node_at_def dir_mode_def)
  obtain r d2 where r: "write_and_validate toy (\<lambda>_. []) [lit ''certs''] [lit ''keys''] toy_ca toy_client (EcPrivate p256 7) 1 toy_disk1 = (r, d2)"
    by fastforce
  have "validate_client_auth_artifacts toy [lit ''certs''] [lit ''keys''] 1 d' = Inr ()"
    by (rule generated_validates(1) [OF toy_ok _ _ v _ _ w])
      (auto simp: toy_ca_def toy_client_def toy_def)
  then show ?thesis unfolding b by (simp add: write_and_validate_def w)
qed

theorem client_artifacts_validate_witness:
  "fst (toy_run (lit ''client'')) = Inr (Generated (ca_path [lit ''certs'']) (cert_path [lit ''keys'']) (key_path [lit ''keys'']))
   \<and> validate_client_auth_artifacts toy [lit ''certs''] [lit ''keys''] 1 (snd (toy_run (lit ''client''))) = Inr ()"
  using client_artifacts_validate [OF toy_ok _ _ _ surjective_pairing [of "toy_run (lit ''client'')"]]
    toy_run_writes toy_name(3) by auto

theorem long_subject_traceback_witness:
  "generate_client_cert_main (fst (toy_run (lit ''aaaaaaaaaaaaaaaaaaaaaaaaaaaaaaaaaaaaaaaaaaaaaaaaaaaaaaaaaaaaaaaaa''))) = Traceback (ValueError (lit ''common name length''))"
proof (rule long_subject_traceback(2) [OF toy_ok _ toy_new])
  show "64 < length (utf8_bytes (lit ''aaaaaaaaaaaaaaaaaaaaaaaaaaaaaaaaaaaaaaaaaaaaaaaaaaaaaaaaaaaaaaaaa''))" by (simp add: utf8_bytes_def utf8_char_def lit_def)
  show "prepare_generation 493 [lit ''certs''] [lit ''keys''] (lit ''aaaaaaaaaaaaaaaaaaaaaaaaaaaaaaaaaaaaaaaaaaaaaaaaaaaaaaaaaaaaaaaaa'') 1 toy_disk = (Inr (), toy_disk1)"
    by (rule toy_prepare [OF toy_subject(2)])
qed

end
