(* ===== verification/Client_Bundle.thy ===== *)
theory Client_Bundle
  imports Client_Auth Client_Setup
begin

section \<open>The client import bundle (\<open>scripts/generate_client_bundle.py\<close>)\<close>

text \<open>
  The script reads the pin and the PEM files, checks them once more with functions of its own,
  and writes one private JSON file. The checks are translated as they stand here, and shown to
  accept exactly what \<open>validate_client_auth_artifacts\<close> accepts.
\<close>

subsection \<open>PEM text\<close>

text \<open>\<open>replace("\\r\\n", "\\n")\<close>, then \<open>replace("\\r", "\\n")\<close>; the second is a map.\<close>

fun replace_crlf :: "str \<Rightarrow> str" where
  "replace_crlf (a # b # s) = (if a = 13 \<and> b = 10 then 10 # replace_crlf s else a # replace_crlf (b # s))"
| "replace_crlf s = s"

definition unix_lines :: "str \<Rightarrow> str" where
  "unix_lines s = map (\<lambda>c. if c = 13 then 10 else c) (replace_crlf s)"

definition pem_begin :: "str \<Rightarrow> str" where
  "pem_begin label = lit ''-----BEGIN '' @ label @ lit ''-----'' @ [10]"

definition pem_end :: "str \<Rightarrow> str" where
  "pem_end label = lit ''-----END '' @ label @ lit ''-----'' @ [10]"

definition py_endswith :: "str \<Rightarrow> str \<Rightarrow> bool" where
  "py_endswith s t \<longleftrightarrow> drop (length s - length t) s = t"

definition is_ascii :: "str \<Rightarrow> bool" where
  "is_ascii s \<longleftrightarrow> list_all (\<lambda>c. c < 128) s"

definition normalize_pem_block :: "str \<Rightarrow> str \<Rightarrow> str res" where
  "normalize_pem_block raw label =
     (let value = unix_lines (py_strip raw) @ [10]
      in if \<not> py_startswith value (pem_begin label) \<or> \<not> py_endswith value (pem_end label)
         then Inl (ValueError (lit ''expected a single '' @ label @ lit '' PEM block''))
         else if \<not> is_ascii value then Inl (ValueError (lit ''ordinal not in range(128)'')) else Inr value)"

subsection \<open>The second validation\<close>

text \<open>\<open>raw.encode("ascii")\<close>: its \<open>UnicodeEncodeError\<close> is a \<open>ValueError\<close>.\<close>

definition encode_ascii_text :: "str \<Rightarrow> bytes res" where
  "encode_ascii_text raw = (if is_ascii raw then Inr (ascii_bytes raw) else Inl (ValueError (lit ''ordinal not in range(128)'')))"

definition bundle_load_cert :: "crypto \<Rightarrow> str \<Rightarrow> str \<Rightarrow> certificate res" where
  "bundle_load_cert lib raw label =
     bind_res (bind_res (encode_ascii_text raw) (load_pem_cert lib)) (\<lambda>c.
       case c_public_key c of
         OtherPublic _ \<Rightarrow> Inl (ValueError (label @ lit '' does not contain an EC public key''))
       | EcPublic curve _ \<Rightarrow>
           if curve \<noteq> p256 then Inl (ValueError (label @ lit '' uses '' @ curve @ lit '', expected secp256r1'')) else Inr c)"

definition bundle_load_key :: "crypto \<Rightarrow> str \<Rightarrow> private_key res" where
  "bundle_load_key lib raw =
     bind_res (bind_res (encode_ascii_text raw) (load_pem_key lib)) (\<lambda>k.
       case k of
         OtherPrivate _ \<Rightarrow> Inl (ValueError (lit ''client private key is not an EC private key''))
       | EcPrivate curve _ \<Rightarrow>
           if curve \<noteq> p256 then Inl (ValueError (lit ''client private key uses '' @ curve @ lit '', expected secp256r1''))
           else Inr k)"

definition bundle_verify_signature :: "crypto \<Rightarrow> certificate \<Rightarrow> public_key \<Rightarrow> str \<Rightarrow> unit res" where
  "bundle_verify_signature lib c issuer_key label =
     (case c_hash c of
        None \<Rightarrow> Inl (ValueError (label @ lit '' signature hash algorithm is unavailable''))
      | Some h \<Rightarrow>
          (case ec_verify lib issuer_key (c_signature c) (c_tbs c) h of
             None \<Rightarrow> Inr ()
           | Some e \<Rightarrow> Inl (if e = invalid_signature then ValueError (label @ lit '' signature is invalid'') else e)))"

definition bundle_check_period :: "rat \<Rightarrow> certificate \<Rightarrow> str \<Rightarrow> unit res" where
  "bundle_check_period now c label =
     (if c_not_before c - 60 > now then Inl (ValueError (label @ lit '' is not valid yet''))
      else if c_not_after c \<le> now then Inl (ValueError (label @ lit '' is expired'')) else Inr ())"

definition bundle_check_ca :: "crypto \<Rightarrow> certificate \<Rightarrow> unit res" where
  "bundle_check_ca lib ca =
     bind_res (get_extension (c_basic ca)) (\<lambda>basic.
     bind_res (require (bc_ca basic \<and> bc_path_length basic = Some 0)
       (ValueError (lit ''client CA certificate must be a path_length=0 CA''))) (\<lambda>_.
     bind_res (get_extension (c_usage ca)) (\<lambda>usage.
     bind_res (require (key_cert_sign usage \<and> crl_sign usage) (ValueError (lit ''client CA certificate lacks CA key usage''))) (\<lambda>_.
     bundle_verify_signature lib ca (c_public_key ca) (lit ''client CA certificate'')))))"

definition bundle_check_client :: "crypto \<Rightarrow> certificate \<Rightarrow> certificate \<Rightarrow> unit res" where
  "bundle_check_client lib ca client =
     bind_res (require (c_issuer client = c_subject ca)
       (ValueError (lit ''client certificate issuer does not match client CA subject''))) (\<lambda>_.
     bind_res (bundle_verify_signature lib client (c_public_key ca) (lit ''client certificate'')) (\<lambda>_.
     bind_res (get_extension (c_basic client)) (\<lambda>basic.
     bind_res (require (\<not> bc_ca basic) (ValueError (lit ''client certificate must not be a CA certificate''))) (\<lambda>_.
     bind_res (get_extension (c_usage client)) (\<lambda>usage.
     bind_res (require (digital_signature usage \<and> \<not> key_cert_sign usage \<and> \<not> crl_sign usage)
       (ValueError (lit ''client certificate has invalid key usage''))) (\<lambda>_.
     bind_res (get_extension (c_eku client)) (\<lambda>eku.
     require (client_auth_eku \<in> set eku) (ValueError (lit ''client certificate lacks clientAuth EKU'')))))))))"

definition validate_client_material :: "crypto \<Rightarrow> rat \<Rightarrow> str \<Rightarrow> str \<Rightarrow> str \<Rightarrow> unit res" where
  "validate_client_material lib now cert_text key_text ca_text =
     bind_res (bundle_load_cert lib ca_text (lit ''client CA certificate'')) (\<lambda>ca.
     bind_res (bundle_load_cert lib cert_text (lit ''client certificate'')) (\<lambda>client.
     bind_res (bundle_load_key lib key_text) (\<lambda>key.
     bind_res (require (public_of lib key = c_public_key client)
       (ValueError (lit ''client private key does not match client certificate''))) (\<lambda>_.
     bind_res (bundle_check_period now ca (lit ''client CA certificate'')) (\<lambda>_.
     bind_res (bundle_check_period now client (lit ''client certificate'')) (\<lambda>_.
     bind_res (bundle_check_ca lib ca) (\<lambda>_.
     bundle_check_client lib ca client)))))))"

subsection \<open>The bundle\<close>

record client_bundle =
  cb_server_url :: str
  cb_server_spki_pin :: str
  cb_client_certificate_pem :: str
  cb_client_private_key_pem :: str

definition bundle_type :: str where
  "bundle_type = lit ''vvv-client-config''"

definition bundle_version :: int where
  "bundle_version = 1"

definition bundle_fields :: "client_bundle \<Rightarrow> (str \<times> json) list" where
  "bundle_fields b =
     [(lit ''type'', JStr bundle_type), (lit ''version'', JInt bundle_version),
      (lit ''server_url'', JStr (cb_server_url b)), (lit ''server_spki_pin'', JStr (cb_server_spki_pin b)),
      (lit ''client_certificate_pem'', JStr (cb_client_certificate_pem b)),
      (lit ''client_private_key_pem'', JStr (cb_client_private_key_pem b))]"

text \<open>The parameters of a run: what it needs of the libraries, and the time.\<close>

record bundle_env =
  be_lib :: crypto
  be_printable :: "nat \<Rightarrow> bool"
  be_bad_bracketed :: "str \<Rightarrow> str option"
  be_now :: rat

definition build_client_bundle :: "bundle_env \<Rightarrow> str \<Rightarrow> str \<Rightarrow> str \<Rightarrow> str \<Rightarrow> str \<Rightarrow> client_bundle res" where
  "build_client_bundle env server_url server_spki_pin cert_text key_text ca_text =
     bind_res (normalize_base_url (be_printable env) (be_bad_bracketed env) server_url) (\<lambda>u.
     bind_res (normalize_server_pin server_spki_pin) (\<lambda>p.
     bind_res (normalize_pem_block cert_text (lit ''CERTIFICATE'')) (\<lambda>cert.
     bind_res (normalize_pem_block key_text (lit ''PRIVATE KEY'')) (\<lambda>key.
     bind_res (normalize_pem_block ca_text (lit ''CERTIFICATE'')) (\<lambda>ca.
     bind_res (validate_client_material (be_lib env) (be_now env) cert key ca) (\<lambda>_.
       Inr \<lparr>cb_server_url = u, cb_server_spki_pin = p, cb_client_certificate_pem = cert,
            cb_client_private_key_pem = key\<rparr>))))))"

subsection \<open>Files\<close>

definition private_file_mode :: int where "private_file_mode = 384"
definition public_file_mode :: int where "public_file_mode = 420"

definition validate_existing_file :: "fs \<Rightarrow> path \<Rightarrow> int \<Rightarrow> unit res" where
  "validate_existing_file d p mode =
     (if is_symlink d p then Inl (ValueError (path_text p @ lit '' is a symlink''))
      else if \<not> path_is_file d p then Inl (ValueError (path_text p @ lit '' is not a regular file''))
      else bind_res (file_mode d p) (\<lambda>actual_mode.
        if actual_mode \<noteq> mode
        then Inl (ValueError (path_text p @ lit '' mode is '' @ mode_text actual_mode @ lit '', expected '' @ mode_text mode))
        else Inr ()))"

text \<open>\<open>read_text(encoding="ascii")\<close>, in text mode: line ends become \<open>\\n\<close>.\<close>

definition read_text_ascii :: "fs \<Rightarrow> path \<Rightarrow> str res" where
  "read_text_ascii d p =
     bind_res (read_bytes d p) (\<lambda>b.
       if is_ascii (map unat b) then Inr (unix_lines (map unat b))
       else Inl (ValueError (lit ''ordinal not in range(128)'')))"

definition read_public_text :: "fs \<Rightarrow> path \<Rightarrow> str res" where
  "read_public_text d p = bind_res (validate_existing_file d p public_file_mode) (\<lambda>_. read_text_ascii d p)"

definition read_private_text :: "fs \<Rightarrow> path \<Rightarrow> str res" where
  "read_private_text d p = bind_res (validate_existing_file d p private_file_mode) (\<lambda>_. read_text_ascii d p)"

text \<open>\<open>json.dumps(..., indent=2)\<close> of a dictionary of texts and numbers.\<close>

definition json_dumps_indent :: "(str \<times> json) list \<Rightarrow> str" where
  "json_dumps_indent ps =
     (if ps = [] then [123, 125]
      else 123 # 10 # 32 # 32 # join_with [44, 10, 32, 32] (map (\<lambda>(k, v). dump_string k @ [58, 32] @ json_dumps v) ps) @ [10, 125])"

definition bundle_text :: "client_bundle \<Rightarrow> bytes" where
  "bundle_text b = ascii_bytes (json_dumps_indent (bundle_fields b)) @ [10]"

definition write_private_json :: "path \<Rightarrow> client_bundle \<Rightarrow> fs \<Rightarrow> unit res \<times> fs" where
  "write_private_json p b d =
     (let parent = path_parent p
      in if is_symlink d parent then (Inl (ValueError (path_text parent @ lit '' is a symlink'')), d)
         else if \<not> path_is_dir d parent then (Inl (ValueError (path_text parent @ lit '' is not a directory'')), d)
         else case open_excl private_file_mode p d of
           (Some e, d1) \<Rightarrow>
             (Inl (if e = FileExistsError
                   then ValueError (path_text p @ lit '' already exists; refusing to overwrite private material'') else e), d1)
         | (None, d1) \<Rightarrow>
             (case append_file p (bundle_text b) d1 of
                (Some e, d2) \<Rightarrow> (Inl e, d2)
              | (None, d2) \<Rightarrow>
                  (case chmod private_file_mode p d2 of (Some e, d3) \<Rightarrow> (Inl e, d3) | (None, d3) \<Rightarrow> (Inr (), d3))))"

definition write_client_bundle_file ::
    "bundle_env \<Rightarrow> path \<Rightarrow> str \<Rightarrow> path \<Rightarrow> path \<Rightarrow> path \<Rightarrow> path \<Rightarrow> fs \<Rightarrow> client_bundle res \<times> fs" where
  "write_client_bundle_file env out server_url pin_file ca_file cert_file key_file d =
     (case bind_res (read_public_text d pin_file) (\<lambda>pin.
           bind_res (read_public_text d ca_file) (\<lambda>ca.
           bind_res (read_public_text d cert_file) (\<lambda>cert.
           bind_res (read_private_text d key_file) (\<lambda>key.
             build_client_bundle env server_url pin cert key ca)))) of
        Inl e \<Rightarrow> (Inl e, d)
      | Inr b \<Rightarrow> (case write_private_json out b d of (Inl e, d1) \<Rightarrow> (Inl e, d1) | (Inr _, d1) \<Rightarrow> (Inr b, d1)))"

definition generate_client_bundle_main :: "(exn \<Rightarrow> str) \<Rightarrow> path \<Rightarrow> client_bundle res \<Rightarrow> exit" where
  "generate_client_bundle_main os_text out r =
     (case r of
        Inl e \<Rightarrow> if is_os_error e \<or> is_value_error e then ExitError (lit ''ERROR: '' @ str_of_exc os_text e) else Traceback e
      | Inr _ \<Rightarrow> Printed [label_line ''Client import bundle: '' (path_text out)])"

subsection \<open>Reading the file back\<close>

lemma indent_ws [simp]: "skip_ws (10 # r) = skip_ws r" "stops (10 # r)"
  by (simp_all add: skip_ws_def json_space_def stops_def is_digit_def)

lemma ppairs_indent:
  defines "dp \<equiv> \<lambda>(k, v). dump_string k @ [58, 32] @ json_dumps v"
  assumes "\<And>k v. (k, v) \<in> set ps \<Longrightarrow> list_all scalar_char k \<and> wf_json v" and "ps \<noteq> []"
    and "length (join_with [44, 10, 32, 32] (map dp ps)) + 1 < n"
  shows "ppairs n (join_with [44, 10, 32, 32] (map dp ps) @ 10 # 125 # r) = Some (ps, r)"
  using assms(2-)
proof (induction ps arbitrary: n)
  case (Cons p ps)
  obtain m where m: "n = Suc m" using Cons.prems(3) by (cases n) auto
  obtain k v where p: "p = (k, v)" by (cases p)
  have kv: "list_all scalar_char k" "parses v" "wf_json v" using Cons.prems(1) p parses_dumps by auto
  have dp: "dp p = dump_string k @ 58 # 32 # json_dumps v" by (simp add: dp_def p)
  show ?case
  proof (cases ps)
    case Nil
    then have "pvalue m (json_dumps v @ 10 # 125 # r) = Some (v, 10 # 125 # r)"
      using kv Cons.prems(3) m by (simp add: parses_def dp)
    from ppairs_step [OF kv(1,3) this] show ?thesis unfolding m using Nil
      by (simp add: dp [unfolded p] p del: ppairs.simps)
  next
    case (Cons q qs)
    let ?rest = "join_with [44, 10, 32, 32] (map dp ps)"
    have j: "join_with [44, 10, 32, 32] (map dp (p # ps)) @ 10 # 125 # r
        = dump_string k @ 58 # 32 # json_dumps v @ 44 # 10 # 32 # 32 # ?rest @ 10 # 125 # r"
      using Cons by (simp add: dp)
    have len: "length (json_dumps v) < m" "length ?rest + 1 < m"
      using Cons.prems(3) m Cons by (simp_all add: dp)
    have 1: "pvalue m (json_dumps v @ 44 # 10 # 32 # 32 # ?rest @ 10 # 125 # r)
        = Some (v, 44 # 10 # 32 # 32 # ?rest @ 10 # 125 # r)"
      using kv len by (simp add: parses_def)
    have "?rest \<noteq> [] \<and> hd ?rest = 34"
      using Cons by (cases qs) (auto simp: dp_def dump_string_def split: prod.split)
    then have w: "skip_ws (10 # 32 # 32 # ?rest @ 10 # 125 # r) = ?rest @ 10 # 125 # r"
      using value_start_no_space [of ?rest "10 # 125 # r"] by (simp add: value_start_def)
    have 2: "ppairs m (?rest @ 10 # 125 # r) = Some (ps, r)"
      using Cons.IH [of m] Cons.prems(1) len(2) Cons by auto
    show ?thesis unfolding m j ppairs_step [OF kv(1,3) 1] using w 2 by (simp add: p)
  qed
qed simp

lemma indent_round_trip:
  assumes "ps \<noteq> []" and w: "wf_json (JDict ps)"
  shows "json_loads (json_dumps_indent ps @ [10]) = Some (JDict ps)"
proof -
  let ?j = "join_with [44, 10, 32, 32] (map (\<lambda>(k, v). dump_string k @ [58, 32] @ json_dumps v) ps)"
  let ?t = "123 # 10 # 32 # 32 # ?j @ [10, 125, 10]"
  have h: "?j \<noteq> [] \<and> hd ?j = 34"
    using assms(1) by (cases ps rule: list.exhaust [case_names Nil Cons]; cases "tl ps") (auto simp: dump_string_def split: prod.split)
  then have s: "skip_ws (10 # 32 # 32 # ?j @ [10, 125, 10]) = ?j @ [10, 125, 10]"
    using value_start_no_space [of ?j "[10, 125, 10]"] by (simp add: value_start_def)
  have p: "ppairs (2 * length ?t + 1) (?j @ 10 # 125 # [10]) = Some (ps, [10])"
    by (rule ppairs_indent) (use assms in \<open>auto simp: list_all_iff\<close>)
  have "hd (?j @ [10, 125, 10]) = 34" using h by simp
  then have v: "pvalue (2 * length ?t + 2) ?t = Some (JDict ps, [10])"
    using s p h w by (simp add: dict_of_distinct)
  have "skip_ws ?t = ?t" by (simp add: skip_ws_def json_space_def)
  then have "json_loads ?t = Some (JDict ps)"
    using v by (simp only: json_loads_def) simp
  then show ?thesis using assms(1) by (simp add: json_dumps_indent_def)
qed

subsection \<open>PEM blocks\<close>

lemma replace_crlf_id: "13 \<notin> set s \<Longrightarrow> replace_crlf s = s"
  by (induction s rule: replace_crlf.induct) auto

lemma unix_lines_no_cr: "13 \<notin> set (unix_lines s)"
  by (auto simp: unix_lines_def)

lemma unix_lines_id: "13 \<notin> set s \<Longrightarrow> unix_lines s = s"
  by (auto simp: unix_lines_def replace_crlf_id intro: map_idI)

lemma pem_marks: "pem_begin label \<noteq> []" "hd (pem_begin label) = 45" "\<exists>x. pem_end label = x @ [45, 10]" "\<not> py_space 45"
  by (simp_all add: pem_begin_def pem_end_def lit_def py_space_def)

lemma py_endswith_iff: "py_endswith s t \<longleftrightarrow> (\<exists>u. s = u @ t)"
  unfolding py_endswith_def by (metis append_eq_conv_conj append_take_drop_id diff_add_inverse2 length_append)

lemma pem_normal_form:
  assumes "normalize_pem_block raw label = Inr v"
  shows "normalize_pem_block v label = Inr v" "is_ascii v"
proof -
  let ?w = "unix_lines (py_strip raw)"
  have v: "v = ?w @ [10]" "py_startswith v (pem_begin label)" "py_endswith v (pem_end label)" "is_ascii v"
    using assms by (auto simp: normalize_pem_block_def Let_def split: if_splits)
  obtain x where x: "pem_end label = x @ [45, 10]" using pem_marks(3) by blast
  obtain u where "v = u @ x @ [45, 10]" using v(3) x by (auto simp: py_endswith_iff)
  then have w: "?w = u @ x @ [45]" using v(1) by (metis append.assoc append_Cons append_Nil butlast_snoc)
  have "hd v = 45" using v(2) pem_marks(1,2) [of label] by (auto simp: py_startswith_iff)
  then have "hd ?w = 45" using v(1) w by (metis Nil_is_append_conv hd_append2 list.distinct(1))
  have "py_strip v = ?w"
  proof -
    have "dropWhile py_space v = v" using \<open>hd v = 45\<close> pem_marks(4) by (cases v) auto
    moreover have "dropWhile py_space (rev v) = rev ?w" using v(1) w pem_marks(4) by (simp add: py_space_def)
    ultimately show ?thesis by (simp add: py_strip_def)
  qed
  then show "normalize_pem_block v label = Inr v"
    using v unix_lines_id [OF unix_lines_no_cr] by (simp add: normalize_pem_block_def Let_def)
  show "is_ascii v" by (fact v(4))
qed

subsection \<open>The two validations agree\<close>

lemma validate_existing_file_eq: "validate_existing_file d p m = validate_file d p m"
  by (simp add: validate_existing_file_def validate_file_def)

lemma bundle_verify_eq: "bundle_verify_signature = verify_cert_signature"
  by (intro ext) (simp add: bundle_verify_signature_def verify_cert_signature_def)

lemma verify_label: "verify_cert_signature lib c k l = Inr u \<longleftrightarrow> verify_cert_signature lib c k l' = Inr u"
  by (auto simp: verify_cert_signature_def split: option.splits)

lemma bundle_period_eq: "bundle_check_period = check_period"
  by (intro ext) (simp add: bundle_check_period_def check_period_def)

lemma bundle_check_ca_iff: "bundle_check_ca lib c = Inr u \<longleftrightarrow> check_ca lib c = Inr u"
  using verify_label [of lib c "c_public_key c" "lit ''client CA certificate''" u "lit ''client-ca.pem''"]
  by (simp add: bundle_check_ca_def check_ca_def bundle_verify_eq bind_res_eq_Inr)

lemma bundle_check_client_iff: "bundle_check_client lib ca c = Inr u \<longleftrightarrow> check_client lib ca c = Inr u"
  using verify_label [of lib c "c_public_key ca" "lit ''client certificate''" _ "lit ''client-cert.pem''"]
  by (simp add: bundle_check_client_def check_client_def bundle_verify_eq bind_res_eq_Inr)

lemma ascii_utf8_bytes: "is_ascii s \<Longrightarrow> utf8_bytes s = ascii_bytes s"
  by (rule ascii_utf8) (simp add: is_ascii_def)

lemma encode_ascii_ok: "is_ascii t \<Longrightarrow> encode_ascii_text t = Inr (ascii_bytes t)"
  by (simp add: encode_ascii_text_def)

lemma bundle_load_cert_iff:
  assumes "is_ascii t" "read_bytes d p = Inr (ascii_bytes t)"
  shows "bundle_load_cert lib t label = Inr c \<longleftrightarrow> load_ec_public_key_from_cert lib d p = Inr c"
  using assms(2) encode_ascii_ok [OF assms(1)]
  by (cases "load_pem_cert lib (ascii_bytes t)"; cases "c_public_key (projr (load_pem_cert lib (ascii_bytes t)))")
    (auto simp: bundle_load_cert_def load_ec_public_key_from_cert_def check_ec_public_def)

lemma bundle_load_key_iff:
  assumes "is_ascii t" "read_bytes d p = Inr (ascii_bytes t)"
  shows "bundle_load_key lib t = Inr k \<longleftrightarrow> load_ec_private_key lib d p = Inr k"
  using assms(2) encode_ascii_ok [OF assms(1)]
  by (cases "load_pem_key lib (ascii_bytes t)"; cases "projr (load_pem_key lib (ascii_bytes t))")
    (auto simp: bundle_load_key_def load_ec_private_key_def)

lemma loaded_ascii: "bundle_load_cert lib t label = Inr c \<Longrightarrow> is_ascii t" "bundle_load_key lib t = Inr k \<Longrightarrow> is_ascii t"
  by (auto simp: bundle_load_cert_def bundle_load_key_def encode_ascii_text_def bind_res_eq_Inr split: if_splits)

lemma material_ascii: "validate_client_material lib now cert key ca = Inr u \<Longrightarrow> is_ascii ca \<and> is_ascii cert \<and> is_ascii key"
  by (auto simp: validate_client_material_def bind_res_eq_Inr dest: loaded_ascii)

lemma validations_agree:
  assumes dirs: "validate_directory d certs = Inr ()" "validate_directory d keys = Inr ()"
    and ca: "node_at d (ca_path certs) = Some (RegFile 420 (ascii_bytes ca))"
    and cert: "node_at d (cert_path keys) = Some (RegFile 420 (ascii_bytes cert))"
    and key: "node_at d (key_path keys) = Some (RegFile 384 (ascii_bytes key))"
    and ascii: "is_ascii ca" "is_ascii cert" "is_ascii key"
  shows "validate_client_auth_artifacts lib certs keys now d = Inr () \<longleftrightarrow> validate_client_material lib now cert key ca = Inr ()"
proof -
  have files: "validate_file d (ca_path certs) cert_mode = Inr ()" "validate_file d (cert_path keys) cert_mode = Inr ()"
    "validate_file d (key_path keys) key_mode = Inr ()"
    using ca cert key by (simp_all add: validate_file_iff cert_mode_def key_mode_def ca_path_def cert_path_def key_path_def)
  note r = ca [THEN read_regular] cert [THEN read_regular] key [THEN read_regular]
  show ?thesis
    by (simp add: validate_client_auth_artifacts_def validate_client_material_def dirs files bind_res_eq_Inr
        bundle_load_cert_iff [OF ascii(1) r(1)] bundle_load_cert_iff [OF ascii(2) r(2)] bundle_load_key_iff [OF ascii(3) r(3)]
        bundle_period_eq bundle_check_ca_iff bundle_check_client_iff)
qed

subsection \<open>Properties\<close>

text \<open>C26. Two validators: on a set whose directories and files have the modes the scripts ask for and
  whose files are the UTF-8 of any three texts, the bundle's own \<open>_validate_client_material\<close> accepts
  the three texts exactly when they are ASCII and \<open>validate_client_auth_artifacts\<close> accepts the
  files. (A text with another character, in a comment before a PEM block say, may pass the latter,
  which gives the bytes to the library; the former refuses it at \<open>encode("ascii")\<close>.)\<close>

theorem bundle_checks_agree:
  assumes "validate_directory d certs = Inr ()" "validate_directory d keys = Inr ()"
    and "node_at d (ca_path certs) = Some (RegFile 420 (utf8_bytes ca))"
    and "node_at d (cert_path keys) = Some (RegFile 420 (utf8_bytes cert))"
    and "node_at d (key_path keys) = Some (RegFile 384 (utf8_bytes key))"
  shows "validate_client_material lib now cert key ca = Inr () \<longleftrightarrow>
    is_ascii ca \<and> is_ascii cert \<and> is_ascii key \<and> validate_client_auth_artifacts lib certs keys now d = Inr ()"
proof (cases "is_ascii ca \<and> is_ascii cert \<and> is_ascii key")
  case True
  then show ?thesis using validations_agree [OF assms(1,2)] assms(3-5) by (simp add: ascii_utf8_bytes)
next
  case False
  then show ?thesis using material_ascii by blast
qed

lemma write_private_json_eq:
  "write_private_json p b d =
     (let parent = path_parent p
      in if is_symlink d parent then (Inl (ValueError (path_text parent @ lit '' is a symlink'')), d)
         else if \<not> path_is_dir d parent then (Inl (ValueError (path_text parent @ lit '' is not a directory'')), d)
         else case write_exclusive p (bundle_text b) private_file_mode d of
           (None, d1) \<Rightarrow> (Inr (), d1)
         | (Some e, d1) \<Rightarrow>
             (Inl (if e = FileExistsError
                   then ValueError (path_text p @ lit '' already exists; refusing to overwrite private material'') else e), d1))"
proof -
  have a: "append_file p x d1 = (Some e, d2) \<Longrightarrow> e \<noteq> FileExistsError" for x d1 e d2
    by (auto simp: append_file_def split: option.splits node.splits if_splits)
  have c: "chmod m p d1 = (Some e, d2) \<Longrightarrow> e \<noteq> FileExistsError" for m d1 e d2
    by (auto simp: chmod_def split: option.splits if_splits)
  show ?thesis
    using a c by (auto simp: write_private_json_def write_exclusive_def Let_def split: prod.splits option.splits)
qed

lemma pin_alpha:
  assumes "normalize_server_pin raw = Inr pin"
  shows "list_all scalar_char pin"
proof -
  obtain d where "pin = server_pin_prefix @ encode_audio_base64 d" using pin_parts [OF assms] by blast
  moreover have "c < 128" if "c \<in> set (encode_audio_base64 d)" for c using encode_ascii that by blast
  then have "list_all scalar_char (encode_audio_base64 d)" by (force simp: list_all_iff scalar_char_def)
  ultimately show ?thesis by (simp add: server_pin_prefix_def lit_def scalar_char_def)
qed

lemma ascii_scalar: "is_ascii s \<Longrightarrow> list_all scalar_char s"
  by (auto simp: is_ascii_def list_all_iff scalar_char_def)

lemma build_facts:
  assumes "build_client_bundle env url pin cert key ca = Inr b"
  shows "normalize_base_url (be_printable env) (be_bad_bracketed env) url = Inr (cb_server_url b)"
    "normalize_server_pin pin = Inr (cb_server_spki_pin b)"
    "normalize_pem_block cert (lit ''CERTIFICATE'') = Inr (cb_client_certificate_pem b)"
    "normalize_pem_block key (lit ''PRIVATE KEY'') = Inr (cb_client_private_key_pem b)"
    "\<exists>ca'. normalize_pem_block ca (lit ''CERTIFICATE'') = Inr ca' \<and>
       validate_client_material (be_lib env) (be_now env) (cb_client_certificate_pem b) (cb_client_private_key_pem b) ca' = Inr ()"
  using assms by (auto simp: build_client_bundle_def bind_res_eq_Inr)

lemma bundle_wf:
  assumes "build_client_bundle env url pin cert key ca = Inr b" and "list_all scalar_char (cb_server_url b)"
  shows "wf_json (JDict (bundle_fields b))"
  using assms(2) pin_alpha [OF build_facts(2) [OF assms(1)]]
    ascii_scalar [OF pem_normal_form(2) [OF build_facts(3) [OF assms(1)]]]
    ascii_scalar [OF pem_normal_form(2) [OF build_facts(4) [OF assms(1)]]]
  by (simp add: bundle_fields_def bundle_type_def) (simp add: lit_def scalar_char_def)

text \<open>What the script reads: a regular file of the mode, not behind a symbolic link.\<close>

definition file_text :: "bytes \<Rightarrow> str" where
  "file_text b = unix_lines (map unat b)"

lemma checked_file:
  assumes "validate_existing_file d p m = Inr u" "m \<noteq> 493" "read_text_ascii d p = Inr t"
  shows "\<exists>b. node_at d p = Some (RegFile m b) \<and> t = file_text b"
proof -
  obtain b where b: "node_at d p = Some (RegFile m b)" "p \<noteq> []"
    using assms(1,2) by (auto simp: validate_existing_file_eq validate_file_iff)
  then show ?thesis using assms(3) read_regular [of d p m b] by (auto simp: read_text_ascii_def file_text_def split: if_splits)
qed

lemma read_text_facts:
  "read_public_text d p = Inr t \<Longrightarrow> \<exists>b. node_at d p = Some (RegFile 420 b) \<and> t = file_text b"
  "read_private_text d p = Inr t \<Longrightarrow> \<exists>b. node_at d p = Some (RegFile 384 b) \<and> t = file_text b"
  by (auto simp: read_public_text_def read_private_text_def bind_res_eq_Inr public_file_mode_def private_file_mode_def
      dest: checked_file [rotated 2])

text \<open>C27. A bundle that was written is the bundle of its inputs: the pin file, the client CA, the
  certificate and the key are regular files of the modes 0644 and 0600; the bundle has the normal
  form of the given URL, of the pin in the pin file, of the certificate in the certificate file and
  of the key in the key file (with line feeds for the line ends), each of them its own normal form;
  and this certificate and key passed the validation against the normal form of the text in the
  client CA file. The output did not exist before and is now a regular file of mode 0600, no other
  path has changed, and its text is, for a URL of Unicode characters, JSON for exactly the six
  fields of the bundle.\<close>

theorem bundle_written:
  assumes "write_client_bundle_file env out url pin_file ca_file cert_file key_file d = (Inr b, d')"
  shows "\<exists>pin ca cert key ca_text. node_at d pin_file = Some (RegFile 420 pin) \<and> node_at d ca_file = Some (RegFile 420 ca)
      \<and> node_at d cert_file = Some (RegFile 420 cert) \<and> node_at d key_file = Some (RegFile 384 key)
    \<and> normalize_base_url (be_printable env) (be_bad_bracketed env) url = Inr (cb_server_url b)
    \<and> normalize_server_pin (file_text pin) = Inr (cb_server_spki_pin b)
    \<and> normalize_pem_block (file_text cert) (lit ''CERTIFICATE'') = Inr (cb_client_certificate_pem b)
    \<and> normalize_pem_block (file_text key) (lit ''PRIVATE KEY'') = Inr (cb_client_private_key_pem b)
    \<and> normalize_pem_block (file_text ca) (lit ''CERTIFICATE'') = Inr ca_text
    \<and> validate_client_material (be_lib env) (be_now env) (cb_client_certificate_pem b) (cb_client_private_key_pem b) ca_text = Inr ()
    \<and> normalize_server_pin (cb_server_spki_pin b) = Inr (cb_server_spki_pin b)
    \<and> normalize_pem_block (cb_client_certificate_pem b) (lit ''CERTIFICATE'') = Inr (cb_client_certificate_pem b)
    \<and> normalize_pem_block (cb_client_private_key_pem b) (lit ''PRIVATE KEY'') = Inr (cb_client_private_key_pem b)
    \<and> node_at d out = None
    \<and> node_at d' = (node_at d)(out \<mapsto> RegFile 384 (ascii_bytes (json_dumps_indent (bundle_fields b) @ [10])))
    \<and> (list_all scalar_char (cb_server_url b) \<longrightarrow>
        json_loads (json_dumps_indent (bundle_fields b) @ [10]) = Some (JDict (bundle_fields b)))"
proof -
  obtain tp tca tc tk where r: "read_public_text d pin_file = Inr tp" "read_public_text d ca_file = Inr tca"
      "read_public_text d cert_file = Inr tc" "read_private_text d key_file = Inr tk"
    and b: "build_client_bundle env url tp tc tk tca = Inr b"
    and w: "write_private_json out b d = (Inr (), d')"
    using assms(1) by (auto simp: write_client_bundle_file_def bind_res_eq_Inr bind_res_eq_Inl split: sum.splits prod.splits)
  obtain pin ca cert key where files: "node_at d pin_file = Some (RegFile 420 pin)" "node_at d ca_file = Some (RegFile 420 ca)"
      "node_at d cert_file = Some (RegFile 420 cert)" "node_at d key_file = Some (RegFile 384 key)"
    and texts: "tp = file_text pin" "tca = file_text ca" "tc = file_text cert" "tk = file_text key"
    using r(1-3) [THEN read_text_facts(1)] r(4) [THEN read_text_facts(2)] by blast
  note f = build_facts [OF b, unfolded texts]
  obtain ca_text where "normalize_pem_block (file_text ca) (lit ''CERTIFICATE'') = Inr ca_text"
      "validate_client_material (be_lib env) (be_now env) (cb_client_certificate_pem b) (cb_client_private_key_pem b) ca_text = Inr ()"
    using f(5) by blast
  moreover have "node_at d out = None" "node_at d' = (node_at d)(out \<mapsto> RegFile 384 (ascii_bytes (json_dumps_indent (bundle_fields b) @ [10])))"
    using w write_exclusive_ok [of out "bundle_text b" private_file_mode d d']
    by (auto simp: write_private_json_eq Let_def bundle_text_def private_file_mode_def ascii_bytes_def split: if_splits prod.splits option.splits)
  moreover obtain dg where "length dg = 32" "cb_server_spki_pin b = server_pin_prefix @ encode_audio_base64 dg"
    using pin_parts [OF f(2)] by blast
  then have "normalize_server_pin (cb_server_spki_pin b) = Inr (cb_server_spki_pin b)" by (simp add: pin_normal_form)
  moreover have "list_all scalar_char (cb_server_url b) \<longrightarrow>
      json_loads (json_dumps_indent (bundle_fields b) @ [10]) = Some (JDict (bundle_fields b))"
    using indent_round_trip [OF _ bundle_wf [OF b]] by (simp add: bundle_fields_def)
  ultimately show ?thesis
    using files f(1-4) pem_normal_form(1) [OF f(3)] pem_normal_form(1) [OF f(4)] by blast
qed

lemma pem_block_kept:
  assumes "py_startswith t (pem_begin label)" "py_endswith t (pem_end label)" "is_ascii t" "13 \<notin> set t"
  shows "normalize_pem_block t label = Inr t"
proof -
  obtain x where "pem_end label = x @ [45, 10]" using pem_marks(3) by blast
  moreover obtain u where "t = u @ pem_end label" using assms(2) by (auto simp: py_endswith_iff)
  ultimately obtain w where w: "t = w @ [45, 10]" by simp
  have "t \<noteq> []" "hd t = 45" using assms(1) pem_marks(1,2) [of label] w by (auto simp: py_startswith_iff)
  then have "dropWhile py_space t = t" using pem_marks(4) by (cases t) auto
  then have s: "py_strip t = w @ [45]" using w pem_marks(4) by (simp add: py_strip_def) (simp add: py_space_def)
  have "13 \<notin> set (w @ [45])" using assms(4) w by simp
  then have v: "unix_lines (py_strip t) @ [10] = t" using s w unix_lines_id by simp
  show ?thesis unfolding normalize_pem_block_def Let_def v using assms by simp
qed

text \<open>What the message "expected a single PEM block" does not mean: a text of two blocks, one
  behind the other, is accepted as it is.\<close>

theorem pem_accepts_two_blocks:
  assumes "is_ascii body" "13 \<notin> set body" "is_ascii label" "13 \<notin> set label"
  defines "block \<equiv> pem_begin label @ body @ [10] @ pem_end label"
  shows "normalize_pem_block (block @ block) label = Inr (block @ block)"
proof (rule pem_block_kept)
  show "is_ascii (block @ block)" "13 \<notin> set (block @ block)"
    using assms(1-4) by (auto simp: block_def pem_begin_def pem_end_def is_ascii_def lit_def)
  show "py_startswith (block @ block) (pem_begin label)" "py_endswith (block @ block) (pem_end label)"
    by (auto simp: py_startswith_iff py_endswith_iff block_def)
qed

subsection \<open>Witnesses\<close>

text \<open>A package that tells the certificates apart by a digit in their text.\<close>

definition demo_lib :: crypto where
  "demo_lib = toy\<lparr>load_pem_cert := (\<lambda>b. Inr (if 48 \<in> set b then toy_ca else toy_client)),
     load_pem_key := (\<lambda>_. Inr (EcPrivate p256 7))\<rparr>"

definition demo_block :: "string \<Rightarrow> string \<Rightarrow> str" where
  "demo_block label body = pem_begin (lit label) @ lit body @ [10] @ pem_end (lit label)"

definition demo_env :: bundle_env where
  "demo_env = \<lparr>be_lib = demo_lib, be_printable = (\<lambda>_. True), be_bad_bracketed = (\<lambda>_. None), be_now = 1\<rparr>"

abbreviation demo_certs :: path where "demo_certs \<equiv> [lit ''certs'']"
abbreviation demo_keys :: path where "demo_keys \<equiv> [lit ''keys'']"
abbreviation demo_pin_file :: path where "demo_pin_file \<equiv> [lit ''certs'', lit ''pin'']"
abbreviation demo_out :: path where "demo_out \<equiv> [lit ''keys'', lit ''out'']"

definition demo_bundle :: client_bundle where
  "demo_bundle = \<lparr>cb_server_url = lit ''https://'' @ authority (lit ''asr.example'') (Some 42862), cb_server_spki_pin = demo_pin,
     cb_client_certificate_pem = demo_block ''CERTIFICATE'' ''1'', cb_client_private_key_pem = demo_block ''PRIVATE KEY'' ''2''\<rparr>"

definition demo_disk_files :: fs where
  "demo_disk_files = \<lparr>nodes =
     [(demo_certs, Directory 448), (demo_keys, Directory 448), (demo_pin_file, RegFile 420 (ascii_bytes demo_pin)),
      (ca_path demo_certs, RegFile 420 (ascii_bytes (demo_block ''CERTIFICATE'' ''0''))),
      (cert_path demo_keys, RegFile 420 (ascii_bytes (demo_block ''CERTIFICATE'' ''1''))),
      (key_path demo_keys, RegFile 384 (ascii_bytes (demo_block ''PRIVATE KEY'' ''2'')))],
     locked = [], space = length (bundle_text demo_bundle)\<rparr>"

lemma demo_nodes:
  "node_at demo_disk_files demo_certs = Some (Directory 448)" "node_at demo_disk_files demo_keys = Some (Directory 448)"
  "node_at demo_disk_files demo_pin_file = Some (RegFile 420 (ascii_bytes demo_pin))"
  "node_at demo_disk_files (ca_path demo_certs) = Some (RegFile 420 (ascii_bytes (demo_block ''CERTIFICATE'' ''0'')))"
  "node_at demo_disk_files (cert_path demo_keys) = Some (RegFile 420 (ascii_bytes (demo_block ''CERTIFICATE'' ''1'')))"
  "node_at demo_disk_files (key_path demo_keys) = Some (RegFile 384 (ascii_bytes (demo_block ''PRIVATE KEY'' ''2'')))"
  "node_at demo_disk_files demo_out = None"
  by (simp_all add: demo_disk_files_def node_at_def ca_path_def cert_path_def key_path_def)

lemma demo_dirs: "validate_directory demo_disk_files demo_certs = Inr ()" "validate_directory demo_disk_files demo_keys = Inr ()"
  by (simp_all add: validate_directory_iff demo_nodes dir_mode_def)

lemma demo_material:
  "validate_client_material demo_lib 1 (demo_block ''CERTIFICATE'' ''1'') (demo_block ''PRIVATE KEY'' ''2'')
     (demo_block ''CERTIFICATE'' ''0'') = Inr ()"
proof -
  have loads: "load_pem_cert demo_lib (ascii_bytes (demo_block ''CERTIFICATE'' ''0'')) = Inr toy_ca"
    "load_pem_cert demo_lib (ascii_bytes (demo_block ''CERTIFICATE'' ''1'')) = Inr toy_client"
    by (simp_all add: demo_lib_def demo_block_def pem_begin_def pem_end_def ascii_bytes_def lit_def)
  have ascii: "encode_ascii_text (demo_block ''CERTIFICATE'' ''0'') = Inr (ascii_bytes (demo_block ''CERTIFICATE'' ''0''))"
    "encode_ascii_text (demo_block ''CERTIFICATE'' ''1'') = Inr (ascii_bytes (demo_block ''CERTIFICATE'' ''1''))"
    "encode_ascii_text (demo_block ''PRIVATE KEY'' ''2'') = Inr (ascii_bytes (demo_block ''PRIVATE KEY'' ''2''))"
    by (simp_all add: encode_ascii_text_def demo_block_def pem_begin_def pem_end_def is_ascii_def lit_def)
  have keys: "public_of demo_lib (EcPrivate p256 n) = EcPublic p256 (n, 0)"
    "ec_verify demo_lib (EcPublic p256 (5, 0)) (toy_signature (EcPrivate p256 5)) tbs h = None" for n tbs h
    by (simp_all add: demo_lib_def toy_def toy_public_def toy_signature_def)
  note f = toy_ca_def toy_client_def toy_sign_fields ca_template_def client_template_def toy_public_def
  show ?thesis
    by (simp add: validate_client_material_def bundle_load_cert_def bundle_load_key_def ascii loads require_def)
      (simp add: f demo_lib_def [THEN arg_cong, of load_pem_key] bundle_period_eq check_period_def bundle_check_ca_def bundle_check_client_def
        get_extension_def require_def bundle_verify_signature_def keys ca_usage_def client_usage_def)
qed

lemma demo_blocks:
  "normalize_pem_block (demo_block ''CERTIFICATE'' [c]) (lit ''CERTIFICATE'') = Inr (demo_block ''CERTIFICATE'' [c])"
  "normalize_pem_block (demo_block ''PRIVATE KEY'' [c]) (lit ''PRIVATE KEY'') = Inr (demo_block ''PRIVATE KEY'' [c])"
  "is_ascii (demo_block ''CERTIFICATE'' [c])" "13 \<notin> set (demo_block ''CERTIFICATE'' [c])"
  "is_ascii (demo_block ''PRIVATE KEY'' [c])" "13 \<notin> set (demo_block ''PRIVATE KEY'' [c])"
  if "c \<in> {CHR ''0'', CHR ''1'', CHR ''2''}"
proof -
  show a: "is_ascii (demo_block ''CERTIFICATE'' [c])" "13 \<notin> set (demo_block ''CERTIFICATE'' [c])"
    "is_ascii (demo_block ''PRIVATE KEY'' [c])" "13 \<notin> set (demo_block ''PRIVATE KEY'' [c])"
    using that by (auto simp: demo_block_def pem_begin_def pem_end_def is_ascii_def lit_def)
  show "normalize_pem_block (demo_block ''CERTIFICATE'' [c]) (lit ''CERTIFICATE'') = Inr (demo_block ''CERTIFICATE'' [c])"
    "normalize_pem_block (demo_block ''PRIVATE KEY'' [c]) (lit ''PRIVATE KEY'') = Inr (demo_block ''PRIVATE KEY'' [c])"
    by (rule pem_block_kept; (rule a)?; simp add: demo_block_def py_startswith_def py_endswith_def)+
qed

lemma ascii_back: "is_ascii t \<Longrightarrow> map unat (ascii_bytes t) = t"
  by (induction t) (simp_all add: is_ascii_def ascii_bytes_def unat_of_nat)

lemma validate_file_ok: "node_at d p = Some (RegFile m b) \<Longrightarrow> p \<noteq> [] \<Longrightarrow> m \<noteq> 493 \<Longrightarrow> validate_file d p m = Inr ()"
  by (simp add: validate_file_iff)

lemma read_texts:
  assumes "is_ascii t" "13 \<notin> set t" "p \<noteq> []"
  shows "node_at d p = Some (RegFile 420 (ascii_bytes t)) \<Longrightarrow> read_public_text d p = Inr t"
    and "node_at d p = Some (RegFile 384 (ascii_bytes t)) \<Longrightarrow> read_private_text d p = Inr t"
  using assms read_regular [of d p _ "ascii_bytes t"]
  by (simp_all add: read_public_text_def read_private_text_def validate_existing_file_eq validate_file_ok
      public_file_mode_def private_file_mode_def read_text_ascii_def ascii_back unix_lines_id)

lemma encode_plain: "c \<in> set (encode_audio_base64 bs) \<Longrightarrow> c < 128 \<and> c \<noteq> 13"
proof -
  have "set (encode_audio_base64 bs) \<subseteq> {c. b64_alpha c \<or> c = 61}"
    by (induction bs rule: encode_audio_base64.induct) (simp_all add: sextet_alpha)
  then show "c \<in> set (encode_audio_base64 bs) \<Longrightarrow> c < 128 \<and> c \<noteq> 13" by (auto simp: b64_alpha_def is_alpha_def is_digit_def)
qed

lemma demo_pin_text: "is_ascii demo_pin" "13 \<notin> set demo_pin"
  using encode_plain by (auto simp: demo_pin_def server_pin_prefix_def is_ascii_def list_all_iff) (auto simp: lit_def)

lemma demo_build:
  "build_client_bundle demo_env demo_url demo_pin (demo_block ''CERTIFICATE'' ''1'') (demo_block ''PRIVATE KEY'' ''2'')
     (demo_block ''CERTIFICATE'' ''0'') = Inr demo_bundle"
  by (simp add: build_client_bundle_def demo_env_def demo_url_normal demo_pin_normal demo_blocks demo_material demo_bundle_def)

lemma demo_write: "\<exists>d'. write_client_bundle_file demo_env demo_out demo_url demo_pin_file (ca_path demo_certs)
    (cert_path demo_keys) (key_path demo_keys) demo_disk_files = (Inr demo_bundle, d')"
proof -
  have r: "read_public_text demo_disk_files demo_pin_file = Inr demo_pin"
    "read_public_text demo_disk_files (ca_path demo_certs) = Inr (demo_block ''CERTIFICATE'' ''0'')"
    "read_public_text demo_disk_files (cert_path demo_keys) = Inr (demo_block ''CERTIFICATE'' ''1'')"
    "read_private_text demo_disk_files (key_path demo_keys) = Inr (demo_block ''PRIVATE KEY'' ''2'')"
    using read_texts(1) [OF demo_pin_text _ demo_nodes(3)] read_texts(1) [OF demo_blocks(3,4) _ demo_nodes(4)]
      read_texts(1) [OF demo_blocks(3,4) _ demo_nodes(5)] read_texts(2) [OF demo_blocks(5,6) _ demo_nodes(6)]
    by (simp_all add: ca_path_def cert_path_def key_path_def)
  have "space demo_disk_files = length (bundle_text demo_bundle)" "locked demo_disk_files = []"
    by (simp_all add: demo_disk_files_def)
  moreover have p: "path_parent demo_out = demo_keys" "is_dir demo_disk_files demo_keys" "\<not> is_symlink demo_disk_files demo_keys"
    by (simp_all add: path_parent_def is_dir_def is_symlink_def demo_nodes)
  ultimately obtain d' where "write_exclusive demo_out (bundle_text demo_bundle) private_file_mode demo_disk_files = (None, d')"
    using write_exclusive_free [of demo_out demo_disk_files "bundle_text demo_bundle" private_file_mode] demo_nodes(7) by auto
  then have "write_private_json demo_out demo_bundle demo_disk_files = (Inr (), d')"
    using p by (simp add: write_private_json_eq path_is_dir_def follow_plain)
  then show ?thesis by (simp add: write_client_bundle_file_def r demo_build)
qed

theorem bundle_checks_agree_witness:
  "validate_client_auth_artifacts demo_lib demo_certs demo_keys 1 demo_disk_files = Inr ()"
proof -
  have "is_ascii (demo_block ''CERTIFICATE'' ''0'')" "is_ascii (demo_block ''CERTIFICATE'' ''1'')" "is_ascii (demo_block ''PRIVATE KEY'' ''2'')"
    using demo_blocks(3,5) by simp_all
  then show ?thesis
    using bundle_checks_agree [OF demo_dirs, of "demo_block ''CERTIFICATE'' ''0''" "demo_block ''CERTIFICATE'' ''1''"
        "demo_block ''PRIVATE KEY'' ''2''"] demo_nodes(4-6) demo_material by (simp add: ascii_utf8_bytes)
qed

theorem bundle_written_witness:
  "\<exists>d'. node_at d' demo_out = Some (RegFile 384 (ascii_bytes (json_dumps_indent (bundle_fields demo_bundle) @ [10])))
    \<and> json_loads (json_dumps_indent (bundle_fields demo_bundle) @ [10]) = Some (JDict (bundle_fields demo_bundle))
    \<and> normalize_pem_block (file_text (ascii_bytes (demo_block ''CERTIFICATE'' ''1''))) (lit ''CERTIFICATE'')
      = Inr (cb_client_certificate_pem demo_bundle)"
proof -
  obtain d' where w: "write_client_bundle_file demo_env demo_out demo_url demo_pin_file (ca_path demo_certs)
    (cert_path demo_keys) (key_path demo_keys) demo_disk_files = (Inr demo_bundle, d')" using demo_write by blast
  have "list_all scalar_char (cb_server_url demo_bundle)"
    by (simp add: demo_bundle_def authority_def demo_port_text) (simp add: lit_def scalar_char_def)
  then show ?thesis using bundle_written [OF w] demo_nodes(5) by (intro exI [of _ d']) auto
qed

theorem pem_accepts_two_blocks_witness:
  "normalize_pem_block (demo_block ''CERTIFICATE'' ''0'' @ demo_block ''CERTIFICATE'' ''0'') (lit ''CERTIFICATE'')
     = Inr (demo_block ''CERTIFICATE'' ''0'' @ demo_block ''CERTIFICATE'' ''0'')"
  using pem_accepts_two_blocks [of "lit ''0''" "lit ''CERTIFICATE''"]
  by (simp add: demo_block_def is_ascii_def) (simp add: lit_def)

end
