(* ===== verification/Server_Cert.thy ===== *)
theory Server_Cert
  imports Client_Auth Client_Setup
begin

section \<open>The certificate generator (\<open>scripts/generate_cert.py\<close>)\<close>

text \<open>
  \<open>_generate_cert\<close> over the file system, and the two request handlers. The \<open>cryptography\<close> package
  and SHA-256 are parameters, as are the HTML page, the resolution of a directory name to a path
  (\<open>Path(certs_dir)\<close>), the decoding of the body that \<open>json.loads\<close> does on bytes, and which texts are
  nested too deep for it (\<open>RecursionError\<close>). What a handler
  raises ends its connection without an answer.
\<close>

subsection \<open>Writing the files\<close>

definition max_generate_body_bytes :: int where
  "max_generate_body_bytes = 4096"

definition server_cert_common_name :: str where
  "server_cert_common_name = lit ''VVV Sovereign Server''"

definition open_create_exclusive :: "path \<Rightarrow> int \<Rightarrow> fs \<Rightarrow> exn option \<times> fs" where
  "open_create_exclusive p mode d = open_excl mode p d"

definition write_public :: "path \<Rightarrow> bytes \<Rightarrow> fs \<Rightarrow> exn option \<times> fs" where
  "write_public p data d =
     (case open_create_exclusive p cert_mode d of
        (Some e, d1) \<Rightarrow> (Some e, d1)
      | (None, d1) \<Rightarrow>
          (case append_file p data d1 of (Some e, d2) \<Rightarrow> (Some e, d2) | (None, d2) \<Rightarrow> chmod cert_mode p d2))"

definition write_secret :: "path \<Rightarrow> bytes \<Rightarrow> fs \<Rightarrow> exn option \<times> fs" where
  "write_secret p data d =
     (case open_create_exclusive p key_mode d of
        (Some e, d1) \<Rightarrow> (Some e, d1)
      | (None, d1) \<Rightarrow>
          (case append_file p data d1 of (Some e, d2) \<Rightarrow> (Some e, d2) | (None, d2) \<Rightarrow> chmod key_mode p d2))"

lemma writes_eq: "write_public p b d = write_exclusive p b 420 d" "write_secret p b d = write_exclusive p b 384 d"
  unfolding write_public_def write_secret_def write_exclusive_def open_create_exclusive_def cert_mode_def key_mode_def
  by (rule refl)+

interpretation public_file: exclusive_writer write_public cert_mode
  unfolding writes_eq cert_mode_def by (rule any_file.exclusive_writer_axioms)

interpretation secret_file: exclusive_writer write_secret key_mode
  unfolding writes_eq key_mode_def by (rule any_file.exclusive_writer_axioms)

text \<open>The script has copies of its own of \<open>_validate_directory\<close> and
  \<open>_create_or_validate_directory\<close>, equal line by line.\<close>

definition server_validate_directory :: "fs \<Rightarrow> path \<Rightarrow> unit res" where
  "server_validate_directory d p =
     (if is_symlink d p then Inl (ValueError (path_text p @ lit '' is a symlink''))
      else if \<not> path_is_dir d p then Inl (ValueError (path_text p @ lit '' is not a directory''))
      else bind_res (file_mode d p) (\<lambda>mode.
        if mode \<noteq> dir_mode
        then Inl (ValueError (path_text p @ lit '' mode is '' @ mode_text mode @ lit '', expected 700''))
        else Inr ()))"

definition server_create_directory :: "int \<Rightarrow> path \<Rightarrow> fs \<Rightarrow> unit res \<times> fs" where
  "server_create_directory mode0 p d =
     (if path_exists d p then (server_validate_directory d p, d)
      else case mkdir_parents mode0 False p d of
        (Some e, d1) \<Rightarrow> (Inl e, d1)
      | (None, d1) \<Rightarrow>
          (case chmod dir_mode p d1 of
             (Some e, d2) \<Rightarrow> (Inl e, d2)
           | (None, d2) \<Rightarrow> (server_validate_directory d2 p, d2)))"

lemma server_directory_eq: "server_validate_directory = validate_directory" "server_create_directory = create_or_validate_directory"
proof -
  show 1: "server_validate_directory = validate_directory"
    by (intro ext) (simp add: server_validate_directory_def validate_directory_def)
  show "server_create_directory = create_or_validate_directory"
    unfolding fun_eq_iff server_create_directory_def create_or_validate_directory_def 1 by simp
qed

definition server_validate_days :: "int \<Rightarrow> unit res" where
  "server_validate_days days =
     (if \<not> (1 \<le> days \<and> days \<le> max_validity_days)
      then Inl (ValueError (lit ''days must be between 1 and '' @ show_int max_validity_days)) else Inr ())"

subsection \<open>\<open>_generate_cert\<close>\<close>

record server_template =
  st_subject :: str
  st_issuer :: str
  st_not_before :: rat
  st_not_after :: rat

record server_crypto =
  sc_cert_pem :: "private_key \<Rightarrow> server_template \<Rightarrow> bytes"
  sc_key_pem :: "private_key \<Rightarrow> bytes"
  sc_spki :: "private_key \<Rightarrow> bytes"
  sc_sha256 :: "bytes \<Rightarrow> bytes"

definition server_template_of :: "rat \<Rightarrow> int \<Rightarrow> server_template" where
  "server_template_of now days =
     \<lparr>st_subject = server_cert_common_name, st_issuer = server_cert_common_name, st_not_before = now,
      st_not_after = now + of_int days * 86400\<rparr>"

definition server_spki_pin :: "server_crypto \<Rightarrow> private_key \<Rightarrow> str" where
  "server_spki_pin lib k = lit ''sha256/'' @ encode_audio_base64 (sc_sha256 lib (sc_spki lib k))"

datatype cert_result = CertError str | CertGenerated path path path str

definition fullchain :: "path \<Rightarrow> path" where "fullchain out = out @ [lit ''fullchain.pem'']"
definition privkey :: "path \<Rightarrow> path" where "privkey out = out @ [lit ''privkey.pem'']"
definition pin_path :: "path \<Rightarrow> path" where "pin_path out = out @ [lit ''server-spki-pin.txt'']"

text \<open>The three writes, each only when the one before it succeeded.\<close>

definition write_server_files :: "server_crypto \<Rightarrow> path \<Rightarrow> int \<Rightarrow> private_key \<Rightarrow> rat \<Rightarrow> fs \<Rightarrow> exn option \<times> fs" where
  "write_server_files lib out days key now d =
     (case write_public (fullchain out) (sc_cert_pem lib key (server_template_of now days)) d of
        (Some e, d1) \<Rightarrow> (Some e, d1)
      | (None, d1) \<Rightarrow>
          (case write_public (pin_path out) (ascii_bytes (server_spki_pin lib key @ [10])) d1 of
             (Some e, d2) \<Rightarrow> (Some e, d2)
           | (None, d2) \<Rightarrow> write_secret (privkey out) (sc_key_pem lib key) d2))"

text \<open>The \<open>try\<close> block of the arguments and the directory.\<close>

definition prepare_server :: "int \<Rightarrow> int \<Rightarrow> path \<Rightarrow> fs \<Rightarrow> unit res \<times> fs" where
  "prepare_server mode0 days out d =
     (case server_validate_days days of Inl e \<Rightarrow> (Inl e, d) | Inr _ \<Rightarrow> server_create_directory mode0 out d)"

definition generate_cert ::
    "server_crypto \<Rightarrow> int \<Rightarrow> int \<Rightarrow> path \<Rightarrow> private_key \<Rightarrow> rat \<Rightarrow> fs \<Rightarrow> cert_result res \<times> fs" where
  "generate_cert lib mode0 days out key now d =
     (if path_exists d (fullchain out) \<or> path_exists d (privkey out) \<or> path_exists d (pin_path out)
      then (Inr (CertError (lit ''Certificate files already exist in '' @ path_text out @ lit ''. Remove them first.'')), d)
      else case prepare_server mode0 days out d of
        (Inl e, d1) \<Rightarrow> ((case e of ValueError m \<Rightarrow> Inr (CertError m) | _ \<Rightarrow> Inl e), d1)
      | (Inr _, d1) \<Rightarrow>
          (case write_server_files lib out days key now d1 of
             (Some e, d2) \<Rightarrow> (Inl e, d2)
           | (None, d2) \<Rightarrow> (Inr (CertGenerated (fullchain out) (privkey out) (pin_path out) (server_spki_pin lib key)), d2)))"

subsection \<open>The request handlers\<close>

record http_reply =
  re_code :: int
  re_headers :: "(str \<times> str) list"
  re_body :: bytes

definition reply :: "int \<Rightarrow> string \<Rightarrow> bytes \<Rightarrow> http_reply" where
  "reply code content_type body =
     \<lparr>re_code = code,
      re_headers = [(lit ''Content-Type'', lit content_type), (lit ''Content-Length'', show_int (int (length body))),
                    (lit ''X-Content-Type-Options'', lit ''nosniff'')],
      re_body = body\<rparr>"

definition json_reply :: "int \<Rightarrow> (str \<times> json) list \<Rightarrow> http_reply" where
  "json_reply code ps = reply code ''application/json'' (ascii_bytes (json_dumps (JDict ps)))"

definition error_reply :: "int \<Rightarrow> str \<Rightarrow> http_reply" where
  "error_reply code m = json_reply code [(lit ''error'', JStr m)]"

definition do_GET :: "bytes \<Rightarrow> str \<Rightarrow> http_reply" where
  "do_GET page path =
     (if path = lit ''/'' then reply 200 ''text/html'' page else reply 404 ''text/plain'' (blit ''Not found''))"

text \<open>The checks on the body up to the call, and the dictionary the call's result becomes.\<close>

definition result_fields :: "cert_result \<Rightarrow> (str \<times> json) list" where
  "result_fields r =
     (case r of
        CertError m \<Rightarrow> [(lit ''error'', JStr m)]
      | CertGenerated c k p pin \<Rightarrow>
          [(lit ''cert_path'', JStr (path_text c)), (lit ''key_path'', JStr (path_text k)),
           (lit ''server_spki_pin_path'', JStr (path_text p)), (lit ''server_spki_pin'', JStr pin)])"

definition missing_fields :: "(str \<times> json) list \<Rightarrow> str list" where
  "missing_fields ps = filter (\<lambda>f. f \<notin> set (map fst ps)) [lit ''days'', lit ''certs_dir'']"

definition parse_generate :: "json \<Rightarrow> http_reply + int \<times> str" where
  "parse_generate parsed =
     (case parsed of
        JDict ps \<Rightarrow>
          if missing_fields ps \<noteq> []
          then Inl (error_reply 400 (lit ''Missing required fields: '' @ join_text (lit '', '') (missing_fields ps)))
          else (case (map_of ps (lit ''certs_dir''), map_of ps (lit ''days'')) of
                  (Some (JStr dir), Some (JInt n)) \<Rightarrow> Inr (n, dir)
                | (Some (JStr dir), Some (JBool b)) \<Rightarrow> Inr (if b then 1 else 0, dir)
                | (Some (JStr dir), _) \<Rightarrow> Inl (error_reply 400 (lit ''days must be an integer''))
                | _ \<Rightarrow> Inl (error_reply 400 (lit ''certs_dir must be a string'')))
      | _ \<Rightarrow> Inl (error_reply 400 (lit ''JSON body must be an object'')))"

definition body_length :: "str option \<Rightarrow> http_reply + int" where
  "body_length length_str =
     (case length_str of
        None \<Rightarrow> Inl (error_reply 400 (lit ''Missing Content-Length''))
      | Some t \<Rightarrow>
          (case int_of_text t of
             None \<Rightarrow> Inl (error_reply 400 (lit ''Invalid Content-Length''))
           | Some n \<Rightarrow>
               if n < 0 \<or> n > max_generate_body_bytes then Inl (error_reply 413 (lit ''Request body is too large''))
               else Inr n))"

text \<open>The environment of a request: \<open>json.loads\<close>'s decoding of bytes and the texts it gives up on for
  their depth, paths, the package, the fresh key, the clock, and the default mode of new directories.\<close>

record cert_env =
  ce_decode :: "bytes \<Rightarrow> str res"
  ce_too_deep :: "str \<Rightarrow> bool"
  ce_path :: "str \<Rightarrow> path"
  ce_crypto :: server_crypto
  ce_key :: private_key
  ce_now :: rat
  ce_mode :: int

definition recursion_error :: exn where
  "recursion_error = OtherError (lit ''RecursionError'') (lit ''maximum recursion depth exceeded'')"

text \<open>The handler up to the call: an answer or an exception (\<open>Inl\<close>), or the two arguments.\<close>

definition read_generate :: "cert_env \<Rightarrow> str \<Rightarrow> str option \<Rightarrow> bytes \<Rightarrow> http_reply res + int \<times> str" where
  "read_generate env path length_str stream =
     (if path \<noteq> lit ''/generate'' then Inl (Inr (reply 404 ''text/plain'' (blit ''Not found'')))
      else case body_length length_str of
        Inl r \<Rightarrow> Inl (Inr r)
      | Inr n \<Rightarrow>
          (case ce_decode env (take (nat n) stream) of
             Inl e \<Rightarrow> Inl (Inl e)
           | Inr t \<Rightarrow>
               if ce_too_deep env t then Inl (Inl recursion_error)
               else (case json_loads t of
                  None \<Rightarrow> Inl (Inr (error_reply 400 (lit ''Invalid JSON'')))
                | Some parsed \<Rightarrow> (case parse_generate parsed of Inl r \<Rightarrow> Inl (Inr r) | Inr x \<Rightarrow> Inr x))))"

definition do_POST :: "cert_env \<Rightarrow> str \<Rightarrow> str option \<Rightarrow> bytes \<Rightarrow> fs \<Rightarrow> http_reply res \<times> fs" where
  "do_POST env path length_str stream d =
     (case read_generate env path length_str stream of
        Inl r \<Rightarrow> (r, d)
      | Inr (days, dir) \<Rightarrow>
          (case generate_cert (ce_crypto env) (ce_mode env) days (ce_path env dir) (ce_key env) (ce_now env) d of
             (Inl e, d1) \<Rightarrow> (Inl e, d1)
           | (Inr r, d1) \<Rightarrow> (Inr (json_reply 200 (result_fields r)), d1)))"

subsection \<open>Facts\<close>

lemma write_server_files_ok:
  assumes "write_server_files lib out days key now d = (None, d')"
  shows "node_at d' = (node_at d)(fullchain out \<mapsto> RegFile 420 (sc_cert_pem lib key (server_template_of now days)),
    pin_path out \<mapsto> RegFile 420 (ascii_bytes (server_spki_pin lib key @ [10])), privkey out \<mapsto> RegFile 384 (sc_key_pem lib key))"
    and "node_at d (fullchain out) = None" "node_at d (pin_path out) = None" "node_at d (privkey out) = None"
proof -
  obtain d1 where 1: "write_exclusive (fullchain out) (sc_cert_pem lib key (server_template_of now days)) 420 d = (None, d1)"
    using assms by (auto simp: write_server_files_def writes_eq split: prod.splits option.splits)
  obtain d2 where 2: "write_exclusive (pin_path out) (ascii_bytes (server_spki_pin lib key @ [10])) 420 d1 = (None, d2)"
    using assms 1 by (auto simp: write_server_files_def writes_eq split: prod.splits option.splits)
  have 3: "write_exclusive (privkey out) (sc_key_pem lib key) 384 d2 = (None, d')"
    using assms 1 2 by (simp add: write_server_files_def writes_eq)
  note o = write_exclusive_ok [OF 1] write_exclusive_ok [OF 2] write_exclusive_ok [OF 3]
  show "node_at d' = (node_at d)(fullchain out \<mapsto> RegFile 420 (sc_cert_pem lib key (server_template_of now days)),
    pin_path out \<mapsto> RegFile 420 (ascii_bytes (server_spki_pin lib key @ [10])), privkey out \<mapsto> RegFile 384 (sc_key_pem lib key))"
    using o by simp
  show "node_at d (fullchain out) = None" "node_at d (pin_path out) = None" "node_at d (privkey out) = None"
    using o by (auto simp: fullchain_def pin_path_def privkey_def)
qed

lemma write_server_files_error:
  "write_server_files lib out days key now d = (Some e, d') \<Longrightarrow> is_os_error e"
  using write_exclusive_os_error by (fastforce simp: write_server_files_def writes_eq split: prod.splits option.splits)

lemma prepare_server_facts:
  assumes "prepare_server m days out d = (r, d')"
  shows "r = Inl e \<Longrightarrow> is_value_error e \<or> is_os_error e"
    and "node_at d' q = Some (RegFile k b) \<longleftrightarrow> node_at d q = Some (RegFile k b)"
    and "r = Inr u \<Longrightarrow> validate_directory d' out = Inr () \<and> 1 \<le> days \<and> days \<le> max_validity_days"
proof -
  have 1: "server_create_directory m out d = (r, d') \<or> (\<exists>msg. r = Inl (ValueError msg) \<and> d' = d)"
    and 2: "r = Inr u \<Longrightarrow> server_create_directory m out d = (r, d') \<and> 1 \<le> days \<and> days \<le> max_validity_days"
    using assms by (auto simp: prepare_server_def server_validate_days_def split: if_splits)
  show "r = Inl e \<Longrightarrow> is_value_error e \<or> is_os_error e"
    using 1 create_facts(2) [of m out d r d' e] by (auto simp: server_directory_eq)
  show "node_at d' q = Some (RegFile k b) \<longleftrightarrow> node_at d q = Some (RegFile k b)"
    using 1 create_facts(3) [of m out d r d' q k b] by (auto simp: server_directory_eq)
  show "r = Inr u \<Longrightarrow> validate_directory d' out = Inr () \<and> 1 \<le> days \<and> days \<le> max_validity_days"
    using 2 create_facts(1) [of m out d r d' u] by (auto simp: server_directory_eq)
qed

lemma generate_cert_cases:
  assumes run: "generate_cert lib m days out key now d = (r, d')"
  shows "(\<exists>e. r = Inl e \<and> is_os_error e)
    \<or> (\<exists>msg. r = Inr (CertError msg) \<and> (\<forall>q k b. node_at d' q = Some (RegFile k b) \<longleftrightarrow> node_at d q = Some (RegFile k b)))
    \<or> r = Inr (CertGenerated (fullchain out) (privkey out) (pin_path out) (server_spki_pin lib key))
      \<and> 1 \<le> days \<and> days \<le> max_validity_days
      \<and> node_at d' (fullchain out) = Some (RegFile 420 (sc_cert_pem lib key (server_template_of now days)))
      \<and> node_at d' (privkey out) = Some (RegFile 384 (sc_key_pem lib key))
      \<and> node_at d' (pin_path out) = Some (RegFile 420 (ascii_bytes (server_spki_pin lib key @ [10])))
      \<and> validate_directory d' out = Inr ()
      \<and> (\<forall>q \<in> {fullchain out, privkey out, pin_path out}. \<not> path_exists d q)
      \<and> (\<forall>q k b. q \<notin> {fullchain out, privkey out, pin_path out} \<longrightarrow> node_at d' q = Some (RegFile k b) \<longleftrightarrow> node_at d q = Some (RegFile k b))"
proof (cases "path_exists d (fullchain out) \<or> path_exists d (privkey out) \<or> path_exists d (pin_path out)")
  case True
  then show ?thesis using run by (auto simp: generate_cert_def)
next
  case False
  obtain r1 d1 where p: "prepare_server m days out d = (r1, d1)" by fastforce
  have run0: "generate_cert lib m days out key now d = (case r1 of
      Inl e \<Rightarrow> ((case e of ValueError m \<Rightarrow> Inr (CertError m) | _ \<Rightarrow> Inl e), d1)
    | Inr _ \<Rightarrow> (case write_server_files lib out days key now d1 of
             (Some e, d2) \<Rightarrow> (Inl e, d2)
           | (None, d2) \<Rightarrow> (Inr (CertGenerated (fullchain out) (privkey out) (pin_path out) (server_spki_pin lib key)), d2)))"
    using False p by (simp add: generate_cert_def split: sum.splits)
  note run1 = run [unfolded run0]
  note pf = prepare_server_facts [OF p]
  show ?thesis
  proof (cases r1)
    case (Inl e)
    then show ?thesis using run1 pf(1) [of e] pf(2) by (cases e) (auto simp: is_value_error_def)
  next
    case (Inr u)
    obtain e2 d2 where w: "write_server_files lib out days key now d1 = (e2, d2)" by fastforce
    show ?thesis
    proof (cases e2)
      case (Some x)
      then show ?thesis using run1 Inr w write_server_files_error by auto
    next
      case None
      note ok = write_server_files_ok [OF w [unfolded None]]
      have d': "d' = d2" "r = Inr (CertGenerated (fullchain out) (privkey out) (pin_path out) (server_spki_pin lib key))"
        using run1 Inr w None by simp_all
      have dir: "validate_directory d1 out = Inr ()" "1 \<le> days" "days \<le> max_validity_days" using pf(3) [OF Inr] by simp_all
      have "out \<noteq> fullchain out" "out \<noteq> pin_path out" "out \<noteq> privkey out"
        by (simp_all add: fullchain_def pin_path_def privkey_def)
      then have "validate_directory d2 out = Inr ()" using dir(1) by (simp add: validate_directory_iff ok(1))
      moreover have "\<forall>q k b. q \<notin> {fullchain out, privkey out, pin_path out} \<longrightarrow> node_at d2 q = Some (RegFile k b) \<longleftrightarrow> node_at d q = Some (RegFile k b)"
        using pf(2) by (simp add: ok(1))
      moreover have "\<forall>q \<in> {fullchain out, privkey out, pin_path out}. \<not> path_exists d q" using False by simp
      moreover have "node_at d2 (fullchain out) = Some (RegFile 420 (sc_cert_pem lib key (server_template_of now days)))"
        "node_at d2 (privkey out) = Some (RegFile 384 (sc_key_pem lib key))"
        "node_at d2 (pin_path out) = Some (RegFile 420 (ascii_bytes (server_spki_pin lib key @ [10])))"
        by (simp_all add: ok(1) fullchain_def pin_path_def privkey_def)
      ultimately show ?thesis using d' dir(2,3) by blast
    qed
  qed
qed

lemma reply_codes: "re_code (error_reply c msg) = c" "re_code (reply c t b) = c"
  by (simp_all add: error_reply_def json_reply_def reply_def)

lemma parse_generate_refuses: "parse_generate v = Inl rep \<Longrightarrow> re_code rep \<noteq> 200"
  by (auto simp: parse_generate_def reply_codes split: json.splits if_splits option.splits)

lemma body_length_refuses: "body_length l = Inl rep \<Longrightarrow> re_code rep \<noteq> 200"
  by (auto simp: body_length_def reply_codes split: option.splits if_splits)

text \<open>A request that reaches the generator, with its two arguments (\<open>true\<close> is the integer 1 in Python);
  and a body that \<open>json.loads\<close> does not get through.\<close>

definition asks_for :: "cert_env \<Rightarrow> str \<Rightarrow> str option \<Rightarrow> bytes \<Rightarrow> int \<Rightarrow> str \<Rightarrow> bool" where
  "asks_for env path length_str stream days dir \<longleftrightarrow> path = lit ''/generate'' \<and> (\<exists>l n t ps.
     length_str = Some l \<and> int_of_text l = Some n \<and> 0 \<le> n \<and> n \<le> 4096
     \<and> ce_decode env (take (nat n) stream) = Inr t \<and> \<not> ce_too_deep env t \<and> json_loads t = Some (JDict ps)
     \<and> map_of ps (lit ''certs_dir'') = Some (JStr dir)
     \<and> (map_of ps (lit ''days'') = Some (JInt days) \<or> (\<exists>b. map_of ps (lit ''days'') = Some (JBool b) \<and> days = (if b then 1 else 0))))"

definition unreadable :: "cert_env \<Rightarrow> bytes \<Rightarrow> exn \<Rightarrow> bool" where
  "unreadable env stream e \<longleftrightarrow> (\<exists>n. ce_decode env (take n stream) = Inl e
     \<or> (\<exists>t. ce_decode env (take n stream) = Inr t \<and> ce_too_deep env t \<and> e = recursion_error))"

lemma parse_generate_iff:
  "parse_generate v = Inr (days, dir) \<longleftrightarrow> (\<exists>ps. v = JDict ps \<and> map_of ps (lit ''certs_dir'') = Some (JStr dir)
     \<and> (map_of ps (lit ''days'') = Some (JInt days) \<or> (\<exists>b. map_of ps (lit ''days'') = Some (JBool b) \<and> days = (if b then 1 else 0))))"
proof -
  have f: "map_of ps k = Some x \<Longrightarrow> k \<in> set (map fst ps)" for ps k and x :: json
    by (metis domI dom_map_of_conv_image_fst list.set_map)
  have "missing_fields ps = []" if "map_of ps (lit ''days'') = Some x" "map_of ps (lit ''certs_dir'') = Some y" for ps x y
    using f [OF that(1)] f [OF that(2)] by (simp add: missing_fields_def)
  then show ?thesis
    by (cases v) (auto simp: parse_generate_def split: option.splits json.splits)
qed

lemma body_length_iff:
  "body_length length_str = Inr n \<longleftrightarrow> (\<exists>l. length_str = Some l \<and> int_of_text l = Some n \<and> 0 \<le> n \<and> n \<le> 4096)"
  by (auto simp: body_length_def max_generate_body_bytes_def split: option.splits if_splits)

lemma read_generate_iff: "read_generate env path length_str stream = Inr (days, dir) \<longleftrightarrow> asks_for env path length_str stream days dir"
proof -
  have "read_generate env path length_str stream = Inr (days, dir) \<longleftrightarrow> path = lit ''/generate'' \<and>
      (\<exists>n t v. body_length length_str = Inr n \<and> ce_decode env (take (nat n) stream) = Inr t \<and> \<not> ce_too_deep env t
        \<and> json_loads t = Some v \<and> parse_generate v = Inr (days, dir))"
    by (auto simp: read_generate_def split: sum.splits option.splits if_splits)
  then show ?thesis unfolding asks_for_def body_length_iff parse_generate_iff by blast
qed

lemma read_generate_refuses:
  "read_generate env path length_str stream = Inl r \<Longrightarrow>
     (\<exists>rep. r = Inr rep \<and> re_code rep \<noteq> 200) \<or> (\<exists>e. r = Inl e \<and> unreadable env stream e)"
  using parse_generate_refuses body_length_refuses
  by (auto simp: read_generate_def unreadable_def reply_codes split: if_splits sum.splits option.splits)

lemma pin_file_normal:
  assumes "\<And>x. length (sc_sha256 lib x) = 32"
  shows "normalize_server_pin (server_spki_pin lib key @ [10]) = Inr (server_spki_pin lib key)"
proof -
  have pin: "server_spki_pin lib key = server_pin_prefix @ encode_audio_base64 (sc_sha256 lib (sc_spki lib key))"
    by (simp add: server_spki_pin_def server_pin_prefix_def)
  then have "py_strip (server_spki_pin lib key @ [10]) = py_strip (server_spki_pin lib key)"
    by (simp add: py_strip_def py_space_def server_pin_prefix_def lit_def)
  then show ?thesis using pin_normal_form [OF assms] pin by (simp add: normalize_server_pin_def)
qed

subsection \<open>Properties\<close>

text \<open>What the generator promises the client: after a run that succeeded, the key is stored under
  mode 0600 in a directory of mode 0700, certificate and pin under 0644; the text of the pin
  file, with its newline, is what \<open>_normalize_server_pin\<close> of the client turns into the reported
  pin; and the pinned connection accepts every certificate that carries the generated key.\<close>

theorem server_cert_usable:
  assumes sha: "\<And>x. length (sc_sha256 lib x) = 32"
    and run: "generate_cert lib m days out key now d = (Inr (CertGenerated c k p pin), d')"
  shows "node_at d' k = Some (RegFile 384 (sc_key_pem lib key)) \<and> validate_directory d' out = Inr ()
    \<and> node_at d' c = Some (RegFile 420 (sc_cert_pem lib key (server_template_of now days)))
    \<and> node_at d' p = Some (RegFile 420 (ascii_bytes (pin @ [10])))
    \<and> normalize_server_pin (pin @ [10]) = Inr pin
    \<and> (\<forall>spki_of der. der \<noteq> [] \<and> spki_of der = Inr (sc_spki lib key)
        \<longrightarrow> pinned_connect spki_of (sc_sha256 lib) pin (PeerCert (Some der)) = (Inr (), False))"
proof -
  have f: "c = fullchain out" "k = privkey out" "p = pin_path out" "pin = server_spki_pin lib key"
    using generate_cert_cases [OF run] by auto
  have pin: "pin = server_pin_prefix @ encode_audio_base64 (sc_sha256 lib (sc_spki lib key))"
    by (simp add: f server_spki_pin_def server_pin_prefix_def)
  have n: "normalize_server_pin (pin @ [10]) = Inr pin"
    using pin_file_normal [OF sha] f by simp
  have "pinned_connect spki_of (sc_sha256 lib) pin (PeerCert (Some der)) = (Inr (), False)"
    if "der \<noteq> []" "spki_of der = Inr (sc_spki lib key)" for spki_of der
    using that by (simp add: pinned_connect_def spki_pin_def pin)
  then show ?thesis using generate_cert_cases [OF run] f n by auto
qed

text \<open>The three files of a run in a directory, where none of them was, and no other change.\<close>

definition complete_set :: "cert_env \<Rightarrow> int \<Rightarrow> path \<Rightarrow> fs \<Rightarrow> fs \<Rightarrow> bool" where
  "complete_set env days out d d' \<longleftrightarrow> validate_directory d' out = Inr ()
     \<and> node_at d' (fullchain out) = Some (RegFile 420 (sc_cert_pem (ce_crypto env) (ce_key env) (server_template_of (ce_now env) days)))
     \<and> node_at d' (pin_path out) = Some (RegFile 420 (ascii_bytes (server_spki_pin (ce_crypto env) (ce_key env) @ [10])))
     \<and> node_at d' (privkey out) = Some (RegFile 384 (sc_key_pem (ce_crypto env) (ce_key env)))
     \<and> (\<forall>q \<in> {fullchain out, privkey out, pin_path out}. \<not> path_exists d q)
     \<and> (\<forall>q k b. q \<notin> {fullchain out, privkey out, pin_path out} \<longrightarrow> node_at d' q = Some (RegFile k b) \<longleftrightarrow> node_at d q = Some (RegFile k b))"

text \<open>C40. Every request to the generator ends in one way. A request that is no \<open>POST /generate\<close> with a
  length from 0 to 4096, a JSON object and in it a string \<open>certs_dir\<close> and an integer \<open>days\<close> touches
  nothing: it is refused with another status than 200, or the handler raises what reading the body
  raised (a decoding error, or a \<open>RecursionError\<close>). Such a request for a number of days and a
  directory ends in one of three ways: the handler raises an \<open>OSError\<close>; or it is answered 200 with an
  error message, and no file was created or changed; or it is answered 200 with the paths and
  the pin of a complete set for exactly these arguments. Then the days are between 1 and 3650, the
  requested directory has mode 0700 and in it, where none of them was before, are the certificate
  with that validity (0644), the pin of its key and a newline (0644) and the key (0600); and no other
  file was created or changed.\<close>

theorem post_outcome:
  assumes "do_POST env path length_str body d = (r, d')"
  shows "(\<nexists>days dir. asks_for env path length_str body days dir) \<and> d' = d
        \<and> ((\<exists>rep. r = Inr rep \<and> re_code rep \<noteq> 200) \<or> (\<exists>e. r = Inl e \<and> unreadable env body e))
    \<or> (\<exists>days dir. asks_for env path length_str body days dir
        \<and> ((\<exists>e. r = Inl e \<and> is_os_error e)
          \<or> (\<exists>msg. r = Inr (error_reply 200 msg) \<and> (\<forall>q k b. node_at d' q = Some (RegFile k b) \<longleftrightarrow> node_at d q = Some (RegFile k b)))
          \<or> (let out = ce_path env dir
             in r = Inr (json_reply 200 (result_fields (CertGenerated (fullchain out) (privkey out) (pin_path out)
                  (server_spki_pin (ce_crypto env) (ce_key env)))))
              \<and> 1 \<le> days \<and> days \<le> max_validity_days \<and> complete_set env days out d d')))"
proof (cases "read_generate env path length_str body")
  case (Inl x)
  then have "r = x" "d' = d" using assms by (simp_all add: do_POST_def)
  moreover have "\<nexists>days dir. asks_for env path length_str body days dir" using Inl by (simp flip: read_generate_iff)
  ultimately show ?thesis using read_generate_refuses [OF Inl] by blast
next
  case (Inr x)
  obtain days dir where x: "x = (days, dir)" by (cases x)
  then have asks: "asks_for env path length_str body days dir" using Inr by (simp flip: read_generate_iff)
  obtain r1 d1 where g: "generate_cert (ce_crypto env) (ce_mode env) days (ce_path env dir) (ce_key env) (ce_now env) d = (r1, d1)"
    by fastforce
  have run: "do_POST env path length_str body d
      = (case r1 of Inl e \<Rightarrow> (Inl e, d1) | Inr c \<Rightarrow> (Inr (json_reply 200 (result_fields c)), d1))"
    using Inr x g by (simp add: do_POST_def split: sum.splits)
  note res = assms [unfolded run]
  from generate_cert_cases [OF g] show ?thesis
  proof (elim disjE exE conjE)
    fix e assume "r1 = Inl e" "is_os_error e"
    then show ?thesis using res asks by auto
  next
    fix msg assume "r1 = Inr (CertError msg)" and q: "\<forall>q k b. node_at d1 q = Some (RegFile k b) \<longleftrightarrow> node_at d q = Some (RegFile k b)"
    then have "r = Inr (error_reply 200 msg)" "d' = d1" using res by (simp_all add: error_reply_def result_fields_def)
    then show ?thesis using q asks by blast
  qed (use res asks in \<open>auto simp: Let_def complete_set_def\<close>)
qed

text \<open>A run that failed between its three writes blocks the next one: the files it left are never
  replaced, so every later run for the directory only reports that certificate files exist.\<close>

theorem partial_files_block:
  assumes "generate_cert lib m days out key now d = (Inl e, d')" and "path_exists d' (fullchain out)"
  shows "generate_cert lib2 m2 days2 out key2 now2 d'
    = (Inr (CertError (lit ''Certificate files already exist in '' @ path_text out @ lit ''. Remove them first.'')), d')"
  using assms(2) by (simp add: generate_cert_def)

subsection \<open>Witnesses\<close>

definition demo_sc :: server_crypto where
  "demo_sc = \<lparr>sc_cert_pem = (\<lambda>k t. [2]), sc_key_pem = (\<lambda>k. [3]), sc_spki = (\<lambda>k. [4]), sc_sha256 = (\<lambda>x. replicate 32 (hd x))\<rparr>"

lemma demo_sc_simps: "sc_cert_pem demo_sc k t = [2]" "sc_key_pem demo_sc k = [3]" "sc_spki demo_sc k = [4]"
  "length (sc_sha256 demo_sc x) = 32"
  by (simp_all add: demo_sc_def)

abbreviation demo_dir :: path where "demo_dir \<equiv> [lit ''certs'']"

definition demo_server_disk :: "nat \<Rightarrow> fs" where
  "demo_server_disk n = \<lparr>nodes = [(demo_dir, Directory 448)], locked = [], space = n\<rparr>"

lemma demo_server_nodes:
  "node_at (demo_server_disk n) p = (if p = demo_dir then Some (Directory 448) else None)"
  "locked (demo_server_disk n) = []" "space (demo_server_disk n) = n"
  by (simp_all add: demo_server_disk_def node_at_def)

lemma demo_prepare: "prepare_server m 1 demo_dir (demo_server_disk n) = (Inr (), demo_server_disk n)"
  by (simp add: prepare_server_def server_validate_days_def max_validity_days_def server_directory_eq
      create_or_validate_directory_def path_exists_def follow_plain is_symlink_def demo_server_nodes validate_directory_ok)

lemma demo_new: "\<not> path_exists (demo_server_disk n) [lit ''certs'', x]"
  by (simp add: path_exists_def follow_plain is_symlink_def demo_server_nodes)

lemma demo_generate:
  "\<exists>d'. generate_cert demo_sc 493 1 demo_dir (EcPrivate p256 5) 0 (demo_server_disk 1000)
     = (Inr (CertGenerated (fullchain demo_dir) (privkey demo_dir) (pin_path demo_dir) (server_spki_pin demo_sc (EcPrivate p256 5))), d')"
proof -
  have len: "length (ascii_bytes (server_spki_pin demo_sc k @ [10])) = 52" for k
    by (simp add: ascii_bytes_def server_spki_pin_def length_encode demo_sc_simps)
  obtain d1 where 1: "write_exclusive (fullchain demo_dir) [2] 420 (demo_server_disk 1000) = (None, d1)"
    "node_at d1 = (node_at (demo_server_disk 1000))(fullchain demo_dir \<mapsto> RegFile 420 [2])" "locked d1 = []" "space d1 = 999"
    using write_exclusive_free [of "fullchain demo_dir" "demo_server_disk 1000" "[2]" 420]
    by (auto simp: demo_server_nodes fullchain_def path_parent_def is_dir_def)
  obtain d2 where 2: "write_exclusive (pin_path demo_dir) (ascii_bytes (server_spki_pin demo_sc (EcPrivate p256 5) @ [10])) 420 d1 = (None, d2)"
    "node_at d2 = (node_at d1)(pin_path demo_dir \<mapsto> RegFile 420 (ascii_bytes (server_spki_pin demo_sc (EcPrivate p256 5) @ [10])))"
    "locked d2 = []" "space d2 = 947"
    using write_exclusive_free [of "pin_path demo_dir" d1 "ascii_bytes (server_spki_pin demo_sc (EcPrivate p256 5) @ [10])" 420] 1
    unfolding len by (auto simp: demo_server_nodes fullchain_def pin_path_def path_parent_def is_dir_def)
  obtain d3 where "write_exclusive (privkey demo_dir) [3] 384 d2 = (None, d3)"
    using write_exclusive_free [of "privkey demo_dir" d2 "[3]" 384] 1 2
    by (auto simp: demo_server_nodes fullchain_def pin_path_def privkey_def path_parent_def is_dir_def)
  then have "write_server_files demo_sc demo_dir 1 (EcPrivate p256 5) 0 (demo_server_disk 1000) = (None, d3)"
    using 1(1) 2(1) by (simp add: write_server_files_def writes_eq demo_sc_simps)
  then show ?thesis by (simp add: generate_cert_def demo_prepare demo_new fullchain_def privkey_def pin_path_def)
qed

theorem server_cert_usable_witness:
  "\<exists>d'. node_at d' (privkey demo_dir) = Some (RegFile 384 [3])
    \<and> pinned_connect Inr (sc_sha256 demo_sc) (server_spki_pin demo_sc (EcPrivate p256 5)) (PeerCert (Some [4])) = (Inr (), False)"
proof -
  obtain d' where g: "generate_cert demo_sc 493 1 demo_dir (EcPrivate p256 5) 0 (demo_server_disk 1000)
     = (Inr (CertGenerated (fullchain demo_dir) (privkey demo_dir) (pin_path demo_dir) (server_spki_pin demo_sc (EcPrivate p256 5))), d')"
    using demo_generate by blast
  note f = server_cert_usable [OF demo_sc_simps(4) g]
  then have "\<forall>spki_of der. der \<noteq> [] \<and> spki_of der = Inr [4] \<longrightarrow>
      pinned_connect spki_of (sc_sha256 demo_sc) (server_spki_pin demo_sc (EcPrivate p256 5)) (PeerCert (Some der)) = (Inr (), False)"
    by (simp add: demo_sc_simps)
  from this [rule_format, of "[4]" Inr] f show ?thesis by (intro exI [of _ d']) (simp add: demo_sc_simps)
qed

definition demo_cert_env :: cert_env where
  "demo_cert_env = \<lparr>ce_decode = (\<lambda>b. Inr (map unat b)), ce_too_deep = (\<lambda>_. False), ce_path = posix_parts, ce_crypto = demo_sc, ce_key = EcPrivate p256 5,
     ce_now = 0, ce_mode = 493\<rparr>"

text \<open>The request for one day in the directory \<open>certs\<close>.\<close>

definition demo_body :: str where
  "demo_body = json_dumps (JDict [(lit ''days'', JInt 1), (lit ''certs_dir'', JStr (lit ''certs''))])"

lemma demo_asks: "asks_for demo_cert_env (lit ''/generate'') (Some (show_nat 33)) (ascii_bytes demo_body) 1 (lit ''certs'')"
proof -
  have loads: "json_loads demo_body = Some (JDict [(lit ''days'', JInt 1), (lit ''certs_dir'', JStr (lit ''certs''))])"
    unfolding demo_body_def by (rule json_roundtrip_raw) (simp add: lit_def scalar_char_def)
  have eq: \<open>demo_body = lit ''{"days": 1, "certs_dir": "certs"}''\<close>
    by (simp add: demo_body_def dump_string_def escape_char_def show_int_def show_nat.simps lit_def)
  have "map unat (ascii_bytes demo_body) = demo_body" "length (ascii_bytes demo_body) = 33"
    unfolding eq by (simp_all add: ascii_bytes_def lit_def unat_of_nat)
  with loads show ?thesis
    by (simp add: asks_for_def demo_cert_env_def int_of_show_nat lit_def)
qed

theorem post_outcome_witness:
  "\<exists>d'. do_POST demo_cert_env (lit ''/generate'') (Some (show_nat 33)) (ascii_bytes demo_body) (demo_server_disk 1000)
      = (Inr (json_reply 200 (result_fields (CertGenerated (fullchain demo_dir) (privkey demo_dir) (pin_path demo_dir)
          (server_spki_pin demo_sc (EcPrivate p256 5))))), d')
    \<and> node_at d' (privkey demo_dir) = Some (RegFile 384 [3])"
proof -
  let ?r = "json_reply 200 (result_fields (CertGenerated (fullchain demo_dir) (privkey demo_dir) (pin_path demo_dir)
          (server_spki_pin demo_sc (EcPrivate p256 5))))"
  have env: "ce_crypto demo_cert_env = demo_sc" "ce_key demo_cert_env = EcPrivate p256 5" "ce_now demo_cert_env = 0"
      "ce_mode demo_cert_env = 493" "ce_path demo_cert_env = posix_parts"
    by (simp_all add: demo_cert_env_def)
  have dir: "posix_parts (lit ''certs'') = demo_dir" by (simp add: posix_parts_def lit_def split_on.simps)
  have only: "days = 1 \<and> dir = lit ''certs''" if "asks_for demo_cert_env (lit ''/generate'') (Some (show_nat 33)) (ascii_bytes demo_body) days dir" for days dir
    using that demo_asks by (simp flip: read_generate_iff)
  obtain d' where g: "generate_cert demo_sc 493 1 demo_dir (EcPrivate p256 5) 0 (demo_server_disk 1000)
     = (Inr (CertGenerated (fullchain demo_dir) (privkey demo_dir) (pin_path demo_dir) (server_spki_pin demo_sc (EcPrivate p256 5))), d')"
    using demo_generate by blast
  have run: "do_POST demo_cert_env (lit ''/generate'') (Some (show_nat 33)) (ascii_bytes demo_body) (demo_server_disk 1000) = (Inr ?r, d')"
    using demo_asks g unfolding do_POST_def read_generate_iff [symmetric] by (simp add: env dir)
  have body: "re_body (error_reply 200 msg) ! 2 = 101" "re_body ?r ! 2 = 99" for msg
    by (simp_all add: error_reply_def json_reply_def reply_def ascii_bytes_def result_fields_def dump_string_def escape_char_def lit_def [of "_ # _"]
        numeral_2_eq_2)
  have no_error: "?r \<noteq> error_reply 200 msg" for msg
  proof
    assume "?r = error_reply 200 msg"
    then have "re_body ?r ! 2 = 101" using body(1) [of msg] by metis
    then show False using body(2) by simp
  qed
  have "node_at d' (privkey demo_dir) = Some (RegFile 384 [3])"
    using post_outcome [OF run]
  proof (elim disjE exE conjE)
    fix days dir assume "asks_for demo_cert_env (lit ''/generate'') (Some (show_nat 33)) (ascii_bytes demo_body) days dir"
    note args = only [OF this]
    { fix e assume "Inr ?r = Inl e" then show ?thesis by simp }
    { fix msg assume "Inr ?r = Inr (error_reply 200 msg)" then show ?thesis using no_error [of msg] by (metis Inr_inject) }
    { assume "let out = ce_path demo_cert_env dir
        in Inr ?r = Inr (json_reply 200 (result_fields (CertGenerated (fullchain out) (privkey out) (pin_path out)
            (server_spki_pin (ce_crypto demo_cert_env) (ce_key demo_cert_env)))))
          \<and> 1 \<le> days \<and> days \<le> max_validity_days \<and> complete_set demo_cert_env days out (demo_server_disk 1000) d'"
      then show ?thesis using args by (simp add: Let_def env dir demo_sc_simps complete_set_def) }
  qed (use demo_asks in blast)+
  then show ?thesis using run by blast
qed

lemma demo_partial: "\<exists>d'. generate_cert demo_sc 493 1 demo_dir (EcPrivate p256 5) 0 (demo_server_disk 1) = (Inl OSErrorOther, d')
    \<and> path_exists d' (fullchain demo_dir)"
proof -
  have len: "length (ascii_bytes (server_spki_pin demo_sc k @ [10])) = 52" for k
    by (simp add: ascii_bytes_def server_spki_pin_def length_encode demo_sc_simps)
  obtain d1 where 1: "write_exclusive (fullchain demo_dir) [2] 420 (demo_server_disk 1) = (None, d1)"
    "node_at d1 = (node_at (demo_server_disk 1))(fullchain demo_dir \<mapsto> RegFile 420 [2])" "locked d1 = []" "space d1 = 0"
    using write_exclusive_free [of "fullchain demo_dir" "demo_server_disk 1" "[2]" 420]
    by (auto simp: demo_server_nodes fullchain_def path_parent_def is_dir_def)
  obtain e d2 where 2: "write_exclusive (pin_path demo_dir) (ascii_bytes (server_spki_pin demo_sc (EcPrivate p256 5) @ [10])) 420 d1 = (e, d2)"
    by fastforce
  then have e: "e = Some OSErrorOther"
    using write_exclusive_full [of "pin_path demo_dir" d1 "ascii_bytes (server_spki_pin demo_sc (EcPrivate p256 5) @ [10])" 420] 1 len
    by (auto simp: pin_path_def fullchain_def demo_server_nodes path_parent_def is_dir_def)
  have "node_at d2 (fullchain demo_dir) = node_at d1 (fullchain demo_dir)"
    using write_exclusive_keeps [of "fullchain demo_dir" "pin_path demo_dir"
        "ascii_bytes (server_spki_pin demo_sc (EcPrivate p256 5) @ [10])" 420 d1] 2
    by (simp add: fullchain_def pin_path_def)
  then have "node_at d2 (fullchain demo_dir) = Some (RegFile 420 [2])" using 1(2) by simp
  then have "path_exists d2 (fullchain demo_dir)" by (simp add: path_exists_def follow_plain is_symlink_def)
  moreover have "write_server_files demo_sc demo_dir 1 (EcPrivate p256 5) 0 (demo_server_disk 1) = (Some OSErrorOther, d2)"
    using 1(1) 2 e by (simp add: write_server_files_def writes_eq demo_sc_simps)
  then have "generate_cert demo_sc 493 1 demo_dir (EcPrivate p256 5) 0 (demo_server_disk 1) = (Inl OSErrorOther, d2)"
    by (simp add: generate_cert_def demo_prepare demo_new fullchain_def privkey_def pin_path_def)
  ultimately show ?thesis by blast
qed

theorem partial_files_block_witness:
  "\<exists>d'. generate_cert demo_sc 493 1 demo_dir (EcPrivate p256 5) 0 (demo_server_disk 1) = (Inl OSErrorOther, d')
    \<and> generate_cert demo_sc 493 9 demo_dir (EcPrivate p256 6) 7 d'
      = (Inr (CertError (lit ''Certificate files already exist in '' @ path_text demo_dir @ lit ''. Remove them first.'')), d')"
  using demo_partial partial_files_block by blast

end
