(* ===== verification/Provisioning.thy ===== *)
theory Provisioning
  imports Client_Bundle Server_Cert
begin

section \<open>The scripts together\<close>

text \<open>
  An operator runs the certificate generator of the server, the generator of the client
  certificates and that of the import bundle, in some order and as often as they like, on one
  file system. Here is what holds of every such sequence of runs, and that the three outputs fit
  together.
\<close>

subsection \<open>Runs of the scripts\<close>

inductive script_run :: "fs \<Rightarrow> fs \<Rightarrow> bool" where
  run_client_cert: "generate_client_auth_artifacts lib os_text m certs keys subject days ca_key client_key now now2 d = (r, d')
     \<Longrightarrow> script_run d d'"
| run_server_cert: "generate_cert sc m days out key now d = (r2, d') \<Longrightarrow> script_run d d'"
| run_request: "do_POST env path length_str stream d = (r3, d') \<Longrightarrow> script_run d d'"
| run_bundle: "write_client_bundle_file benv out url pin_file ca_file cert_file key_file d = (r4, d') \<Longrightarrow> script_run d d'"

lemma artifacts_keep:
  assumes "write_artifacts files d = (e, d')" "node_at d q = Some n"
  shows "node_at d' q = Some n"
proof -
  have "fold (\<lambda>(p, b, m) (e, d). if e = None then write_exclusive p b m d else (e, d)) files (x, d) = (e, d')
      \<Longrightarrow> node_at d q = Some n \<Longrightarrow> node_at d' q = Some n" for x d
  proof (induction files arbitrary: x d)
    case (Cons f files)
    obtain p b m where f: "f = (p, b, m)" by (cases f)
    obtain x1 d1 where w: "write_exclusive p b m d = (x1, d1)" by fastforce
    show ?case using Cons w any_file.never_overwrites [OF w] by (auto simp: f split: if_splits)
  qed simp
  then show ?thesis using assms by (simp add: write_artifacts_def)
qed

lemma server_files_keep:
  assumes "write_server_files lib out days key now d = (e, d')" "node_at d q = Some n"
  shows "node_at d' q = Some n"
  using assms public_file.never_overwrites secret_file.never_overwrites
  by (auto simp: write_server_files_def split: prod.splits option.splits)

text \<open>What a run keeps: regular files, and directories in the state the scripts ask for.\<close>

definition run_keeps :: "fs \<Rightarrow> fs \<Rightarrow> bool" where
  "run_keeps d d' \<longleftrightarrow> (\<forall>q k b. node_at d q = Some (RegFile k b) \<longrightarrow> node_at d' q = Some (RegFile k b))
     \<and> (\<forall>q. validate_directory d q = Inr () \<longrightarrow> validate_directory d' q = Inr ())"

lemma run_keeps_refl [simp]: "run_keeps d d"
  by (simp add: run_keeps_def)

lemma run_keeps_trans [trans]: "run_keeps d1 d2 \<Longrightarrow> run_keeps d2 d3 \<Longrightarrow> run_keeps d1 d3"
  by (simp add: run_keeps_def)

lemma run_keeps_nodes: "(\<And>q n. node_at d q = Some n \<Longrightarrow> node_at d' q = Some n) \<Longrightarrow> run_keeps d d'"
  by (simp add: run_keeps_def validate_directory_iff)

lemma create_run_keeps: "create_or_validate_directory m p d = (r, d') \<Longrightarrow> run_keeps d d'"
  using create_facts(3,4) [of m p d r d'] by (auto simp: run_keeps_def)

lemma prepare_run_keeps: "prepare_generation m certs keys subject days d = (r, d') \<Longrightarrow> run_keeps d d'"
  by (auto simp: prepare_generation_def split: sum.splits prod.splits dest!: create_run_keeps intro: run_keeps_trans)

lemma prepare_server_run_keeps: "prepare_server m days out d = (r, d') \<Longrightarrow> run_keeps d d'"
  by (auto simp: prepare_server_def server_directory_eq split: sum.splits dest!: create_run_keeps)

lemma client_cert_run_keeps:
  assumes "generate_client_auth_artifacts lib os_text m certs keys subject days ca_key client_key now now2 d = (r, d')"
  shows "run_keeps d d'"
proof -
  obtain r1 d1 where p: "prepare_generation m certs keys subject days d = (r1, d1)" by fastforce
  have w: "run_keeps d1 d2" if "write_and_validate lib os_text certs keys ca client client_key now2 d1 = (r2, d2)" for ca client r2 d2
    using that artifacts_keep [of _ d1]
    by (auto simp: write_and_validate_def Let_def intro!: run_keeps_nodes split: prod.splits option.splits sum.splits if_splits)
  show ?thesis
    using assms p prepare_run_keeps [OF p] w run_keeps_trans [of d d1 d']
    by (auto simp: generate_client_auth_artifacts_def Let_def split: if_splits sum.splits)
qed

lemma server_cert_run_keeps:
  assumes "generate_cert lib m days out key now d = (r, d')"
  shows "run_keeps d d'"
proof -
  obtain r1 d1 where p: "prepare_server m days out d = (r1, d1)" by fastforce
  have w: "run_keeps d1 d2" if "write_server_files lib out days key now d1 = (e, d2)" for e d2
    using server_files_keep [OF that] by (rule run_keeps_nodes)
  show ?thesis
    using assms p prepare_server_run_keeps [OF p] w run_keeps_trans [of d d1 d']
    by (auto simp: generate_cert_def split: if_splits sum.splits prod.splits option.splits)
qed

lemma bundle_run_keeps:
  assumes "write_client_bundle_file env out url pin_file ca_file cert_file key_file d = (r, d')"
  shows "run_keeps d d'"
proof -
  have w: "run_keeps d d1" if "write_private_json out b d = (x, d1)" for b x d1
    using that any_file.never_overwrites
    by (auto simp: write_private_json_eq Let_def intro!: run_keeps_nodes split: if_splits prod.splits option.splits)
  show ?thesis
    using assms w by (auto simp: write_client_bundle_file_def split: sum.splits prod.splits)
qed

lemma script_run_keeps: "script_run d d' \<Longrightarrow> run_keeps d d'"
proof (induction rule: script_run.induct)
  case (run_request env path length_str stream d r3 d')
  then show ?case
    by (auto simp: do_POST_def split: sum.splits prod.splits dest!: server_cert_run_keeps)
qed (fact client_cert_run_keeps server_cert_run_keeps bundle_run_keeps)+

interpretation script_runs: invariant_system "\<lambda>x. x = d" script_run "run_keeps d" for d
  by unfold_locales (auto intro: run_keeps_trans script_run_keeps)

text \<open>The verdict on a set of client certificates depends on the files and directories alone.\<close>

lemma validation_kept:
  assumes "run_keeps d d'" "validate_client_auth_artifacts lib certs keys now d = Inr ()"
  shows "validate_client_auth_artifacts lib certs keys now d' = Inr ()"
proof -
  have f: "validate_file d p m = Inr () \<Longrightarrow> m \<noteq> 493 \<Longrightarrow> validate_file d' p m = Inr () \<and> read_bytes d' p = read_bytes d p" for p m
    using assms(1) read_regular [of d p m] read_regular [of d' p m] by (auto simp: validate_file_iff run_keeps_def)
  show ?thesis
    using assms f [of "ca_path certs" cert_mode] f [of "cert_path keys" cert_mode] f [of "key_path keys" key_mode]
    by (auto simp: validate_client_auth_artifacts_def bind_res_eq_Inr run_keeps_def load_ec_public_key_from_cert_def
        load_ec_private_key_def cert_mode_def key_mode_def)
qed

subsection \<open>Nothing is ever overwritten\<close>

text \<open>C13. Whatever the scripts are asked to do, in whatever order, and wherever a run breaks off (a refused
  argument, a full disk, an exception): a regular file that exists keeps its contents and its mode,
  so no run replaces a private key, a certificate or a bundle; and a set of client certificates
  that passes \<open>validate_client_auth_artifacts\<close> goes on passing it until the time ends it.\<close>

theorem scripts_never_overwrite:
  assumes "reach (\<lambda>x. x = d) script_run d'"
  shows "(node_at d q = Some (RegFile k b) \<longrightarrow> node_at d' q = Some (RegFile k b))
    \<and> (validate_client_auth_artifacts lib certs keys now d = Inr () \<longrightarrow> validate_client_auth_artifacts lib certs keys now d' = Inr ())"
  using script_runs.reach_inv [OF assms] validation_kept [of d d' lib certs keys now] by (auto simp: run_keeps_def)

subsection \<open>The outputs fit together\<close>

text \<open>What \<open>Encoding.PEM\<close> promises of a text: ASCII, between its two marks, with line feeds only. A key
  in the format PKCS8 is labelled \<open>PRIVATE KEY\<close>.\<close>

definition pem_shape :: "str \<Rightarrow> str \<Rightarrow> bool" where
  "pem_shape label t \<longleftrightarrow> py_startswith t (pem_begin label) \<and> py_endswith t (pem_end label) \<and> is_ascii t \<and> 13 \<notin> set t"

definition pem_ok :: "crypto \<Rightarrow> bool" where
  "pem_ok lib \<longleftrightarrow> (\<forall>c. pem_shape (lit ''CERTIFICATE'') (map unat (cert_pem lib c)))
     \<and> (\<forall>k. pem_shape (lit ''PRIVATE KEY'') (map unat (key_pem lib k)))"

lemma ascii_bytes_unat [simp]: "ascii_bytes (map unat b) = b"
  by (simp add: ascii_bytes_def comp_def)

definition issued_ca :: "crypto \<Rightarrow> private_key \<Rightarrow> rat \<Rightarrow> int \<Rightarrow> certificate" where
  "issued_ca lib k now days = sign_cert lib k (ca_template (public_of lib k) now days)"

definition issued_client :: "crypto \<Rightarrow> private_key \<Rightarrow> private_key \<Rightarrow> str \<Rightarrow> rat \<Rightarrow> int \<Rightarrow> certificate" where
  "issued_client lib k k2 subject now days = sign_cert lib k (client_template subject (public_of lib k2) now days)"

text \<open>What a successful run of the client certificate generator leaves.\<close>

lemma generated_set:
  assumes run: "generate_client_auth_artifacts lib os_text m certs keys subject days (EcPrivate p256 s) (EcPrivate p256 s2) now now2 d
      = (Inr (Generated a b c), d')"
    and lib: "crypto_ok lib" and t: "now \<le> time" "time < now + of_int days * 86400 - 1"
  shows "a = ca_path certs" "b = cert_path keys" "c = key_path keys"
    and "node_at d' a = Some (RegFile 420 (cert_pem lib (issued_ca lib (EcPrivate p256 s) now days)))"
    and "node_at d' b = Some (RegFile 420 (cert_pem lib (issued_client lib (EcPrivate p256 s) (EcPrivate p256 s2) subject now days)))"
    and "node_at d' c = Some (RegFile 384 (key_pem lib (EcPrivate p256 s2)))"
    and "validate_client_auth_artifacts lib certs keys time d' = Inr ()"
proof -
  let ?ca = "issued_ca lib (EcPrivate p256 s) now days"
  let ?cl = "issued_client lib (EcPrivate p256 s) (EcPrivate p256 s2) subject now days"
  let ?files = "[(ca_path certs, cert_pem lib ?ca, cert_mode), (cert_path keys, cert_pem lib ?cl, cert_mode),
         (key_path keys, key_pem lib (EcPrivate p256 s2), key_mode)]"
  obtain d1 where p: "prepare_generation m certs keys subject days d = (Inr (), d1)"
    and w: "write_artifacts ?files d1 = (None, d')" and abc: "a = ca_path certs" "b = cert_path keys" "c = key_path keys"
    using run by (auto simp: generate_client_auth_artifacts_def Let_def write_and_validate_def build_certificates_def bind_res_eq_Inr
        issued_ca_def issued_client_def split: if_splits sum.splits prod.splits option.splits)
  show "a = ca_path certs" "b = cert_path keys" "c = key_path keys" by (fact abc)+
  note n = write_three [OF w [unfolded cert_mode_def key_mode_def]]
  show "node_at d' a = Some (RegFile 420 (cert_pem lib ?ca))" "node_at d' b = Some (RegFile 420 (cert_pem lib ?cl))"
    "node_at d' c = Some (RegFile 384 (key_pem lib (EcPrivate p256 s2)))"
    using n by (simp_all add: abc fun_upd_apply)
  show "validate_client_auth_artifacts lib certs keys time d' = Inr ()"
    using prepare_facts(1) [OF p refl] generated_validates(1) [OF lib t _ _ issued_ca_def issued_client_def w] by blast
qed

text \<open>The verdict on the texts of such a set, later and after other runs.\<close>

lemma generated_material:
  assumes run: "generate_client_auth_artifacts lib os_text m certs keys subject days (EcPrivate p256 s) (EcPrivate p256 s2) now now2 d
      = (Inr (Generated a b c), d')"
    and lib: "crypto_ok lib" "pem_ok lib" and t: "now \<le> time" "time < now + of_int days * 86400 - 1"
  shows "validate_client_material lib time (map unat (cert_pem lib (issued_client lib (EcPrivate p256 s) (EcPrivate p256 s2) subject now days)))
    (map unat (key_pem lib (EcPrivate p256 s2))) (map unat (cert_pem lib (issued_ca lib (EcPrivate p256 s) now days))) = Inr ()"
proof -
  note g = generated_set [OF run lib(1) t]
  have v: "validate_directory d' certs = Inr ()" "validate_directory d' keys = Inr ()"
    using g(7) by (auto simp: validate_client_auth_artifacts_def bind_res_eq_Inr)
  show ?thesis
    using validations_agree [OF v, of "map unat (cert_pem lib (issued_ca lib (EcPrivate p256 s) now days))"
        "map unat (cert_pem lib (issued_client lib (EcPrivate p256 s) (EcPrivate p256 s2) subject now days))"
        "map unat (key_pem lib (EcPrivate p256 s2))" lib time] g lib(2)
    by (simp add: pem_ok_def pem_shape_def)
qed

text \<open>Reading the files back.\<close>

lemma read_pem:
  assumes "pem_shape label (map unat b)" "p \<noteq> []"
  shows "node_at d p = Some (RegFile 420 b) \<Longrightarrow> read_public_text d p = Inr (map unat b)"
    and "node_at d p = Some (RegFile 384 b) \<Longrightarrow> read_private_text d p = Inr (map unat b)"
    and "normalize_pem_block (map unat b) label = Inr (map unat b)"
  using assms read_texts [of "map unat b" p d] pem_block_kept [of "map unat b" label]
  by (simp_all add: pem_shape_def)

lemma pin_text_ascii:
  shows "is_ascii (server_spki_pin sc key @ [10])" "13 \<notin> set (server_spki_pin sc key @ [10])"
proof -
  have "list_all (\<lambda>c. c < 128 \<and> c \<noteq> 13) (server_spki_pin sc key)"
    using encode_plain by (auto simp: server_spki_pin_def list_all_iff) (auto simp: lit_def)
  then show "is_ascii (server_spki_pin sc key @ [10])" "13 \<notin> set (server_spki_pin sc key @ [10])"
    by (auto simp: is_ascii_def list_all_iff)
qed

text \<open>The bundle that three successful runs determine.\<close>

definition made_bundle :: "crypto \<Rightarrow> server_crypto \<Rightarrow> private_key \<Rightarrow> private_key \<Rightarrow> private_key \<Rightarrow> str \<Rightarrow> rat \<Rightarrow> int \<Rightarrow> str \<Rightarrow> client_bundle" where
  "made_bundle lib sc key ca_key client_key subject now days u =
     \<lparr>cb_server_url = u, cb_server_spki_pin = server_spki_pin sc key,
      cb_client_certificate_pem = map unat (cert_pem lib (issued_client lib ca_key client_key subject now days)),
      cb_client_private_key_pem = map unat (key_pem lib client_key)\<rparr>"

lemma bundle_from_files:
  assumes client: "generate_client_auth_artifacts (be_lib env) os_text m certs keys subject days (EcPrivate p256 s) (EcPrivate p256 s2) now now2 d
      = (Inr (Generated a b c), d')"
    and lib: "crypto_ok (be_lib env)" "pem_ok (be_lib env)" "\<And>x. length (sc_sha256 sc x) = 32"
    and t: "now \<le> be_now env" "be_now env < now + of_int days * 86400 - 1"
    and later: "run_keeps d' d4"
    and pin: "p \<noteq> []" "node_at d4 p = Some (RegFile 420 (ascii_bytes (server_spki_pin sc key @ [10])))"
    and u: "normalize_base_url (be_printable env) (be_bad_bracketed env) url = Inr u"
  defines "bundle \<equiv> made_bundle (be_lib env) sc key (EcPrivate p256 s) (EcPrivate p256 s2) subject now days u"
  shows "write_client_bundle_file env out url p a b c d4
    = (case write_private_json out bundle d4 of (Inl e, d1) \<Rightarrow> (Inl e, d1) | (Inr _, d1) \<Rightarrow> (Inr bundle, d1))"
proof -
  note g = generated_set [OF client lib(1) t]
  have abc: "a \<noteq> []" "b \<noteq> []" "c \<noteq> []" by (simp_all add: g(1-3) ca_path_def cert_path_def key_path_def)
  have shape: "pem_shape (lit ''CERTIFICATE'') (map unat (cert_pem (be_lib env) x))" "pem_shape (lit ''PRIVATE KEY'') (map unat (key_pem (be_lib env) k))" for x k
    using lib(2) by (simp_all add: pem_ok_def)
  have n: "node_at d4 a = node_at d' a" "node_at d4 b = node_at d' b" "node_at d4 c = node_at d' c"
    using later g(4-6) by (simp_all add: run_keeps_def)
  have r: "read_public_text d4 p = Inr (server_spki_pin sc key @ [10])"
    using read_texts(1) [OF pin_text_ascii pin] by simp
  show ?thesis
    using r g(4-6) [folded n] read_pem(1) [OF shape(1) abc(1)] read_pem(1) [OF shape(1) abc(2)] read_pem(2) [OF shape(2) abc(3)]
      read_pem(3) [OF shape(1) abc(1)] read_pem(3) [OF shape(2) abc(3)]
      generated_material [OF client lib(1,2) t] pin_file_normal [OF lib(3)] u
    by (simp add: write_client_bundle_file_def build_client_bundle_def bundle_def made_bundle_def split: prod.splits sum.splits)
qed

lemma write_bundle_free:
  assumes "out \<noteq> []" "node_at d out = None" "validate_directory d (path_parent out) = Inr ()" "locked d = []"
    and "length (bundle_text b) \<le> space d"
  shows "\<exists>d'. write_private_json out b d = (Inr (), d') \<and> node_at d' out = Some (RegFile 384 (bundle_text b))"
proof -
  have p: "is_dir d (path_parent out)" "path_is_dir d (path_parent out)" "\<not> is_symlink d (path_parent out)"
    using assms(3) by (auto simp: validate_directory_iff is_dir_def is_symlink_def path_is_dir_def follow_plain)
  show ?thesis
    using write_exclusive_free [OF assms(1,2) p(1) assms(4,5), of private_file_mode] p(2,3)
    by (auto simp: write_private_json_eq private_file_mode_def)
qed

text \<open>C12. Provisioning from end to end. The server's certificate was generated, then, whatever runs of the
  scripts came between, a set of client certificates. At any later time within the validity, again
  after any other runs, the bundle script accepts the pin file and the three PEM files just as the
  generators left them: with a server URL that is accepted, an output path that is free, in a directory of mode 0700, and room on a disk that locks nothing, it
  writes, under mode 0600, the bundle of exactly this pin, this certificate and this key; and a
  client that pins the server by it goes on with a connection exactly when the digest of the
  peer's key is that of the generated key.\<close>

theorem provisioning_fits:
  assumes lib: "crypto_ok (be_lib env)" "pem_ok (be_lib env)" "\<And>x. length (sc_sha256 sc x) = 32"
    and server: "generate_cert sc m days out key now d = (Inr (CertGenerated chain k p pin), d1)"
    and between: "reach (\<lambda>x. x = d1) script_run d2"
    and client: "generate_client_auth_artifacts (be_lib env) os_text m2 certs keys subject days2 (EcPrivate p256 s) (EcPrivate p256 s2)
      now2 now3 d2 = (Inr (Generated a b c), d3)"
    and after: "reach (\<lambda>x. x = d3) script_run d4"
    and t: "now2 \<le> be_now env" "be_now env < now2 + of_int days2 * 86400 - 1"
    and url: "normalize_base_url (be_printable env) (be_bad_bracketed env) url = Inr u"
    and out: "target \<noteq> []" "node_at d4 target = None" "validate_directory d4 (path_parent target) = Inr ()" "locked d4 = []"
      "length (bundle_text (made_bundle (be_lib env) sc key (EcPrivate p256 s) (EcPrivate p256 s2) subject now2 days2 u)) \<le> space d4"
  shows "\<exists>bundle d5. write_client_bundle_file env target url p a b c d4 = (Inr bundle, d5)
    \<and> node_at d5 target = Some (RegFile 384 (bundle_text bundle))
    \<and> bundle = \<lparr>cb_server_url = u, cb_server_spki_pin = pin,
        cb_client_certificate_pem = map unat (cert_pem (be_lib env)
          (issued_client (be_lib env) (EcPrivate p256 s) (EcPrivate p256 s2) subject now2 days2)),
        cb_client_private_key_pem = map unat (key_pem (be_lib env) (EcPrivate p256 s2))\<rparr>
    \<and> (\<forall>spki_of der spki. der \<noteq> [] \<and> spki_of der = Inr spki
        \<longrightarrow> pinned_connect spki_of (sc_sha256 sc) (cb_server_spki_pin bundle) (PeerCert (Some der))
          = (if sc_sha256 sc spki = sc_sha256 sc (sc_spki sc key) then (Inr (), False)
             else (Inl (SSLError (lit ''server public key pin mismatch'')), True)))"
proof -
  let ?b = "made_bundle (be_lib env) sc key (EcPrivate p256 s) (EcPrivate p256 s2) subject now2 days2 u"
  have sv: "p = pin_path out" "pin = server_spki_pin sc key" "node_at d1 p = Some (RegFile 420 (ascii_bytes (server_spki_pin sc key @ [10])))"
    using generate_cert_cases [OF server] by auto
  note k12 = script_runs.reach_inv [OF between] and k34 = script_runs.reach_inv [OF after]
  have "run_keeps d1 d4" using k12 client_cert_run_keeps [OF client] k34 by (blast intro: run_keeps_trans)
  then have pin: "p \<noteq> []" "node_at d4 p = Some (RegFile 420 (ascii_bytes (server_spki_pin sc key @ [10])))"
    using sv by (simp_all add: run_keeps_def pin_path_def)
  obtain d5 where w: "write_private_json target ?b d4 = (Inr (), d5)" "node_at d5 target = Some (RegFile 384 (bundle_text ?b))"
    using write_bundle_free [OF out] by blast
  have "write_client_bundle_file env target url p a b c d4 = (Inr ?b, d5)"
    using bundle_from_files [OF client lib t k34 pin url, where out = target] w(1) by simp
  moreover have "pinned_connect spki_of (sc_sha256 sc) pin (PeerCert (Some der))
      = (if sc_sha256 sc spki = sc_sha256 sc (sc_spki sc key) then (Inr (), False)
         else (Inl (SSLError (lit ''server public key pin mismatch'')), True))"
    if "der \<noteq> []" "spki_of der = Inr spki" for spki_of der spki
    using that by (simp add: pinned_connect_def spki_pin_def sv(2) server_spki_pin_def server_pin_prefix_def encode_inject)
  ultimately show ?thesis using w(2) by (simp add: made_bundle_def sv(2))
qed

subsection \<open>Runs that succeed\<close>

lemma write_new:
  assumes "p \<noteq> []" "node_at d p = None" "validate_directory d (path_parent p) = Inr ()" "locked d = []" "length b \<le> space d"
  shows "\<exists>d'. write_exclusive p b m d = (None, d') \<and> node_at d' = (node_at d)(p \<mapsto> RegFile m b)
    \<and> locked d' = [] \<and> space d' = space d - length b \<and> (\<forall>q. validate_directory d q = Inr () \<longrightarrow> validate_directory d' q = Inr ())"
proof -
  have "is_dir d (path_parent p)" using assms(3) by (simp add: validate_directory_iff is_dir_def)
  then obtain d' where w: "write_exclusive p b m d = (None, d')" "node_at d' = (node_at d)(p \<mapsto> RegFile m b)"
    "locked d' = []" "space d' = space d - length b"
    using write_exclusive_free [of p d b m] assms by auto
  have "run_keeps d d'" using any_file.never_overwrites [OF w(1)] by (rule run_keeps_nodes)
  then show ?thesis using w by (auto simp: run_keeps_def)
qed

lemma script_paths [simp]:
  "path_parent (fullchain out) = out" "path_parent (pin_path out) = out" "path_parent (privkey out) = out"
  "path_parent (ca_path out) = out" "path_parent (cert_path out) = out" "path_parent (key_path out) = out"
  "fullchain out \<noteq> []" "pin_path out \<noteq> []" "privkey out \<noteq> []" "ca_path out \<noteq> []" "cert_path out \<noteq> []" "key_path out \<noteq> []"
  "ca_path out \<noteq> cert_path dir" "ca_path out \<noteq> key_path dir"
  "fullchain out \<noteq> pin_path out" "fullchain out \<noteq> privkey out" "pin_path out \<noteq> privkey out" "cert_path out \<noteq> key_path out"
  by (simp_all add: fullchain_def pin_path_def privkey_def ca_path_def cert_path_def key_path_def path_parent_def lit_def)

lemmas script_paths_sym [simp] = script_paths(13-18) [symmetric]

lemma create_existing: "validate_directory d p = Inr () \<Longrightarrow> create_or_validate_directory m p d = (Inr (), d)"
proof -
  assume v: "validate_directory d p = Inr ()"
  then have "path_exists d p" by (auto simp: validate_directory_iff path_exists_def follow_plain is_symlink_def)
  then show ?thesis using v by (simp add: create_or_validate_directory_def)
qed

lemma new_path: "node_at d p = None \<Longrightarrow> p \<noteq> [] \<Longrightarrow> \<not> path_exists d p"
  by (simp add: path_exists_def follow_plain is_symlink_def)

text \<open>A directory in order and room on the disk are all the generators need.\<close>

lemma server_cert_possible:
  assumes dir: "validate_directory d out = Inr ()" "locked d = []" and days: "1 \<le> days" "days \<le> max_validity_days"
    and new: "node_at d (fullchain out) = None" "node_at d (privkey out) = None" "node_at d (pin_path out) = None"
    and room: "length (sc_cert_pem sc key (server_template_of now days)) + length (server_spki_pin sc key) + 1
      + length (sc_key_pem sc key) \<le> space d"
  shows "\<exists>d'. generate_cert sc m days out key now d = (Inr (CertGenerated (fullchain out) (privkey out) (pin_path out) (server_spki_pin sc key)), d')
    \<and> node_at d' = (node_at d)(fullchain out \<mapsto> RegFile 420 (sc_cert_pem sc key (server_template_of now days)),
        pin_path out \<mapsto> RegFile 420 (ascii_bytes (server_spki_pin sc key @ [10])), privkey out \<mapsto> RegFile 384 (sc_key_pem sc key))
    \<and> locked d' = [] \<and> space d' = space d - (length (sc_cert_pem sc key (server_template_of now days)) + length (server_spki_pin sc key) + 1
      + length (sc_key_pem sc key))"
proof -
  let ?cert = "sc_cert_pem sc key (server_template_of now days)" and ?pin = "ascii_bytes (server_spki_pin sc key @ [10])"
  have pin: "length ?pin = length (server_spki_pin sc key) + 1" by (simp add: ascii_bytes_def)
  have "length ?cert \<le> space d" using room by simp
  then obtain d1 where 1: "write_exclusive (fullchain out) ?cert 420 d = (None, d1)" "node_at d1 = (node_at d)(fullchain out \<mapsto> RegFile 420 ?cert)"
    "locked d1 = []" "space d1 = space d - length ?cert" "validate_directory d1 out = Inr ()"
    using write_new [of "fullchain out" d ?cert 420] dir new by auto
  have "length ?pin \<le> space d1" using room 1(4) pin by simp
  then obtain d2 where 2: "write_exclusive (pin_path out) ?pin 420 d1 = (None, d2)" "node_at d2 = (node_at d1)(pin_path out \<mapsto> RegFile 420 ?pin)"
    "locked d2 = []" "space d2 = space d1 - length ?pin" "validate_directory d2 out = Inr ()"
    using write_new [of "pin_path out" d1 ?pin 420] 1 new by auto
  have "length (sc_key_pem sc key) \<le> space d2" using room 1(4) 2(4) pin by simp
  then obtain d3 where 3: "write_exclusive (privkey out) (sc_key_pem sc key) 384 d2 = (None, d3)"
    "node_at d3 = (node_at d2)(privkey out \<mapsto> RegFile 384 (sc_key_pem sc key))"
    "locked d3 = []" "space d3 = space d2 - length (sc_key_pem sc key)"
    using write_new [of "privkey out" d2 "sc_key_pem sc key" 384] 1 2 new by auto
  have "write_server_files sc out days key now d = (None, d3)"
    by (simp add: write_server_files_def writes_eq 1(1) 2(1) 3(1))
  moreover have "prepare_server m days out d = (Inr (), d)"
    using days dir by (simp add: prepare_server_def server_validate_days_def server_directory_eq create_existing)
  moreover have "\<not> path_exists d (fullchain out)" "\<not> path_exists d (privkey out)" "\<not> path_exists d (pin_path out)"
    using new by (simp_all add: new_path)
  ultimately have "generate_cert sc m days out key now d = (Inr (CertGenerated (fullchain out) (privkey out) (pin_path out) (server_spki_pin sc key)), d3)"
    by (simp add: generate_cert_def)
  then show ?thesis using 1(2,4) 2(2,4) 3(2-4) pin by (intro exI [of _ d3]) simp
qed

lemma client_cert_possible:
  fixes s s2 :: int
  assumes lib: "crypto_ok lib" and dirs: "validate_directory d certs = Inr ()" "validate_directory d keys = Inr ()" "locked d = []"
    and args: "validate_subject subject = Inr ()" "length (utf8_bytes subject) \<le> 64" "1 \<le> days" "days \<le> max_validity_days"
    and t: "now \<le> now2" "now2 < now + of_int days * 86400 - 1"
    and new: "node_at d (ca_path certs) = None" "node_at d (cert_path keys) = None" "node_at d (key_path keys) = None"
  defines "ca \<equiv> cert_pem lib (issued_ca lib (EcPrivate p256 s) now days)"
    and "cert \<equiv> cert_pem lib (issued_client lib (EcPrivate p256 s) (EcPrivate p256 s2) subject now days)"
    and "key \<equiv> key_pem lib (EcPrivate p256 s2)"
  assumes room: "length ca + length cert + length key \<le> space d"
  shows "\<exists>d'. generate_client_auth_artifacts lib os_text m certs keys subject days (EcPrivate p256 s) (EcPrivate p256 s2) now now2 d
      = (Inr (Generated (ca_path certs) (cert_path keys) (key_path keys)), d')
    \<and> node_at d' = (node_at d)(ca_path certs \<mapsto> RegFile 420 ca, cert_path keys \<mapsto> RegFile 420 cert, key_path keys \<mapsto> RegFile 384 key)
    \<and> locked d' = [] \<and> space d' = space d - (length ca + length cert + length key)"
proof -
  have "length ca \<le> space d" using room by simp
  then obtain d1 where 1: "write_exclusive (ca_path certs) ca 420 d = (None, d1)" "node_at d1 = (node_at d)(ca_path certs \<mapsto> RegFile 420 ca)"
    "locked d1 = []" "space d1 = space d - length ca" "validate_directory d1 keys = Inr ()"
    using write_new [of "ca_path certs" d ca 420] dirs new by auto
  have "length cert \<le> space d1" using room 1(4) by simp
  then obtain d2 where 2: "write_exclusive (cert_path keys) cert 420 d1 = (None, d2)" "node_at d2 = (node_at d1)(cert_path keys \<mapsto> RegFile 420 cert)"
    "locked d2 = []" "space d2 = space d1 - length cert" "validate_directory d2 keys = Inr ()"
    using write_new [of "cert_path keys" d1 cert 420] 1 new by auto
  have "length key \<le> space d2" using room 1(4) 2(4) by simp
  then obtain d3 where 3: "write_exclusive (key_path keys) key 384 d2 = (None, d3)" "node_at d3 = (node_at d2)(key_path keys \<mapsto> RegFile 384 key)"
    "locked d3 = []" "space d3 = space d2 - length key"
    using write_new [of "key_path keys" d2 key 384] 1 2 new by auto
  have w: "write_artifacts [(ca_path certs, ca, cert_mode), (cert_path keys, cert, cert_mode), (key_path keys, key, key_mode)] d = (None, d3)"
    using 1(1) 2(1) 3(1) by (simp add: write_artifacts_def cert_mode_def key_mode_def)
  have p: "prepare_generation m certs keys subject days d = (Inr (), d)"
    using args dirs by (simp add: prepare_generation_def validate_days_def create_existing)
  have "subject \<noteq> []" using args(1) by (auto simp: validate_subject_def)
  then have b: "build_certificates lib subject days (EcPrivate p256 s) (EcPrivate p256 s2) now
      = Inr (issued_ca lib (EcPrivate p256 s) now days, issued_client lib (EcPrivate p256 s) (EcPrivate p256 s2) subject now days)"
    using args(2) by (simp add: build_certificates_def crypto_okD(2) [OF lib] ca_subject_short issued_ca_def issued_client_def)
  have v: "validate_client_auth_artifacts lib certs keys now2 d3 = Inr ()"
    using generated_validates(1) [OF lib t dirs(1,2) issued_ca_def issued_client_def w [unfolded ca_def cert_def key_def]] .
  have e: "filter (path_exists d) [ca_path certs, cert_path keys, key_path keys] = []" using new by (simp add: new_path)
  have "generate_client_auth_artifacts lib os_text m certs keys subject days (EcPrivate p256 s) (EcPrivate p256 s2) now now2 d
      = (Inr (Generated (ca_path certs) (cert_path keys) (key_path keys)), d3)"
    unfolding generate_client_auth_artifacts_def Let_def e using p b w v
    by (simp add: write_and_validate_def ca_def cert_def key_def)
  then show ?thesis using 1(2,4) 2(2,4) 3(2-4) by (intro exI [of _ d3]) simp
qed

subsection \<open>Witnesses\<close>

text \<open>The toy package, its texts between the marks of a PEM block.\<close>

definition framed :: "str \<Rightarrow> bytes \<Rightarrow> bytes" where
  "framed label b = ascii_bytes (pem_begin label) @ b @ ascii_bytes (pem_end label)"

definition unframed :: "bytes \<Rightarrow> bytes" where
  "unframed b = drop 28 (take (length b - 26) b)"

definition pem_toy :: crypto where
  "pem_toy = toy\<lparr>cert_pem := (\<lambda>c. framed (lit ''CERTIFICATE'') (toy_pem c)), load_pem_cert := (\<lambda>b. toy_load (unframed b)),
     key_pem := (\<lambda>k. framed (lit ''PRIVATE KEY'') (key_pem toy k)), load_pem_key := (\<lambda>b. toy_load_key (unframed b))\<rparr>"

lemma mark_lengths:
  "length (ascii_bytes (pem_begin (lit ''CERTIFICATE''))) = 28" "length (ascii_bytes (pem_end (lit ''CERTIFICATE''))) = 26"
  "length (ascii_bytes (pem_begin (lit ''PRIVATE KEY''))) = 28" "length (ascii_bytes (pem_end (lit ''PRIVATE KEY''))) = 26"
  by (simp_all add: pem_begin_def pem_end_def ascii_bytes_def lit_def)

lemma unframed: "unframed (framed (lit ''CERTIFICATE'') b) = b" "unframed (framed (lit ''PRIVATE KEY'') b) = b"
  by (simp_all add: unframed_def framed_def mark_lengths)

lemma pem_toy_ok: "crypto_ok pem_toy"
  using toy_ok unfolding crypto_ok_def
  by (simp add: pem_toy_def unframed toy_loads) (auto simp: toy_def toy_loads)

lemma toy_put_bytes: "set (toy_put fs) \<subseteq> {0, 1, 2, 3}"
proof -
  have "set (toy_bits n) \<subseteq> {0, 1}" for n
    by (induction n rule: toy_bits.induct) (subst toy_bits.simps, auto)
  then have "x \<in> set (toy_bits n) \<Longrightarrow> x = 0 \<or> x = 1" for x n by blast
  then show ?thesis by (auto simp: toy_put_def)
qed

lemma framed_shape:
  assumes "set b \<subseteq> {0, 1, 2, 3}" "label = lit ''CERTIFICATE'' \<or> label = lit ''PRIVATE KEY''"
  shows "pem_shape label (map unat (framed label b))"
proof -
  have e: "map unat (ascii_bytes (pem_begin label)) = pem_begin label" "map unat (ascii_bytes (pem_end label)) = pem_end label"
    using assms(2) by (auto simp: pem_begin_def pem_end_def ascii_bytes_def lit_def)
  have "is_ascii (map unat b)" "13 \<notin> set (map unat b)"
    using assms(1) by (force simp: is_ascii_def list_all_iff)+
  then show ?thesis
    using assms(2) unfolding framed_def pem_shape_def map_append e
    by (auto simp: py_startswith_iff py_endswith_iff is_ascii_def) (auto simp: pem_begin_def pem_end_def lit_def)
qed

lemma pem_toy_shapes: "pem_ok pem_toy"
proof -
  have "set (key_pem toy k) \<subseteq> {0, 1, 2, 3}" for k
    using toy_put_bytes by (cases k) (simp_all add: toy_def)
  then show ?thesis
    using framed_shape toy_put_bytes by (simp add: pem_ok_def pem_toy_def toy_pem_def)
qed

definition new_env :: bundle_env where
  "new_env = \<lparr>be_lib = pem_toy, be_printable = (\<lambda>_. True), be_bad_bracketed = (\<lambda>_. None), be_now = 2\<rparr>"

abbreviation demo_made :: client_bundle where
  "demo_made \<equiv> made_bundle pem_toy demo_sc (EcPrivate p256 9) (EcPrivate p256 5) (EcPrivate p256 7) (lit ''client'') 0 1
     (lit ''https://'' @ authority (lit ''asr.example'') (Some 42862))"

definition cert_room :: nat where
  "cert_room = length (cert_pem pem_toy (issued_ca pem_toy (EcPrivate p256 5) 0 1))
     + length (cert_pem pem_toy (issued_client pem_toy (EcPrivate p256 5) (EcPrivate p256 7) (lit ''client'') 0 1))
     + length (key_pem pem_toy (EcPrivate p256 7))"

definition new_disk :: fs where
  "new_disk = \<lparr>nodes = [(demo_certs, Directory 448), (demo_keys, Directory 448)], locked = [],
     space = length (server_spki_pin demo_sc (EcPrivate p256 9)) + 3 + cert_room + length (bundle_text demo_made)\<rparr>"

lemma new_disk_nodes: "node_at new_disk = [demo_certs \<mapsto> Directory 448, demo_keys \<mapsto> Directory 448]" "locked new_disk = []"
  "space new_disk = length (server_spki_pin demo_sc (EcPrivate p256 9)) + 3 + cert_room + length (bundle_text demo_made)"
  by (auto simp: new_disk_def node_at_def)

lemma scripts_in_order:
  "\<exists>d1 d2. generate_cert demo_sc 493 1 demo_certs (EcPrivate p256 9) 0 new_disk
      = (Inr (CertGenerated (fullchain demo_certs) (privkey demo_certs) (pin_path demo_certs) (server_spki_pin demo_sc (EcPrivate p256 9))), d1)
    \<and> generate_client_auth_artifacts pem_toy (\<lambda>_. []) 493 demo_certs demo_keys (lit ''client'') 1 (EcPrivate p256 5) (EcPrivate p256 7) 0 1 d1
      = (Inr (Generated (ca_path demo_certs) (cert_path demo_keys) (key_path demo_keys)), d2)
    \<and> node_at d2 demo_out = None \<and> validate_directory d2 demo_keys = Inr () \<and> locked d2 = [] \<and> length (bundle_text demo_made) \<le> space d2"
proof -
  let ?k = "EcPrivate p256 9"
  have f: "node_at new_disk (fullchain demo_certs) = None" "node_at new_disk (privkey demo_certs) = None" "node_at new_disk (pin_path demo_certs) = None"
    by (simp_all add: new_disk_nodes fullchain_def privkey_def pin_path_def lit_def)
  obtain d1 where 1: "generate_cert demo_sc 493 1 demo_certs ?k 0 new_disk
      = (Inr (CertGenerated (fullchain demo_certs) (privkey demo_certs) (pin_path demo_certs) (server_spki_pin demo_sc ?k)), d1)"
    "node_at d1 = (node_at new_disk)(fullchain demo_certs \<mapsto> RegFile 420 [2],
        pin_path demo_certs \<mapsto> RegFile 420 (ascii_bytes (server_spki_pin demo_sc ?k @ [10])), privkey demo_certs \<mapsto> RegFile 384 [3])"
    "locked d1 = []" "space d1 = cert_room + length (bundle_text demo_made)"
    using server_cert_possible [OF _ new_disk_nodes(2) _ _ f, of 1 demo_sc ?k 0 493]
    by (auto simp: validate_directory_ok new_disk_nodes max_validity_days_def demo_sc_simps)
  have dirs: "validate_directory d1 demo_certs = Inr ()" "validate_directory d1 demo_keys = Inr ()"
    by (simp_all add: validate_directory_ok 1(2) new_disk_nodes fullchain_def privkey_def pin_path_def)
  have free: "node_at d1 (ca_path demo_certs) = None" "node_at d1 (cert_path demo_keys) = None" "node_at d1 (key_path demo_keys) = None"
    "node_at d1 demo_out = None"
    by (simp_all add: 1(2) new_disk_nodes fullchain_def privkey_def pin_path_def ca_path_def cert_path_def key_path_def lit_def)
  have args: "length (utf8_bytes (lit ''client'')) \<le> 64" "(1::int) \<le> max_validity_days" using toy_name(3) by (simp_all add: max_validity_days_def)
  obtain d2 where 2: "generate_client_auth_artifacts pem_toy (\<lambda>_. []) 493 demo_certs demo_keys (lit ''client'') 1 (EcPrivate p256 5) (EcPrivate p256 7) 0 1 d1
      = (Inr (Generated (ca_path demo_certs) (cert_path demo_keys) (key_path demo_keys)), d2)"
    "\<exists>a b c. node_at d2 = (node_at d1)(ca_path demo_certs \<mapsto> RegFile 420 a, cert_path demo_keys \<mapsto> RegFile 420 b, key_path demo_keys \<mapsto> RegFile 384 c)"
    "locked d2 = []" "space d2 = space d1 - cert_room"
    using client_cert_possible [OF pem_toy_ok dirs 1(3) toy_subject(1) args(1) order_refl args(2), of 0 1 5 7 "\<lambda>_. []" 493] free 1(4)
    by (fastforce simp: cert_room_def)
  have "node_at d2 demo_out = None" "validate_directory d2 demo_keys = Inr ()"
    using 2(2) free(4) dirs(2) by (auto simp: validate_directory_iff ca_path_def cert_path_def key_path_def lit_def)
  then show ?thesis using 1 2 by (intro exI [of _ d1] exI [of _ d2]) simp
qed

theorem provisioning_fits_witness:
  "\<exists>b d d5. write_client_bundle_file new_env demo_out demo_url (pin_path demo_certs) (ca_path demo_certs) (cert_path demo_keys)
      (key_path demo_keys) d = (Inr b, d5)
    \<and> pinned_connect Inr (sc_sha256 demo_sc) (cb_server_spki_pin b) (PeerCert (Some [4])) = (Inr (), False)
    \<and> pinned_connect Inr (sc_sha256 demo_sc) (cb_server_spki_pin b) (PeerCert (Some [5]))
        = (Inl (SSLError (lit ''server public key pin mismatch'')), True)"
proof -
  obtain d1 d2 where g: "generate_cert demo_sc 493 1 demo_certs (EcPrivate p256 9) 0 new_disk
      = (Inr (CertGenerated (fullchain demo_certs) (privkey demo_certs) (pin_path demo_certs) (server_spki_pin demo_sc (EcPrivate p256 9))), d1)"
    "generate_client_auth_artifacts pem_toy (\<lambda>_. []) 493 demo_certs demo_keys (lit ''client'') 1 (EcPrivate p256 5) (EcPrivate p256 7) 0 1 d1
      = (Inr (Generated (ca_path demo_certs) (cert_path demo_keys) (key_path demo_keys)), d2)"
    and o: "node_at d2 demo_out = None" "validate_directory d2 (path_parent demo_out) = Inr ()" "locked d2 = []" "length (bundle_text demo_made) \<le> space d2"
    using scripts_in_order by (auto simp: path_parent_def)
  have env: "be_lib new_env = pem_toy" "be_now new_env = 2" by (simp_all add: new_env_def)
  have lib: "crypto_ok (be_lib new_env)" "pem_ok (be_lib new_env)" by (simp_all add: env pem_toy_ok pem_toy_shapes)
  have init: "reach (\<lambda>x. x = d) script_run d" for d by (rule reach_init) simp
  have t: "(0::rat) \<le> be_now new_env" "be_now new_env < 0 + of_int 1 * 86400 - 1" by (simp_all add: env)
  obtain b d5 where "write_client_bundle_file new_env demo_out demo_url (pin_path demo_certs) (ca_path demo_certs) (cert_path demo_keys)
      (key_path demo_keys) d2 = (Inr b, d5)"
    and c: "\<forall>spki_of der spki. der \<noteq> [] \<and> spki_of der = Inr spki
        \<longrightarrow> pinned_connect spki_of (sc_sha256 demo_sc) (cb_server_spki_pin b) (PeerCert (Some der))
          = (if sc_sha256 demo_sc spki = sc_sha256 demo_sc (sc_spki demo_sc (EcPrivate p256 9)) then (Inr (), False)
             else (Inl (SSLError (lit ''server public key pin mismatch'')), True))"
    using provisioning_fits [OF lib demo_sc_simps(4) g(1) init g(2) [folded env(1)] init t demo_url_normal _ o(1-3)] o(4)
    unfolding env by auto
  moreover have "sc_sha256 demo_sc [4] = sc_sha256 demo_sc (sc_spki demo_sc (EcPrivate p256 9))"
    "sc_sha256 demo_sc [5] \<noteq> sc_sha256 demo_sc (sc_spki demo_sc (EcPrivate p256 9))"
    by (simp_all add: demo_sc_def)
  moreover have "pinned_connect Inr (sc_sha256 demo_sc) (cb_server_spki_pin b) (PeerCert (Some [n]))
      = (if sc_sha256 demo_sc [n] = sc_sha256 demo_sc (sc_spki demo_sc (EcPrivate p256 9)) then (Inr (), False)
         else (Inl (SSLError (lit ''server public key pin mismatch'')), True))" for n
    using c [rule_format, of "[n]" Inr "[n]"] by simp
  ultimately show ?thesis by (intro exI [of _ b] exI [of _ d2] exI [of _ d5]) simp
qed

theorem scripts_never_overwrite_witness:
  "\<exists>d1 d2. script_run d1 d2 \<and> node_at d1 (privkey demo_certs) = Some (RegFile 384 [3]) \<and> node_at d2 (privkey demo_certs) = Some (RegFile 384 [3])"
proof -
  obtain d1 d2 where g: "generate_cert demo_sc 493 1 demo_certs (EcPrivate p256 9) 0 new_disk
      = (Inr (CertGenerated (fullchain demo_certs) (privkey demo_certs) (pin_path demo_certs) (server_spki_pin demo_sc (EcPrivate p256 9))), d1)"
    "generate_client_auth_artifacts pem_toy (\<lambda>_. []) 493 demo_certs demo_keys (lit ''client'') 1 (EcPrivate p256 5) (EcPrivate p256 7) 0 1 d1
      = (Inr (Generated (ca_path demo_certs) (cert_path demo_keys) (key_path demo_keys)), d2)"
    using scripts_in_order by blast
  have s: "script_run d1 d2" using g(2) by (rule run_client_cert)
  then have r: "reach (\<lambda>x. x = d1) script_run d2" by (intro reach_step [OF reach_init]) simp_all
  have "node_at d1 (privkey demo_certs) = Some (RegFile 384 [3])"
    using generate_cert_cases [OF g(1)] by (simp add: demo_sc_simps)
  then show ?thesis using s scripts_never_overwrite [OF r] by blast
qed

end
