(* ===== verification/Uds_Socket.thy ===== *)
theory Uds_Socket
  imports File_Ops Utf8_Text
begin

section \<open>The server's Unix socket (\<open>server/__main__.py\<close>)\<close>

text \<open>
  \<open>_bind_private_uds\<close> and the \<open>try\<close>/\<open>finally\<close> of \<open>main\<close> around the web server. \<open>bind\<close> makes a socket
  node with the default mode; what \<open>socket()\<close>, \<open>listen\<close> and the server raise, and what the server
  does to the file system while it runs, are arguments. The default modes are \<open>0o777 & ~umask\<close>.
\<close>

subsection \<open>Binding\<close>

definition uvicorn_backlog :: int where
  "uvicorn_backlog = 64"

text \<open>The node that a path names when its directory is a symbolic link: the system follows it.\<close>

definition real_path :: "fs \<Rightarrow> path \<Rightarrow> path" where
  "real_path d p =
     (if is_symlink d (path_parent p)
      then (case follow 40 d (path_parent p) of Some q \<Rightarrow> q @ [path_name p] | None \<Rightarrow> p) else p)"

text \<open>\<open>sock.bind(str(path))\<close>: the address holds at most 107 bytes.\<close>

definition bind_unix :: "int \<Rightarrow> path \<Rightarrow> fs \<Rightarrow> exn option \<times> fs" where
  "bind_unix mode p d =
     (if length (utf8_bytes (path_text p)) > 107 then (Some OSErrorOther, d)
      else (let q = real_path d p
        in if q = [] \<or> node_at d q \<noteq> None then (Some OSErrorOther, d)
           else if \<not> is_dir d (path_parent q) then (Some FileNotFoundError, d)
           else if path_parent q \<in> set (locked d) then (Some OSErrorOther, d)
           else (None, d\<lparr>nodes := AList.update q (Socket mode) (nodes d)\<rparr>)))"

text \<open>\<open>with contextlib.suppress(FileNotFoundError): path.unlink()\<close>.\<close>

definition unlink_missing_ok :: "path \<Rightarrow> fs \<Rightarrow> exn option \<times> fs" where
  "unlink_missing_ok p d =
     (case unlink p d of (e, d1) \<Rightarrow> (if e = Some FileNotFoundError then None else e, d1))"

text \<open>The statements before the socket is made, one after the other.\<close>

definition prepare_uds :: "int \<Rightarrow> path \<Rightarrow> fs \<Rightarrow> exn option \<times> fs" where
  "prepare_uds mode0 p d =
     (case mkdir_parents mode0 True (path_parent p) d of
        (Some e, d1) \<Rightarrow> (Some e, d1)
      | (None, d1) \<Rightarrow>
          (case chmod 448 (path_parent p) d1 of
             (Some e, d2) \<Rightarrow> (Some e, d2)
           | (None, d2) \<Rightarrow> unlink_missing_ok (real_path d2 p) d2))"

text \<open>The \<open>try\<close> block (\<open>listen\<close> may raise), and its \<open>except\<close>, which closes the socket.\<close>

record uds_env =
  ue_mode :: int
  ue_socket :: "exn option"
  ue_listen :: "int \<Rightarrow> exn option"

definition bind_and_listen :: "uds_env \<Rightarrow> path \<Rightarrow> fs \<Rightarrow> exn option \<times> fs" where
  "bind_and_listen env p d =
     (case bind_unix (ue_mode env) p d of
        (Some e, d1) \<Rightarrow> (Some e, d1)
      | (None, d1) \<Rightarrow>
          (case chmod 384 (real_path d1 p) d1 of
             (Some e, d2) \<Rightarrow> (Some e, d2)
           | (None, d2) \<Rightarrow> (ue_listen env uvicorn_backlog, d2)))"

text \<open>The socket is left open when binding it ends with an exception that is no \<open>Exception\<close>; \<open>Closed\<close>
  also stands for one that was not made.\<close>

datatype sock = Listening | Closed | LeftOpen

definition bind_private_uds :: "uds_env \<Rightarrow> path \<Rightarrow> fs \<Rightarrow> sock res \<times> fs" where
  "bind_private_uds env p d =
     (case prepare_uds (ue_mode env) p d of
        (Some e, d1) \<Rightarrow> (Inl e, d1)
      | (None, d1) \<Rightarrow>
          (case ue_socket env of
             Some e \<Rightarrow> (Inl e, d1)
           | None \<Rightarrow>
               (case bind_and_listen env p d1 of
                  (None, d2) \<Rightarrow> (Inr Listening, d2)
                | (Some e, d2) \<Rightarrow>
                    if is_exception e
                    then (case unlink_missing_ok (real_path d2 p) d2 of (Some x, d3) \<Rightarrow> (Inl x, d3) | (None, d3) \<Rightarrow> (Inl e, d3))
                    else (Inl e, d2))))"

text \<open>\<open>main\<close> from the bound socket on: how the run ended, and the state of the socket. (The run does
  not replace the directory of the socket by a link: the last \<open>unlink\<close> is in the same directory.)\<close>

definition serve_uds :: "uds_env \<Rightarrow> path \<Rightarrow> (fs \<Rightarrow> exn option \<times> fs) \<Rightarrow> fs \<Rightarrow> exn option \<times> sock \<times> fs" where
  "serve_uds env p run d =
     (case bind_private_uds env p d of
        (Inl e, d1) \<Rightarrow> (Some e, if is_exception e \<or> ue_socket env \<noteq> None then Closed else LeftOpen, d1)
      | (Inr _, d1) \<Rightarrow>
          (case run d1 of (e, d2) \<Rightarrow>
             (case unlink_missing_ok (real_path d1 p) d2 of (Some x, d3) \<Rightarrow> (Some x, Closed, d3) | (None, d3) \<Rightarrow> (e, Closed, d3))))"

subsection \<open>Facts\<close>

lemma real_path_plain: "\<not> is_symlink d (path_parent p) \<Longrightarrow> real_path d p = p"
  by (simp add: real_path_def)

lemma parent_other: "p \<noteq> [] \<Longrightarrow> path_parent p \<noteq> p"
  by (metis path_parent_def append_butlast_last_id append_self_conv not_Cons_self2)

lemma mkdir_locked: "mkdir m p d = (e, d') \<Longrightarrow> locked d' = locked d"
  by (auto simp: mkdir_def split: if_splits)

lemma chmod_locked: "chmod m p d = (e, d') \<Longrightarrow> locked d' = locked d"
  by (auto simp: chmod_def split: option.splits if_splits)

lemma mkdir_parents_locked: "mkdir_parents m ok p d = (e, d') \<Longrightarrow> locked d' = locked d"
proof (induction m ok p d arbitrary: e d' rule: mkdir_parents.induct)
  case (1 m ok p d)
  obtain e1 d1 where k: "mkdir m p d = (e1, d1)" by fastforce
  note l1 = mkdir_locked [OF k]
  show ?case
  proof (cases "e1 = Some FileNotFoundError \<and> p \<noteq> []")
    case False
    then consider "e1 = None" | x where "e1 = Some x" "x \<noteq> FileNotFoundError" | "e1 = Some FileNotFoundError" "p = []"
      by (cases e1) auto
    then show ?thesis
      using 1(2) k l1 by cases (subst (asm) mkdir_parents.simps; auto split: exn.splits if_splits)+
  next
    case True
    then have k1: "mkdir m p d = (Some FileNotFoundError, d1)" "p \<noteq> []" using k by simp_all
    obtain e2 d2 where r: "mkdir_parents m True (path_parent p) d1 = (e2, d2)" by fastforce
    note ih = 1(1) [OF k1(1) [symmetric] refl refl k1(2) r]
    obtain e3 d3 where k3: "mkdir m p d2 = (e3, d3)" by fastforce
    show ?thesis
      using 1(2) k1 r ih l1 k3 mkdir_locked [OF k3]
      by (subst (asm) mkdir_parents.simps) (auto split: option.splits if_splits)
  qed
qed

lemma mkdir_is_dir: "mkdir m p d = (None, d') \<Longrightarrow> path_is_dir d' p"
  using mkdir_new [of m p d d'] by (simp add: path_is_dir_def follow_plain is_symlink_def is_dir_def)

lemma mkdir_parents_is_dir: "mkdir_parents m ok p d = (None, d') \<Longrightarrow> path_is_dir d' p"
proof -
  assume run: "mkdir_parents m ok p d = (None, d')"
  obtain e1 d1 where k: "mkdir m p d = (e1, d1)" by fastforce
  show ?thesis
  proof (cases "e1 = Some FileNotFoundError \<and> p \<noteq> []")
    case False
    then consider "e1 = None" | x where "e1 = Some x" "x \<noteq> FileNotFoundError" | "e1 = Some FileNotFoundError" "p = []"
      by (cases e1) auto
    then show ?thesis
      using run k mkdir_is_dir [of m p d d1] by cases (subst (asm) mkdir_parents.simps; auto split: exn.splits if_splits)+
  next
    case True
    obtain e2 d2 where r: "mkdir_parents m True (path_parent p) d1 = (e2, d2)" by fastforce
    obtain e3 d3 where k3: "mkdir m p d2 = (e3, d3)" by fastforce
    show ?thesis
      using run True k r k3 mkdir_is_dir [of m p d2 d3]
      by (subst (asm) mkdir_parents.simps) (auto split: option.splits if_splits)
  qed
qed

lemma unlink_missing_ok_facts:
  assumes "unlink_missing_ok p d = (e, d')"
  shows "e = None \<Longrightarrow> node_at d' p = None" "q \<noteq> p \<Longrightarrow> node_at d' q = node_at d q" "locked d' = locked d"
    "e = Some x \<Longrightarrow> d' = d \<and> (p \<in> set (locked d) \<or> is_dir d p)"
proof -
  obtain e1 where u: "unlink p d = (e1, d')" and e: "e = (if e1 = Some FileNotFoundError then None else e1)"
    using assms by (auto simp: unlink_missing_ok_def split: prod.splits)
  show "e = None \<Longrightarrow> node_at d' p = None" "q \<noteq> p \<Longrightarrow> node_at d' q = node_at d q" "locked d' = locked d"
    "e = Some x \<Longrightarrow> d' = d \<and> (p \<in> set (locked d) \<or> is_dir d p)"
    using u e by (auto simp: unlink_def split: if_splits)
qed

lemma os_exception: "is_os_error x \<Longrightarrow> is_exception x"
  by (cases x) simp_all

lemma unlink_missing_ok_error: "unlink_missing_ok p d = (Some x, d') \<Longrightarrow> is_exception x"
  by (auto simp: unlink_missing_ok_def unlink_def split: prod.splits if_splits)

lemma prepare_uds_facts:
  assumes run: "prepare_uds m p d = (e, d')"
  shows "locked d' = locked d"
    and "node_at d' q = Some (Socket k) \<Longrightarrow> \<not> is_symlink d (path_parent p) \<Longrightarrow> q \<noteq> path_parent p \<Longrightarrow> node_at d q = Some (Socket k)"
    and "e = None \<Longrightarrow> \<not> is_symlink d (path_parent p) \<Longrightarrow> node_at d' p = None"
    and "e = None \<Longrightarrow> path_parent p \<noteq> [] \<Longrightarrow> \<not> is_symlink d (path_parent p) \<Longrightarrow>
      node_at d' (path_parent p) = Some (Directory 448)"
    and "q \<notin> {p, path_parent p} \<Longrightarrow> \<not> is_symlink d (path_parent p) \<Longrightarrow>
      node_at d' q = node_at d q \<or> node_at d q = None \<and> (\<exists>n. node_at d' q = Some (Directory n))"
    and "\<not> is_symlink d (path_parent p) \<Longrightarrow> \<not> is_symlink d' (path_parent p)" "e = Some x \<Longrightarrow> is_exception x"
proof -
  let ?P = "path_parent p"
  obtain e1 d1 where k: "mkdir_parents m True ?P d = (e1, d1)" by fastforce
  obtain e2 d2 where c: "chmod 448 ?P d1 = (e2, d2)" by fastforce
  obtain e3 d3 where u: "unlink_missing_ok (real_path d2 p) d2 = (e3, d3)" by fastforce
  have run0: "(e, d') = (if e1 \<noteq> None then (e1, d1) else if e2 \<noteq> None then (e2, d2) else (e3, d3))"
    using run by (auto simp: prepare_uds_def k c u split: option.splits)
  note uf = unlink_missing_ok_facts [OF u]
  have adds: "only_dirs_added d d1" using mkdir_parents_facts [OF k] by blast
  have lk: "locked d1 = locked d" "locked d2 = locked d" "locked d3 = locked d"
    using mkdir_parents_locked [OF k] chmod_locked [OF c] uf(3) by simp_all
  have sl: "\<not> is_symlink d1 ?P" if "\<not> is_symlink d ?P"
    using adds that unfolding only_dirs_added_def is_symlink_def by (drule_tac spec [of _ ?P]) (auto split: option.splits node.splits)
  have cm: "node_at d2 = (node_at d1)(?P := node_at d2 ?P)" "e2 = None \<Longrightarrow> ?P \<noteq> [] \<Longrightarrow> e1 = None \<Longrightarrow> node_at d2 ?P = Some (Directory 448)"
    if ns: "\<not> is_symlink d ?P"
  proof -
    show "node_at d2 = (node_at d1)(?P := node_at d2 ?P)"
    proof (cases e2)
      case None
      obtain n where "node_at d2 = (node_at d1)(?P \<mapsto> with_mode 448 n)"
        using node_at_chmod [OF c [unfolded None] sl [OF ns]] by blast
      then show ?thesis by simp
    next
      case (Some x)
      then show ?thesis using chmod_os_error [of 448 ?P d1 x d2] c by simp
    qed
    show "node_at d2 ?P = Some (Directory 448)" if e: "e2 = None" "?P \<noteq> []" "e1 = None"
    proof -
      obtain n where n: "node_at d1 ?P = Some n" "node_at d2 = (node_at d1)(?P \<mapsto> with_mode 448 n)"
        using node_at_chmod [OF c [unfolded e(1)] sl [OF ns]] by blast
      have "path_is_dir d1 ?P" using mkdir_parents_is_dir k e(3) by simp
      then have "is_dir d1 ?P" by (simp add: path_is_dir_def follow_plain sl [OF ns])
      then show ?thesis using n e(2) by (cases n) (auto simp: is_dir_def)
    qed
  qed
  have sl2: "\<not> is_symlink d2 ?P" if ns: "\<not> is_symlink d ?P"
  proof (cases e2)
    case None
    obtain n where n: "node_at d1 ?P = Some n" "node_at d2 = (node_at d1)(?P \<mapsto> with_mode 448 n)"
      using node_at_chmod [OF c [unfolded None] sl [OF ns]] by blast
    then show ?thesis using sl [OF ns] by (cases n) (simp_all add: is_symlink_def)
  next
    case (Some x)
    then show ?thesis using chmod_os_error [of 448 ?P d1 x d2] c sl [OF ns] by simp
  qed
  have rp: "real_path d2 p = p" if "\<not> is_symlink d ?P" using real_path_plain [OF sl2 [OF that]] .
  note pP = parent_other [of p]
  show "locked d' = locked d" using run0 lk by (auto split: if_splits)
  show "e = None \<Longrightarrow> \<not> is_symlink d ?P \<Longrightarrow> node_at d' p = None" using run0 uf(1) rp by (auto split: if_splits)
  show "e = Some x \<Longrightarrow> is_exception x"
    using run0 mkdir_parents_facts [OF k] chmod_os_error [of 448 ?P d1 x d2] c u unlink_missing_ok_error [of "real_path d2 p" d2 x d3]
    by (auto split: if_splits intro: os_exception)
  show "e = None \<Longrightarrow> ?P \<noteq> [] \<Longrightarrow> \<not> is_symlink d ?P \<Longrightarrow> node_at d' ?P = Some (Directory 448)"
    using run0 cm(2) uf(2) [of ?P] pP rp by (cases "p = []") (auto simp: path_parent_def split: if_splits)
  have d3: "node_at d3 x = node_at d2 x \<or> node_at d3 x = None" for x
    using uf(1) uf(2) [of x] uf(4) by (cases "x = real_path d2 p"; cases e3) auto
  show "\<not> is_symlink d ?P \<Longrightarrow> \<not> is_symlink d' ?P"
    using run0 sl sl2 d3 [of ?P] by (auto simp: is_symlink_def split: if_splits)
  have steps: "node_at d1 q = node_at d q \<or> node_at d q = None \<and> (\<exists>n. node_at d1 q = Some (Directory n))"
    using adds unfolding only_dirs_added_def by blast
  show "node_at d' q = Some (Socket k) \<Longrightarrow> \<not> is_symlink d ?P \<Longrightarrow> q \<noteq> ?P \<Longrightarrow> node_at d q = Some (Socket k)"
  proof -
    assume a: "node_at d' q = Some (Socket k)" "\<not> is_symlink d ?P" "q \<noteq> ?P"
    have "node_at d2 q = node_at d1 q" using cm(1) [OF a(2)] a(3) by (metis fun_upd_apply)
    then have "node_at d1 q = Some (Socket k)" using run0 a(1) d3 [of q] by (auto split: if_splits)
    then show ?thesis using steps by auto
  qed
  show "q \<notin> {p, ?P} \<Longrightarrow> \<not> is_symlink d ?P \<Longrightarrow>
      node_at d' q = node_at d q \<or> node_at d q = None \<and> (\<exists>n. node_at d' q = Some (Directory n))"
  proof -
    assume a: "q \<notin> {p, ?P}" "\<not> is_symlink d ?P"
    have "node_at d2 q = node_at d1 q" using cm(1) [OF a(2)] a(1) by (metis fun_upd_apply insertCI)
    moreover have "node_at d3 q = node_at d2 q" using uf(2) a(1) rp [OF a(2)] by simp
    ultimately have "node_at d' q = node_at d1 q" using run0 by (auto split: if_splits)
    then show ?thesis using steps by simp
  qed
qed

lemma bind_and_listen_facts:
  assumes run: "bind_and_listen env p d = (e, d')" and free: "node_at d p = None" and ns: "\<not> is_symlink d (path_parent p)"
  shows "locked d' = locked d" "q \<noteq> p \<Longrightarrow> node_at d' q = node_at d q"
    and "e = None \<Longrightarrow> node_at d' p = Some (Socket 384)"
    and "node_at d' p = None \<or> (\<exists>m. node_at d' p = Some (Socket m) \<and> p \<noteq> [])"
    and "\<not> is_symlink d' (path_parent p)"
proof -
  obtain e1 d1 where b: "bind_unix (ue_mode env) p d = (e1, d1)" by fastforce
  have b1: "e1 = None \<Longrightarrow> node_at d1 = (node_at d)(p \<mapsto> Socket (ue_mode env)) \<and> p \<noteq> []" "e1 \<noteq> None \<Longrightarrow> d1 = d" "locked d1 = locked d"
    using b by (auto simp: bind_unix_def real_path_plain [OF ns] Let_def node_at_def AList.update_conv' split: if_splits)
  have "\<not> is_symlink d1 (path_parent p)"
    using b1(1,2) ns parent_other [of p] by (cases e1) (simp_all add: is_symlink_def)
  then have rp: "real_path d1 p = p" by (rule real_path_plain)
  obtain e2 d2 where c: "chmod 384 p d1 = (e2, d2)" by fastforce
  have run0: "(e, d') = (case e1 of Some x \<Rightarrow> (Some x, d1) | None \<Rightarrow>
      (case e2 of Some x \<Rightarrow> (Some x, d2) | None \<Rightarrow> (ue_listen env uvicorn_backlog, d2)))"
    unfolding run [symmetric] bind_and_listen_def b by (cases e1; cases e2; simp add: c rp)
  have c1: "e1 = None \<Longrightarrow> e2 = None \<Longrightarrow> node_at d2 = (node_at d1)(p \<mapsto> Socket 384)" "e2 \<noteq> None \<Longrightarrow> d2 = d1"
    using b1(1) c node_at_chmod [of 384 p d1 d2] chmod_os_error [of 384 p d1 _ d2] by (auto simp: is_symlink_def)
  note l2 = chmod_locked [OF c]
  show "locked d' = locked d" using run0 b1(3) l2 by (auto split: option.splits)
  show other: "q \<noteq> p \<Longrightarrow> node_at d' q = node_at d q" for q using run0 b1 c1 by (cases e1; cases e2) auto
  show "e = None \<Longrightarrow> node_at d' p = Some (Socket 384)" using run0 c1 by (cases e1; cases e2) auto
  show "node_at d' p = None \<or> (\<exists>m. node_at d' p = Some (Socket m) \<and> p \<noteq> [])" using run0 b1 c1 free by (cases e1; cases e2) auto
  show "\<not> is_symlink d' (path_parent p)"
  proof (cases "p = []")
    case True
    then have "d' = d" using run0 b1 by (cases e1) auto
    then show ?thesis using ns by simp
  next
    case False
    then show ?thesis using other [OF parent_other] ns by (simp add: is_symlink_def)
  qed
qed

lemma bind_and_listen_exception:
  assumes "bind_and_listen env p d = (Some x, d')" and "\<And>y. ue_listen env uvicorn_backlog = Some y \<Longrightarrow> is_exception y"
  shows "is_exception x"
proof -
  have "bind_unix (ue_mode env) p d = (Some x, d') \<or> (\<exists>q d3. chmod 384 q d3 = (Some x, d')) \<or> ue_listen env uvicorn_backlog = Some x"
    using assms(1) by (auto simp: bind_and_listen_def split: prod.splits option.splits)
  then show ?thesis
    using assms(2) chmod_os_error [of 384 _ _ x d'] os_exception by (auto simp: bind_unix_def Let_def split: if_splits)
qed

text \<open>A start that fails before the socket is bound.\<close>

lemma serve_uds_unbound:
  assumes "serve_uds env p run d = (e, s, d')" "prepare_uds (ue_mode env) p d = (e1, d1)" "e1 \<noteq> None \<or> ue_socket env \<noteq> None"
  shows "e \<noteq> None \<and> d' = d1 \<and> s = Closed"
proof (cases e1)
  case None
  then obtain x where "ue_socket env = Some x" using assms(3) by auto
  then have "serve_uds env p run d = (Some x, Closed, d1)" by (simp add: serve_uds_def bind_private_uds_def assms(2) None)
  then show ?thesis using assms(1) by auto
next
  case (Some x)
  then have "is_exception x" using prepare_uds_facts(7) assms(2) by blast
  then show ?thesis using assms(1,2) Some by (simp add: serve_uds_def bind_private_uds_def) auto
qed

subsection \<open>Properties\<close>

text \<open>C30. A socket that was bound is private: it has mode 0600 in a directory of mode 0700, and
  nothing else has changed but missing parent directories that were made (whatever was at its
  path before is gone).\<close>

theorem uds_private:
  assumes run: "bind_private_uds env p d = (Inr s, d')" and parent: "path_parent p \<noteq> []" "\<not> is_symlink d (path_parent p)"
  shows "s = Listening \<and> node_at d' p = Some (Socket 384) \<and> node_at d' (path_parent p) = Some (Directory 448)
    \<and> (\<forall>q. q \<notin> {p, path_parent p} \<longrightarrow>
          node_at d' q = node_at d q \<or> node_at d q = None \<and> (\<exists>m. node_at d' q = Some (Directory m)))"
proof -
  obtain d1 where p: "prepare_uds (ue_mode env) p d = (None, d1)" and b: "bind_and_listen env p d1 = (None, d')" "s = Listening"
    using run by (auto simp: bind_private_uds_def split: prod.splits option.splits if_splits)
  note pf = prepare_uds_facts [OF p]
  note bf = bind_and_listen_facts [OF b(1) pf(3) [OF refl parent(2)] pf(6) [OF parent(2)]]
  have "p \<noteq> []" using parent(1) by (auto simp: path_parent_def)
  then have "path_parent p \<noteq> p" by (metis path_parent_def append_butlast_last_id append_self_conv not_Cons_self2)
  then have "node_at d' (path_parent p) = Some (Directory 448)" using bf(2) pf(4) [OF refl parent] by simp
  moreover have "node_at d' q = node_at d q \<or> node_at d q = None \<and> (\<exists>m. node_at d' q = Some (Directory m))"
    if "q \<notin> {p, path_parent p}" for q
    using bf(2) [of q] pf(5) [OF that parent(2)] that by simp
  ultimately show ?thesis using b(2) bf(3) by simp
qed

text \<open>C31. No socket is left behind: however the server ends (the run returned or raised, or binding
  failed at any step with an \<open>Exception\<close>), the listening socket is closed, and there is no socket
  at its path, unless the operating system refuses to remove it or an older one was there and
  the start failed before it was removed.\<close>

theorem uds_released:
  assumes run: "serve_uds env p run d = (e, s, d')"
    and quiet: "\<And>x. locked (snd (run x)) = locked x" "\<And>x. is_dir (snd (run x)) p \<Longrightarrow> is_dir x p"
    and listen: "\<And>x. ue_listen env uvicorn_backlog = Some x \<Longrightarrow> is_exception x"
    and p: "p \<notin> set (locked d)" "\<not> is_symlink d (path_parent p)" "p \<noteq> []"
  shows "s = Closed \<and> (\<forall>m. node_at d' p = Some (Socket m) \<longrightarrow> node_at d p = Some (Socket m) \<and> e \<noteq> None)"
proof -
  have pP: "p \<noteq> path_parent p" using p(3) by (metis path_parent_def append_butlast_last_id append_self_conv not_Cons_self2)
  obtain e1 d1 where pr: "prepare_uds (ue_mode env) p d = (e1, d1)" by fastforce
  note pf = prepare_uds_facts [OF pr]
  obtain e2 d2 where bl: "bind_and_listen env p d1 = (e2, d2)" by fastforce
  have gone: "node_at x' p = None" "y = None"
    if "unlink_missing_ok p x = (y, x')" "locked x = locked d" "\<not> is_dir x p" for x y x'
    using unlink_missing_ok_facts(1,4) [OF that(1)] that(2,3) p(1) by (cases y; auto)+
  show ?thesis
  proof (cases "e1 = None \<and> ue_socket env = None")
    case False
    then have "e \<noteq> None \<and> d' = d1 \<and> s = Closed" using serve_uds_unbound [OF run pr] by blast
    then show ?thesis using pf(2) p pP by auto
  next
    case True
    then have e1: "e1 = None" "ue_socket env = None" by simp_all
    note bf = bind_and_listen_facts [OF bl pf(3) [OF e1(1) p(2)] pf(6) [OF p(2)]]
    have rp: "real_path d2 p = p" using bf(5) by (rule real_path_plain)
    have nd: "\<not> is_dir d2 p" using bf(4) p(3) by (auto simp: is_dir_def)
    have l2: "locked d2 = locked d" using bf(1) pf(1) by simp
    obtain y x' where u: "unlink_missing_ok p d2 = (y, x')" by fastforce
    show ?thesis
    proof (cases e2)
      case (Some x)
      then have "is_exception x" using bind_and_listen_exception [OF bl [unfolded Some]] listen by blast
      moreover have "y = None" using gone(2) [OF u l2 nd] .
      ultimately have "d' = x'" "s = Closed" using run pr e1 bl Some u rp by (auto simp: serve_uds_def bind_private_uds_def)
      then show ?thesis using gone(1) [OF u l2 nd] by simp
    next
      case None
      obtain e3 d3 where r: "run d2 = (e3, d3)" by fastforce
      obtain y3 x3 where u3: "unlink_missing_ok p d3 = (y3, x3)" by fastforce
      have "\<not> is_dir d3 p" "locked d3 = locked d" using quiet(2) [of d2] quiet(1) [of d2] nd l2 r by auto
      then have "node_at x3 p = None" using gone(1) [OF u3] by simp
      moreover have "d' = x3" "s = Closed" using run pr e1 bl None r u3 rp by (auto simp: serve_uds_def bind_private_uds_def split: option.splits)
      ultimately show ?thesis by simp
    qed
  qed
qed

subsection \<open>Witnesses\<close>

definition demo_uds :: path where
  "demo_uds = [lit ''run'', lit ''server.sock'']"

definition demo_uds_disk :: fs where
  "demo_uds_disk = \<lparr>nodes = [([lit ''run''], Directory 493), (demo_uds, Socket 384)], locked = [], space = 0\<rparr>"

definition demo_uds_env :: uds_env where
  "demo_uds_env = \<lparr>ue_mode = 493, ue_socket = None, ue_listen = (\<lambda>_. None)\<rparr>"

definition demo_bound :: fs where
  "demo_bound = \<lparr>nodes = [([lit ''run''], Directory 448), (demo_uds, Socket 384)], locked = [], space = 0\<rparr>"

lemma demo_bind: "bind_private_uds demo_uds_env demo_uds demo_uds_disk = (Inr Listening, demo_bound)"
proof -
  have t: "length (utf8_bytes (path_text demo_uds)) \<le> 107"
    by (simp add: path_text_def demo_uds_def lit_def utf8_bytes_def utf8_char_def)
  have "prepare_uds 493 demo_uds demo_uds_disk = (None, \<lparr>nodes = [([lit ''run''], Directory 448)], locked = [], space = 0\<rparr>)"
    by (simp add: prepare_uds_def demo_uds_disk_def demo_uds_def path_parent_def mkdir_parents.simps mkdir_def node_at_def
        path_is_dir_def follow_plain is_symlink_def is_dir_def chmod_def unlink_missing_ok_def unlink_def drop_node_def file_size_def real_path_def)
  moreover have "bind_and_listen demo_uds_env demo_uds \<lparr>nodes = [([lit ''run''], Directory 448)], locked = [], space = 0\<rparr> = (None, demo_bound)"
    using t by (simp add: bind_and_listen_def bind_unix_def demo_uds_env_def demo_bound_def demo_uds_def node_at_def is_dir_def
        path_parent_def chmod_def follow_plain is_symlink_def real_path_def)
  ultimately show ?thesis by (simp add: bind_private_uds_def) (simp add: demo_uds_env_def)
qed

theorem uds_private_witness:
  "node_at demo_bound demo_uds = Some (Socket 384) \<and> node_at demo_bound [lit ''run''] = Some (Directory 448)"
proof -
  have "path_parent demo_uds = [lit ''run'']" "\<not> is_symlink demo_uds_disk [lit ''run'']"
    by (simp_all add: demo_uds_def path_parent_def is_symlink_def demo_uds_disk_def node_at_def)
  then show ?thesis using uds_private [OF demo_bind] by simp
qed

theorem uds_released_witness:
  "\<exists>e d'. serve_uds demo_uds_env demo_uds (\<lambda>d. (Some OSErrorOther, d)) demo_uds_disk = (e, Closed, d')
    \<and> (\<forall>m. node_at d' demo_uds \<noteq> Some (Socket m) \<or> e \<noteq> None)"
proof -
  obtain e s d' where run: "serve_uds demo_uds_env demo_uds (\<lambda>d. (Some OSErrorOther, d)) demo_uds_disk = (e, s, d')"
    by (metis prod_cases3)
  have "s = Closed \<and> (\<forall>m. node_at d' demo_uds = Some (Socket m) \<longrightarrow> node_at demo_uds_disk demo_uds = Some (Socket m) \<and> e \<noteq> None)"
  proof (rule uds_released [OF run])
    show "is_exception x" if "ue_listen demo_uds_env uvicorn_backlog = Some x" for x
      using that by (simp add: demo_uds_env_def)
  qed (simp_all add: demo_uds_def path_parent_def is_symlink_def demo_uds_disk_def node_at_def)
  then show ?thesis using run by (intro exI [of _ e] exI [of _ d']) auto
qed

end
