(* ===== verification/Server_Main.thy ===== *)
theory Server_Main
  imports Uds_Socket Client_Gate
begin

section \<open>The start of the server (\<open>server/__main__.py\<close>, \<open>server/app.py\<close>)\<close>

text \<open>
  Behind the argument parser: the checks between arguments, the settings, the application, the
  private socket and the web server. What uvicorn does with the application is an argument,
  which gets the settings, its options and the file system.
\<close>

record server_args =
  sa_uds :: path
  sa_values :: settings

datatype server_end = UsageError str | ServerRaised exn | ServerStopped

text \<open>\<open>Settings(...)\<close>: pydantic's \<open>ValidationError\<close> is a \<open>ValueError\<close>.\<close>

definition new_settings :: "settings \<Rightarrow> settings res" where
  "new_settings a = (if settings_ok a then Inr a else Inl (ValueError (lit ''validation error for Settings'')))"

text \<open>The options of \<open>uvicorn.run\<close>.\<close>

record uvicorn_options =
  log_level :: str
  access_log :: bool
  http_impl :: str
  ws_impl :: str
  proxy_headers :: bool
  server_header :: bool
  date_header :: bool
  backlog :: int
  limit_concurrency :: int
  timeout_keep_alive :: int
  max_header_bytes :: int

definition server_options :: uvicorn_options where
  "server_options =
     \<lparr>log_level = lit ''warning'', access_log = False, http_impl = lit ''h11'', ws_impl = lit ''none'', proxy_headers = False,
      server_header = False, date_header = False, backlog = uvicorn_backlog, limit_concurrency = 128,
      timeout_keep_alive = 1, max_header_bytes = 16 * 1024\<rparr>"

definition server_main ::
    "uds_env \<Rightarrow> server_args \<Rightarrow> (settings \<Rightarrow> uvicorn_options \<Rightarrow> fs \<Rightarrow> exn option \<times> fs) \<Rightarrow> fs \<Rightarrow> server_end \<times> fs" where
  "server_main env args run d =
     (case main_args_error (sa_values args) of
        Some m \<Rightarrow> (UsageError m, d)
      | None \<Rightarrow>
          (case new_settings (sa_values args) of
             Inl e \<Rightarrow> (ServerRaised e, d)
           | Inr s \<Rightarrow>
               (case serve_uds env (sa_uds args) (run s server_options) d of
                  (None, _, d1) \<Rightarrow> (ServerStopped, d1)
                | (Some e, _, d1) \<Rightarrow> (ServerRaised e, d1))))"

subsection \<open>The life of the application (\<open>lifespan\<close> of \<open>server/app.py\<close>)\<close>

text \<open>The HTTP client for the model servers, the queue with the processing function of the configured
  backend, its worker; and, when the server stops, the end of the queue before that of the client
  (what \<open>stop\<close> and \<open>aclose\<close> raise are arguments).\<close>

record http_options =
  trust_env :: bool
  follow_redirects :: bool
  http2 :: bool
  connect_timeout :: rat
  read_timeout :: rat
  write_timeout :: rat
  pool_timeout :: rat
  max_connections :: int
  max_keepalive_connections :: int
  keepalive_expiry :: rat

definition backend_http_options :: http_options where
  "backend_http_options =
     \<lparr>trust_env = False, follow_redirects = False, http2 = False, connect_timeout = 10, read_timeout = 600, write_timeout = 60,
      pool_timeout = 10, max_connections = 8, max_keepalive_connections = 2, keepalive_expiry = 10\<rparr>"

datatype processor = GroqJobs | VibevoiceJobs

record app_state =
  as_http :: http_options
  as_http_open :: bool
  as_queue :: tqueue
  as_processor :: processor

definition lifespan_start :: "settings \<Rightarrow> fs \<Rightarrow> app_state res" where
  "lifespan_start s d =
     bind_res (start_queue s d) (\<lambda>q. Inr \<lparr>as_http = backend_http_options, as_http_open = True, as_queue = q,
       as_processor = (if asr_backend s = Groq then GroqJobs else VibevoiceJobs)\<rparr>)"

definition lifespan_stop :: "exn option \<Rightarrow> exn option \<Rightarrow> app_state \<Rightarrow> exn option \<times> app_state" where
  "lifespan_stop stop_raises close_raises st =
     (case stop_raises of Some e \<Rightarrow> (Some e, st) | None \<Rightarrow> (close_raises, st\<lparr>as_http_open := False\<rparr>))"

subsection \<open>The guard of the server\<close>

text \<open>What the web server is given: settings that are valid and have what their backend needs.\<close>

definition can_serve :: "settings \<Rightarrow> bool" where
  "can_serve s \<longleftrightarrow> settings_ok s \<and> (if asr_backend s = Groq then groq_api_key s \<noteq> [] else vllm_base_url s \<noteq> [])"

lemma can_serve_iff: "can_serve s \<longleftrightarrow> main_args_error s = None \<and> new_settings s = Inr s"
  by (cases "asr_backend s") (auto simp: can_serve_def main_args_error_def new_settings_def)

lemma refused: "\<not> can_serve (sa_values args) \<Longrightarrow>
    snd (server_main env args run d) = d \<and> (\<exists>r. (\<forall>run. server_main env args run d = (r, d)) \<and> r \<noteq> ServerStopped)"
  by (cases "main_args_error (sa_values args)"; cases "settings_ok (sa_values args)")
    (auto simp: can_serve_iff server_main_def new_settings_def)

text \<open>C24. No server without a sound configuration: arguments that are refused (by the checks between
  them or by the settings) leave the file system as it was, no socket is made and uvicorn does
  not run; and for the settings uvicorn does run with, the start of the application succeeds on
  every file system, with an empty queue of the configured capacity, the processing function of
  the configured backend, and a running worker.\<close>

theorem server_main_guards:
  "if can_serve (sa_values args)
   then server_main env args run d = (case serve_uds env (sa_uds args) (run (sa_values args) server_options) d of
          (e, _, d1) \<Rightarrow> (case e of None \<Rightarrow> ServerStopped | Some x \<Rightarrow> ServerRaised x, d1))
      \<and> (\<exists>st. lifespan_start (sa_values args) d2 = Inr st \<and> qinit (as_queue st) \<and> max_size (as_queue st) = max_queue_size (sa_values args)
          \<and> disk (as_queue st) = d2 \<and> as_processor st = (if asr_backend (sa_values args) = Groq then GroqJobs else VibevoiceJobs))
   else \<exists>r. r \<noteq> ServerStopped \<and> server_main env args run d = (r, d)"
proof (cases "can_serve (sa_values args)")
  case True
  then have m: "main_args_error (sa_values args) = None" "new_settings (sa_values args) = Inr (sa_values args)"
    by (simp_all add: can_serve_iff)
  have "settings_ok (sa_values args)" using True by (simp add: can_serve_def)
  then have "\<not> max_queue_size (sa_values args) < 1" by (auto simp: settings_ok_def positive_int_def split: if_splits)
  then obtain q where "start_queue (sa_values args) d2 = Inr q" "qinit q" "max_size q = max_queue_size (sa_values args)" "disk q = d2"
    using start_queue_ready [of "sa_values args" d2] by blast
  then have "\<exists>st. lifespan_start (sa_values args) d2 = Inr st \<and> qinit (as_queue st) \<and> max_size (as_queue st) = max_queue_size (sa_values args)
      \<and> disk (as_queue st) = d2 \<and> as_processor st = (if asr_backend (sa_values args) = Groq then GroqJobs else VibevoiceJobs)"
    by (simp add: lifespan_start_def)
  then show ?thesis using True m by (simp add: server_main_def split: prod.splits option.splits)
next
  case False
  then show ?thesis using refused [of args env run d] by (auto intro: exI [of _ "fst (server_main env args run d)"])
qed

end
