(* ===== verification/Web_App.thy ===== *)
theory Web_App
  imports Transcribe_Route Event_Stream Server_Main
begin

section \<open>The application (\<open>create_app\<close> in \<open>server/app.py\<close>)\<close>

text \<open>
  The application that \<open>create_app\<close> builds and what it does with a request: the middleware, the
  routing to a handler, the handler's dependencies and the handler. FastAPI's routing, the
  routes it adds by itself and Starlette's header lookup are arguments; what is documented of
  them are the hypotheses \<open>routes_requests\<close>, \<open>no_extra_routes\<close> and \<open>header_lists\<close>.
\<close>

subsection \<open>Routes and application\<close>

datatype handler = TranscribeHandler | StatusHandler | HealthHandler | ExtraHandler

record route =
  route_method :: str
  route_path :: str
  route_handler :: handler

definition transcribe_router :: "route list" where
  "transcribe_router = [\<lparr>route_method = lit ''POST'', route_path = lit ''/v1/transcribe'', route_handler = TranscribeHandler\<rparr>]"

definition queue_status_router :: "route list" where
  "queue_status_router = [\<lparr>route_method = lit ''GET'', route_path = lit ''/v1/queue/status'', route_handler = StatusHandler\<rparr>]"

definition health_router :: "route list" where
  "health_router = [\<lparr>route_method = lit ''GET'', route_path = lit ''/health'', route_handler = HealthHandler\<rparr>]"

datatype middleware = RequireHTTPSMiddleware

record app =
  app_title :: str
  docs_url :: "str option"
  redoc_url :: "str option"
  openapi_url :: "str option"
  app_settings :: "settings option"
  app_routes :: "route list"
  app_middleware :: "middleware list"

definition new_app :: "str \<Rightarrow> str option \<Rightarrow> str option \<Rightarrow> str option \<Rightarrow> app" where
  "new_app title docs redoc openapi =
     \<lparr>app_title = title, docs_url = docs, redoc_url = redoc, openapi_url = openapi, app_settings = None,
      app_routes = [], app_middleware = []\<rparr>"

definition include_router :: "route list \<Rightarrow> app \<Rightarrow> app" where
  "include_router rs a = a\<lparr>app_routes := app_routes a @ rs\<rparr>"

text \<open>The middleware that was added last is the outermost.\<close>

definition add_middleware :: "middleware \<Rightarrow> app \<Rightarrow> app" where
  "add_middleware m a = a\<lparr>app_middleware := m # app_middleware a\<rparr>"

definition create_app :: "settings \<Rightarrow> app" where
  "create_app s =
     (let a = new_app (lit ''VibeVoice ASR Server'') None None None;
          a = a\<lparr>app_settings := Some s\<rparr>;
          a = include_router transcribe_router a;
          a = include_router queue_status_router a;
          a = include_router health_router a
      in add_middleware RequireHTTPSMiddleware a)"

subsection \<open>Requests and answers\<close>

text \<open>The scope of a connection; the request body and its parser, the identifier and the time of the
  job that the handler may make, what the other tasks do at its suspensions, and the answer of
  the model server to a health check.\<close>

record http_scope = scope +
  scope_method :: str

record http_request =
  rq_scope :: http_scope
  rq_post :: post
  rq_job :: str
  rq_now :: rat
  rq_env :: env
  rq_health :: "int res"

text \<open>The response of the transcription route: the event stream of the job.\<close>

record stream_response =
  sr_job :: str
  sr_stream :: stream
  sr_media_type :: str
  sr_headers :: "(str \<times> str) list"

definition stream_response_of :: "str \<Rightarrow> stream_response" where
  "stream_response_of i =
     \<lparr>sr_job = i, sr_stream = new_stream, sr_media_type = lit ''text/event-stream'',
      sr_headers = [(lit ''Cache-Control'', lit ''no-cache''), (lit ''X-Accel-Buffering'', lit ''no'')]\<rparr>"

datatype answer =
    Sent "asgi_message list"
  | NoRoute
  | ExtraAnswer
  | HealthAnswer "json_response"
  | StatusAnswer queue_status_response
  | Streaming stream_response
  | Refused exn

subsection \<open>A request through the application\<close>

type_synonym lookup = "http_scope \<Rightarrow> str \<Rightarrow> str list"

definition run_handler :: "lookup \<Rightarrow> settings \<Rightarrow> handler \<Rightarrow> http_request \<Rightarrow> tqueue \<Rightarrow> answer \<times> tqueue" where
  "run_handler getlist s h rq q =
     (case h of
        TranscribeHandler \<Rightarrow>
          (case transcribe_route (getlist (rq_scope rq)) (max_audio_bytes s) (rq_job rq) (rq_now rq) (rq_post rq) (rq_env rq) q of
             (Inl e, q') \<Rightarrow> (Refused e, q')
           | (Inr i, q') \<Rightarrow> (Streaming (stream_response_of i), q'))
      | StatusHandler \<Rightarrow> (case queue_status (getlist (rq_scope rq)) q of Inl e \<Rightarrow> (Refused e, q) | Inr r \<Rightarrow> (StatusAnswer r, q))
      | HealthHandler \<Rightarrow> (case health s (rq_health rq) of Inl e \<Rightarrow> (Refused e, q) | Inr r \<Rightarrow> (HealthAnswer r, q))
      | ExtraHandler \<Rightarrow> (ExtraAnswer, q))"

definition wrapped :: "middleware list \<Rightarrow> (http_scope \<Rightarrow> answer \<times> tqueue) \<Rightarrow> tqueue \<Rightarrow> http_scope \<Rightarrow> answer \<times> tqueue" where
  "wrapped ms app q = foldr (\<lambda>m app. case m of RequireHTTPSMiddleware \<Rightarrow> require_https (\<lambda>msgs. (Sent msgs, q)) app) ms app"

definition serve ::
    "(app \<Rightarrow> route list) \<Rightarrow> (route list \<Rightarrow> http_scope \<Rightarrow> handler option) \<Rightarrow> lookup \<Rightarrow> app \<Rightarrow> http_request \<Rightarrow> tqueue \<Rightarrow> answer \<times> tqueue" where
  "serve builtin dispatch getlist a rq q =
     wrapped (app_middleware a)
       (\<lambda>sc. case dispatch (builtin a @ app_routes a) sc of
          None \<Rightarrow> (NoRoute, q)
        | Some h \<Rightarrow> (case app_settings a of Some s \<Rightarrow> run_handler getlist s h (rq\<lparr>rq_scope := sc\<rparr>) q | None \<Rightarrow> (Refused (OtherError (lit ''AttributeError'') (lit ''settings'')), q)))
       q (rq_scope rq)"

subsection \<open>What is documented of FastAPI and Starlette\<close>

text \<open>An HTTP request goes to the first route with its path and its method (literal paths).\<close>

definition routes_requests :: "(route list \<Rightarrow> http_scope \<Rightarrow> handler option) \<Rightarrow> bool" where
  "routes_requests dispatch \<longleftrightarrow> (\<forall>rs sc. dispatch rs sc =
     (if scope_type sc = lit ''http''
      then map_option route_handler (find (\<lambda>r. route_path r = scope_path sc \<and> route_method r = scope_method sc) rs)
      else None))"

text \<open>Without the URL of the schema there is neither a schema nor a documentation page.\<close>

definition no_extra_routes :: "(app \<Rightarrow> route list) \<Rightarrow> bool" where
  "no_extra_routes builtin \<longleftrightarrow> (\<forall>a. openapi_url a = None \<longrightarrow> builtin a = [])"

text \<open>\<open>headers.getlist(name)\<close>: the values of all headers with the lower-case name, in order, as Latin-1.\<close>

definition header_lists :: "lookup \<Rightarrow> bool" where
  "header_lists getlist \<longleftrightarrow> (\<forall>sc name. getlist sc name =
     map (\<lambda>h. map unat (snd h)) (filter (\<lambda>h. map unat (fst h) = py_lower name) (scope_headers sc)))"

subsection \<open>Over HTTPS and with one identity\<close>

definition over_https :: "http_scope \<Rightarrow> bool" where
  "over_https sc \<longleftrightarrow> (\<exists>hs v rest. scope_headers sc = hs @ (blit ''x-forwarded-proto'', v) # rest
     \<and> blit ''x-forwarded-proto'' \<notin> fst ` set rest \<and> bytes_lower v = blit ''https'')"

definition identified :: "http_scope \<Rightarrow> str \<Rightarrow> bool" where
  "identified sc i \<longleftrightarrow> (\<exists>v. filter (\<lambda>h. fst h = blit ''x-vvv-client-spki-sha256'') (scope_headers sc) = [(blit ''x-vvv-client-spki-sha256'', v)]
     \<and> i = map unat v \<and> length i = 64 \<and> list_all (\<lambda>c. 48 \<le> c \<and> c \<le> 57 \<or> 97 \<le> c \<and> c \<le> 102) i)"

lemma identified_unique: "identified sc i \<Longrightarrow> identified sc k \<Longrightarrow> i = k"
  by (auto simp: identified_def)

lemma unat_blit: "map unat x = lit s \<longleftrightarrow> x = blit s"
proof -
  have "of_char c = unat (of_char c :: byte)" for c
    using nat_of_char_less_256 [of c] by (simp flip: of_nat_of_char [where ?'a = byte] add: unsigned_of_nat take_bit_nat_eq_self)
  then have "lit s = map unat (blit s)" by (simp add: lit_def blit_def)
  moreover have "inj (unat :: byte \<Rightarrow> nat)" by (simp add: inj_def flip: word_unat_eq_iff)
  ultimately show ?thesis by (simp add: inj_map_eq_map)
qed

lemma identity_header: "py_lower (lit ''x-vvv-client-spki-sha256'') = lit ''x-vvv-client-spki-sha256''"
  by (simp add: py_lower_def lower_char_def lit_def)

lemma require_identity_identified:
  assumes "header_lists getlist"
  shows "require_client_identity (getlist sc) = Inr i \<longleftrightarrow> identified sc i"
proof -
  let ?k = "blit ''x-vvv-client-spki-sha256''"
  have g: "getlist sc client_identity_header = map (\<lambda>h. map unat (snd h)) (filter (\<lambda>h. fst h = ?k) (scope_headers sc))"
    using assms by (simp add: header_lists_def client_identity_header_def identity_header unat_blit)
  have "map (\<lambda>h. map unat (snd h)) (filter (\<lambda>h. fst h = ?k) hs) = [i] \<longleftrightarrow> (\<exists>v. filter (\<lambda>h. fst h = ?k) hs = [(?k, v)] \<and> i = map unat v)"
    for hs :: "(bytes \<times> bytes) list"
  proof
    assume "map (\<lambda>h. map unat (snd h)) (filter (\<lambda>h. fst h = ?k) hs) = [i]"
    then obtain h where h: "filter (\<lambda>h. fst h = ?k) hs = [h]" "i = map unat (snd h)" by auto
    then have "h \<in> set (filter (\<lambda>h. fst h = ?k) hs)" by simp
    then have "fst h = ?k" by simp
    then show "\<exists>v. filter (\<lambda>h. fst h = ?k) hs = [(?k, v)] \<and> i = map unat v" using h by (cases h) auto
  qed auto
  moreover have "hex_lower = (\<lambda>c. 48 \<le> c \<and> c \<le> 57 \<or> 97 \<le> c \<and> c \<le> 102)" by (auto simp: hex_lower_def fun_eq_iff)
  ultimately show ?thesis unfolding require_client_identity_iff g identified_def by auto
qed

lemma created_app:
  "app_settings (create_app s) = Some s" "app_middleware (create_app s) = [RequireHTTPSMiddleware]"
  "app_routes (create_app s) = transcribe_router @ queue_status_router @ health_router" "openapi_url (create_app s) = None"
  by (simp_all add: create_app_def new_app_def include_router_def add_middleware_def)

text \<open>The handler of a request to the created application.\<close>

definition created_route :: "http_scope \<Rightarrow> handler option" where
  "created_route sc =
     (if scope_type sc \<noteq> lit ''http'' then None
      else if scope_method sc = lit ''POST'' \<and> scope_path sc = lit ''/v1/transcribe'' then Some TranscribeHandler
      else if scope_method sc = lit ''GET'' \<and> scope_path sc = lit ''/v1/queue/status'' then Some StatusHandler
      else if scope_method sc = lit ''GET'' \<and> scope_path sc = lit ''/health'' then Some HealthHandler
      else None)"

lemma find_created:
  assumes "routes_requests dispatch" "no_extra_routes builtin"
  shows "dispatch (builtin (create_app s) @ app_routes (create_app s)) sc = created_route sc"
proof -
  have "builtin (create_app s) = []"
    using assms(2) by (simp add: no_extra_routes_def created_app)
  then show ?thesis
    using assms(1)
    by (auto simp: created_route_def created_app routes_requests_def transcribe_router_def queue_status_router_def health_router_def)
qed

lemma https_gate:
  "\<exists>h b. require_https send app sc = (if scope_type sc = lit ''http'' \<and> scope_path sc \<noteq> lit ''/health'' \<and> \<not> over_https sc
     then send [ResponseStart 403 h, ResponseBody b] else app sc)"
  unfolding over_https_def using https_required [THEN conjunct1, of send app sc] by blast

lemma serve_created:
  assumes "routes_requests dispatch" "no_extra_routes builtin"
  shows "\<exists>h b. serve builtin dispatch getlist (create_app s) rq q =
    (if scope_type (rq_scope rq) = lit ''http'' \<and> scope_path (rq_scope rq) \<noteq> lit ''/health'' \<and> \<not> over_https (rq_scope rq)
     then (Sent [ResponseStart 403 h, ResponseBody b], q)
     else case created_route (rq_scope rq) of None \<Rightarrow> (NoRoute, q) | Some h \<Rightarrow> run_handler getlist s h rq q)"
proof -
  define app where "app = (\<lambda>sc. case created_route sc of None \<Rightarrow> (NoRoute, q) | Some h \<Rightarrow> run_handler getlist s h (rq\<lparr>rq_scope := sc\<rparr>) q)"
  have "serve builtin dispatch getlist (create_app s) rq q = require_https (\<lambda>msgs. (Sent msgs, q)) app (rq_scope rq)"
    unfolding serve_def find_created [OF assms] app_def by (simp add: wrapped_def created_app cong: option.case_cong)
  moreover have "app (rq_scope rq) = (case created_route (rq_scope rq) of None \<Rightarrow> (NoRoute, q) | Some h \<Rightarrow> run_handler getlist s h rq q)"
    by (simp add: app_def split: option.split)
  ultimately show ?thesis using https_gate [of "\<lambda>msgs. (Sent msgs, q)" app "rq_scope rq"] by (simp only:)
qed

text \<open>The two answers with content, raw: where they come from.\<close>

lemma streaming_answer:
  assumes "routes_requests dispatch" "no_extra_routes builtin" "header_lists getlist"
    and "serve builtin dispatch getlist (create_app s) rq q = (Streaming r, q')"
  shows "\<exists>i. identified (rq_scope rq) i
    \<and> transcribe (max_audio_bytes s) i (rq_job rq) (rq_now rq) (rq_post rq) (rq_env rq) q = (Inr (sr_job r), q')"
  using serve_created [OF assms(1,2), of getlist s rq q] assms(4) require_identity_identified [OF assms(3), of "rq_scope rq"]
  by (auto simp: created_route_def run_handler_def transcribe_route_def stream_response_of_def
      split: if_splits sum.splits prod.splits)

lemma status_answer:
  assumes "routes_requests dispatch" "no_extra_routes builtin" "header_lists getlist"
    and "serve builtin dispatch getlist (create_app s) rq q = (StatusAnswer r, q')"
  shows "\<exists>i. identified (rq_scope rq) i \<and> r = get_queue_info q i"
  using serve_created [OF assms(1,2), of getlist s rq q] assms(4) require_identity_identified [OF assms(3), of "rq_scope rq"]
  by (auto simp: created_route_def run_handler_def queue_status_def split: if_splits sum.splits prod.splits)

subsection \<open>The properties\<close>

text \<open>C8. The gate of the application, whatever a request sends: apart from \<open>GET /health\<close>, which tells
  nothing of the queue and leaves it alone, a handler runs only for its own method and path, over
  HTTPS, and for exactly one client identity of the right form, and then with this identity; in
  every other case the answer is 403 or that there is no such route, and the queue is unchanged.
  No schema or documentation page is served.\<close>

theorem protected_routes:
  assumes starlette: "routes_requests dispatch" "no_extra_routes builtin" "header_lists getlist"
    and run: "serve builtin dispatch getlist (create_app s) rq q = (ans, q')"
    and sc: "sc = rq_scope rq"
  shows "case ans of
      Sent msgs \<Rightarrow> q' = q \<and> scope_path sc \<noteq> lit ''/health'' \<and> \<not> over_https sc \<and> (\<exists>h b. msgs = [ResponseStart 403 h, ResponseBody b])
    | NoRoute \<Rightarrow> q' = q \<and> (scope_type sc \<noteq> lit ''http'' \<or> (scope_method sc, scope_path sc)
        \<notin> {(lit ''POST'', lit ''/v1/transcribe''), (lit ''GET'', lit ''/v1/queue/status''), (lit ''GET'', lit ''/health'')})
    | ExtraAnswer \<Rightarrow> False
    | HealthAnswer r \<Rightarrow> q' = q \<and> scope_path sc = lit ''/health'' \<and> health s (rq_health rq) = Inr r
    | StatusAnswer r \<Rightarrow> q' = q \<and> over_https sc \<and> scope_method sc = lit ''GET'' \<and> scope_path sc = lit ''/v1/queue/status''
        \<and> (\<exists>i. identified sc i \<and> r = get_queue_info q i)
    | Streaming r \<Rightarrow> over_https sc \<and> scope_method sc = lit ''POST'' \<and> scope_path sc = lit ''/v1/transcribe''
        \<and> (\<exists>i. identified sc i \<and> r = stream_response_of (sr_job r)
            \<and> transcribe (max_audio_bytes s) i (rq_job rq) (rq_now rq) (rq_post rq) (rq_env rq) q = (Inr (sr_job r), q'))
    | Refused e \<Rightarrow> scope_path sc = lit ''/health'' \<and> q' = q \<and> health s (rq_health rq) = Inl e
        \<or> over_https sc \<and> (\<nexists>i. identified sc i) \<and> q' = q \<and> (\<exists>m. e = HTTPException 403 m)
        \<or> over_https sc \<and> scope_method sc = lit ''POST'' \<and> scope_path sc = lit ''/v1/transcribe''
          \<and> (\<exists>i. identified sc i
              \<and> transcribe (max_audio_bytes s) i (rq_job rq) (rq_now rq) (rq_post rq) (rq_env rq) q = (Inl e, q'))"
proof -
  from serve_created [OF starlette(1,2), of getlist s rq q] obtain h b where gate:
    "(ans, q') = (if scope_type sc = lit ''http'' \<and> scope_path sc \<noteq> lit ''/health'' \<and> \<not> over_https sc
      then (Sent [ResponseStart 403 h, ResponseBody b], q)
      else case created_route sc of None \<Rightarrow> (NoRoute, q) | Some h \<Rightarrow> run_handler getlist s h rq q)"
    using run sc by auto
  have ident: "require_client_identity (getlist sc) = Inr i \<longleftrightarrow> identified sc i" for i
    using starlette(3) by (rule require_identity_identified)
  show ?thesis
  proof (cases "scope_type sc = lit ''http'' \<and> scope_path sc \<noteq> lit ''/health'' \<and> \<not> over_https sc")
    case True
    then show ?thesis using gate by auto
  next
    case False
    then have r: "(case created_route sc of None \<Rightarrow> (NoRoute, q) | Some h \<Rightarrow> run_handler getlist s h rq q) = (ans, q')"
      using gate by (simp only: False if_False)
    show ?thesis
    proof (cases "require_client_identity (getlist sc)")
      case (Inl e)
      then have "\<nexists>i. identified sc i" "\<exists>m. e = HTTPException 403 m"
        using ident require_client_identity_error by (metis Inl_Inr_False, blast)
      then show ?thesis
        using r False Inl unfolding created_route_def
        by (auto simp: run_handler_def transcribe_route_def queue_status_def sc split: if_splits sum.splits)
    next
      case (Inr i)
      then have "identified sc i" using ident by blast
      then show ?thesis
        using r False Inr unfolding created_route_def
        by (auto simp: run_handler_def transcribe_route_def queue_status_def sc stream_response_of_def split: if_splits sum.splits prod.splits)
    qed
  qed
qed

subsection \<open>The owner of a job\<close>

definition owner :: "tqueue \<Rightarrow> str \<Rightarrow> str option" where
  "owner q i = map_option client_identity (store q i)"

lemma owner_unchanged:
  "owner (upd_job i f q) k = owner q k" if "\<And>j. client_identity (f j) = client_identity j"
  using that by (simp add: owner_def option.map_comp comp_def)

lemma owner_settle: "store q i = Some j \<Longrightarrow> owner (worker_settle i st now r q) k = owner q k"
proof -
  assume j: "store q i = Some j"
  define q1 where "q1 = upd_job i (settle_job r) q"
  obtain w where run: "worker_settle i st now r q = worker_finally i st now w q1"
    using j by (simp add: worker_settle_def q1_def)
  have j1: "store q1 i = Some (settle_job r j)" using j by (simp add: q1_def)
  have own: "client_identity (settle_job r j) = client_identity j" by (auto simp: settle_job_def split: task_result.splits)
  from j1 run obtain j' where "store (worker_settle i st now r q) = (store q)(i \<mapsto> j')" "client_identity j' = client_identity j"
    by (cases rule: worker_finally_effect) (use own in \<open>auto simp: q1_def job_marks end_task_def\<close>)
  then show ?thesis using j by (simp add: owner_def)
qed

lemma owner_step:
  assumes "qstep q q'" and "owner q i = Some c"
  shows "owner q' i = Some c"
  using assms(1)
proof cases
  case (s_reserve k ident now)
  then show ?thesis using assms(2) by (auto simp: reserve_def new_job_def owner_def split: if_splits)
next
  case (s_submit k)
  then show ?thesis using assms(2) by (auto simp: submit_def owner_def split: option.splits if_splits)
next
  case (s_cancel k r)
  from s_cancel(1) show ?thesis
    by (cases rule: cancel_effect) (use assms(2) in \<open>auto simp: owner_def job_marks dest!: get_job_store\<close>)
next
  case (s_pick now)
  have "owner (worker_pick now q) i = owner q i"
  proof (cases "pending q")
    case (Cons k rest)
    show ?thesis
    proof (cases "get_job (q\<lparr>pending := rest\<rparr>) k")
      case (Some j)
      then have "store q k = Some j" by (auto simp: get_job_def split: if_splits)
      then show ?thesis
        using Cons Some owner_settle [of "upd_job k (status_update (\<lambda>_. PROCESSING)) (q\<lparr>pending := rest\<rparr>)" k]
        by (auto simp: worker_pick_def owner_def Let_def)
    qed (simp add: Cons worker_pick_def owner_def)
  qed (simp add: worker_pick_def)
  then show ?thesis using s_pick assms(2) by simp
next
  case (s_resume now)
  have "owner (worker_resume now q) i = owner q i"
    using owner_settle by (auto simp: worker_resume_def split: option.splits worker.splits task.splits)
  then show ?thesis using s_resume assms(2) by simp
next
  case (s_cleanup k)
  then show ?thesis using assms(2) by (auto simp: owner_def cleanup_job_def forget_audio_def Let_def)
next
  case s_stop_request
  then show ?thesis
    using assms(2) by (auto simp: stop_request_def owner_def split: option.splits worker.splits task.splits)
next
  case s_stop_finish
  then show ?thesis using assms(2) by (auto simp: stop_finish_def owner_def split: option.splits worker.splits)
qed (use assms(2) in \<open>auto simp: segment_defs owner_def\<close>)

interpretation owned: invariant_system "\<lambda>q. owner q i = Some c" usual_step "\<lambda>q. owner q i = Some c" for i c
  by unfold_locales (auto simp: usual_step_def intro: owner_step)

text \<open>C9. Each client sees its own jobs and no others', over the whole server: a request to transcribe was
  accepted; whatever happens afterwards, a later status request, by whoever and with whatever
  identity, is told of this job exactly when it carries the same client identity as the request
  that made the job and the server still keeps the job. (While the first request is handled the
  other tasks leave its job alone, and the disk refuses no removal.)\<close>

theorem status_shows_own_jobs:
  assumes starlette: "routes_requests dispatch" "no_extra_routes builtin" "header_lists getlist"
    and queue: "reach usual_init usual_step q" "store q (rq_job rq) = None" "calm_env (rq_job rq) (rq_env rq)" "wf_fs (disk q)"
      "0 \<le> max_audio_bytes s" "post_close (rq_post rq) = None"
    and posted: "serve builtin dispatch getlist (create_app s) rq q = (Streaming r, q')"
    and later: "usual_step\<^sup>*\<^sup>* q' q3"
    and asked: "serve builtin dispatch getlist (create_app s) rq2 q3 = (StatusAnswer report, q4)"
  shows "\<exists>i k. identified (rq_scope rq) i \<and> identified (rq_scope rq2) k
    \<and> (sr_job r \<in> ji_job_id ` set (your_jobs report) \<longleftrightarrow> get_job q3 (sr_job r) \<noteq> None \<and> k = i)"
proof -
  obtain i where i: "identified (rq_scope rq) i"
    "transcribe (max_audio_bytes s) i (rq_job rq) (rq_now rq) (rq_post rq) (rq_env rq) q = (Inr (sr_job r), q')"
    using streaming_answer [OF starlette posted] by blast
  obtain k where k: "identified (rq_scope rq2) k" "report = get_queue_info q3 k"
    using status_answer [OF starlette asked] by blast
  note eff = transcribe_effect [OF queue i(2)]
  then obtain q1 where q1: "reserve (new_job (rq_job rq) i (rq_now rq)) q = (None, q1)" "usual_step\<^sup>*\<^sup>* q1 q'" and x: "sr_job r = rq_job rq"
    by auto
  have "owner q1 (sr_job r) = Some i" using q1(1) by (auto simp: x reserve_def new_job_def owner_def split: if_splits)
  then have own: "owner q3 (sr_job r) = Some i" using owned.steps_inv rtranclp_trans [OF q1(2) later] by blast
  have "reach usual_init usual_step q3" using eff later queue(1) slots.steps_ok by (blast intro: rtranclp_trans)
  then have inv: "qinv q3" using reach_service by (simp add: service_ok_def)
  have ids: "ji_job_id (job_info_of q3 j) = n" if "store q3 n = Some j" for n j
    using qinvD [OF inv that] by (simp add: job_ok_def job_info_of_def Let_def)
  have "sr_job r \<in> ji_job_id ` set (your_jobs report)
      \<longleftrightarrow> (\<exists>j. sr_job r \<in> set (jobs q3) \<and> store q3 (sr_job r) = Some j \<and> client_identity j = k)"
    unfolding k(2) image_iff Bex_def info_from_job using ids by metis
  also have "\<dots> \<longleftrightarrow> get_job q3 (sr_job r) \<noteq> None \<and> k = i"
    using own by (auto simp: owner_def get_job_def)
  finally show ?thesis using i(1) k(1) by blast
qed

subsection \<open>Witnesses\<close>

text \<open>Routing and header lookup as documented, and requests of a client.\<close>

definition plain_routing :: "route list \<Rightarrow> http_scope \<Rightarrow> handler option" where
  "plain_routing rs sc =
     (if scope_type sc = lit ''http''
      then map_option route_handler (find (\<lambda>r. route_path r = scope_path sc \<and> route_method r = scope_method sc) rs)
      else None)"

definition plain_getlist :: lookup where
  "plain_getlist sc name =
     map (\<lambda>h. map unat (snd h)) (filter (\<lambda>h. map unat (fst h) = py_lower name) (scope_headers sc))"

definition plain_builtin :: "app \<Rightarrow> route list" where
  "plain_builtin a =
     (if openapi_url a = None then []
      else [\<lparr>route_method = lit ''GET'', route_path = the (openapi_url a), route_handler = ExtraHandler\<rparr>])"

lemma plain_starlette: "routes_requests plain_routing" "no_extra_routes plain_builtin" "header_lists plain_getlist"
  by (simp_all add: routes_requests_def plain_routing_def no_extra_routes_def plain_builtin_def header_lists_def plain_getlist_def)

definition ident_hex :: str where "ident_hex = replicate 64 97"

definition client_scope :: "str \<Rightarrow> str \<Rightarrow> http_scope" where
  "client_scope method path =
     \<lparr>scope_type = lit ''http'', scope_path = path,
      scope_headers = [(blit ''x-vvv-client-spki-sha256'', replicate 64 97), (blit ''x-forwarded-proto'', blit ''HTTPS'')],
      scope_method = method\<rparr>"

definition client_request :: "str \<Rightarrow> str \<Rightarrow> http_request" where
  "client_request method path =
     \<lparr>rq_scope = client_scope method path, rq_post = sample_post good_form None, rq_job = id_n, rq_now = 5, rq_env = quiet,
      rq_health = Inr 200\<rparr>"

lemma client_scope_ok: "over_https (client_scope method path)" "identified (client_scope method path) ident_hex"
proof -
  have n: "blit ''x-vvv-client-spki-sha256'' \<noteq> blit ''x-forwarded-proto''" "blit ''x-forwarded-proto'' \<noteq> blit ''x-vvv-client-spki-sha256''"
    by (simp_all add: blit_def)
  have "bytes_lower (blit ''HTTPS'') = blit ''https''" by code_simp
  then show "over_https (client_scope method path)"
    unfolding over_https_def client_scope_def
    by (intro exI [of _ "[(blit ''x-vvv-client-spki-sha256'', replicate 64 97)]"] exI [of _ "blit ''HTTPS''"] exI [of _ "[]"]) simp
  show "identified (client_scope method path) ident_hex"
    using n by (simp add: identified_def client_scope_def ident_hex_def list_all_iff)
qed

lemma client_identity_found: "require_client_identity (plain_getlist (client_scope method path)) = Inr ident_hex"
  using require_identity_identified [OF plain_starlette(3)] client_scope_ok(2) by blast

lemma client_served:
  "serve plain_builtin plain_routing plain_getlist (create_app s) (client_request method path) q =
     (case created_route (client_scope method path) of None \<Rightarrow> (NoRoute, q)
      | Some h \<Rightarrow> run_handler plain_getlist s h (client_request method path) q)"
  using serve_created [OF plain_starlette(1,2), of plain_getlist s "client_request method path" q] client_scope_ok(1)
  by (auto simp: client_request_def)

lemma client_posted:
  assumes "transcribe 1000 ident_hex id_n 5 (sample_post good_form None) quiet q = (Inr id_n, q')"
  shows "serve plain_builtin plain_routing plain_getlist (create_app demo_settings) (client_request (lit ''POST'') (lit ''/v1/transcribe'')) q
     = (Streaming (stream_response_of id_n), q')"
  unfolding client_served using assms client_identity_found
  by (simp add: created_route_def client_scope_def run_handler_def transcribe_route_def client_request_def demo_settings_def)

lemma client_asked:
  "serve plain_builtin plain_routing plain_getlist (create_app s) (client_request (lit ''GET'') (lit ''/v1/queue/status'')) q
     = (StatusAnswer (get_queue_info q ident_hex), q)"
  unfolding client_served using client_identity_found
  by (simp add: created_route_def client_scope_def run_handler_def queue_status_def client_request_def)

theorem protected_routes_witness:
  "\<exists>i. identified (client_scope (lit ''GET'') (lit ''/v1/queue/status'')) i \<and> get_queue_info demo_one ident_hex = get_queue_info demo_one i"
  using protected_routes [OF plain_starlette client_asked [of demo_settings demo_one] refl] by (auto simp: client_request_def)

theorem status_shows_own_jobs_witness:
  "\<exists>q'. serve plain_builtin plain_routing plain_getlist (create_app demo_settings) (client_request (lit ''POST'') (lit ''/v1/transcribe'')) demo_start
      = (Streaming (stream_response_of id_n), q')
     \<and> id_n \<in> ji_job_id ` set (your_jobs (get_queue_info q' ident_hex))"
proof -
  let ?post = "client_request (lit ''POST'') (lit ''/v1/transcribe'')"
  obtain q' j where run: "transcribe 1000 ident_hex id_n 5 (sample_post good_form None) quiet demo_start = (Inr id_n, q')"
    and j: "get_job q' id_n = Some j"
    using sample_queued by blast
  have c: "store demo_start (rq_job ?post) = None" "calm_env (rq_job ?post) (rq_env ?post)" "0 \<le> max_audio_bytes demo_settings"
    "post_close (rq_post ?post) = None"
    using id_n_fresh(3) quiet_calm by (simp_all add: client_request_def demo_settings_def sample_post_def)
  from status_shows_own_jobs [OF plain_starlette demo_one_usual(2) c(1,2) demo_wf(2) c(3,4) client_posted [OF run] rtranclp.rtrancl_refl client_asked]
  obtain i k where "identified (rq_scope ?post) i" "identified (client_scope (lit ''GET'') (lit ''/v1/queue/status'')) k"
    "id_n \<in> ji_job_id ` set (your_jobs (get_queue_info q' ident_hex)) \<longleftrightarrow> k = i"
    using j by (auto simp: client_request_def stream_response_of_def)
  moreover have "identified (rq_scope ?post) ident_hex" using client_scope_ok(2) by (simp add: client_request_def)
  ultimately show ?thesis using client_posted [OF run] identified_unique client_scope_ok(2) by blast
qed

end
