(* ===== verification/Command_Line.thy ===== *)
theory Command_Line
  imports Py_Convert
begin

section \<open>Command lines (\<open>argparse\<close> as the programs use it)\<close>

text \<open>
  The argument parser of Python 3.11 for what the five programs ask of it: options with one value
  (\<open>--name value\<close>, \<open>--name=value\<close>, unique abbreviations), \<open>-h\<close> and \<open>--help\<close>, types, choices,
  defaults, required options, and at most one positional argument. Every error ends the program
  with the usage text and status 2, which is one outcome here.
\<close>

subsection \<open>Options\<close>

datatype arg = ArgText str | ArgInt int | ArgFloat pyfloat

text \<open>The values of \<open>type\<close>; \<open>type=Path\<close> accepts every text.\<close>

datatype arg_type = TextType | IntType | FloatType

record opt =
  opt_name :: str
  opt_type :: arg_type
  opt_default :: "arg option"
  opt_required :: bool
  opt_choices :: "str list option"

definition text_option :: "string \<Rightarrow> opt" where
  "text_option n = \<lparr>opt_name = lit n, opt_type = TextType, opt_default = None, opt_required = False, opt_choices = None\<rparr>"

definition required_option :: "string \<Rightarrow> arg_type \<Rightarrow> opt" where
  "required_option n t = (text_option n)\<lparr>opt_type := t, opt_required := True\<rparr>"

definition default_option :: "string \<Rightarrow> arg_type \<Rightarrow> arg \<Rightarrow> opt" where
  "default_option n t v = (text_option n)\<lparr>opt_type := t, opt_default := Some v\<rparr>"

definition convert_arg :: "opt \<Rightarrow> str \<Rightarrow> arg option" where
  "convert_arg p s =
     (if (case opt_choices p of None \<Rightarrow> False | Some cs \<Rightarrow> s \<notin> set cs) then None
      else case opt_type p of
        TextType \<Rightarrow> Some (ArgText s)
      | IntType \<Rightarrow> map_option ArgInt (int_of_text s)
      | FloatType \<Rightarrow> map_option ArgFloat (float_of_text s))"

subsection \<open>What a word of the command line is\<close>

text \<open>The help option, by its short name or not, or one of the options.\<close>

datatype hit = HelpHit bool | OptHit opt

definition dashes :: str where "dashes = [45, 45]"

definition named_option :: "opt list \<Rightarrow> str \<Rightarrow> hit option" where
  "named_option opts s =
     (if s = lit ''-h'' then Some (HelpHit True) else if s = lit ''--help'' then Some (HelpHit False)
      else map_option OptHit (find (\<lambda>p. opt_name p = s) opts))"

text \<open>\<open>s.split('=', 1)\<close>.\<close>

definition split_equals :: "str \<Rightarrow> str \<times> str option" where
  "split_equals s = (takeWhile (\<lambda>c. c \<noteq> 61) s, if 61 \<in> set s then Some (tl (dropWhile (\<lambda>c. c \<noteq> 61) s)) else None)"

definition option_tuples :: "opt list \<Rightarrow> str \<Rightarrow> (hit \<times> str option) list" where
  "option_tuples opts s =
     (if s ! 1 = 45
      then (let (n, e) = split_equals s
            in map (\<lambda>h. (h, e)) ((if py_startswith (lit ''--help'') n then [HelpHit False] else [])
                 @ map OptHit (filter (\<lambda>p. py_startswith (opt_name p) n) opts)))
      else if s ! 1 = 104 then [(HelpHit True, Some (drop 2 s))] else [])"

definition negative_number :: "str \<Rightarrow> bool" where
  "negative_number s \<longleftrightarrow>
     (case s of
        c # d \<Rightarrow> c = 45 \<and> (d \<noteq> [] \<and> list_all is_digit d
          \<or> (let r = dropWhile is_digit d in r \<noteq> [] \<and> hd r = 46 \<and> tl r \<noteq> [] \<and> list_all is_digit (tl r)))
      | [] \<Rightarrow> False)"

text \<open>\<open>_parse_optional\<close>: no option, or the options that the word may mean with a value in the word.\<close>

definition classify :: "opt list \<Rightarrow> str \<Rightarrow> (hit \<times> str option) list option" where
  "classify opts s =
     (if s = [] \<or> hd s \<noteq> 45 then None
      else case named_option opts s of
        Some h \<Rightarrow> Some [(h, None)]
      | None \<Rightarrow>
          if length s = 1 then None
          else (let c = (case split_equals s of
                     (n, Some x) \<Rightarrow> (case named_option opts n of Some h \<Rightarrow> [(h, Some x)] | None \<Rightarrow> option_tuples opts s)
                   | _ \<Rightarrow> option_tuples opts s)
                in if c = [] \<and> (negative_number s \<or> 32 \<in> set s) then None else Some c))"

definition ambiguous :: "opt list \<Rightarrow> str \<Rightarrow> bool" where
  "ambiguous opts s \<longleftrightarrow> (case classify opts s of Some (_ # _ # _) \<Rightarrow> True | _ \<Rightarrow> False)"

subsection \<open>Reading the words\<close>

type_synonym arg_values = "str \<Rightarrow> arg option"

text \<open>The values so far, the positional argument that is still missing, whether words were left over,
  and the words from the first positional on (when the command takes them all).\<close>

datatype walked = WalkHelp | WalkUsage | WalkEnd "arg_values" "str option" bool "str list"

definition given_help :: "bool \<Rightarrow> str option \<Rightarrow> walked" where
  "given_help short e =
     (case e of None \<Rightarrow> WalkHelp | Some x \<Rightarrow> if short \<and> x \<noteq> [] \<and> list_all (\<lambda>c. c = 104) x then WalkHelp else WalkUsage)"

fun positional_rest :: "str option \<Rightarrow> bool \<Rightarrow> arg_values \<Rightarrow> str list \<Rightarrow> walked" where
  "positional_rest (Some n) ex vals (t # ts) = WalkEnd (vals(n \<mapsto> ArgText t)) None (ex \<or> ts \<noteq> []) []"
| "positional_rest pos ex vals ts = WalkEnd vals pos True []"

fun walk :: "bool \<Rightarrow> opt list \<Rightarrow> str option \<Rightarrow> bool \<Rightarrow> arg_values \<Rightarrow> str list \<Rightarrow> walked" where
  "walk stop opts pos ex vals [] = WalkEnd vals pos ex []"
| "walk stop opts pos ex vals (t # ts) =
     (if t = dashes then (if stop then WalkEnd vals pos ex (t # ts) else positional_rest pos ex vals ts)
      else case classify opts t of
        None \<Rightarrow>
          if stop then WalkEnd vals pos ex (t # ts)
          else (case pos of
                  None \<Rightarrow> walk stop opts None True vals ts
                | Some n \<Rightarrow>
                    if ts \<noteq> [] \<and> hd ts = dashes
                    then WalkEnd (vals(n \<mapsto> ArgText t)) None (ex \<or> tl ts \<noteq> []) []
                    else walk stop opts None ex (vals(n \<mapsto> ArgText t)) ts)
      | Some [] \<Rightarrow> walk stop opts pos True vals ts
      | Some ((HelpHit short, e) # _) \<Rightarrow> given_help short e
      | Some ((OptHit p, Some x) # _) \<Rightarrow>
          (case convert_arg p x of None \<Rightarrow> WalkUsage | Some v \<Rightarrow> walk stop opts pos ex (vals(opt_name p \<mapsto> v)) ts)
      | Some ((OptHit p, None) # _) \<Rightarrow>
          (case ts of
             [] \<Rightarrow> WalkUsage
           | u # us \<Rightarrow>
               if u = dashes \<or> classify opts u \<noteq> None then WalkUsage
               else (case convert_arg p u of
                       None \<Rightarrow> WalkUsage
                     | Some v \<Rightarrow> walk stop opts pos ex (vals(opt_name p \<mapsto> v)) us)))"

datatype 'a line = Parsed 'a | HelpExit | UsageExit

definition defaults :: "opt list \<Rightarrow> arg_values" where
  "defaults opts n = Option.bind (find (\<lambda>p. opt_name p = n) opts) opt_default"

definition complete :: "opt list \<Rightarrow> arg_values \<Rightarrow> bool" where
  "complete opts vals \<longleftrightarrow> list_all (\<lambda>p. opt_required p \<longrightarrow> vals (opt_name p) \<noteq> None) opts"

definition parse_args :: "opt list \<Rightarrow> str option \<Rightarrow> str list \<Rightarrow> arg_values line" where
  "parse_args opts pos ts =
     (if list_ex (ambiguous opts) (takeWhile (\<lambda>t. t \<noteq> dashes) ts) then UsageExit
      else case walk False opts pos False (defaults opts) ts of
        WalkHelp \<Rightarrow> HelpExit
      | WalkUsage \<Rightarrow> UsageExit
      | WalkEnd vals missing extra rest \<Rightarrow>
          if missing \<noteq> None \<or> extra \<or> \<not> complete opts vals then UsageExit else Parsed vals)"

fun map_line :: "('a \<Rightarrow> 'b) \<Rightarrow> 'a line \<Rightarrow> 'b line" where
  "map_line f (Parsed x) = Parsed (f x)"
| "map_line f HelpExit = HelpExit"
| "map_line f UsageExit = UsageExit"

definition arg_text :: "arg_values \<Rightarrow> string \<Rightarrow> str" where
  "arg_text vals n = (case vals (lit n) of Some (ArgText s) \<Rightarrow> s | _ \<Rightarrow> [])"

definition arg_int :: "arg_values \<Rightarrow> string \<Rightarrow> int" where
  "arg_int vals n = (case vals (lit n) of Some (ArgInt i) \<Rightarrow> i | _ \<Rightarrow> 0)"

definition arg_float :: "arg_values \<Rightarrow> string \<Rightarrow> pyfloat" where
  "arg_float vals n = (case vals (lit n) of Some (ArgFloat x) \<Rightarrow> x | _ \<Rightarrow> NaN)"

definition arg_text_option :: "arg_values \<Rightarrow> string \<Rightarrow> str option" where
  "arg_text_option vals n = (case vals (lit n) of Some (ArgText s) \<Rightarrow> Some s | _ \<Rightarrow> None)"

subsection \<open>Command lines in full words\<close>

text \<open>An option with its value, in one word (\<open>--name=value\<close>) or in two.\<close>

datatype line_item = Joined opt str | Spaced opt str

fun item_option :: "line_item \<Rightarrow> opt" where
  "item_option (Joined p v) = p" | "item_option (Spaced p v) = p"

fun item_value :: "line_item \<Rightarrow> arg option" where
  "item_value (Joined p v) = convert_arg p v" | "item_value (Spaced p v) = convert_arg p v"

fun item_words :: "line_item \<Rightarrow> str list" where
  "item_words (Joined p v) = [opt_name p @ 61 # v]" | "item_words (Spaced p v) = [opt_name p, v]"

text \<open>A value in a word of its own does not look like an option.\<close>

fun item_ok :: "opt list \<Rightarrow> line_item \<Rightarrow> bool" where
  "item_ok opts (Joined p v) \<longleftrightarrow> p \<in> set opts"
| "item_ok opts (Spaced p v) \<longleftrightarrow> p \<in> set opts \<and> (v = [] \<or> hd v \<noteq> 45)"

definition well_named :: "opt list \<Rightarrow> bool" where
  "well_named opts \<longleftrightarrow> distinct (map opt_name opts)
     \<and> list_all (\<lambda>p. take 2 (opt_name p) = dashes \<and> 2 < length (opt_name p) \<and> 61 \<notin> set (opt_name p) \<and> opt_name p \<noteq> lit ''--help'') opts"

lemma well_namedD:
  assumes "well_named opts" "p \<in> set opts"
  shows "\<exists>c r. opt_name p = 45 # 45 # c # r" "61 \<notin> set (opt_name p)" "opt_name p \<noteq> lit ''-h''" "opt_name p \<noteq> lit ''--help''"
    "find (\<lambda>x. opt_name x = opt_name p) opts = Some p"
proof -
  have n: "take 2 (opt_name p) = dashes" "2 < length (opt_name p)" "61 \<notin> set (opt_name p)" "opt_name p \<noteq> lit ''--help''"
    using assms by (simp_all add: well_named_def list_all_iff)
  show s: "\<exists>c r. opt_name p = 45 # 45 # c # r"
    using n(1,2) by (cases "opt_name p"; cases "tl (opt_name p)"; cases "tl (tl (opt_name p))") (auto simp: dashes_def)
  show "61 \<notin> set (opt_name p)" "opt_name p \<noteq> lit ''--help''" using n by simp_all
  show "opt_name p \<noteq> lit ''-h''" using s by (auto simp: lit_def)
  have "inj_on opt_name (set opts)" using assms(1) by (simp add: well_named_def distinct_map)
  then have "opt_name x = opt_name p \<longleftrightarrow> x = p" if "x \<in> set opts" for x using that assms(2) by (auto dest: inj_onD)
  then show "find (\<lambda>x. opt_name x = opt_name p) opts = Some p"
    using assms(2) by (induction opts) auto
qed

lemma split_equals_name: "61 \<notin> set n \<Longrightarrow> split_equals (n @ 61 # v) = (n, Some v)"
  by (induction n) (auto simp: split_equals_def)

lemma classify_item:
  assumes "well_named opts" "p \<in> set opts"
  shows "classify opts (opt_name p) = Some [(OptHit p, None)]" "classify opts (opt_name p @ 61 # v) = Some [(OptHit p, Some v)]"
proof -
  note n = well_namedD [OF assms]
  have named: "named_option opts (opt_name p) = Some (OptHit p)" using n by (simp add: named_option_def)
  then show "classify opts (opt_name p) = Some [(OptHit p, None)]" using n(1) by (auto simp: classify_def)
  have "61 \<in> set (opt_name p @ 61 # v)" "61 \<notin> set (lit ''-h'')" "61 \<notin> set (lit ''--help'')" by (simp_all add: lit_def)
  then have "opt_name p @ 61 # v \<noteq> lit ''-h''" "opt_name p @ 61 # v \<noteq> lit ''--help''" by metis+
  moreover have "opt_name x \<noteq> opt_name p @ 61 # v" if "x \<in> set opts" for x
    using well_namedD(2) [OF assms(1) that] by (metis in_set_conv_decomp)
  then have "find (\<lambda>x. opt_name x = opt_name p @ 61 # v) opts = None" by (simp add: find_None_iff)
  ultimately have "named_option opts (opt_name p @ 61 # v) = None" by (simp add: named_option_def)
  moreover have "split_equals (opt_name p @ 61 # v) = (opt_name p, Some v)"
    using n(2) by (rule split_equals_name)
  ultimately show "classify opts (opt_name p @ 61 # v) = Some [(OptHit p, Some v)]" using named n(1) by (auto simp: classify_def)
qed

lemma classify_plain: "v = [] \<or> hd v \<noteq> 45 \<Longrightarrow> classify opts v = None \<and> v \<noteq> dashes"
  by (auto simp: classify_def dashes_def)

lemma item_not_dashes:
  assumes "well_named opts" "p \<in> set opts"
  shows "opt_name p \<noteq> dashes" "opt_name p @ 61 # v \<noteq> dashes"
  using well_namedD(1) [OF assms] by (auto simp: dashes_def)

lemma not_ambiguous:
  assumes "well_named opts" "list_all (item_ok opts) items" "t \<in> set (concat (map item_words items))"
  shows "\<not> ambiguous opts t"
proof -
  obtain it where it: "item_ok opts it" "t \<in> set (item_words it)" using assms(2,3) by (auto simp: list_all_iff)
  then show ?thesis
    using classify_item [OF assms(1)] classify_plain by (cases it) (auto simp: ambiguous_def)
qed

text \<open>The last of several values counts.\<close>

definition read_items :: "arg_values \<Rightarrow> line_item list \<Rightarrow> arg_values" where
  "read_items vals items n =
     (case map_of (rev (map (\<lambda>it. (opt_name (item_option it), item_value it)) items)) n of Some x \<Rightarrow> x | None \<Rightarrow> vals n)"

lemma read_items_Cons: "read_items vals (it # items) = read_items (vals(opt_name (item_option it) := item_value it)) items"
  by (rule ext) (simp add: read_items_def map_add_def split: option.split)

lemma read_items_other: "(\<And>it. it \<in> set items \<Longrightarrow> opt_name (item_option it) \<noteq> n) \<Longrightarrow> read_items vals items n = vals n"
proof (induction items arbitrary: vals)
  case Nil
  then show ?case by (simp add: read_items_def)
next
  case (Cons it items)
  then have "opt_name (item_option it) \<noteq> n" "read_items vals items n = vals n" for vals by simp_all
  then show ?case by (auto simp: read_items_Cons)
qed

lemma walk_items:
  assumes "well_named opts" "list_all (item_ok opts) items"
  shows "walk stop opts pos ex vals (concat (map item_words items) @ rest) =
    (if list_all (\<lambda>it. item_value it \<noteq> None) items then walk stop opts pos ex (read_items vals items) rest else WalkUsage)"
  using assms(2)
proof (induction items arbitrary: vals)
  case Nil
  have "read_items vals [] = vals" by (rule ext) (simp add: read_items_def)
  then show ?case by simp
next
  case (Cons it items)
  show ?case
  proof (cases it)
    case (Joined p v)
    have "p \<in> set opts" using Cons.prems Joined by simp
    from classify_item(2) [OF assms(1) this, of v] item_not_dashes(2) [OF assms(1) this, of v] show ?thesis
      using Cons Joined by (cases "convert_arg p v") (simp_all add: read_items_Cons)
  next
    case (Spaced p v)
    have p: "p \<in> set opts" and v: "v = [] \<or> hd v \<noteq> 45" using Cons.prems Spaced by simp_all
    from classify_item(1) [OF assms(1) p] item_not_dashes(1) [OF assms(1) p] classify_plain [OF v, of opts] show ?thesis
      using Cons Spaced by (cases "convert_arg p v") (simp_all add: read_items_Cons)
  qed
qed

lemma parse_items:
  assumes "well_named opts" "list_all (item_ok opts) items"
  shows "parse_args opts None (concat (map item_words items)) =
    (if list_all (\<lambda>it. item_value it \<noteq> None) items
        \<and> (\<forall>p\<in>set opts. opt_required p \<longrightarrow> read_items (defaults opts) items (opt_name p) \<noteq> None)
     then Parsed (read_items (defaults opts) items) else UsageExit)"
proof -
  have "\<not> list_ex (ambiguous opts) (takeWhile (\<lambda>t. t \<noteq> dashes) (concat (map item_words items)))"
    using not_ambiguous [OF assms] by (auto simp: list_ex_iff dest: set_takeWhileD)
  then show ?thesis
    using walk_items [OF assms, of False None False "defaults opts" "[]"]
    by (simp add: parse_args_def complete_def list_all_iff)
qed

text \<open>A required option, which has no default, has a value when it was given.\<close>

lemma required_given:
  assumes w: "well_named opts" and p: "p \<in> set opts" "opt_required p" and nd: "opt_default p = None"
    and ok: "list_all (item_ok opts) items" and vals: "list_all (\<lambda>it. item_value it \<noteq> None) items"
  shows "read_items (defaults opts) items (opt_name p) \<noteq> None \<longleftrightarrow> p \<in> item_option ` set items"
proof -
  have d: "defaults opts (opt_name p) = None" using well_namedD(5) [OF w p(1)] nd by (simp add: defaults_def)
  have inj: "opt_name x = opt_name p \<longleftrightarrow> x = p" if "x \<in> set opts" for x
    using well_namedD(5) [OF w that] well_namedD(5) [OF w p(1)] by (metis option.inject)
  have io: "item_option it \<in> set opts" if "it \<in> set items" for it
    using ok that by (cases it) (auto simp: list_all_iff)
  let ?m = "map_of (rev (map (\<lambda>it. (opt_name (item_option it), item_value it)) items)) (opt_name p)"
  show ?thesis
  proof (cases ?m)
    case None
    then have "opt_name p \<notin> (\<lambda>it. opt_name (item_option it)) ` set items" by (auto simp: map_of_eq_None_iff image_iff)
    then show ?thesis using None d by (auto simp: read_items_def)
  next
    case (Some x)
    then obtain it where it: "it \<in> set items" "opt_name (item_option it) = opt_name p" "item_value it = x"
      using map_of_SomeD [OF Some] by auto
    then have "item_option it = p" "x \<noteq> None" using inj io vals by (auto simp: list_all_iff)
    then show ?thesis using Some it(1) by (auto simp: read_items_def)
  qed
qed

end
