(* ===== verification/Program_Lines.thy ===== *)
theory Program_Lines
  imports Command_Line Server_Main Client_Bundle Client_Cli
begin

section \<open>The programs from their command lines\<close>

text \<open>
  The options of the five programs as they declare them, what they make of the parsed values, and
  each program from its command line on. \<open>to_path\<close> is \<open>Path(text)\<close> in the current directory.
\<close>

subsection \<open>\<open>vvv-server\<close>\<close>

definition server_arguments :: "opt list" where
  "server_arguments =
     [(default_option ''--asr-backend'' TextType (ArgText (lit ''vibevoice'')))\<lparr>opt_choices := Some [lit ''vibevoice'', lit ''groq'']\<rparr>,
      required_option ''--uds'' TextType,
      required_option ''--max-audio-bytes'' IntType,
      required_option ''--max-queue-size'' IntType,
      default_option ''--vllm-base-url'' TextType (ArgText []),
      default_option ''--vllm-model-name'' TextType (ArgText (lit ''vibevoice'')),
      default_option ''--vllm-temperature'' FloatType (ArgFloat (Fin 0)),
      default_option ''--vllm-top-p'' FloatType (ArgFloat (Fin 1)),
      default_option ''--groq-api-key'' TextType (ArgText []),
      default_option ''--groq-model-name'' TextType (ArgText (lit ''whisper-large-v3''))]"

definition server_args_of :: "(str \<Rightarrow> path) \<Rightarrow> arg_values \<Rightarrow> server_args" where
  "server_args_of to_path v =
     \<lparr>sa_uds = to_path (arg_text v ''--uds''),
      sa_values =
        \<lparr>asr_backend = (if arg_text v ''--asr-backend'' = lit ''groq'' then Groq else Vibevoice),
         max_audio_bytes = arg_int v ''--max-audio-bytes'', max_queue_size = arg_int v ''--max-queue-size'',
         vllm_base_url = arg_text v ''--vllm-base-url'', vllm_model_name = arg_text v ''--vllm-model-name'',
         vllm_temperature = arg_float v ''--vllm-temperature'', vllm_top_p = arg_float v ''--vllm-top-p'',
         groq_api_key = arg_text v ''--groq-api-key'', groq_model_name = arg_text v ''--groq-model-name''\<rparr>\<rparr>"

text \<open>A program on a parsed line; the usage and the help text end it before it does anything.\<close>

definition on_line :: "'a line \<Rightarrow> ('a \<Rightarrow> fs \<Rightarrow> 'b \<times> fs) \<Rightarrow> fs \<Rightarrow> 'b line \<times> fs" where
  "on_line l program d = (case l of Parsed x \<Rightarrow> apfst Parsed (program x d) | HelpExit \<Rightarrow> (HelpExit, d) | UsageExit \<Rightarrow> (UsageExit, d))"

definition vvv_server ::
    "uds_env \<Rightarrow> (str \<Rightarrow> path) \<Rightarrow> (settings \<Rightarrow> uvicorn_options \<Rightarrow> fs \<Rightarrow> exn option \<times> fs) \<Rightarrow> str list \<Rightarrow> fs \<Rightarrow> server_end line \<times> fs" where
  "vvv_server env to_path run ts =
     on_line (parse_args server_arguments None ts) (\<lambda>v. server_main env (server_args_of to_path v) run)"

subsection \<open>The scripts\<close>

definition bundle_arguments :: "opt list" where
  "bundle_arguments =
     [required_option ''--server-url'' TextType,
      default_option ''--server-spki-pin-file'' TextType (ArgText (lit ''certs/self-signed/server-spki-pin.txt'')),
      default_option ''--client-ca-cert-file'' TextType (ArgText (lit ''certs/self-signed/client-ca.pem'')),
      default_option ''--client-cert-file'' TextType (ArgText (lit ''keys/client-cert.pem'')),
      default_option ''--client-key-file'' TextType (ArgText (lit ''keys/client-key.pem'')),
      default_option ''--output'' TextType (ArgText (lit ''keys/client-bundle.vvv.json''))]"

definition bundle_program :: "bundle_env \<Rightarrow> (exn \<Rightarrow> str) \<Rightarrow> (str \<Rightarrow> path) \<Rightarrow> str list \<Rightarrow> fs \<Rightarrow> exit line \<times> fs" where
  "bundle_program env os_text to_path ts =
     on_line (parse_args bundle_arguments None ts) (\<lambda>v d.
       (let out = to_path (arg_text v ''--output'')
        in apfst (generate_client_bundle_main os_text out)
             (write_client_bundle_file env out (arg_text v ''--server-url'') (to_path (arg_text v ''--server-spki-pin-file''))
                (to_path (arg_text v ''--client-ca-cert-file'')) (to_path (arg_text v ''--client-cert-file''))
                (to_path (arg_text v ''--client-key-file'')) d)))"

definition client_cert_arguments :: "opt list" where
  "client_cert_arguments =
     [required_option ''--certs-dir'' TextType, required_option ''--keys-dir'' TextType, required_option ''--subject'' TextType,
      default_option ''--days'' IntType (ArgInt 3650)]"

definition client_cert_program ::
    "crypto \<Rightarrow> (exn \<Rightarrow> str) \<Rightarrow> int \<Rightarrow> (str \<Rightarrow> path) \<Rightarrow> private_key \<Rightarrow> private_key \<Rightarrow> rat \<Rightarrow> rat \<Rightarrow> str list \<Rightarrow> fs \<Rightarrow> exit line \<times> fs" where
  "client_cert_program lib os_text mode0 to_path ca_key client_key now now2 ts =
     on_line (parse_args client_cert_arguments None ts) (\<lambda>v d.
       apfst generate_client_cert_main
         (generate_client_auth_artifacts lib os_text mode0 (to_path (arg_text v ''--certs-dir'')) (to_path (arg_text v ''--keys-dir''))
            (arg_text v ''--subject'') (arg_int v ''--days'') ca_key client_key now now2 d))"

definition validate_arguments :: "opt list" where
  "validate_arguments = [required_option ''--certs-dir'' TextType, required_option ''--keys-dir'' TextType]"

definition validate_program :: "crypto \<Rightarrow> (exn \<Rightarrow> str) \<Rightarrow> (str \<Rightarrow> path) \<Rightarrow> rat \<Rightarrow> str list \<Rightarrow> fs \<Rightarrow> exit line \<times> fs" where
  "validate_program lib os_text to_path now ts =
     on_line (parse_args validate_arguments None ts) (\<lambda>v d.
       (validate_client_cert_main lib os_text (to_path (arg_text v ''--certs-dir'')) (to_path (arg_text v ''--keys-dir'')) now d, d))"

subsection \<open>\<open>vvv\<close>\<close>

definition vvv_arguments :: "opt list" where
  "vvv_arguments =
     [required_option ''--server'' TextType, required_option ''--server-pin'' TextType,
      required_option ''--client-cert'' TextType, required_option ''--client-key'' TextType]"

definition transcribe_arguments :: "opt list" where
  "transcribe_arguments = [text_option ''--hotwords'', text_option ''--output'']"

text \<open>The words from the command on are read by the command's own parser.\<close>

definition vvv_command :: "str list \<Rightarrow> command line" where
  "vvv_command ws =
     (case ws of
        [] \<Rightarrow> UsageExit
      | c # args \<Rightarrow>
          if c = lit ''transcribe''
          then map_line (\<lambda>v. TranscribeCmd (arg_text v ''file'') (arg_text_option v ''--hotwords'') (arg_text_option v ''--output''))
                 (parse_args transcribe_arguments (Some (lit ''file'')) args)
          else if c = lit ''status'' then map_line (\<lambda>_. StatusCmd) (parse_args [] None args)
          else UsageExit)"

definition vvv_line :: "str list \<Rightarrow> cli_args line" where
  "vvv_line ts =
     (if list_ex (ambiguous vvv_arguments) (takeWhile (\<lambda>t. t \<noteq> dashes) ts) then UsageExit
      else case walk True vvv_arguments None False (defaults vvv_arguments) ts of
        WalkHelp \<Rightarrow> HelpExit
      | WalkUsage \<Rightarrow> UsageExit
      | WalkEnd v missing extra ws \<Rightarrow>
          (case vvv_command ws of
             Parsed c \<Rightarrow>
               if extra \<or> \<not> complete vvv_arguments v then UsageExit
               else Parsed \<lparr>ca_server = arg_text v ''--server'', ca_server_pin = arg_text v ''--server-pin'',
                            ca_client_cert = arg_text v ''--client-cert'', ca_client_key = arg_text v ''--client-key'', ca_command = c\<rparr>
           | HelpExit \<Rightarrow> HelpExit
           | UsageExit \<Rightarrow> UsageExit))"

definition vvv_program ::
    "cli_env \<Rightarrow> (str \<Rightarrow> str option) \<Rightarrow> (client \<Rightarrow> str \<times> int \<Rightarrow> request \<Rightarrow> http_response res) \<Rightarrow> str list \<Rightarrow> cli \<Rightarrow> cli_end line \<times> cli" where
  "vvv_program env bad http ts st =
     (case vvv_line ts of
        Parsed a \<Rightarrow> apfst Parsed (cli_main env bad http a st) | HelpExit \<Rightarrow> (HelpExit, st) | UsageExit \<Rightarrow> (UsageExit, st))"

subsection \<open>The property\<close>

lemmas program_options = server_arguments_def bundle_arguments_def client_cert_arguments_def validate_arguments_def
  text_option_def required_option_def default_option_def

lemma programs_named: "opts \<in> {server_arguments, bundle_arguments, client_cert_arguments, validate_arguments} \<Longrightarrow> well_named opts"
  by (auto simp: well_named_def program_options dashes_def lit_def)

text \<open>Command lines are read as they are written: for the server and the three scripts, a line of
  options with values, each as \<open>--name=value\<close> or as two words (the value then not looking like an
  option), in any order, is accepted exactly when every value has its option's type and choice and
  every required option is there; then each option has the last value given, or its default.\<close>

theorem command_line_read:
  assumes "opts \<in> {server_arguments, bundle_arguments, client_cert_arguments, validate_arguments}" and "list_all (item_ok opts) items"
  shows "parse_args opts None (concat (map item_words items)) =
    (if list_all (\<lambda>it. item_value it \<noteq> None) items \<and> (\<forall>p\<in>set opts. opt_required p \<longrightarrow> p \<in> item_option ` set items)
     then Parsed (\<lambda>n. case map_of (rev (map (\<lambda>it. (opt_name (item_option it), item_value it)) items)) n of
            Some x \<Rightarrow> x
          | None \<Rightarrow> Option.bind (find (\<lambda>p. opt_name p = n) opts) opt_default)
     else UsageExit)"
proof -
  have w: "well_named opts" using assms(1) by (rule programs_named)
  have read: "read_items (defaults opts) items = (\<lambda>n. case map_of (rev (map (\<lambda>it. (opt_name (item_option it), item_value it)) items)) n of
            Some x \<Rightarrow> x | None \<Rightarrow> Option.bind (find (\<lambda>p. opt_name p = n) opts) opt_default)"
    by (rule ext) (simp only: read_items_def defaults_def)
  have "read_items (defaults opts) items (opt_name p) \<noteq> None \<longleftrightarrow> p \<in> item_option ` set items"
    if p: "p \<in> set opts" "opt_required p" and ok: "list_all (\<lambda>it. item_value it \<noteq> None) items" for p
    by (rule required_given [OF w p _ assms(2) ok]) (use assms(1) p in \<open>auto simp: program_options\<close>)
  then show ?thesis unfolding parse_items [OF w assms(2)] read by auto
qed

definition words :: "line_item list \<Rightarrow> str list" where
  "words items = concat (map item_words items)"

text \<open>The last value given to an option, or else a value that stands for its absence.\<close>

definition last_given :: "line_item list \<Rightarrow> string \<Rightarrow> arg \<Rightarrow> arg option" where
  "last_given items n v =
     (case map_of (rev (map (\<lambda>it. (opt_name (item_option it), item_value it)) items)) (lit n) of Some x \<Rightarrow> x | None \<Rightarrow> Some v)"

definition given_names :: "line_item list \<Rightarrow> str set" where
  "given_names items = (\<lambda>it. opt_name (item_option it)) ` set items"

fun text_value :: "arg option \<Rightarrow> str" where
  "text_value (Some (ArgText s)) = s" | "text_value _ = []"

fun int_value :: "arg option \<Rightarrow> int" where
  "int_value (Some (ArgInt n)) = n" | "int_value _ = 0"

fun float_value :: "arg option \<Rightarrow> pyfloat" where
  "float_value (Some (ArgFloat x)) = x" | "float_value _ = NaN"

lemma arg_values_of: "arg_text v n = text_value (v (lit n))" "arg_int v n = int_value (v (lit n))" "arg_float v n = float_value (v (lit n))"
  by (auto simp: arg_text_def arg_int_def arg_float_def split: option.split arg.split)

lemma read_default: "defaults opts (lit n) = Some v \<Longrightarrow> read_items (defaults opts) items (lit n) = last_given items n v"
  by (simp add: read_items_def last_given_def split: option.split)

lemma read_given: "lit n \<in> given_names items \<Longrightarrow> read_items vals items (lit n) = last_given items n v"
proof -
  assume "lit n \<in> given_names items"
  then have "map_of (rev (map (\<lambda>it. (opt_name (item_option it), item_value it)) items)) (lit n) \<noteq> None"
    by (auto simp: given_names_def map_of_eq_None_iff image_iff)
  then show ?thesis by (auto simp: read_items_def last_given_def)
qed

lemma server_defaults:
  "defaults server_arguments (lit ''--asr-backend'') = Some (ArgText (lit ''vibevoice''))"
  "defaults server_arguments (lit ''--vllm-base-url'') = Some (ArgText [])"
  "defaults server_arguments (lit ''--vllm-model-name'') = Some (ArgText (lit ''vibevoice''))"
  "defaults server_arguments (lit ''--vllm-temperature'') = Some (ArgFloat (Fin 0))"
  "defaults server_arguments (lit ''--vllm-top-p'') = Some (ArgFloat (Fin 1))"
  "defaults server_arguments (lit ''--groq-api-key'') = Some (ArgText [])"
  "defaults server_arguments (lit ''--groq-model-name'') = Some (ArgText (lit ''whisper-large-v3''))"
  by (simp_all add: defaults_def program_options)

lemma server_required:
  assumes "list_all (item_ok server_arguments) items" "list_all (\<lambda>it. item_value it \<noteq> None) items"
  shows "(\<forall>p\<in>set server_arguments. opt_required p \<longrightarrow> read_items (defaults server_arguments) items (opt_name p) \<noteq> None)
    \<longleftrightarrow> {lit ''--uds'', lit ''--max-audio-bytes'', lit ''--max-queue-size''} \<subseteq> given_names items"
proof -
  have w: "well_named server_arguments" by (rule programs_named) simp
  have io: "item_option it \<in> set server_arguments" if "it \<in> set items" for it
    using assms(1) that by (cases it) (auto simp: list_all_iff)
  have "read_items (defaults server_arguments) items (opt_name p) \<noteq> None \<longleftrightarrow> opt_name p \<in> given_names items"
    if p: "p \<in> set server_arguments" "opt_required p" for p
  proof -
    have "opt_default p = None" using p by (auto simp: program_options)
    then have "read_items (defaults server_arguments) items (opt_name p) \<noteq> None \<longleftrightarrow> p \<in> item_option ` set items"
      by (rule required_given [OF w p _ assms])
    also have "\<dots> \<longleftrightarrow> opt_name p \<in> given_names items"
      using well_namedD(5) [OF w p(1)] well_namedD(5) [OF w io] by (force simp: given_names_def)
    finally show ?thesis .
  qed
  then have "(\<forall>p\<in>set server_arguments. opt_required p \<longrightarrow> read_items (defaults server_arguments) items (opt_name p) \<noteq> None)
    \<longleftrightarrow> (\<forall>p\<in>set server_arguments. opt_required p \<longrightarrow> opt_name p \<in> given_names items)" by blast
  then show ?thesis by (simp only:) (auto simp: program_options)
qed

text \<open>The arguments that a line gives: the last value of each option or its documented default.\<close>

definition given_args :: "(str \<Rightarrow> path) \<Rightarrow> line_item list \<Rightarrow> server_args" where
  "given_args to_path items =
     \<lparr>sa_uds = to_path (text_value (last_given items ''--uds'' (ArgText []))), sa_values =
       \<lparr>asr_backend = (if text_value (last_given items ''--asr-backend'' (ArgText (lit ''vibevoice''))) = lit ''groq'' then Groq else Vibevoice),
        max_audio_bytes = int_value (last_given items ''--max-audio-bytes'' (ArgInt 0)),
        max_queue_size = int_value (last_given items ''--max-queue-size'' (ArgInt 0)),
        vllm_base_url = text_value (last_given items ''--vllm-base-url'' (ArgText [])),
        vllm_model_name = text_value (last_given items ''--vllm-model-name'' (ArgText (lit ''vibevoice''))),
        vllm_temperature = float_value (last_given items ''--vllm-temperature'' (ArgFloat (Fin 0))),
        vllm_top_p = float_value (last_given items ''--vllm-top-p'' (ArgFloat (Fin 1))),
        groq_api_key = text_value (last_given items ''--groq-api-key'' (ArgText [])),
        groq_model_name = text_value (last_given items ''--groq-model-name'' (ArgText (lit ''whisper-large-v3'')))\<rparr>\<rparr>"

lemma server_main_serves:
  assumes "can_serve (sa_values args)"
  shows "server_main env args run d = (case serve_uds env (sa_uds args) (run (sa_values args) server_options) d of
    (e, _, d1) \<Rightarrow> (case e of None \<Rightarrow> ServerStopped | Some x \<Rightarrow> ServerRaised x, d1))"
  using assms by (simp add: can_serve_iff server_main_def split: prod.splits option.splits)

text \<open>C25. The server's command line, for the lines of options with values: every option by its full
  name and with a value, as \<open>--name=value\<close> or as two words (the value then not beginning with a
  dash), in any order and number (so no \<open>--help\<close> and no abbreviation). Each option has the last value
  given or its documented default. If each value has its option's type and choice, the socket and
  both sizes are given, and the settings are valid and have what their backend needs (the URL of
  the model server, the key for Groq), the server binds its socket and runs with exactly these
  settings. If only the last of these fails, it ends with an error and changes nothing; every other
  such line ends with the usage text and changes nothing.\<close>

theorem server_line_read:
  assumes "list_all (item_ok server_arguments) items"
  shows "if list_all (\<lambda>it. item_value it \<noteq> None) items \<and> {lit ''--uds'', lit ''--max-audio-bytes'', lit ''--max-queue-size''} \<subseteq> given_names items
    then if can_serve (sa_values (given_args to_path items))
      then vvv_server env to_path run (words items) d =
        (case serve_uds env (sa_uds (given_args to_path items)) (run (sa_values (given_args to_path items)) server_options) d of
           (e, _, d1) \<Rightarrow> (Parsed (case e of None \<Rightarrow> ServerStopped | Some x \<Rightarrow> ServerRaised x), d1))
      else \<exists>r. r \<noteq> ServerStopped \<and> vvv_server env to_path run (words items) d = (Parsed r, d)
    else vvv_server env to_path run (words items) d = (UsageExit, d)"
proof -
  have w: "well_named server_arguments" by (rule programs_named) simp
  let ?v = "read_items (defaults server_arguments) items" and ?a = "given_args to_path items"
  note p = parse_items [OF w assms, folded words_def]
  show ?thesis
  proof (cases "list_all (\<lambda>it. item_value it \<noteq> None) items \<and> {lit ''--uds'', lit ''--max-audio-bytes'', lit ''--max-queue-size''} \<subseteq> given_names items")
    case True
    then have "parse_args server_arguments None (words items) = Parsed ?v"
      using p server_required [OF assms] by simp
    moreover have "lit ''--uds'' \<in> given_names items" "lit ''--max-audio-bytes'' \<in> given_names items" "lit ''--max-queue-size'' \<in> given_names items"
      using True by simp_all
    ultimately have "vvv_server env to_path run (words items) d = apfst Parsed (server_main env ?a run d)"
      by (simp add: vvv_server_def on_line_def server_args_of_def given_args_def arg_values_of server_defaults [THEN read_default]
          read_given [where v = "ArgText []" and n = "''--uds''"] read_given [where v = "ArgInt 0" and n = "''--max-audio-bytes''"] read_given [where v = "ArgInt 0" and n = "''--max-queue-size''"])
    moreover have "\<exists>r. r \<noteq> ServerStopped \<and> server_main env ?a run d = (r, d)" if "\<not> can_serve (sa_values ?a)"
      using refused [OF that] by blast
    ultimately show ?thesis
      using True by (auto simp: server_main_serves split: prod.split)
  next
    case False
    then have "parse_args server_arguments None (words items) = UsageExit" using p server_required [OF assms] by auto
    then show ?thesis using False by (auto simp: vvv_server_def on_line_def)
  qed
qed

text \<open>The line of \<open>vvv transcribe\<close>: its own options, the command, and the file between the command's
  options. The command's options are unknown to the first parser, and not ambiguous there.\<close>

lemma vvv_named: "well_named vvv_arguments" "well_named transcribe_arguments"
  by (auto simp: well_named_def vvv_arguments_def transcribe_arguments_def text_option_def required_option_def dashes_def lit_def)

lemma foreign_option:
  assumes "n = lit ''--hotwords'' \<or> n = lit ''--output''"
  shows "\<not> py_startswith (lit ''--help'') n" "filter (\<lambda>p. py_startswith (opt_name p) n) vvv_arguments = []"
    "named_option vvv_arguments n = None" "61 \<notin> set n" "n ! 1 = 45" "2 < length n" "hd n = 45"
proof -
  show "filter (\<lambda>p. py_startswith (opt_name p) n) vvv_arguments = []"
    using assms by (elim disjE) (simp_all add: vvv_arguments_def text_option_def required_option_def py_startswith_def lit_def)
  show "named_option vvv_arguments n = None"
    using assms by (elim disjE) (simp_all add: named_option_def vvv_arguments_def text_option_def required_option_def)
qed (use assms in \<open>elim disjE; simp add: py_startswith_def lit_def\<close>)+

lemma command_word:
  assumes "item_ok transcribe_arguments it" "t \<in> set (item_words it)"
  shows "\<not> ambiguous vvv_arguments t"
proof -
  have 1: "\<not> ambiguous vvv_arguments (opt_name p)" if "p \<in> set transcribe_arguments" for p
  proof -
    have n: "opt_name p = lit ''--hotwords'' \<or> opt_name p = lit ''--output''"
      using that by (auto simp: transcribe_arguments_def text_option_def)
    have "split_equals (opt_name p) = (opt_name p, None)"
      using foreign_option(4) [OF n] by (auto simp: split_equals_def takeWhile_eq_all_conv)
    then show ?thesis
      using foreign_option [OF n] by (auto simp: ambiguous_def classify_def option_tuples_def)
  qed
  have 2: "\<not> ambiguous vvv_arguments (opt_name p @ 61 # v)" if p: "p \<in> set transcribe_arguments" for p v
  proof -
    have n: "opt_name p = lit ''--hotwords'' \<or> opt_name p = lit ''--output''"
      using that by (auto simp: transcribe_arguments_def text_option_def)
    have "(opt_name p @ 61 # v) ! 1 = 45" "hd (opt_name p @ 61 # v) = 45" "opt_name p @ 61 # v \<noteq> []"
      using foreign_option(5-7) [OF n] by (auto simp: nth_append hd_append)
    moreover have "option_tuples vvv_arguments (opt_name p @ 61 # v) = []"
      using calculation foreign_option [OF n] split_equals_name [OF foreign_option(4) [OF n], of v] by (simp add: option_tuples_def)
    ultimately show ?thesis
      using foreign_option(3) [OF n] split_equals_name [OF foreign_option(4) [OF n], of v]
      by (cases "named_option vvv_arguments (opt_name p @ 61 # v)") (auto simp: ambiguous_def classify_def Let_def)
  qed
  show ?thesis using assms 1 2 classify_plain by (cases it) (auto simp: ambiguous_def)
qed

lemma command_words:
  assumes "list_all (item_ok vvv_arguments) main" "list_all (item_ok transcribe_arguments) (a @ b)" "file = [] \<or> hd file \<noteq> 45"
  shows "\<not> list_ex (ambiguous vvv_arguments) (words main @ lit ''transcribe'' # words a @ file # words b)"
proof -
  have "classify vvv_arguments (lit ''transcribe'') = None" by (simp add: classify_plain lit_def)
  then show ?thesis
    using assms not_ambiguous [OF vvv_named(1) assms(1)] command_word classify_plain [OF assms(3)]
    by (fastforce simp: list_ex_iff words_def list_all_iff ambiguous_def)
qed

lemma transcribe_words:
  assumes ok: "list_all (item_ok transcribe_arguments) (a @ b)" and plain: "file = [] \<or> hd file \<noteq> 45"
  shows "parse_args transcribe_arguments (Some (lit ''file'')) (words a @ file # words b) =
    Parsed (read_items ((read_items (defaults transcribe_arguments) a)(lit ''file'' \<mapsto> ArgText file)) b)"
proof -
  have oks: "list_all (item_ok transcribe_arguments) a" "list_all (item_ok transcribe_arguments) b" using ok by simp_all
  have "item_value it \<noteq> None" if "item_ok transcribe_arguments it" for it
    using that by (cases it) (auto simp: transcribe_arguments_def text_option_def convert_arg_def)
  then have vals: "list_all (\<lambda>it. item_value it \<noteq> None) a" "list_all (\<lambda>it. item_value it \<noteq> None) b"
    using oks by (auto simp: list_all_iff)
  have next_word: "words b = [] \<or> hd (words b) \<noteq> dashes"
  proof (cases b)
    case (Cons it items)
    then show ?thesis using oks(2) item_not_dashes [OF vvv_named(2)] by (cases it) (auto simp: words_def)
  qed (simp add: words_def)
  have "\<not> list_ex (ambiguous transcribe_arguments) (words a @ file # words b)"
    using not_ambiguous [OF vvv_named(2) oks(1)] not_ambiguous [OF vvv_named(2) oks(2)] classify_plain [OF plain]
    by (auto simp: list_ex_iff words_def ambiguous_def)
  then have na: "\<not> list_ex (ambiguous transcribe_arguments) (takeWhile (\<lambda>t. t \<noteq> dashes) (words a @ file # words b))"
    by (auto simp: list_ex_iff dest!: set_takeWhileD)
  have "complete transcribe_arguments v" for v by (simp add: complete_def transcribe_arguments_def text_option_def)
  then show ?thesis
    using na walk_items [OF vvv_named(2) oks(1), of False "Some (lit ''file'')" False _ "file # words b"]
      walk_items [OF vvv_named(2) oks(2), of False None False _ "[]"] classify_plain [OF plain] vals next_word
    by (auto simp: parse_args_def simp flip: words_def)
qed

text \<open>\<open>vvv\<close> gives the transcription the file and the last value of each option; without one of the four
  options of the connection it does nothing.\<close>

theorem vvv_line_read:
  assumes ok: "list_all (item_ok vvv_arguments) main" "list_all (item_ok transcribe_arguments) (a @ b)" and plain: "file = [] \<or> hd file \<noteq> 45"
    and v: "v = read_items (defaults vvv_arguments) main" "w = read_items ((read_items (defaults transcribe_arguments) a)(lit ''file'' \<mapsto> ArgText file)) b"
  shows "vvv_line (words main @ lit ''transcribe'' # words a @ file # words b) =
    (if set vvv_arguments \<subseteq> item_option ` set main
     then Parsed \<lparr>ca_server = arg_text v ''--server'', ca_server_pin = arg_text v ''--server-pin'',
       ca_client_cert = arg_text v ''--client-cert'', ca_client_key = arg_text v ''--client-key'',
       ca_command = TranscribeCmd file (arg_text_option w ''--hotwords'') (arg_text_option w ''--output'')\<rparr>
     else UsageExit)"
proof -
  have "item_value it \<noteq> None" if "item_ok vvv_arguments it" for it
    using that by (cases it) (auto simp: vvv_arguments_def required_option_def text_option_def convert_arg_def)
  then have vals: "list_all (\<lambda>it. item_value it \<noteq> None) main" using ok(1) by (auto simp: list_all_iff)
  have c: "classify vvv_arguments (lit ''transcribe'') = None" "lit ''transcribe'' \<noteq> dashes"
    by (simp_all add: classify_plain lit_def dashes_def)
  have na: "\<not> list_ex (ambiguous vvv_arguments) (takeWhile (\<lambda>t. t \<noteq> dashes) (words main @ lit ''transcribe'' # words a @ file # words b))"
    using command_words [OF ok plain] by (auto simp: list_ex_iff simp del: takeWhile_append dest!: set_takeWhileD)
  have walk: "walk True vvv_arguments None False (defaults vvv_arguments) (words main @ lit ''transcribe'' # words a @ file # words b) =
      WalkEnd v None False (lit ''transcribe'' # words a @ file # words b)"
    using walk_items [OF vvv_named(1) ok(1), of True None False] vals c v(1) by (simp flip: words_def)
  have req: "opt_required p \<and> opt_default p = None" if "p \<in> set vvv_arguments" for p
    using that by (auto simp: vvv_arguments_def required_option_def text_option_def)
  have given: "v (opt_name p) \<noteq> None \<longleftrightarrow> p \<in> item_option ` set main" if "p \<in> set vvv_arguments" for p
    unfolding v(1) using req [OF that] by (intro required_given [OF vvv_named(1) that _ _ ok(1) vals]) simp_all
  then have complete: "complete vvv_arguments v \<longleftrightarrow> set vvv_arguments \<subseteq> item_option ` set main"
    using req unfolding complete_def list_all_iff by blast
  have "opt_name (item_option it) \<noteq> lit ''file''" if "it \<in> set b" for it
  proof -
    have "item_ok transcribe_arguments it" using ok(2) that by (simp add: list_all_iff)
    then show ?thesis by (cases it) (auto simp: transcribe_arguments_def text_option_def)
  qed
  then have "arg_text w ''file'' = file" by (simp add: v(2) read_items_other arg_text_def)
  then show ?thesis
    using na walk transcribe_words [OF ok(2) plain] complete v(2) by (simp add: vvv_line_def vvv_command_def)
qed

subsection \<open>Witness\<close>

definition demo_items :: "line_item list" where
  "demo_items = [Joined (server_arguments ! 1) (lit ''/run/vvv.sock''), Spaced (server_arguments ! 2) (lit ''1000''),
     Joined (server_arguments ! 3) (lit ''3''), Spaced (server_arguments ! 2) (lit ''2000''), Joined (server_arguments ! 4) (lit ''http://m'')]"

lemma demo_words: "words demo_items =
  [lit ''--uds=/run/vvv.sock'', lit ''--max-audio-bytes'', lit ''1000'', lit ''--max-queue-size=3'', lit ''--max-audio-bytes'', lit ''2000'',
   lit ''--vllm-base-url=http://m'']"
  by (simp add: words_def demo_items_def program_options) (simp add: lit_def)

lemma demo_numbers: "int_of_text (lit ''1000'') = Some 1000" "int_of_text (lit ''3'') = Some 3" "int_of_text (lit ''2000'') = Some 2000"
proof -
  have "lit ''1000'' = show_nat 1000" "lit ''3'' = show_nat 3" "lit ''2000'' = show_nat 2000"
    by (simp_all add: show_nat.simps lit_def)
  then show "int_of_text (lit ''1000'') = Some 1000" "int_of_text (lit ''3'') = Some 3" "int_of_text (lit ''2000'') = Some 2000"
    by (simp_all add: int_of_show_nat)
qed

text \<open>The line starts the server with the settings \<open>demo_given\<close>.\<close>

definition demo_given :: settings where
  "demo_given = demo_settings\<lparr>max_audio_bytes := 2000, groq_model_name := lit ''whisper-large-v3''\<rparr>"

theorem server_line_read_witness:
  "\<forall>env run d. vvv_server env (\<lambda>t. [t]) run [lit ''--uds=/run/vvv.sock'', lit ''--max-audio-bytes'', lit ''1000'', lit ''--max-queue-size=3'',
      lit ''--max-audio-bytes'', lit ''2000'', lit ''--vllm-base-url=http://m''] d =
     (case serve_uds env [lit ''/run/vvv.sock''] (run demo_given server_options) d of
        (e, _, d1) \<Rightarrow> (Parsed (case e of None \<Rightarrow> ServerStopped | Some x \<Rightarrow> ServerRaised x), d1))"
proof -
  have ok: "list_all (item_ok server_arguments) demo_items" by (simp add: demo_items_def server_arguments_def) (simp add: lit_def)
  have vals: "list_all (\<lambda>it. item_value it \<noteq> None) demo_items"
    by (simp add: demo_items_def program_options convert_arg_def demo_numbers)
  have req: "{lit ''--uds'', lit ''--max-audio-bytes'', lit ''--max-queue-size''} \<subseteq> given_names demo_items"
    by (simp add: demo_items_def given_names_def program_options)
  have given: "given_args (\<lambda>t. [t]) demo_items = \<lparr>sa_uds = [lit ''/run/vvv.sock''], sa_values = demo_given\<rparr>"
    by (simp add: given_args_def last_given_def demo_items_def program_options convert_arg_def demo_numbers demo_given_def demo_settings_def)
  have "can_serve demo_given"
    by (simp add: can_serve_def demo_given_def demo_settings_def settings_ok_def positive_int_def valid_temperature_def valid_top_p_def float_le_def)
  then show ?thesis
    using vals req server_line_read [OF ok, of "\<lambda>t. [t]"] unfolding demo_words given by simp
qed

end
