(* ===== verification/Spec2Isabelle.thy ===== *)
theory Spec2Isabelle
  imports Queue_Demo Queue_Properties Queue_Theorems Queue_Reports Wav_Audio Client_Gate Form_Upload
    Job_Slots Event_Stream Transcribe_Route Json_Text Vllm_Client Opus_Audio Process_Job
    Upload_Path Upload_Journey Transcript_Journey End_To_End Provisioning Server_Main Web_App Program_Lines
begin

text \<open>
  \<^bold>\<open>A verification library for VibeVoice Vendor (VVV)\<close>

  The repository is a single-tenant speech recognition service: a FastAPI server
  (\<open>server/\<close>) behind a TLS proxy, a command-line client (\<open>client/\<close>) and the scripts that make
  its certificates (\<open>scripts/\<close>). This library models its Python code and proves what makes it
  correct. Every mapped definition is a translation of the lines that \<open>PROJECT.json\<close> names.

  \<^bold>\<open>The program\<close>. A request to \<open>/v1/transcribe\<close> reserves a place in the queue, is parsed as a
  multipart form, its WAV upload is copied to a private file and checked, and the job is
  submitted. One worker serves the submitted jobs: it starts the job's process task, which
  sends the audio to the model server (VibeVoice behind vLLM) or to Groq and puts the text it
  gets into the job's chunk queue. The event stream of the request reads that queue and sends
  server-sent events until the end marker. A job that ended stays in the dictionary for 30
  seconds, then a clean-up task pops it. Clients can ask for the status of their jobs, and
  anyone can cancel by closing the connection.

  \<^bold>\<open>Theories\<close>
  \<^item> \<open>Vvv_Prelude\<close>: text, bytes, exceptions and results, generic lemmas, transition systems and
    the locale \<open>invariant_system\<close>.
  \<^item> \<open>Py_Text\<close>, \<open>Py_Float\<close>, \<open>Utf8_Text\<close>, \<open>Json_Text\<close>, \<open>Py_Convert\<close>: what the source uses of
    \<open>str\<close>, \<open>re\<close>, \<open>pathlib\<close>, floats and their formats, UTF-8, \<open>json\<close>, and the conversions between
    text, numbers and decoded values.
  \<^item> \<open>File_Store\<close>, \<open>File_Ops\<close>: the file system, with the errors of each call, modes and links.
  \<^item> \<open>Server_Models\<close>: \<open>server/models.py\<close>.
  \<^item> \<open>Job_Queue\<close>: \<open>server/queue.py\<close>, one definition per method and one per segment of the
    worker. \<open>Queue_System\<close>: the step relation \<open>qstep\<close> of everything that acts on the queue, and
    the invariant \<open>qinv\<close>, proved in \<open>Queue_Invariants\<close>. \<open>Queue_Refinement\<close>: the abstract
    bounded first-in first-out server and the simulation. \<open>Queue_Properties\<close>, \<open>Queue_Status\<close>,
    \<open>Queue_Service\<close>: life cycle, positions and progress on a disk that refuses no removal;
    \<open>Queue_Retention\<close>: what holds of audio, stream ends and clean-ups on any disk; \<open>Queue_Demo\<close>: a run for the
    witnesses; \<open>Queue_Theorems\<close>, \<open>Queue_Reports\<close>: the properties.
  \<^item> \<open>Wav_Audio\<close>, \<open>Opus_Audio\<close>: \<open>server/audio.py\<close> (the locale \<open>le_codec\<close> is the interface of the
    little-endian fields; \<open>Opus_Audio\<close> is the compression with \<open>ffmpeg\<close>).
  \<^item> \<open>Client_Gate\<close>: \<open>server/config.py\<close>, \<open>server/client_identity.py\<close>, the HTTPS middleware, the
    health and queue-status routes. \<open>Uds_Socket\<close>: the private Unix socket of
    \<open>server/__main__.py\<close> and its release; \<open>Server_Main\<close>: \<open>main\<close>, and \<open>lifespan\<close> of \<open>server/app.py\<close>. \<open>Web_App\<close>: \<open>create_app\<close>,
    and a request through middleware, routing, identity and handler.
  \<^item> \<open>Form_Upload\<close>: the body stream, the form and the copy of the upload in
    \<open>server/routes/transcribe.py\<close>; \<open>Event_Stream\<close>: its event stream; \<open>Transcribe_Route\<close>: the
    handler. \<open>Job_Slots\<close>: the locale \<open>upload_slots\<close> between the routes and the queue.
  \<^item> \<open>Vllm_Client\<close>: \<open>server/vllm_client.py\<close>; \<open>Process_Job\<close>: \<open>server/transcribe.py\<close> and
    \<open>server/groq_client.py\<close>.
  \<^item> \<open>Client_Setup\<close>, \<open>Client_Stream\<close>: \<open>client/client.py\<close> and \<open>client/models.py\<close>: the server URL and
    pin in normal form, the pinned connection; the requests and the events read from the
    response, proved against the texts the server's event stream yields. \<open>Client_Upload\<close>: the
    multipart body, read back by a reader after RFC 2046. \<open>Client_Cli\<close>: \<open>client/cli.py\<close>.
    \<open>Upload_Path\<close>: the client's body received by the server's handler, up to the queued job;
    \<open>Upload_Journey\<close>: on to the request that the model server gets, through every run of the
    queue in between; \<open>Transcript_Journey\<close>: the model's texts through processing, worker and event
    stream, which take turns; \<open>End_To_End\<close>: server stream, client and terminal together.
  \<^item> \<open>Client_Auth\<close>: \<open>scripts/generate_client_cert.py\<close> and \<open>scripts/validate_client_cert.py\<close>;
    \<open>Client_Bundle\<close>: \<open>scripts/generate_client_bundle.py\<close>; \<open>Server_Cert\<close>: \<open>scripts/generate_cert.py\<close>.
    \<open>Command_Line\<close>: what the programs use of \<open>argparse\<close>; \<open>Program_Lines\<close>: their options, and each
    program from its command line on.
    \<open>Provisioning\<close>: any sequence of runs of the scripts on one file system, through the locale
    \<open>exclusive_writer\<close> of \<open>File_Ops\<close>, and the bundle made of what the generators left.

  \<^bold>\<open>Modelling choices\<close>. Job objects live in a store keyed by job id, since the worker, the
  stream and the dictionary share them. asyncio runs one callback at a time, so a definition
  is the code between two suspension points; which segment runs next is open in \<open>qstep\<close>, and
  what other tasks do during a suspension is an argument of the handlers, over which the
  properties quantify. Durations are rationals; where digits matter, they are rounded to
  binary64 first. The disk can refuse an operation (\<open>locked\<close>) and can be full (\<open>space\<close>); a
  buffered write that fails does so when it is made. The steps \<open>qstep\<close> run on any disk, and
  \<open>queue_cancel\<close> and \<open>queue_terminal_clean\<close> say what a refused removal does; \<open>usual_step\<close>
  is a step after which nothing is locked, and the properties over its runs say so. \<open>str.lower\<close> is exact for Latin-1, the
  range of header values. The \<open>RecursionError\<close> of \<open>json.loads\<close> is modelled for the requests of the
  certificate generator; elsewhere its texts are taken to nest less deeply. Command lines are read as by \<open>argparse\<close> of Python 3.11. \<open>PurePath.suffix\<close> is that of Python 3.11 to 3.13. Parameters stand
  for code that is not in the repository: Starlette's form parser and header lookup, FastAPI's routing, the HTTP clients and TLS, the
  model servers, \<open>ffmpeg\<close>, the \<open>cryptography\<close> package and SHA-256, pydantic's JSON encoder; what a
  theorem uses of them is a hypothesis of it (\<open>crypto_ok\<close>, \<open>pem_ok\<close>, \<open>encodes_lines\<close>,
  \<open>form_parser\<close>, \<open>routes_requests\<close>, \<open>header_lists\<close>), and each has a concrete instance in a witness.

  \<^bold>\<open>Fuel and loops\<close>. The JSON parser counts down from twice the length of its text and two;
  \<open>Json_Text.pvalue_fuel\<close> shows that more changes nothing, because every call but the first of
  a kind consumes a character. Symbolic links are followed 40 times, the limit of Linux, and then
  fail, as the system does. The loop that reads the recording is a partial function
  (\<open>Client_Upload.audio_loop\<close>), which is shown to return for every file.

  \<^bold>\<open>Not modelled\<close>. The Rust proxy, the shell and Docker files and the tests (other languages or
  deployment); the HTML page of the certificate generator and the \<open>main\<close> that serves it; the usage, help
  and error texts of \<open>argparse\<close>; logging.
\<close>

end
